(* ===== verification/Prelude.thy ===== *)
theory Prelude
  imports Main "HOL-Library.Word"
begin

text \<open>
  Shared vocabulary of the development: the machine integers of the Amiga C compiler
  (UBYTE, UWORD and ULONG are 8, 16 and 32 bits wide, \<open>int\<close> is 32 bits wide), memory
  addresses, the big-endian layout of the 68000, raw memory as a function from an index
  to a byte, the C library's \<open>CopyMem\<close>, and the log of memory errors that the models
  keep. Every later theory imports this one.
\<close>

unbundle bit_operations_syntax

type_synonym u8 = "8 word"
type_synonym u16 = "16 word"
type_synonym u32 = "32 word"
type_synonym addr = nat

text \<open>Memory behind a pointer: index 0 is the byte the pointer points at.\<close>

type_synonym bytes = "nat \<Rightarrow> u8"

text \<open>
  What C leaves undefined. The Amiga has no memory protection, so the program goes on
  after such an access; a model records the access in a list of faults and goes on too,
  and "no fault is added" is a property to prove.
\<close>

datatype fault =
    NullDeref       \<comment> \<open>a read or write through NULL\<close>
  | OutOfBounds     \<comment> \<open>a write outside the array it is meant for\<close>
  | UseAfterFree    \<comment> \<open>an access to an object that went back to its pool\<close>
  | BadFree         \<comment> \<open>a block given back that was not allocated\<close>

named_theorems layout_simps \<open>reading back what was stored in memory\<close>
named_theorems frame_simps \<open>what an operation leaves alone\<close>

section \<open>Lists used as Exec lists\<close>

text \<open>\<open>Remove\<close> unlinks one node; a node is in at most one place of one list.\<close>

lemma remove1_distinct_set [simp]:
  "distinct xs \<Longrightarrow> set (remove1 x xs) = set xs - {x}"
  by (rule set_remove1_eq)

lemma map_upto_cong:
  "(\<And>i. a \<le> i \<Longrightarrow> i < b \<Longrightarrow> f i = g i) \<Longrightarrow> map f [a..<b] = map g [a..<b]"
  by simp

section \<open>Words\<close>

lemma unat_u16_less [simp]: "unat (w :: u16) < 65536"
proof -
  have "unat w < 2 ^ LENGTH(16)" by (rule unsigned_less)
  then show ?thesis by simp
qed

lemma unat_u8_less [simp]: "unat (w :: u8) < 256"
proof -
  have "unat w < 2 ^ LENGTH(8)" by (rule unsigned_less)
  then show ?thesis by simp
qed

lemma unat_u32_less [simp]: "unat (w :: u32) < 4294967296"
proof -
  have "unat w < 2 ^ LENGTH(32)" by (rule unsigned_less)
  then show ?thesis by simp
qed

lemma unat_add_u16: "unat (a + b :: u16) = (unat a + unat b) mod 65536"
  by (simp add: unat_word_ariths)

lemma unat_add_u16_small: "unat a + unat b < 65536 \<Longrightarrow> unat (a + b :: u16) = unat a + unat b"
  by (simp add: unat_add_u16)

lemma unat_sub_u16: "unat b \<le> unat a \<Longrightarrow> unat (a - b :: u16) = unat a - unat b"
  by (simp add: unat_sub word_le_nat_alt)

lemma unat_add_u32: "unat (a + b :: u32) = (unat a + unat b) mod 4294967296"
  by (simp add: unat_word_ariths)

lemma unat_Suc_u16: "unat w < 65535 \<Longrightarrow> unat (w + 1 :: u16) = Suc (unat w)"
  using unat_add_u16_small [of w 1] by simp

lemma unat_pred_u16: "0 < unat w \<Longrightarrow> unat (w - 1 :: u16) = unat w - 1"
  using unat_sub_u16 [of 1 w] by simp

lemma unat_of_nat_u16: "n < 65536 \<Longrightarrow> unat (of_nat n :: u16) = n"
  by (simp add: unat_of_nat)

lemma unat_ucast_u16_u32 [simp]: "unat (ucast (w :: u16) :: u32) = unat w"
  by (simp add: unsigned_ucast_eq take_bit_eq_mod order_less_trans [OF unat_u16_less])

lemma unat_ucast_u8_u16 [simp]: "unat (ucast (w :: u8) :: u16) = unat w"
  by (simp add: unsigned_ucast_eq take_bit_eq_mod order_less_trans [OF unat_u8_less])

lemma unat_ucast_u16_u8: "unat (ucast (w :: u16) :: u8) = unat w mod 256"
  by (simp add: unsigned_ucast_eq take_bit_eq_mod)

lemma unat_ucast_u32_u16: "unat (ucast (w :: u32) :: u16) = unat w mod 65536"
  by (simp add: unsigned_ucast_eq take_bit_eq_mod)

lemma u16_gt_0: "(0 < (w :: u16)) = (0 < unat w)"
  by (simp add: word_less_nat_alt)

lemma even_unat_sub2_u16: "even (unat (w - 2 :: u16)) = even (unat w)"
proof (cases "2 \<le> unat w")
  case True
  then show ?thesis by (simp add: unat_sub_u16)
next
  case False
  then have "unat w = 0 \<or> unat w = 1" by arith
  then have "w = 0 \<or> w = 1"
    by (metis unat_0 unat_1 word_unat_eq_iff)
  moreover have "unat (1 - 2 :: u16) = 65535" and "unat (0 - 2 :: u16) = 65534"
    using unat_sub_if_size [of "1 :: u16" 2] unat_sub_if_size [of "0 :: u16" 2]
    by (simp_all add: word_size)
  ultimately show ?thesis by auto
qed

section \<open>Big-endian layout\<close>

definition hi8 :: "u16 \<Rightarrow> u8" where
  "hi8 w = ucast (drop_bit 8 w)"

definition lo8 :: "u16 \<Rightarrow> u8" where
  "lo8 w = ucast w"

definition be16 :: "u8 \<Rightarrow> u8 \<Rightarrow> u16" where
  "be16 h l = ucast h * 256 + ucast l"

lemma unat_hi8: "unat (hi8 w) = unat w div 256"
proof -
  have "unat w div 256 < 256" using unat_u16_less [of w] by arith
  then show ?thesis
    by (simp add: hi8_def unat_ucast_u16_u8 drop_bit_eq_div unat_div_distrib)
qed

lemma unat_lo8: "unat (lo8 w) = unat w mod 256"
  by (simp add: lo8_def unat_ucast_u16_u8)

lemma unat_be16: "unat (be16 h l) = unat h * 256 + unat l"
proof -
  have h: "unat h \<le> 255" and l: "unat l \<le> 255"
    using unat_u8_less [of h] unat_u8_less [of l] by arith+
  have "unat (ucast h * 256 :: u16) = unat h * 256"
    using h by (simp add: unat_word_ariths)
  with h l show ?thesis
    by (simp add: be16_def unat_add_u16)
qed

lemma be16_hi_lo [layout_simps, simp]: "be16 (hi8 w) (lo8 w) = w"
  by (rule word_unat_eq_iff [THEN iffD2]) (simp add: unat_be16 unat_hi8 unat_lo8)

lemma hi8_be16 [layout_simps, simp]: "hi8 (be16 h l) = h"
  by (rule word_unat_eq_iff [THEN iffD2])
    (simp add: unat_be16 unat_hi8 div_mult_self3 add.commute)

lemma lo8_be16 [layout_simps, simp]: "lo8 (be16 h l) = l"
  by (rule word_unat_eq_iff [THEN iffD2]) (simp add: unat_be16 unat_lo8)

definition be32 :: "u16 \<Rightarrow> u16 \<Rightarrow> u32" where
  "be32 h l = ucast h * 65536 + ucast l"

definition hi16 :: "u32 \<Rightarrow> u16" where
  "hi16 w = ucast (drop_bit 16 w)"

definition lo16 :: "u32 \<Rightarrow> u16" where
  "lo16 w = ucast w"

lemma unat_hi16: "unat (hi16 w) = unat w div 65536"
proof -
  have "unat w div 65536 < 65536" using unat_u32_less [of w] by arith
  then show ?thesis
    by (simp add: hi16_def unat_ucast_u32_u16 drop_bit_eq_div unat_div_distrib)
qed

lemma unat_lo16: "unat (lo16 w) = unat w mod 65536"
  by (simp add: lo16_def unat_ucast_u32_u16)

lemma unat_be32: "unat (be32 h l) = unat h * 65536 + unat l"
proof -
  have h: "unat h \<le> 65535" and l: "unat l \<le> 65535"
    using unat_u16_less [of h] unat_u16_less [of l] by arith+
  have "unat (ucast h * 65536 :: u32) = unat h * 65536"
    using h by (simp add: unat_word_ariths)
  with h l show ?thesis
    by (simp add: be32_def unat_add_u32)
qed

lemma be32_hi_lo [layout_simps, simp]: "be32 (hi16 w) (lo16 w) = w"
  by (rule word_unat_eq_iff [THEN iffD2]) (simp add: unat_be32 unat_hi16 unat_lo16)

lemma be32_inject [simp]: "be32 a b = be32 c d \<longleftrightarrow> a = c \<and> b = d"
proof
  assume "be32 a b = be32 c d"
  then have "unat a * 65536 + unat b = unat c * 65536 + unat d"
    by (metis unat_be32)
  then have "(unat a * 65536 + unat b) div 65536 = (unat c * 65536 + unat d) div 65536"
    and "(unat a * 65536 + unat b) mod 65536 = (unat c * 65536 + unat d) mod 65536"
    by simp_all
  then show "a = c \<and> b = d" by (simp add: word_unat_eq_iff)
qed simp

section \<open>Raw memory\<close>

definition get16 :: "bytes \<Rightarrow> nat \<Rightarrow> u16" where
  "get16 m i = be16 (m i) (m (i + 1))"

definition put16 :: "nat \<Rightarrow> u16 \<Rightarrow> bytes \<Rightarrow> bytes" where
  "put16 i w m = m(i := hi8 w, i + 1 := lo8 w)"

definition get32 :: "bytes \<Rightarrow> nat \<Rightarrow> u32" where
  "get32 m i = be32 (get16 m i) (get16 m (i + 2))"

definition put32 :: "nat \<Rightarrow> u32 \<Rightarrow> bytes \<Rightarrow> bytes" where
  "put32 i w m = put16 (i + 2) (lo16 w) (put16 i (hi16 w) m)"

definition put8 :: "nat \<Rightarrow> u8 \<Rightarrow> bytes \<Rightarrow> bytes" where
  "put8 i b m = m(i := b)"

text \<open>\<open>CopyMem (src, dst, n)\<close>: \<open>n\<close> bytes from index \<open>s\<close> of \<open>src\<close> to index \<open>d\<close> of \<open>dst\<close>.\<close>

definition copy_mem :: "bytes \<Rightarrow> nat \<Rightarrow> bytes \<Rightarrow> nat \<Rightarrow> nat \<Rightarrow> bytes" where
  "copy_mem src s dst d n = (\<lambda>i. if d \<le> i \<and> i < d + n then src (s + (i - d)) else dst i)"

definition bytes_of :: "bytes \<Rightarrow> nat \<Rightarrow> nat \<Rightarrow> u8 list" where
  "bytes_of m i n = map m [i..<i + n]"

lemma length_bytes_of [simp]: "length (bytes_of m i n) = n"
  by (simp add: bytes_of_def)

lemma nth_bytes_of [simp]: "k < n \<Longrightarrow> bytes_of m i n ! k = m (i + k)"
  by (simp add: bytes_of_def)

lemma bytes_of_cong:
  "(\<And>k. i \<le> k \<Longrightarrow> k < i + n \<Longrightarrow> m k = m' k) \<Longrightarrow> bytes_of m i n = bytes_of m' i n"
  unfolding bytes_of_def by (rule map_upto_cong)

lemma bytes_of_append: "bytes_of m i (a + b) = bytes_of m i a @ bytes_of m (i + a) b"
  using upt_add_eq_append [of i "i + a" b] by (simp add: bytes_of_def add.assoc)

lemma copy_mem_inside [layout_simps, simp]:
  "d \<le> i \<Longrightarrow> i < d + n \<Longrightarrow> copy_mem src s dst d n i = src (s + (i - d))"
  by (simp add: copy_mem_def)

lemma copy_mem_outside [layout_simps, simp]:
  "i < d \<or> d + n \<le> i \<Longrightarrow> copy_mem src s dst d n i = dst i"
  by (auto simp: copy_mem_def)

lemma bytes_of_copy_mem [layout_simps, simp]:
  "bytes_of (copy_mem src s dst d n) d n = bytes_of src s n"
  by (rule nth_equalityI) simp_all

lemma put16_apply [layout_simps]:
  "put16 i w m k = (if k = i + 1 then lo8 w else if k = i then hi8 w else m k)"
  by (simp add: put16_def)

lemma put32_apply [layout_simps]:
  "put32 i w m k = (if k = i + 3 then lo8 (lo16 w) else if k = i + 2 then hi8 (lo16 w)
     else if k = i + 1 then lo8 (hi16 w) else if k = i then hi8 (hi16 w) else m k)"
  by (simp add: put32_def put16_def)

lemma put8_apply [layout_simps]: "put8 i b m k = (if k = i then b else m k)"
  by (simp add: put8_def)

lemma get16_put16 [layout_simps, simp]: "get16 (put16 i w m) i = w"
  by (simp add: get16_def put16_def)

lemma get16_put16_other [layout_simps]:
  "i + 1 < j \<or> j + 1 < i \<Longrightarrow> get16 (put16 i w m) j = get16 m j"
  by (auto simp: get16_def put16_def)

lemma get32_put32 [layout_simps, simp]: "get32 (put32 i w m) i = w"
  by (simp add: get32_def put32_def get16_put16_other)

lemma get16_cong: "m i = m' i \<Longrightarrow> m (i + 1) = m' (i + 1) \<Longrightarrow> get16 m i = get16 m' i"
  by (simp add: get16_def)

end
