(* ===== verification/AmiPiBorg.thy ===== *)
theory AmiPiBorg
  imports Prelude
begin

text \<open>
  The values of include/amipiborg.h that the library, the server and the clients share: the states
  a request comes back with and the kinds of request.
\<close>

definition APB_RS_OK :: u16 where "APB_RS_OK = 1"
definition APB_RS_FAILED :: u16 where "APB_RS_FAILED = 2"
definition APB_RS_NOT_CONNECTED :: u16 where "APB_RS_NOT_CONNECTED = 3"
definition APB_RS_NO_HANDLER :: u16 where "APB_RS_NO_HANDLER = 4"
definition APB_RS_NO_CONNECTION :: u16 where "APB_RS_NO_CONNECTION = 5"
definition APB_RS_NO_SERVER :: u16 where "APB_RS_NO_SERVER = 6"
definition APB_RS_ABORTED :: u16 where "APB_RS_ABORTED = 7"
definition APB_RS_BUFFER_TOO_SMALL :: u16 where "APB_RS_BUFFER_TOO_SMALL = 8"
definition APB_RS_TIMEOUT :: u16 where "APB_RS_TIMEOUT = 9"

lemmas RS_defs = APB_RS_OK_def APB_RS_FAILED_def APB_RS_NOT_CONNECTED_def APB_RS_NO_HANDLER_def
  APB_RS_NO_CONNECTION_def APB_RS_NO_SERVER_def APB_RS_ABORTED_def APB_RS_BUFFER_TOO_SMALL_def
  APB_RS_TIMEOUT_def

definition APB_RT_OPEN :: u16 where "APB_RT_OPEN = 1"
definition APB_RT_CLOSE :: u16 where "APB_RT_CLOSE = 2"
definition APB_RT_READ :: u16 where "APB_RT_READ = 3"
definition APB_RT_WRITE :: u16 where "APB_RT_WRITE = 4"
definition APB_RT_LOG :: u16 where "APB_RT_LOG = 50"
definition APB_RT_SRV_QUIT :: u16 where "APB_RT_SRV_QUIT = 100"
definition APB_RT_SRV_STATS :: u16 where "APB_RT_SRV_STATS = 101"
definition APB_RT_SRV_LOG_LEVEL :: u16 where "APB_RT_SRV_LOG_LEVEL = 102"
definition APB_RT_SRV_LOG :: u16 where "APB_RT_SRV_LOG = 103"
definition APB_RT_SRV_CONNS :: u16 where "APB_RT_SRV_CONNS = 104"

lemmas RT_defs = APB_RT_OPEN_def APB_RT_CLOSE_def APB_RT_READ_def APB_RT_WRITE_def APB_RT_LOG_def
  APB_RT_SRV_QUIT_def APB_RT_SRV_STATS_def APB_RT_SRV_LOG_LEVEL_def APB_RT_SRV_LOG_def
  APB_RT_SRV_CONNS_def

end
