(* ===== verification/Protocol.thy ===== *)
theory Protocol
  imports Prelude
begin

text \<open>
  The wire protocol (server/protocol.h, server/protocol.c): packet types and flags, the
  14 byte packet header in memory, and the 16 bit checksum. The checksum loop counts its
  UWORD length down by two, so it ends for an even length only; it is a
  \<^theory_text>\<open>partial_function (option)\<close> whose value None is "does not return".
\<close>

section \<open>Packet types, flags and the header\<close>

datatype packet_type =
    PT_INIT | PT_HELLO | PT_SHUTDOWN | PT_GOODBYE
  | PT_CONNECT | PT_CONNECTED | PT_DISCONNECT | PT_DISCONNECTED
  | PT_DATA | PT_RESEND | PT_PING | PT_PONG
  | PT_ERROR | PT_NO_HANDLER | PT_NO_CONNECTION

text \<open>The value of each enumerator, as it is stored in the byte \<open>pac_Type\<close>.\<close>

fun pt_code :: "packet_type \<Rightarrow> u8" where
  "pt_code PT_INIT = 0x00"
| "pt_code PT_HELLO = 0x01"
| "pt_code PT_SHUTDOWN = 0x02"
| "pt_code PT_GOODBYE = 0x03"
| "pt_code PT_CONNECT = 0x10"
| "pt_code PT_CONNECTED = 0x11"
| "pt_code PT_DISCONNECT = 0x12"
| "pt_code PT_DISCONNECTED = 0x13"
| "pt_code PT_DATA = 0x20"
| "pt_code PT_RESEND = 0x22"
| "pt_code PT_PING = 0x23"
| "pt_code PT_PONG = 0x24"
| "pt_code PT_ERROR = 0x30"
| "pt_code PT_NO_HANDLER = 0x31"
| "pt_code PT_NO_CONNECTION = 0x32"

definition PF_PAD_BYTE :: u8 where
  "PF_PAD_BYTE = 0x01"

definition PF_RESEND :: u8 where
  "PF_RESEND = 0x02"

definition AMIPIBORG_VERSION :: u16 where
  "AMIPIBORG_VERSION = 1"

definition PACKET_ID :: u32 where
  "PACKET_ID = 0x416d5069"

definition DEFAULT_CONNECTION :: u16 where
  "DEFAULT_CONNECTION = 0"

text \<open>\<open>sizeof (struct Packet)\<close>, with the 68000's two byte alignment.\<close>

abbreviation sizeof_Packet :: nat where
  "sizeof_Packet \<equiv> 14"

record packet =
  pac_Id :: u32
  pac_Type :: u8
  pac_Flags :: u8
  pac_ConnId :: u16
  pac_PackId :: u16
  pac_Checksum :: u16
  pac_Length :: u16

text \<open>The struct at index \<open>i\<close> of a memory: the offsets of its fields.\<close>

definition packet_at :: "bytes \<Rightarrow> nat \<Rightarrow> packet" where
  "packet_at m i =
     \<lparr>pac_Id = get32 m i, pac_Type = m (i + 4), pac_Flags = m (i + 5),
      pac_ConnId = get16 m (i + 6), pac_PackId = get16 m (i + 8),
      pac_Checksum = get16 m (i + 10), pac_Length = get16 m (i + 12)\<rparr>"

definition put_packet :: "nat \<Rightarrow> packet \<Rightarrow> bytes \<Rightarrow> bytes" where
  "put_packet i p m =
     put16 (i + 12) (pac_Length p) (put16 (i + 10) (pac_Checksum p)
       (put16 (i + 8) (pac_PackId p) (put16 (i + 6) (pac_ConnId p)
         (put8 (i + 5) (pac_Flags p) (put8 (i + 4) (pac_Type p) (put32 i (pac_Id p) m))))))"

lemma packet_at_put_packet [layout_simps, simp]: "packet_at (put_packet i p m) i = p"
  by (cases p) (simp add: packet_at_def put_packet_def get32_def get16_def layout_simps)

lemma put_packet_other [layout_simps]: "k < i \<or> i + 14 \<le> k \<Longrightarrow> put_packet i p m k = m k"
  by (auto simp: put_packet_def layout_simps)

lemma packet_at_cong:
  assumes "\<And>k. i \<le> k \<Longrightarrow> k < i + 14 \<Longrightarrow> m k = m' k"
  shows "packet_at m i = packet_at m' i"
  by (simp add: packet_at_def get32_def get16_def assms)

section \<open>The checksum\<close>

text \<open>
  \<open>APB_AddToChecksum\<close>: \<open>data\<close> is the memory and \<open>i\<close> the index the pointer
  stands at. \<open>length -= 2\<close> wraps on a UWORD.
\<close>

partial_function (option) APB_AddToChecksum ::
    "u32 \<Rightarrow> bytes \<Rightarrow> nat \<Rightarrow> u16 \<Rightarrow> u32 option" where
  "APB_AddToChecksum acc data i len =
     (if len > 0
      then APB_AddToChecksum (acc + ucast (get16 data i)) data (i + 2) (len - 2)
      else Some acc)"

text \<open>The loop of \<open>APB_CompleteChecksum\<close> folds the carries back into 16 bits.\<close>

lemma unat_fold_step: "unat ((acc AND 0xffff) + drop_bit 16 acc :: u32) =
    unat acc mod 65536 + unat acc div 65536"
proof -
  have a: "unat (acc AND 0xffff) = unat acc mod 65536"
  proof -
    have "acc AND 0xffff = take_bit 16 acc"
      by (simp add: take_bit_eq_mask mask_numeral)
    then show ?thesis by (simp add: unsigned_take_bit_eq take_bit_eq_mod unat_mod_distrib)
  qed
  have b: "unat (drop_bit 16 acc) = unat acc div 65536"
    by (simp add: drop_bit_eq_div unat_div_distrib)
  have "unat acc mod 65536 < 65536" and "unat acc div 65536 < 65536"
    using unat_u32_less [of acc] by (simp, arith)
  then show ?thesis
    by (simp add: unat_add_u32 a b)
qed

lemma drop_bit_16_nonzero: "drop_bit 16 (acc :: u32) \<noteq> 0 \<longleftrightarrow> 65536 \<le> unat acc"
proof -
  have "unat (drop_bit 16 acc) = unat acc div 65536"
    by (simp add: drop_bit_eq_div unat_div_distrib)
  moreover have "drop_bit 16 acc = 0 \<longleftrightarrow> unat (drop_bit 16 acc) = 0"
    by (simp only: unat_0_iff)
  ultimately show ?thesis by auto
qed

function fold_carries :: "u32 \<Rightarrow> u32" where
  "fold_carries acc =
     (if drop_bit 16 acc \<noteq> 0 then fold_carries ((acc AND 0xffff) + drop_bit 16 acc) else acc)"
  by pat_completeness auto
termination
proof (relation "measure unat", simp)
  fix acc :: u32
  assume "drop_bit 16 acc \<noteq> 0"
  then have "65536 \<le> unat acc" by (simp only: drop_bit_16_nonzero)
  then have "unat acc mod 65536 + unat acc div 65536 < unat acc"
    using div_mult_mod_eq [of "unat acc" 65536] by arith
  then show "((acc AND 0xffff) + drop_bit 16 acc, acc) \<in> measure unat"
    by (simp add: unat_fold_step)
qed

declare fold_carries.simps [simp del]

definition APB_CompleteChecksum :: "u32 \<Rightarrow> u16" where
  "APB_CompleteChecksum acc = ucast (NOT (fold_carries acc) + 1)"

definition APB_CalculateChecksum :: "bytes \<Rightarrow> nat \<Rightarrow> u16 \<Rightarrow> u16 option" where
  "APB_CalculateChecksum data i len =
     (case APB_AddToChecksum 0 data i len of
        None \<Rightarrow> None
      | Some acc \<Rightarrow> Some (APB_CompleteChecksum acc))"

subsection \<open>What the loop computes\<close>

text \<open>The words of \<open>n\<close> bytes from index \<open>i\<close> on, added up as natural numbers.\<close>

fun word_sum :: "bytes \<Rightarrow> nat \<Rightarrow> nat \<Rightarrow> nat" where
  "word_sum m i 0 = 0"
| "word_sum m i (Suc n) = unat (get16 m i) + word_sum m (i + 2) n"

lemma word_sum_bound: "word_sum m i n \<le> n * 65535"
proof (induction n arbitrary: i)
  case (Suc n)
  have "unat (get16 m i) \<le> 65535" using unat_u16_less [of "get16 m i"] by arith
  with Suc [of "i + 2"] show ?case by simp
qed simp

lemma word_sum_cong:
  "(\<And>k. i \<le> k \<Longrightarrow> k < i + 2 * n \<Longrightarrow> m k = m' k) \<Longrightarrow> word_sum m i n = word_sum m' i n"
proof (induction n arbitrary: i)
  case (Suc n)
  then have "get16 m i = get16 m' i" by (simp add: get16_def)
  moreover have "word_sum m (i + 2) n = word_sum m' (i + 2) n"
    by (rule Suc.IH) (simp add: Suc.prems)
  ultimately show ?case by simp
qed simp

lemma word_sum_add: "word_sum m i (a + b) = word_sum m i a + word_sum m (i + 2 * a) b"
  by (induction a arbitrary: i) (simp_all add: algebra_simps)

lemma APB_AddToChecksum_even:
  "unat len = 2 * n \<Longrightarrow>
     APB_AddToChecksum acc m i len = Some (acc + of_nat (word_sum m i n))"
proof (induction n arbitrary: acc i len)
  case 0
  then have "len = 0" by (simp add: unat_0_iff)
  then show ?case by (subst APB_AddToChecksum.simps) simp
next
  case (Suc n)
  then have pos: "len > 0" and le: "2 \<le> unat len" by (simp_all add: u16_gt_0)
  have "unat (len - 2) = 2 * n" using Suc.prems le by (simp add: unat_sub_u16)
  then have "APB_AddToChecksum (acc + ucast (get16 m i)) m (i + 2) (len - 2) =
      Some (acc + ucast (get16 m i) + of_nat (word_sum m (i + 2) n))"
    by (rule Suc.IH)
  then have "APB_AddToChecksum (acc + ucast (get16 m i)) m (i + 2) (len - 2) =
      Some (acc + of_nat (word_sum m i (Suc n)))"
    by (simp add: add.assoc)
  with pos show ?case by (subst APB_AddToChecksum.simps) simp
qed

lemma APB_AddToChecksum_returns_even:
  assumes ret: "APB_AddToChecksum acc m i len = Some r"
  shows "even (unat len)"
proof (rule APB_AddToChecksum.raw_induct [where P = "\<lambda>acc m i len r. even (unat len)", OF _ ret])
  fix f acc m i len r
  assume IH: "\<And>acc m i len r. f acc m i len = Some r \<Longrightarrow> even (unat (len :: u16))"
    and eq: "(if len > 0 then f (acc + ucast (get16 m i)) m (i + 2) (len - 2) else Some acc)
      = Some r"
  show "even (unat len)"
  proof (cases "len > 0")
    case True
    with eq have "even (unat (len - 2))" using IH by simp
    then show ?thesis by (simp only: even_unat_sub2_u16)
  next
    case False
    then show ?thesis by (simp add: u16_gt_0)
  qed
qed

lemma APB_AddToChecksum_odd: "odd (unat len) \<Longrightarrow> APB_AddToChecksum acc m i len = None"
  using APB_AddToChecksum_returns_even by (cases "APB_AddToChecksum acc m i len") auto

subsection \<open>Folding is reduction modulo 65535\<close>

lemma fold_carries_value:
  "unat (fold_carries acc) = (if unat acc = 0 then 0 else Suc ((unat acc - 1) mod 65535))"
proof (induction acc rule: fold_carries.induct)
  case (1 acc)
  show ?case
  proof (cases "65536 \<le> unat acc")
    case True
    let ?s = "(acc AND 0xffff) + drop_bit 16 acc"
    have nz: "drop_bit 16 acc \<noteq> 0" using True by (simp only: drop_bit_16_nonzero)
    have s: "unat ?s = unat acc mod 65536 + unat acc div 65536" by (rule unat_fold_step)
    have s0: "unat ?s \<noteq> 0" using True s by auto
    have "unat acc = 65535 * (unat acc div 65536) + unat ?s"
      using div_mult_mod_eq [of "unat acc" 65536] s by arith
    then have "unat acc - 1 = 65535 * (unat acc div 65536) + (unat ?s - 1)"
      using s0 by arith
    then have "(unat acc - 1) mod 65535 = (unat ?s - 1) mod 65535" by (metis mod_mult_self4)
    with nz True s0 "1.IH" show ?thesis by (subst fold_carries.simps) simp
  next
    case False
    then have "\<not> drop_bit 16 acc \<noteq> 0" by (simp only: drop_bit_16_nonzero) simp
    then show ?thesis using False by (subst fold_carries.simps) (auto simp: mod_less)
  qed
qed

lemma fold_carries_bound: "unat (fold_carries acc) < 65536"
  by (simp add: fold_carries_value)

lemma unat_APB_CompleteChecksum:
  "unat (APB_CompleteChecksum acc) = (65536 - unat (fold_carries acc)) mod 65536"
proof -
  let ?f = "fold_carries acc"
  have "NOT ?f + 1 = - ?f" by (simp add: minus_eq_not_plus_1)
  then have "APB_CompleteChecksum acc = ucast (- ?f)" by (simp add: APB_CompleteChecksum_def)
  moreover have "unat (- ?f) = (4294967296 - unat ?f) mod 4294967296"
    using unat_sub_if_size [of 0 ?f] by (auto simp: word_size)
  ultimately have "unat (APB_CompleteChecksum acc) =
      ((4294967296 - unat ?f) mod 4294967296) mod 65536"
    by (simp add: unat_ucast_u32_u16)
  also have "\<dots> = (4294967296 - unat ?f) mod 65536" by (simp add: mod_mod_cancel)
  also have "\<dots> = (65536 - unat ?f) mod 65536"
  proof -
    have "4294967296 - unat ?f = (65536 - unat ?f) + 65535 * 65536"
      using fold_carries_bound [of acc] by arith
    then show ?thesis by (metis mod_mult_self1)
  qed
  finally show ?thesis .
qed

lemma APB_CompleteChecksum_accepts:
  "APB_CompleteChecksum acc = 0xFFFF \<longleftrightarrow> unat acc mod 65535 = 1"
proof -
  have "APB_CompleteChecksum acc = 0xFFFF \<longleftrightarrow> (65536 - unat (fold_carries acc)) mod 65536 = 65535"
    by (simp add: word_unat_eq_iff unat_APB_CompleteChecksum)
  also have "\<dots> \<longleftrightarrow> unat (fold_carries acc) = 1"
    using fold_carries_bound [of acc] by (cases "unat (fold_carries acc) = 0") auto
  also have "\<dots> \<longleftrightarrow> unat acc mod 65535 = 1"
  proof (cases "unat acc = 0")
    case False
    then obtain k where k: "unat acc = Suc k" by (cases "unat acc") auto
    have "k mod 65535 = 0 \<longleftrightarrow> Suc k mod 65535 = 1"
      by (simp add: mod_Suc)
    with k show ?thesis by (simp add: fold_carries_value)
  qed (simp add: fold_carries_value)
  finally show ?thesis .
qed

subsection \<open>Sealing and verifying\<close>

lemma get16_put16_even:
  "get16 (put16 (i + 2 * j) w m) (i + 2 * k) = (if k = j then w else get16 m (i + 2 * k))"
proof -
  consider "k = j" | "k < j" | "j < k" by linarith
  then show ?thesis by cases (simp_all add: get16_put16_other)
qed

lemma word_sum_put16_before [simp]: "k + 2 \<le> i \<Longrightarrow> word_sum (put16 k w m) i n = word_sum m i n"
  by (rule word_sum_cong) (simp add: put16_apply)

lemma word_sum_put16:
  "j < n \<Longrightarrow>
     word_sum (put16 (i + 2 * j) w m) i n + unat (get16 m (i + 2 * j)) = word_sum m i n + unat w"
proof (induction n arbitrary: i j)
  case (Suc n)
  show ?case
  proof (cases j)
    case 0
    then show ?thesis by simp
  next
    case (Suc k)
    then have "word_sum (put16 (i + 2 + 2 * k) w m) (i + 2) n + unat (get16 m (i + 2 + 2 * k)) =
        word_sum m (i + 2) n + unat w"
      using Suc.prems by (intro Suc.IH) simp
    moreover have "get16 (put16 (i + 2 * j) w m) i = get16 m i"
      using get16_put16_even [of i j w m 0] Suc by simp
    ultimately show ?thesis using Suc by (simp add: algebra_simps)
  qed
qed simp

lemma checksum_sum_small:
  assumes "unat (len :: u16) = 2 * n"
  shows "unat (of_nat (word_sum m i n) :: u32) = word_sum m i n"
proof -
  have "2 * n < 65536" using assms unat_u16_less [of len] by simp
  then have "word_sum m i n < 4294967296" using word_sum_bound [of m i n] by simp
  then show ?thesis by (simp add: unat_of_nat)
qed

text \<open>A run of bytes is accepted when its words add up to 1 modulo 65535.\<close>

lemma verify_iff:
  assumes "unat len = 2 * n"
  shows "(\<exists>s. APB_AddToChecksum 0 m i len = Some s \<and> APB_CompleteChecksum s = 0xFFFF) \<longleftrightarrow>
    word_sum m i n mod 65535 = 1"
  using APB_AddToChecksum_even [OF assms, of 0 m i]
  by (simp add: APB_CompleteChecksum_accepts checksum_sum_small [OF assms])

lemma add_complement_65536:
  fixes f q :: nat
  shows "0 < f \<Longrightarrow> f \<le> 65535 \<Longrightarrow> (f + 65535 * q) + (65536 - f) = 1 + 65535 * (1 + q)"
  by simp

lemma seal_value:
  assumes len: "unat len = 2 * n" and pos: "0 < word_sum m i n"
  shows "\<exists>c. APB_CalculateChecksum m i len = Some c \<and>
    (word_sum m i n + unat c) mod 65535 = 1"
proof -
  let ?s = "of_nat (word_sum m i n) :: u32"
  let ?f = "unat (fold_carries ?s)"
  have s: "unat ?s = word_sum m i n" by (rule checksum_sum_small [OF len])
  have f: "?f = Suc ((word_sum m i n - 1) mod 65535)"
    using pos s by (simp add: fold_carries_value)
  then have fb: "0 < ?f" "?f \<le> 65535"
    using fold_carries_bound [of ?s] by simp_all
  have c: "unat (APB_CompleteChecksum ?s) = 65536 - ?f"
    using fb by (simp add: unat_APB_CompleteChecksum)
  have "word_sum m i n = ?f + 65535 * ((word_sum m i n - 1) div 65535)"
    using f pos div_mult_mod_eq [of "word_sum m i n - 1" 65535] by linarith
  then have "word_sum m i n + (65536 - ?f) = 1 + 65535 * (1 + (word_sum m i n - 1) div 65535)"
    using fb by (metis add_complement_65536)
  moreover have "(1 + 65535 * k) mod 65535 = (1 :: nat)" for k
    by (simp add: mod_mult_self2)
  ultimately have "(word_sum m i n + (65536 - ?f)) mod 65535 = 1" by metis
  then show ?thesis
    using APB_AddToChecksum_even [OF len, of 0 m i] c by (simp add: APB_CalculateChecksum_def)
qed

lemma word_sum_packet_pos:
  assumes "get32 m i = PACKET_ID" and "7 \<le> n"
  shows "0 < word_sum m i n"
proof -
  have "unat (get32 m i) = 0x416d5069" using assms(1) by (simp add: PACKET_ID_def)
  then have "unat (get16 m i) * 65536 + unat (get16 m (i + 2)) = 0x416d5069"
    by (simp only: get32_def unat_be32)
  then have "unat (get16 m i) \<noteq> 0"
    using unat_u16_less [of "get16 m (i + 2)"] by linarith
  moreover obtain k where "n = Suc k" using assms(2) by (cases n) auto
  ultimately show ?thesis by simp
qed

lemma mod_65535_clash:
  fixes v w :: nat
  assumes "v < 65536" and "w < 65536" and "(1 + v) mod 65535 = (1 + w) mod 65535" and "v \<noteq> w"
  shows "(v = 0 \<and> w = 65535) \<or> (v = 65535 \<and> w = 0)"
proof -
  have "x < 65536 \<Longrightarrow> (1 + x) mod 65535 = (if x < 65534 then 1 + x else x - 65534)" for x :: nat
    by (auto simp: mod_if)
  then show ?thesis using assms by (auto split: if_splits)
qed

section \<open>Properties\<close>

text \<open>
  C23: the checksum loop returns exactly for even lengths. For an odd UWORD length the
  counter wraps past zero and the loop never ends.
\<close>

theorem APB_AddToChecksum_terminates_iff:
  "APB_AddToChecksum acc data i len \<noteq> None \<longleftrightarrow> even (unat len)"
proof
  assume "even (unat len)"
  then obtain n where "unat len = 2 * n" by (elim evenE)
  then show "APB_AddToChecksum acc data i len \<noteq> None" by (simp add: APB_AddToChecksum_even)
next
  assume "APB_AddToChecksum acc data i len \<noteq> None"
  then show "even (unat len)" by (metis APB_AddToChecksum_odd)
qed

lemma seal_verifies:
  assumes len: "unat len = 2 * n" and n: "7 \<le> n"
    and id: "get32 m i = PACKET_ID" and zero: "get16 m (i + 10) = 0"
  shows "\<exists>c. APB_CalculateChecksum m i len = Some c \<and>
    (\<exists>s. APB_AddToChecksum 0 (put16 (i + 10) c m) i len = Some s \<and>
         APB_CompleteChecksum s = 0xFFFF)"
proof -
  have "0 < word_sum m i n" using id n by (rule word_sum_packet_pos)
  from seal_value [OF len this] obtain c where
    c: "APB_CalculateChecksum m i len = Some c" "(word_sum m i n + unat c) mod 65535 = 1"
    by blast
  have "word_sum (put16 (i + 10) c m) i n = word_sum m i n + unat c"
    using word_sum_put16 [of 5 n i c m] n zero by simp
  with c show ?thesis using verify_iff [OF len, of "put16 (i + 10) c m" i] by auto
qed

text \<open>
  C13: a packet sealed by the writer verifies at the reader. For a header in memory with
  its magic number, an even length that covers the header and a zero checksum field, the
  value \<open>APB_CalculateChecksum\<close> returns, stored in \<open>pac_Checksum\<close>, makes the reader's
  sum complete to 0xFFFF.
\<close>

theorem checksum_seal_verifies:
  assumes len: "unat len = 2 * n" and n: "7 \<le> n"
    and id: "get32 m i = PACKET_ID" and zero: "get16 m (i + 10) = 0"
  shows "\<exists>c. APB_CalculateChecksum m i len = Some c \<and>
    (\<exists>s. APB_AddToChecksum 0 (put16 (i + 10) c m) i len = Some s \<and>
         APB_CompleteChecksum s = 0xFFFF)"
  using assms by (rule seal_verifies)

text \<open>A Ping of packet number 7 with its checksum field still zero.\<close>

definition sample_ping :: bytes where
  "sample_ping = put_packet 0
     \<lparr>pac_Id = PACKET_ID, pac_Type = pt_code PT_PING, pac_Flags = 0, pac_ConnId = 0,
      pac_PackId = 7, pac_Checksum = 0, pac_Length = 0\<rparr> (\<lambda>_. 0)"

lemma sample_ping_fields: "get32 sample_ping 0 = PACKET_ID" "get16 sample_ping (0 + 10) = 0"
  by (simp_all add: sample_ping_def put_packet_def get32_def get16_def layout_simps)

theorem checksum_seal_verifies_witness:
  "\<exists>c. APB_CalculateChecksum sample_ping 0 14 = Some c \<and>
    (\<exists>s. APB_AddToChecksum 0 (put16 10 c sample_ping) 0 14 = Some s \<and>
         APB_CompleteChecksum s = 0xFFFF)"
  using checksum_seal_verifies [of 14 7 sample_ping 0, OF _ _ sample_ping_fields] by simp

text \<open>
  C22: error detection. In bytes that verify, replacing any one word by another is
  detected, unless the two words are 0 and 0xFFFF, which the sum cannot tell apart.
\<close>

theorem checksum_detects_word_change:
  assumes len: "unat len = 2 * n" and j: "j < n"
    and ok: "\<exists>s. APB_AddToChecksum 0 m i len = Some s \<and> APB_CompleteChecksum s = 0xFFFF"
    and w: "w \<noteq> get16 m (i + 2 * j)" "{w, get16 m (i + 2 * j)} \<noteq> {0, 0xFFFF}"
  shows "\<exists>s. APB_AddToChecksum 0 (put16 (i + 2 * j) w m) i len = Some s \<and>
    APB_CompleteChecksum s \<noteq> 0xFFFF"
proof -
  let ?v = "get16 m (i + 2 * j)" and ?m = "put16 (i + 2 * j) w m"
  have old: "word_sum m i n mod 65535 = 1" using ok verify_iff [OF len] by simp
  have eq: "word_sum ?m i n + unat ?v = word_sum m i n + unat w"
    using j by (rule word_sum_put16)
  have "word_sum ?m i n mod 65535 \<noteq> 1"
  proof
    assume "word_sum ?m i n mod 65535 = 1"
    then have "(1 + unat ?v) mod 65535 = (1 + unat w) mod 65535"
      using old eq by (metis mod_add_left_eq)
    moreover have "unat ?v \<noteq> unat w" using w(1) by (simp add: word_unat_eq_iff)
    ultimately have "(unat ?v = 0 \<and> unat w = 65535) \<or> (unat ?v = 65535 \<and> unat w = 0)"
      by (intro mod_65535_clash unat_u16_less)
    then have "(?v = 0 \<and> w = 0xFFFF) \<or> (?v = 0xFFFF \<and> w = 0)" by (simp add: word_unat_eq_iff)
    with w(2) show False by auto
  qed
  then have "\<not> (\<exists>s. APB_AddToChecksum 0 ?m i len = Some s \<and> APB_CompleteChecksum s = 0xFFFF)"
    using verify_iff [OF len] by simp
  then show ?thesis using APB_AddToChecksum_even [OF len, of 0 ?m i] by simp
qed

theorem checksum_detects_word_change_witness:
  "\<exists>c. (\<exists>s. APB_AddToChecksum 0 (put16 10 c sample_ping) 0 14 = Some s \<and>
         APB_CompleteChecksum s = 0xFFFF) \<and>
       (\<exists>s. APB_AddToChecksum 0 (put16 8 9 (put16 10 c sample_ping)) 0 14 = Some s \<and>
         APB_CompleteChecksum s \<noteq> 0xFFFF)"
proof -
  from seal_verifies [of 14 7 sample_ping 0, OF _ _ sample_ping_fields]
  obtain c where ok: "\<exists>s. APB_AddToChecksum 0 (put16 10 c sample_ping) 0 14 = Some s \<and>
      APB_CompleteChecksum s = 0xFFFF" by auto
  have v: "get16 (put16 10 c sample_ping) (0 + 2 * 4) = 7"
    by (simp add: sample_ping_def put_packet_def get16_def layout_simps)
  have "\<exists>s. APB_AddToChecksum 0 (put16 (0 + 2 * 4) 9 (put16 10 c sample_ping)) 0 14 = Some s \<and>
      APB_CompleteChecksum s \<noteq> 0xFFFF"
    by (rule checksum_detects_word_change [of 14 7, OF _ _ ok]) (simp_all add: v [simplified] doubleton_eq_iff)
  with ok show ?thesis by auto
qed

end
