(* ===== verification/Memory.thy ===== *)
theory Memory
  imports Prelude
begin

text \<open>
  The library's memory functions (library/memory.c) over Exec's allocator. Exec is not part
  of the repository: its answers are a function \<open>em_answer\<close> of the calls made so far, a
  parameter that every state carries and no operation changes. The calls themselves are kept
  in \<open>em_hist\<close>, newest first, so that "what is freed was allocated, by the same function and
  with the same size" can be stated and proved.
\<close>

section \<open>Exec's allocator\<close>

text \<open>\<open>AllocMem\<close>/\<open>FreeMem\<close>, or \<open>AllocPooled\<close>/\<open>FreePooled\<close> on a memory pool.\<close>

datatype mem_fn = Exec_Mem | Exec_Pool

datatype mem_event =
    MAlloc mem_fn u32 addr
  | MFail mem_fn u32
  | MFree mem_fn "addr option" u32

record exec_mem =
  em_answer :: "mem_event list \<Rightarrow> mem_fn \<Rightarrow> u32 \<Rightarrow> addr option"
  em_hist :: "mem_event list"

definition exec_alloc :: "mem_fn \<Rightarrow> u32 \<Rightarrow> exec_mem \<Rightarrow> addr option \<times> exec_mem" where
  "exec_alloc f n m =
     (case em_answer m (em_hist m) f n of
        None \<Rightarrow> (None, m\<lparr>em_hist := MFail f n # em_hist m\<rparr>)
      | Some a \<Rightarrow> (Some a, m\<lparr>em_hist := MAlloc f n a # em_hist m\<rparr>))"

definition exec_free :: "mem_fn \<Rightarrow> addr option \<Rightarrow> u32 \<Rightarrow> exec_mem \<Rightarrow> exec_mem" where
  "exec_free f p n m = m\<lparr>em_hist := MFree f p n # em_hist m\<rparr>"

text \<open>The blocks allocated and not freed, with the function and the size they came from.\<close>

fun live :: "mem_event list \<Rightarrow> addr \<Rightarrow> (mem_fn \<times> u32) option" where
  "live [] = Map.empty"
| "live (MAlloc f n a # h) = (live h)(a \<mapsto> (f, n))"
| "live (MFail f n # h) = live h"
| "live (MFree f p n # h) = (case p of None \<Rightarrow> live h | Some a \<Rightarrow> (live h)(a := None))"

text \<open>Every block freed was live and goes back the way it came.\<close>

fun frees_ok :: "mem_event list \<Rightarrow> bool" where
  "frees_ok [] = True"
| "frees_ok (MFree f p n # h) =
     ((case p of None \<Rightarrow> False | Some a \<Rightarrow> live h a = Some (f, n)) \<and> frees_ok h)"
| "frees_ok (_ # h) = frees_ok h"

text \<open>
  What is documented of Exec: an allocation does not return a block that is still allocated.
\<close>

definition exec_fresh :: "(mem_event list \<Rightarrow> mem_fn \<Rightarrow> u32 \<Rightarrow> addr option) \<Rightarrow> bool" where
  "exec_fresh ans \<longleftrightarrow> (\<forall>h f n a. ans h f n = Some a \<longrightarrow> live h a = None)"

section \<open>The library's functions\<close>

definition APB_AllocMemInternal ::
    "addr option \<Rightarrow> u32 \<Rightarrow> exec_mem \<Rightarrow> addr option \<times> exec_mem" where
  "APB_AllocMemInternal memPool n m =
     (case memPool of
        None \<Rightarrow> exec_alloc Exec_Mem n m
      | Some _ \<Rightarrow> exec_alloc Exec_Pool n m)"

definition APB_FreeMemInternal ::
    "addr option \<Rightarrow> addr option \<Rightarrow> u32 \<Rightarrow> exec_mem \<Rightarrow> exec_mem" where
  "APB_FreeMemInternal memPool memory n m =
     (case memPool of
        None \<Rightarrow> exec_free Exec_Mem memory n m
      | Some _ \<Rightarrow> exec_free Exec_Pool memory n m)"

text \<open>The function a pool pointer selects.\<close>

definition mem_fn_of :: "addr option \<Rightarrow> mem_fn" where
  "mem_fn_of memPool = (case memPool of None \<Rightarrow> Exec_Mem | Some _ \<Rightarrow> Exec_Pool)"

lemma APB_AllocMemInternal_alt: "APB_AllocMemInternal p n m = exec_alloc (mem_fn_of p) n m"
  by (simp add: APB_AllocMemInternal_def mem_fn_of_def split: option.split)

lemma APB_FreeMemInternal_alt: "APB_FreeMemInternal p a n m = exec_free (mem_fn_of p) a n m"
  by (simp add: APB_FreeMemInternal_def mem_fn_of_def split: option.split)

lemma em_answer_exec_alloc [frame_simps, simp]:
  "em_answer (snd (exec_alloc f n m)) = em_answer m"
  by (simp add: exec_alloc_def split: option.split)

lemma em_answer_exec_free [frame_simps, simp]: "em_answer (exec_free f p n m) = em_answer m"
  by (simp add: exec_free_def)

lemma exec_alloc_Some:
  assumes "exec_alloc f n m = (Some a, m')" and "exec_fresh (em_answer m)"
  shows "live (em_hist m) a = None"
    and "live (em_hist m') = (live (em_hist m))(a \<mapsto> (f, n))"
    and "em_answer m' = em_answer m"
    and "frees_ok (em_hist m') = frees_ok (em_hist m)"
  using assms by (auto simp: exec_alloc_def exec_fresh_def split: option.splits)

lemma exec_alloc_None:
  assumes "exec_alloc f n m = (None, m')"
  shows "live (em_hist m') = live (em_hist m)"
    and "em_answer m' = em_answer m"
    and "frees_ok (em_hist m') = frees_ok (em_hist m)"
  using assms by (auto simp: exec_alloc_def split: option.splits)

lemma exec_free_facts:
  "live (em_hist (exec_free f (Some a) n m)) = (live (em_hist m))(a := None)"
  "frees_ok (em_hist (exec_free f (Some a) n m)) \<longleftrightarrow>
     live (em_hist m) a = Some (f, n) \<and> frees_ok (em_hist m)"
  by (auto simp: exec_free_def)

text \<open>An allocator that meets the documented behaviour: it never gives an address twice.\<close>

fun bump_top :: "mem_event list \<Rightarrow> nat" where
  "bump_top [] = 1000"
| "bump_top (MAlloc f n a # h) = max (bump_top h) (a + unat n + 8)"
| "bump_top (_ # h) = bump_top h"

definition bump :: "mem_event list \<Rightarrow> mem_fn \<Rightarrow> u32 \<Rightarrow> addr option" where
  "bump h f n = Some (bump_top h)"

lemma live_below_bump_top: "live h a = Some x \<Longrightarrow> a < bump_top h"
  by (induction h rule: live.induct) (auto split: if_splits option.splits)

lemma exec_fresh_bump: "exec_fresh bump"
proof -
  have "live h (bump_top h) = None" for h
    using live_below_bump_top [of h "bump_top h"] by (cases "live h (bump_top h)") auto
  then show ?thesis by (simp add: exec_fresh_def bump_def)
qed

end
