(* ===== verification/ObjectPool.thy ===== *)
theory ObjectPool
  imports Memory
begin

text \<open>
  The object pool (library/objectpool.c): object types with a free list each, instances
  created on demand up to a maximum and destroyed above a minimum. A client sees the address
  behind the list node of an instance. Exec lists are lists of node addresses. The record
  \<open>pool\<close> is the pool together with the allocator below it and the log of faults; the
  states of the later components extend it. Log lines are not modelled.
\<close>

section \<open>State\<close>

record object_type =
  ot_Addr :: addr
  ot_Id :: u16
  ot_Name :: string
  ot_Size :: u16
  ot_MinInstances :: u16
  ot_MaxInstances :: u16
  ot_InstanceCount :: u16
  ot_InUseCount :: u16
  ot_Instances :: "addr list"

record pool =
  op_Types :: "object_type list"
  op_MemPool :: "addr option"
  op_Mem :: exec_mem
  faults :: "fault list"

definition add_fault :: "fault \<Rightarrow> 'a pool_scheme \<Rightarrow> 'a pool_scheme" where
  "add_fault f s = s\<lparr>faults := f # faults s\<rparr>"

text \<open>Sizes of the C structures: a MinNode is 8 bytes, an ObjectType 36.\<close>

definition sizeof_MinNode :: nat where
  "sizeof_MinNode = 8"

definition sizeof_ObjectType :: u32 where
  "sizeof_ObjectType = 36"

definition sizeof_ObjectPool :: u32 where
  "sizeof_ObjectPool = 20"

definition NODE_SIZE :: "object_type \<Rightarrow> u32" where
  "NODE_SIZE ot = ucast (ot_Size ot) + of_nat sizeof_MinNode"

definition NODE_TO_OBJ :: "addr \<Rightarrow> addr" where
  "NODE_TO_OBJ a = a + sizeof_MinNode"

definition OBJ_TO_NODE :: "addr \<Rightarrow> addr" where
  "OBJ_TO_NODE a = a - sizeof_MinNode"

definition pool_alloc :: "u32 \<Rightarrow> 'a pool_scheme \<Rightarrow> addr option \<times> 'a pool_scheme" where
  "pool_alloc n s =
     (let (p, m) = APB_AllocMemInternal (op_MemPool s) n (op_Mem s) in (p, s\<lparr>op_Mem := m\<rparr>))"

definition pool_free :: "addr option \<Rightarrow> u32 \<Rightarrow> 'a pool_scheme \<Rightarrow> 'a pool_scheme" where
  "pool_free p n s = s\<lparr>op_Mem := APB_FreeMemInternal (op_MemPool s) p n (op_Mem s)\<rparr>"

section \<open>Object types\<close>

text \<open>
  An operation takes the type it works on and returns it updated; the caller stores it back
  (\<open>put_type\<close>), as the C code updates it in place. \<open>RemHead\<close> of an empty list is NULL.
\<close>

definition APB_DestroyInstance ::
    "object_type \<Rightarrow> addr option \<Rightarrow> 'a pool_scheme \<Rightarrow> object_type \<times> 'a pool_scheme" where
  "APB_DestroyInstance ot obj s =
     (ot\<lparr>ot_InstanceCount := ot_InstanceCount ot - 1\<rparr>,
      (if obj = None then add_fault BadFree else id) (pool_free obj (NODE_SIZE ot) s))"

definition RemHead :: "addr list \<Rightarrow> addr option \<times> addr list" where
  "RemHead xs = (case xs of [] \<Rightarrow> (None, []) | x # ys \<Rightarrow> (Some x, ys))"

function destroy_instances ::
    "object_type \<Rightarrow> 'a pool_scheme \<Rightarrow> object_type \<times> 'a pool_scheme" where
  "destroy_instances ot s =
     (if ot_InstanceCount ot > 0
      then let (obj, rest) = RemHead (ot_Instances ot);
               (ot1, s1) = APB_DestroyInstance (ot\<lparr>ot_Instances := rest\<rparr>) obj s
           in destroy_instances ot1 s1
      else (ot, s))"
  by pat_completeness auto
termination
proof (relation "measure (\<lambda>(ot, s). unat (ot_InstanceCount ot))", simp)
  fix ot :: object_type and s :: "'a pool_scheme" and x obj rest y ot1 s1
  assume "ot_InstanceCount ot > 0" and "x = RemHead (ot_Instances ot)" and "(obj, rest) = x"
    and y: "y = APB_DestroyInstance (ot\<lparr>ot_Instances := rest\<rparr>) obj s" and "(ot1, s1) = y"
  then have "ot_InstanceCount ot1 = ot_InstanceCount ot - 1" and "ot_InstanceCount ot \<noteq> 0"
    by (auto simp: APB_DestroyInstance_def)
  then show "((ot1, s1), (ot, s)) \<in> measure (\<lambda>(ot, s). unat (ot_InstanceCount ot))"
    by (simp add: measure_unat)
qed

declare destroy_instances.simps [simp del]

definition APB_DestroyObjectType :: "object_type \<Rightarrow> 'a pool_scheme \<Rightarrow> 'a pool_scheme" where
  "APB_DestroyObjectType ot s =
     (let (ot1, s1) = destroy_instances ot s
      in pool_free (Some (ot_Addr ot1)) sizeof_ObjectType s1)"

definition APB_CreateInstance ::
    "object_type \<Rightarrow> 'a pool_scheme \<Rightarrow> addr option \<times> object_type \<times> 'a pool_scheme" where
  "APB_CreateInstance ot s =
     (if ot_InstanceCount ot \<ge> ot_MaxInstances ot then (None, ot, s)
      else case pool_alloc (NODE_SIZE ot) s of
             (None, s1) \<Rightarrow> (None, ot, s1)
           | (Some obj, s1) \<Rightarrow>
               (Some obj, ot\<lparr>ot_InstanceCount := ot_InstanceCount ot + 1\<rparr>, s1))"

definition APB_AllocInstance ::
    "object_type \<Rightarrow> 'a pool_scheme \<Rightarrow> addr option \<times> object_type \<times> 'a pool_scheme" where
  "APB_AllocInstance ot s =
     (if ot_InUseCount ot = ot_InstanceCount ot
      then case APB_CreateInstance ot s of
             (None, ot1, s1) \<Rightarrow> (None, ot1, s1)
           | (Some obj, ot1, s1) \<Rightarrow>
               (Some obj, ot1\<lparr>ot_InUseCount := ot_InUseCount ot1 + 1\<rparr>, s1)
      else let (obj, rest) = RemHead (ot_Instances ot)
           in (obj, ot\<lparr>ot_Instances := rest, ot_InUseCount := ot_InUseCount ot + 1\<rparr>, s))"

definition APB_ReleaseInstance ::
    "object_type \<Rightarrow> addr \<Rightarrow> 'a pool_scheme \<Rightarrow> object_type \<times> 'a pool_scheme" where
  "APB_ReleaseInstance ot obj s =
     (let (ot1, s1) =
        (if ot_InstanceCount ot > ot_MinInstances ot
         then APB_DestroyInstance ot (Some obj) s
         else (ot\<lparr>ot_Instances := ot_Instances ot @ [obj]\<rparr>, s))
      in (ot1\<lparr>ot_InUseCount := ot_InUseCount ot1 - 1\<rparr>, s1))"

section \<open>The pool\<close>

definition APB_CreateObjectPool ::
    "addr option \<Rightarrow> exec_mem \<Rightarrow> (addr \<times> pool) option \<times> exec_mem" where
  "APB_CreateObjectPool memPool m =
     (case APB_AllocMemInternal memPool sizeof_ObjectPool m of
        (None, m1) \<Rightarrow> (None, m1)
      | (Some a, m1) \<Rightarrow>
          (Some (a, \<lparr>op_Types = [], op_MemPool = memPool, op_Mem = m1, faults = []\<rparr>), m1))"

text \<open>\<open>APB_FreeObjectPool\<close> takes the types from the tail of the list.\<close>

fun destroy_types :: "object_type list \<Rightarrow> 'a pool_scheme \<Rightarrow> 'a pool_scheme" where
  "destroy_types [] s = s"
| "destroy_types (ot # ots) s = destroy_types ots (APB_DestroyObjectType ot s)"

definition APB_FreeObjectPool :: "addr \<Rightarrow> 'a pool_scheme \<Rightarrow> 'a pool_scheme" where
  "APB_FreeObjectPool op s =
     pool_free (Some op) sizeof_ObjectPool ((destroy_types (rev (op_Types s)) s)\<lparr>op_Types := []\<rparr>)"

fun find_type :: "object_type list \<Rightarrow> u16 \<Rightarrow> object_type option" where
  "find_type [] i = None"
| "find_type (ot # ots) i = (if ot_Id ot = i then Some ot else find_type ots i)"

definition APB_GetObjectType :: "'a pool_scheme \<Rightarrow> u16 \<Rightarrow> object_type option" where
  "APB_GetObjectType s i = find_type (op_Types s) i"

fun replace_type :: "object_type \<Rightarrow> object_type list \<Rightarrow> object_type list" where
  "replace_type t [] = []"
| "replace_type t (ot # ots) = (if ot_Id ot = ot_Id t then t # ots else ot # replace_type t ots)"

definition put_type :: "object_type \<Rightarrow> 'a pool_scheme \<Rightarrow> 'a pool_scheme" where
  "put_type t s = s\<lparr>op_Types := replace_type t (op_Types s)\<rparr>"

definition APB_TypeRegisteredInternal :: "u16 \<Rightarrow> 'a pool_scheme \<Rightarrow> bool" where
  "APB_TypeRegisteredInternal i s = (APB_GetObjectType s i \<noteq> None)"

lemma create_instance_progress:
  assumes "APB_CreateInstance ot s = (Some obj, ot1, s1)"
    and "ot_InstanceCount ot < ot_MinInstances ot"
  shows "unat (ot_MinInstances ot1) - unat (ot_InstanceCount ot1) <
    unat (ot_MinInstances ot) - unat (ot_InstanceCount ot)"
proof -
  have lt: "unat (ot_InstanceCount ot) < unat (ot_MinInstances ot)"
    using assms(2) by (simp add: word_less_nat_alt)
  then have "unat (ot_InstanceCount ot) < 65535"
    using unat_u16_less [of "ot_MinInstances ot"] by arith
  then have "unat (ot_InstanceCount ot + 1) = Suc (unat (ot_InstanceCount ot))"
    by (rule unat_Suc_u16)
  moreover have "ot_InstanceCount ot1 = ot_InstanceCount ot + 1"
    and "ot_MinInstances ot1 = ot_MinInstances ot"
    using assms(1) by (auto simp: APB_CreateInstance_def split: if_splits prod.splits option.splits)
  ultimately show ?thesis using lt by simp
qed

function fill_min :: "object_type \<Rightarrow> 'a pool_scheme \<Rightarrow> object_type \<times> 'a pool_scheme" where
  "fill_min ot s =
     (if ot_InstanceCount ot < ot_MinInstances ot
      then case APB_CreateInstance ot s of
             (None, ot1, s1) \<Rightarrow> (ot1, s1)
           | (Some obj, ot1, s1) \<Rightarrow>
               fill_min (ot1\<lparr>ot_Instances := ot_Instances ot1 @ [obj]\<rparr>) s1
      else (ot, s))"
  by pat_completeness auto
termination
  by (relation "measure (\<lambda>(ot, s). unat (ot_MinInstances ot) - unat (ot_InstanceCount ot))")
    (auto dest: create_instance_progress [OF sym])

declare fill_min.simps [simp del]

definition APB_RegisterObjectTypeInternal ::
    "u16 \<Rightarrow> string \<Rightarrow> u16 \<Rightarrow> u16 \<Rightarrow> u16 \<Rightarrow> 'a pool_scheme \<Rightarrow> 'a pool_scheme" where
  "APB_RegisterObjectTypeInternal i name n minInstances maxInstances s =
     (case APB_GetObjectType s i of
        Some ot \<Rightarrow> s
      | None \<Rightarrow>
          (case pool_alloc sizeof_ObjectType s of
             (None, s1) \<Rightarrow> s1
           | (Some a, s1) \<Rightarrow>
               let (ot, s2) = fill_min
                     \<lparr>ot_Addr = a, ot_Id = i, ot_Name = name, ot_Size = n,
                      ot_MinInstances = minInstances, ot_MaxInstances = maxInstances,
                      ot_InstanceCount = 0, ot_InUseCount = 0, ot_Instances = []\<rparr> s1
               in s2\<lparr>op_Types := op_Types s2 @ [ot]\<rparr>))"

definition APB_AllocObjectInternal ::
    "u16 \<Rightarrow> 'a pool_scheme \<Rightarrow> addr option \<times> 'a pool_scheme" where
  "APB_AllocObjectInternal i s =
     (case APB_GetObjectType s i of
        None \<Rightarrow> (None, s)
      | Some ot \<Rightarrow>
          (let (obj, ot1, s1) = APB_AllocInstance ot s
           in (map_option NODE_TO_OBJ obj, put_type ot1 s1)))"

definition APB_FreeObjectInternal :: "u16 \<Rightarrow> addr \<Rightarrow> 'a pool_scheme \<Rightarrow> 'a pool_scheme" where
  "APB_FreeObjectInternal i obj s =
     (case APB_GetObjectType s i of
        None \<Rightarrow> s
      | Some ot \<Rightarrow>
          (let (ot1, s1) = APB_ReleaseInstance ot (OBJ_TO_NODE obj) s in put_type ot1 s1))"

section \<open>Invariant\<close>

text \<open>
  The pool does not record which objects its clients hold; the invariant takes them as a
  parameter \<open>W\<close>, the nodes in use of each type id. A ghost map \<open>own\<close> gives each block its
  role, so that no block serves two types. An instance is held or free, never both, and its
  block is live with the node size of its type.
\<close>

datatype block_role = Type_Block u16 | Node_Block u16

definition type_ok :: "addr set \<Rightarrow> object_type \<Rightarrow> bool" where
  "type_ok U ot \<longleftrightarrow> finite U \<and> card U = unat (ot_InUseCount ot) \<and>
     unat (ot_InUseCount ot) + length (ot_Instances ot) = unat (ot_InstanceCount ot) \<and>
     distinct (ot_Instances ot) \<and> U \<inter> set (ot_Instances ot) = {} \<and>
     unat (ot_InstanceCount ot) \<le> unat (ot_MaxInstances ot)"

definition type_own ::
    "(addr \<Rightarrow> block_role option) \<Rightarrow> addr set \<Rightarrow> 'a pool_scheme \<Rightarrow> object_type \<Rightarrow> bool" where
  "type_own own U s ot \<longleftrightarrow> type_ok U ot \<and>
     own (ot_Addr ot) = Some (Type_Block (ot_Id ot)) \<and>
     live (em_hist (op_Mem s)) (ot_Addr ot) = Some (mem_fn_of (op_MemPool s), sizeof_ObjectType) \<and>
     (\<forall>a \<in> U \<union> set (ot_Instances ot). own a = Some (Node_Block (ot_Id ot)) \<and>
        live (em_hist (op_Mem s)) a = Some (mem_fn_of (op_MemPool s), NODE_SIZE ot))"

definition mem_own :: "(addr \<Rightarrow> block_role option) \<Rightarrow> 'a pool_scheme \<Rightarrow> bool" where
  "mem_own own s \<longleftrightarrow> exec_fresh (em_answer (op_Mem s)) \<and> frees_ok (em_hist (op_Mem s)) \<and>
     dom own \<subseteq> dom (live (em_hist (op_Mem s)))"

definition pool_own ::
    "(addr \<Rightarrow> block_role option) \<Rightarrow> (u16 \<Rightarrow> addr set) \<Rightarrow> 'a pool_scheme \<Rightarrow> bool" where
  "pool_own own W s \<longleftrightarrow> mem_own own s \<and> distinct (map ot_Id (op_Types s)) \<and>
     (\<forall>i. i \<notin> ot_Id ` set (op_Types s) \<longrightarrow> W i = {}) \<and>
     (\<forall>ot \<in> set (op_Types s). type_own own (W (ot_Id ot)) s ot)"

definition pool_inv :: "(u16 \<Rightarrow> addr set) \<Rightarrow> 'a pool_scheme \<Rightarrow> bool" where
  "pool_inv W s \<longleftrightarrow> (\<exists>own. pool_own own W s)"

subsection \<open>Looking types up\<close>

lemma find_type_Some: "find_type ots i = Some ot \<Longrightarrow> ot \<in> set ots \<and> ot_Id ot = i"
  by (induction ots) (auto split: if_splits)

lemma find_type_None: "find_type ots i = None \<longleftrightarrow> i \<notin> ot_Id ` set ots"
  by (induction ots) auto

lemma find_type_unique:
  "distinct (map ot_Id ots) \<Longrightarrow> ot \<in> set ots \<Longrightarrow> find_type ots (ot_Id ot) = Some ot"
  by (induction ots) (auto simp: rev_image_eqI)

lemma ids_replace_type [simp]: "map ot_Id (replace_type t ots) = map ot_Id ots"
  by (induction ots) auto

lemma id_set_replace_type [simp]: "ot_Id ` set (replace_type t ots) = ot_Id ` set ots"
  by (metis ids_replace_type list.set_map)

lemma set_replace_type:
  "distinct (map ot_Id ots) \<Longrightarrow> ot_Id t \<in> ot_Id ` set ots \<Longrightarrow>
     set (replace_type t ots) = insert t {ot \<in> set ots. ot_Id ot \<noteq> ot_Id t}"
proof (induction ots)
  case (Cons u ots)
  show ?case
  proof (cases "ot_Id u = ot_Id t")
    case True
    then have "\<forall>ot \<in> set ots. ot_Id ot \<noteq> ot_Id t"
      using Cons.prems(1) by (metis distinct.simps(2) image_eqI list.simps(9) list.set_map)
    with True show ?thesis by auto
  next
    case False
    with Cons show ?thesis by auto
  qed
qed simp

lemma find_replace_type:
  "find_type (replace_type t ots) i =
     (if i = ot_Id t then map_option (\<lambda>_. t) (find_type ots i) else find_type ots i)"
  by (induction ots) auto

subsection \<open>Storing a type back\<close>

text \<open>
  The one frame argument of the pool: an operation on one type touches only blocks that have
  no role yet or are nodes of that type, so every other type keeps its part of the invariant.
\<close>

lemma pool_own_put_type:
  assumes inv: "pool_own own W s" and ot: "ot \<in> set (op_Types s)"
    and id: "ot_Id ot1 = ot_Id ot"
    and s1: "op_Types s1 = op_Types s" "op_MemPool s1 = op_MemPool s"
    and mem: "mem_own own1 s1"
    and new: "type_own own1 U s1 ot1"
    and frame: "\<And>a. own a \<noteq> None \<Longrightarrow> own a \<noteq> Some (Node_Block (ot_Id ot)) \<Longrightarrow>
        own1 a = own a \<and> live (em_hist (op_Mem s1)) a = live (em_hist (op_Mem s)) a"
  shows "pool_own own1 (W(ot_Id ot := U)) (put_type ot1 s1)"
proof -
  let ?i = "ot_Id ot"
  have dist: "distinct (map ot_Id (op_Types s))" using inv by (simp add: pool_own_def)
  have iin: "ot_Id ot1 \<in> ot_Id ` set (op_Types s)" using ot id by simp
  have types: "set (op_Types (put_type ot1 s1)) = insert ot1 {t \<in> set (op_Types s). ot_Id t \<noteq> ?i}"
    using set_replace_type [OF dist iin] by (simp add: put_type_def s1 id)
  have other: "type_own own1 (W (ot_Id t)) (put_type ot1 s1) t"
    if t: "t \<in> set (op_Types s)" "ot_Id t \<noteq> ?i" for t
  proof -
    have "type_own own (W (ot_Id t)) s t" using inv t(1) by (simp add: pool_own_def)
    then show ?thesis
      using t(2) frame by (auto simp: type_own_def put_type_def s1)
  qed
  have "type_own own1 U (put_type ot1 s1) ot1"
    using new by (simp add: type_own_def put_type_def)
  moreover have "mem_own own1 (put_type ot1 s1)"
    using mem by (simp add: mem_own_def put_type_def)
  moreover have "distinct (map ot_Id (op_Types (put_type ot1 s1)))"
    using dist by (simp add: put_type_def s1)
  moreover have "(W(?i := U)) i = {}" if "i \<notin> ot_Id ` set (op_Types (put_type ot1 s1))" for i
    using that inv ot by (auto simp: pool_own_def put_type_def s1)
  moreover have "type_own own1 ((W(?i := U)) (ot_Id t)) (put_type ot1 s1) t"
    if "t \<in> set (op_Types (put_type ot1 s1))" for t
    using that other calculation(1) id by (auto simp: types)
  ultimately show ?thesis by (simp add: pool_own_def)
qed

subsection \<open>Each operation on a type\<close>

lemma pool_alloc_facts:
  assumes "pool_alloc n s = (p, s1)"
  shows "op_Types s1 = op_Types s" "op_MemPool s1 = op_MemPool s" "faults s1 = faults s"
    "more s1 = more s"
  using assms by (auto simp: pool_alloc_def split: prod.splits)

lemma pool_alloc_Some:
  assumes "pool_alloc n s = (Some a, s1)" and "mem_own own s"
  shows "own a = None"
    and "live (em_hist (op_Mem s1)) =
      (live (em_hist (op_Mem s)))(a \<mapsto> (mem_fn_of (op_MemPool s), n))"
    and "mem_own (own(a \<mapsto> r)) s1"
proof -
  from assms(1) have e: "exec_alloc (mem_fn_of (op_MemPool s)) n (op_Mem s) = (Some a, op_Mem s1)"
    by (auto simp: pool_alloc_def APB_AllocMemInternal_alt split: prod.splits)
  have f: "exec_fresh (em_answer (op_Mem s))" using assms(2) by (simp add: mem_own_def)
  note facts = exec_alloc_Some [OF e f]
  show "own a = None" using facts(1) assms(2) by (auto simp: mem_own_def domIff)
  show "live (em_hist (op_Mem s1)) =
      (live (em_hist (op_Mem s)))(a \<mapsto> (mem_fn_of (op_MemPool s), n))" by (rule facts(2))
  show "mem_own (own(a \<mapsto> r)) s1" using facts assms(2) by (auto simp: mem_own_def)
qed

lemma pool_alloc_None:
  assumes "pool_alloc n s = (None, s1)"
  shows "live (em_hist (op_Mem s1)) = live (em_hist (op_Mem s))"
    and "mem_own own s1 = mem_own own s"
proof -
  from assms have e: "exec_alloc (mem_fn_of (op_MemPool s)) n (op_Mem s) = (None, op_Mem s1)"
    by (auto simp: pool_alloc_def APB_AllocMemInternal_alt split: prod.splits)
  note facts = exec_alloc_None [OF e]
  show "live (em_hist (op_Mem s1)) = live (em_hist (op_Mem s))" by (rule facts(1))
  show "mem_own own s1 = mem_own own s" using facts by (simp add: mem_own_def)
qed

lemma pool_free_facts [frame_simps, simp]:
  "op_Types (pool_free p n s) = op_Types s" "op_MemPool (pool_free p n s) = op_MemPool s"
  "faults (pool_free p n s) = faults s"
  by (simp_all add: pool_free_def)

lemma pool_free_live:
  "live (em_hist (op_Mem (pool_free (Some a) n s))) = (live (em_hist (op_Mem s)))(a := None)"
  by (simp add: pool_free_def APB_FreeMemInternal_alt exec_free_facts)

lemma pool_free_own:
  assumes "mem_own own s"
    and "live (em_hist (op_Mem s)) a = Some (mem_fn_of (op_MemPool s), n)"
  shows "mem_own (own(a := None)) (pool_free (Some a) n s)"
  using assms by (auto simp: mem_own_def pool_free_def APB_FreeMemInternal_alt exec_free_facts)

text \<open>A new instance: not yet held, not yet on the free list.\<close>

lemma APB_CreateInstance_frame:
  assumes "APB_CreateInstance ot s = (p, ot1, s1)"
  shows "op_Types s1 = op_Types s" "op_MemPool s1 = op_MemPool s" "faults s1 = faults s"
    "ot_Id ot1 = ot_Id ot" "ot_Addr ot1 = ot_Addr ot" "ot_Size ot1 = ot_Size ot"
    "ot_Instances ot1 = ot_Instances ot" "ot_InUseCount ot1 = ot_InUseCount ot"
    "ot_MinInstances ot1 = ot_MinInstances ot" "ot_MaxInstances ot1 = ot_MaxInstances ot"
  using assms
  by (auto simp: APB_CreateInstance_def dest: pool_alloc_facts split: if_splits prod.splits option.splits)

lemma APB_CreateInstance_None:
  assumes "APB_CreateInstance ot s = (None, ot1, s1)"
  shows "ot1 = ot" and "live (em_hist (op_Mem s1)) = live (em_hist (op_Mem s))"
    and "mem_own own s1 = mem_own own s"
  using assms by (auto simp: APB_CreateInstance_def pool_alloc_None
      split: if_splits prod.splits option.splits)

lemma APB_CreateInstance_Some:
  assumes "APB_CreateInstance ot s = (Some a, ot1, s1)" and "mem_own own s"
  shows "own a = None"
    and "live (em_hist (op_Mem s1)) =
      (live (em_hist (op_Mem s)))(a \<mapsto> (mem_fn_of (op_MemPool s), NODE_SIZE ot))"
    and "mem_own (own(a \<mapsto> r)) s1"
    and "unat (ot_InstanceCount ot) < unat (ot_MaxInstances ot)"
    and "unat (ot_InstanceCount ot1) = Suc (unat (ot_InstanceCount ot))"
proof -
  from assms(1) have al: "pool_alloc (NODE_SIZE ot) s = (Some a, s1)"
    and lt: "\<not> ot_InstanceCount ot \<ge> ot_MaxInstances ot"
    and ot1: "ot1 = ot\<lparr>ot_InstanceCount := ot_InstanceCount ot + 1\<rparr>"
    by (auto simp: APB_CreateInstance_def split: if_splits prod.splits option.splits)
  show "own a = None" "mem_own (own(a \<mapsto> r)) s1"
    "live (em_hist (op_Mem s1)) =
      (live (em_hist (op_Mem s)))(a \<mapsto> (mem_fn_of (op_MemPool s), NODE_SIZE ot))"
    by (rule pool_alloc_Some [OF al assms(2)])+
  show c: "unat (ot_InstanceCount ot) < unat (ot_MaxInstances ot)"
    using lt by (simp add: word_less_nat_alt not_le)
  then have "unat (ot_InstanceCount ot) < 65535"
    using unat_u16_less [of "ot_MaxInstances ot"] by arith
  then show "unat (ot_InstanceCount ot1) = Suc (unat (ot_InstanceCount ot))"
    unfolding ot1 by (simp add: unat_Suc_u16)
qed

lemma NODE_SIZE_cong: "ot_Size a = ot_Size b \<Longrightarrow> NODE_SIZE a = NODE_SIZE b"
  by (simp add: NODE_SIZE_def)

text \<open>Handing an instance out.\<close>

lemma APB_AllocInstance_None:
  assumes "APB_AllocInstance ot s = (None, ot1, s1)" and "type_ok U ot"
  shows "ot1 = ot" and "op_Types s1 = op_Types s" and "op_MemPool s1 = op_MemPool s"
    and "faults s1 = faults s" and "live (em_hist (op_Mem s1)) = live (em_hist (op_Mem s))"
    and "mem_own own s1 = mem_own own s"
proof -
  have "ot_InUseCount ot = ot_InstanceCount ot"
  proof (rule ccontr)
    assume ne: "ot_InUseCount ot \<noteq> ot_InstanceCount ot"
    then have "unat (ot_InUseCount ot) \<noteq> unat (ot_InstanceCount ot)"
      by (simp add: word_unat_eq_iff)
    then have "ot_Instances ot \<noteq> []" using assms(2) by (auto simp: type_ok_def)
    with ne assms(1) show False
      by (auto simp: APB_AllocInstance_def RemHead_def split: list.splits)
  qed
  then have c: "APB_CreateInstance ot s = (None, ot1, s1)"
    using assms(1) by (auto simp: APB_AllocInstance_def split: prod.splits option.splits)
  show "ot1 = ot" "live (em_hist (op_Mem s1)) = live (em_hist (op_Mem s))"
    "mem_own own s1 = mem_own own s" by (rule APB_CreateInstance_None [OF c])+
  show "op_Types s1 = op_Types s" "op_MemPool s1 = op_MemPool s" "faults s1 = faults s"
    by (rule APB_CreateInstance_frame [OF c])+
qed

text \<open>What the invariant asks of an operation on one type.\<close>

definition type_step ::
    "(addr \<Rightarrow> block_role option) \<Rightarrow> object_type \<Rightarrow> 'a pool_scheme \<Rightarrow>
     (addr \<Rightarrow> block_role option) \<Rightarrow> addr set \<Rightarrow> object_type \<Rightarrow> 'a pool_scheme \<Rightarrow> bool" where
  "type_step own ot s own1 U ot1 s1 \<longleftrightarrow>
     ot_Id ot1 = ot_Id ot \<and> op_Types s1 = op_Types s \<and> op_MemPool s1 = op_MemPool s \<and>
     faults s1 = faults s \<and> mem_own own1 s1 \<and> type_own own1 U s1 ot1 \<and>
     (\<forall>a. own a \<noteq> None \<longrightarrow> own a \<noteq> Some (Node_Block (ot_Id ot)) \<longrightarrow>
        own1 a = own a \<and> live (em_hist (op_Mem s1)) a = live (em_hist (op_Mem s)) a)"

lemma pool_own_type_step:
  assumes "pool_own own W s" and "ot \<in> set (op_Types s)" and "type_step own ot s own1 U ot1 s1"
  shows "pool_own own1 (W(ot_Id ot := U)) (put_type ot1 s1)"
  by (rule pool_own_put_type [OF assms(1,2)]) (use assms(3) in \<open>auto simp: type_step_def\<close>)

lemma alloc_fresh_step:
  assumes c: "APB_CreateInstance ot s = (Some a, ot1, s1)"
    and full: "ot_InUseCount ot = ot_InstanceCount ot"
    and own: "type_own own U s ot" "mem_own own s"
  shows "type_step own ot s (own(a \<mapsto> Node_Block (ot_Id ot))) (insert a U)
    (ot1\<lparr>ot_InUseCount := ot_InUseCount ot1 + 1\<rparr>) s1 \<and> a \<notin> U"
proof -
  note fr = APB_CreateInstance_frame [OF c]
  note new = APB_CreateInstance_Some [OF c own(2)]
  have a: "own a = None" by (rule new(1))
  have aU: "a \<notin> U" and al: "a \<notin> set (ot_Instances ot)" and aA: "a \<noteq> ot_Addr ot"
    using own(1) a by (auto simp: type_own_def)
  have eq: "unat (ot_InUseCount ot) = unat (ot_InstanceCount ot)" using full by simp
  have le: "unat (ot_InUseCount ot) < 65535"
    using new(4) eq unat_u16_less [of "ot_MaxInstances ot"] by linarith
  have "type_ok (insert a U) (ot1\<lparr>ot_InUseCount := ot_InUseCount ot1 + 1\<rparr>)"
    using own(1) aU al new(4,5) eq unat_Suc_u16 [OF le]
    by (simp add: type_own_def type_ok_def fr)
  moreover have "NODE_SIZE (ot1\<lparr>ot_InUseCount := ot_InUseCount ot1 + 1\<rparr>) = NODE_SIZE ot"
    by (rule NODE_SIZE_cong) (simp add: fr)
  ultimately show ?thesis
    using own(1) aU al aA a new(2) new(3)
    by (auto simp: type_step_def type_own_def fr)
qed

lemma alloc_reuse_step:
  assumes ne: "ot_InUseCount ot \<noteq> ot_InstanceCount ot"
    and hd: "ot_Instances ot = a # rest"
    and own: "type_own own U s ot" "mem_own own s"
  shows "type_step own ot s own (insert a U)
    (ot\<lparr>ot_Instances := rest, ot_InUseCount := ot_InUseCount ot + 1\<rparr>) s \<and> a \<notin> U"
proof -
  have aU: "a \<notin> U" using own(1) hd by (auto simp: type_own_def type_ok_def)
  have "unat (ot_InUseCount ot) + Suc (length rest) = unat (ot_InstanceCount ot)"
    using own(1) hd by (simp add: type_own_def type_ok_def)
  then have "unat (ot_InUseCount ot) < 65535"
    using unat_u16_less [of "ot_InstanceCount ot"] by linarith
  then have "unat (ot_InUseCount ot + 1) = Suc (unat (ot_InUseCount ot))" by (rule unat_Suc_u16)
  then have "type_ok (insert a U) (ot\<lparr>ot_Instances := rest, ot_InUseCount := ot_InUseCount ot + 1\<rparr>)"
    using own(1) hd aU by (auto simp: type_own_def type_ok_def)
  moreover have "NODE_SIZE (ot\<lparr>ot_Instances := rest, ot_InUseCount := ot_InUseCount ot + 1\<rparr>) =
      NODE_SIZE ot"
    by (rule NODE_SIZE_cong) simp
  ultimately show ?thesis
    using own hd aU by (auto simp: type_step_def type_own_def)
qed

lemma APB_AllocInstance_Some:
  assumes al: "APB_AllocInstance ot s = (Some a, ot1, s1)"
    and own: "type_own own U s ot" "mem_own own s"
  shows "a \<notin> U \<and> (\<exists>own1. type_step own ot s own1 (insert a U) ot1 s1)"
proof (cases "ot_InUseCount ot = ot_InstanceCount ot")
  case True
  with al obtain ot2 where "APB_CreateInstance ot s = (Some a, ot2, s1)"
    and "ot1 = ot2\<lparr>ot_InUseCount := ot_InUseCount ot2 + 1\<rparr>"
    by (auto simp: APB_AllocInstance_def split: prod.splits option.splits)
  with alloc_fresh_step [OF this(1) True own] show ?thesis by blast
next
  case False
  with al obtain rest where "ot_Instances ot = a # rest"
    and "ot1 = ot\<lparr>ot_Instances := rest, ot_InUseCount := ot_InUseCount ot + 1\<rparr>" and "s1 = s"
    by (auto simp: APB_AllocInstance_def RemHead_def split: list.splits)
  with alloc_reuse_step [OF False this(1) own] show ?thesis by blast
qed

text \<open>Taking an instance back.\<close>

lemma APB_ReleaseInstance_step:
  assumes own: "type_own own U s ot" "mem_own own s" and a: "a \<in> U"
    and rel: "APB_ReleaseInstance ot a s = (ot1, s1)"
  shows "\<exists>own1. type_step own ot s own1 (U - {a}) ot1 s1"
proof -
  have ok: "finite U" "card U = unat (ot_InUseCount ot)" "U \<inter> set (ot_Instances ot) = {}"
    "unat (ot_InUseCount ot) + length (ot_Instances ot) = unat (ot_InstanceCount ot)"
    "distinct (ot_Instances ot)" "unat (ot_InstanceCount ot) \<le> unat (ot_MaxInstances ot)"
    using own(1) by (simp_all add: type_own_def type_ok_def)
  have use: "0 < unat (ot_InUseCount ot)" using ok(1,2) a by (metis card_gt_0_iff empty_iff)
  have pred: "unat (ot_InUseCount ot - 1) = unat (ot_InUseCount ot) - 1"
    using use by (rule unat_pred_u16)
  have card: "card (U - {a}) = unat (ot_InUseCount ot) - 1" using ok(1,2) a by simp
  have al: "a \<notin> set (ot_Instances ot)" and lv:
    "live (em_hist (op_Mem s)) a = Some (mem_fn_of (op_MemPool s), NODE_SIZE ot)"
    "own a = Some (Node_Block (ot_Id ot))" and aA: "a \<noteq> ot_Addr ot"
    using own(1) a ok(3) by (auto simp: type_own_def)
  show ?thesis
  proof (cases "ot_InstanceCount ot > ot_MinInstances ot")
    case True
    have ot1: "ot1 = ot\<lparr>ot_InstanceCount := ot_InstanceCount ot - 1,
        ot_InUseCount := ot_InUseCount ot - 1\<rparr>" and s1: "s1 = pool_free (Some a) (NODE_SIZE ot) s"
      using rel True by (auto simp: APB_ReleaseInstance_def APB_DestroyInstance_def)
    have "unat (ot_InstanceCount ot - 1) = unat (ot_InstanceCount ot) - 1"
      using use ok(4) by (intro unat_pred_u16) linarith
    then have "type_ok (U - {a}) ot1" using ok card pred use by (auto simp: type_ok_def ot1)
    moreover have "NODE_SIZE ot1 = NODE_SIZE ot" by (rule NODE_SIZE_cong) (simp add: ot1)
    moreover have "mem_own (own(a := None)) s1"
      unfolding s1 using own(2) lv(1) by (rule pool_free_own)
    ultimately have "type_step own ot s (own(a := None)) (U - {a}) ot1 s1"
      using own(1) al aA lv by (auto simp: type_step_def type_own_def s1 pool_free_live ot1)
    then show ?thesis by blast
  next
    case False
    have ot1: "ot1 = ot\<lparr>ot_Instances := ot_Instances ot @ [a], ot_InUseCount := ot_InUseCount ot - 1\<rparr>"
      and s1: "s1 = s"
      using rel False by (auto simp: APB_ReleaseInstance_def)
    have "type_ok (U - {a}) ot1" using ok card pred use al by (auto simp: type_ok_def ot1)
    moreover have "NODE_SIZE ot1 = NODE_SIZE ot" by (rule NODE_SIZE_cong) (simp add: ot1)
    ultimately have "type_step own ot s own (U - {a}) ot1 s1"
      using own lv by (auto simp: type_step_def type_own_def s1 ot1)
    then show ?thesis by blast
  qed
qed

subsection \<open>The pool's operations\<close>

lemma pool_own_find:
  assumes "pool_own own W s" and "APB_GetObjectType s i = Some ot"
  shows "ot \<in> set (op_Types s)" "ot_Id ot = i" "type_own own (W i) s ot" "mem_own own s"
  using assms find_type_Some [of "op_Types s" i ot]
  by (auto simp: pool_own_def APB_GetObjectType_def)

lemma put_type_fields [frame_simps, simp]:
  "op_Mem (put_type t s) = op_Mem s" "op_MemPool (put_type t s) = op_MemPool s"
  "faults (put_type t s) = faults s"
  by (simp_all add: put_type_def)

lemma alloc_object_Some:
  assumes inv: "pool_inv W s" and al: "APB_AllocObjectInternal i s = (Some p, s1)"
  shows "\<exists>a. p = NODE_TO_OBJ a \<and> a \<notin> W i \<and> pool_inv (W(i := insert a (W i))) s1 \<and>
    faults s1 = faults s"
proof -
  from inv obtain own where own: "pool_own own W s" by (auto simp: pool_inv_def)
  from al obtain ot a ot1 s2 where ot: "APB_GetObjectType s i = Some ot"
    and ai: "APB_AllocInstance ot s = (Some a, ot1, s2)" and p: "p = NODE_TO_OBJ a"
    and s1: "s1 = put_type ot1 s2"
    by (auto simp: APB_AllocObjectInternal_def split: option.splits prod.splits)
  note f = pool_own_find [OF own ot]
  from APB_AllocInstance_Some [OF ai f(3,4)] obtain own1 where
    "a \<notin> W i" and st: "type_step own ot s own1 (insert a (W i)) ot1 s2" by blast
  moreover have "pool_own own1 (W(i := insert a (W i))) s1"
    using pool_own_type_step [OF own f(1) st] by (simp add: f(2) s1)
  moreover have "faults s1 = faults s" using st by (simp add: type_step_def s1)
  ultimately show ?thesis using p by (auto simp: pool_inv_def)
qed

lemma type_own_cong:
  assumes "live (em_hist (op_Mem s1)) = live (em_hist (op_Mem s))"
    and "op_MemPool s1 = op_MemPool s"
  shows "type_own own U s1 ot = type_own own U s ot"
  by (simp add: type_own_def assms)

lemma alloc_object_None:
  assumes inv: "pool_inv W s" and al: "APB_AllocObjectInternal i s = (None, s1)"
  shows "pool_inv W s1 \<and> faults s1 = faults s"
proof (cases "APB_GetObjectType s i")
  case None
  then show ?thesis using al inv by (simp add: APB_AllocObjectInternal_def)
next
  case (Some ot)
  from inv obtain own where own: "pool_own own W s" by (auto simp: pool_inv_def)
  note f = pool_own_find [OF own Some]
  from al Some obtain ot1 s2 where ai: "APB_AllocInstance ot s = (None, ot1, s2)"
    and s1: "s1 = put_type ot1 s2"
    by (auto simp: APB_AllocObjectInternal_def split: prod.splits)
  have ok: "type_ok (W i) ot" using f(3) by (simp add: type_own_def)
  note n = APB_AllocInstance_None [OF ai ok]
  have "type_step own ot s own (W i) ot1 s2"
    using f n by (auto simp: type_step_def type_own_cong [OF n(5,3)])
  from pool_own_type_step [OF own f(1) this] have "pool_own own W s1"
    by (simp add: f(2) s1)
  then show ?thesis using n(4) by (auto simp: pool_inv_def s1)
qed

lemma free_object:
  assumes inv: "pool_inv W s" and a: "a \<in> W i"
  shows "pool_inv (W(i := W i - {a})) (APB_FreeObjectInternal i (NODE_TO_OBJ a) s) \<and>
    faults (APB_FreeObjectInternal i (NODE_TO_OBJ a) s) = faults s"
proof -
  from inv obtain own where own: "pool_own own W s" by (auto simp: pool_inv_def)
  have "i \<in> ot_Id ` set (op_Types s)" using own a by (auto simp: pool_own_def)
  then obtain ot where ot: "APB_GetObjectType s i = Some ot"
    by (metis APB_GetObjectType_def find_type_None not_None_eq)
  note f = pool_own_find [OF own ot]
  obtain ot1 s2 where rel: "APB_ReleaseInstance ot a s = (ot1, s2)" by fastforce
  have e: "APB_FreeObjectInternal i (NODE_TO_OBJ a) s = put_type ot1 s2"
    by (simp add: APB_FreeObjectInternal_def ot rel NODE_TO_OBJ_def OBJ_TO_NODE_def)
  from APB_ReleaseInstance_step [OF f(3,4) a rel] obtain own1 where
    st: "type_step own ot s own1 (W i - {a}) ot1 s2" by blast
  have "pool_own own1 (W(i := W i - {a})) (put_type ot1 s2)"
    using pool_own_type_step [OF own f(1) st] by (simp add: f(2))
  moreover have "faults s2 = faults s" using st by (simp add: type_step_def)
  ultimately show ?thesis by (auto simp: e pool_inv_def)
qed

section \<open>The interface the clients use\<close>

text \<open>
  A client knows the objects it holds, of each type; \<open>pool_holds H s\<close> says that the pool
  agrees. Objects are addressed behind their node.
\<close>

definition pool_holds :: "(u16 \<Rightarrow> addr set) \<Rightarrow> 'a pool_scheme \<Rightarrow> bool" where
  "pool_holds H s \<longleftrightarrow> (\<exists>W. pool_inv W s \<and> H = (\<lambda>i. NODE_TO_OBJ ` W i))"

lemma pool_holds_alloc:
  assumes "pool_holds H s" and "APB_AllocObjectInternal i s = (Some p, s1)"
  shows "p \<notin> H i \<and> pool_holds (H(i := insert p (H i))) s1"
proof -
  from assms(1) obtain W where W: "pool_inv W s" "H = (\<lambda>i. NODE_TO_OBJ ` W i)"
    by (auto simp: pool_holds_def)
  from alloc_object_Some [OF W(1) assms(2)] obtain a where
    a: "p = NODE_TO_OBJ a" "a \<notin> W i" "pool_inv (W(i := insert a (W i))) s1" by blast
  have "H(i := insert p (H i)) = (\<lambda>j. NODE_TO_OBJ ` (W(i := insert a (W i))) j)"
    by (auto simp: fun_eq_iff W(2) a(1))
  moreover have "p \<notin> H i" using a(1,2) by (auto simp: W(2) NODE_TO_OBJ_def)
  ultimately show ?thesis using a(3) by (auto simp: pool_holds_def)
qed

lemma pool_holds_alloc_None:
  assumes "pool_holds H s" and "APB_AllocObjectInternal i s = (None, s1)"
  shows "pool_holds H s1"
  using assms alloc_object_None by (fastforce simp: pool_holds_def)

lemma pool_holds_free:
  assumes "pool_holds H s" and "p \<in> H i"
  shows "pool_holds (H(i := H i - {p})) (APB_FreeObjectInternal i p s)"
proof -
  from assms(1) obtain W where W: "pool_inv W s" "H = (\<lambda>i. NODE_TO_OBJ ` W i)"
    by (auto simp: pool_holds_def)
  with assms(2) obtain a where a: "a \<in> W i" "p = NODE_TO_OBJ a" by auto
  have "H(i := H i - {p}) = (\<lambda>j. NODE_TO_OBJ ` (W(i := W i - {a})) j)"
    by (auto simp: fun_eq_iff W(2) a(2) NODE_TO_OBJ_def)
  then show ?thesis using free_object [OF W(1) a(1)] by (auto simp: pool_holds_def a(2))
qed

section \<open>Registering a type\<close>

lemma type_step_refl: "type_own own U s ot \<Longrightarrow> mem_own own s \<Longrightarrow> type_step own ot s own U ot s"
  by (simp add: type_step_def)

lemma type_step_trans:
  assumes "type_step own ot s own1 U ot1 s1" and "type_step own1 ot1 s1 own2 V ot2 s2"
  shows "type_step own ot s own2 V ot2 s2"
  using assms by (auto simp: type_step_def)

lemma add_instance_step:
  assumes c: "APB_CreateInstance ot s = (Some a, ot1, s1)"
    and own: "type_own own {} s ot" "mem_own own s"
  shows "type_step own ot s (own(a \<mapsto> Node_Block (ot_Id ot))) {}
    (ot1\<lparr>ot_Instances := ot_Instances ot1 @ [a]\<rparr>) s1"
proof -
  note fr = APB_CreateInstance_frame [OF c]
  note new = APB_CreateInstance_Some [OF c own(2)]
  have a: "own a = None" by (rule new(1))
  have al: "a \<notin> set (ot_Instances ot)" and aA: "a \<noteq> ot_Addr ot"
    using own(1) a by (auto simp: type_own_def)
  have "type_ok {} (ot1\<lparr>ot_Instances := ot_Instances ot1 @ [a]\<rparr>)"
    using own(1) al new(4,5) by (simp add: type_own_def type_ok_def fr)
  moreover have "NODE_SIZE (ot1\<lparr>ot_Instances := ot_Instances ot1 @ [a]\<rparr>) = NODE_SIZE ot"
    by (rule NODE_SIZE_cong) (simp add: fr)
  ultimately show ?thesis
    using own(1) al aA a new(2) new(3)
    by (auto simp: type_step_def type_own_def fr)
qed

text \<open>Creating instances only takes fresh blocks: nothing that had a role loses it.\<close>

definition own_grows ::
    "(addr \<Rightarrow> block_role option) \<Rightarrow> 'a pool_scheme \<Rightarrow>
     (addr \<Rightarrow> block_role option) \<Rightarrow> 'a pool_scheme \<Rightarrow> bool" where
  "own_grows own s own1 s1 \<longleftrightarrow> (\<forall>a. own a \<noteq> None \<longrightarrow>
     own1 a = own a \<and> live (em_hist (op_Mem s1)) a = live (em_hist (op_Mem s)) a)"

lemma own_grows_trans:
  "own_grows own s own1 s1 \<Longrightarrow> own_grows own1 s1 own2 s2 \<Longrightarrow> own_grows own s own2 s2"
  by (simp add: own_grows_def)

lemma pool_alloc_grows:
  assumes "pool_alloc n s = (Some a, s1)" and "mem_own own s"
  shows "own_grows own s (own(a \<mapsto> r)) s1"
  using pool_alloc_Some [OF assms] by (auto simp: own_grows_def)

lemma create_instance_grows:
  assumes "APB_CreateInstance ot s = (Some a, ot1, s1)" and "mem_own own s"
  shows "own_grows own s (own(a \<mapsto> r)) s1"
  using APB_CreateInstance_Some [OF assms] by (auto simp: own_grows_def)

lemma fill_min_step:
  "type_own own {} s ot \<Longrightarrow> mem_own own s \<Longrightarrow> fill_min ot s = (ot1, s1) \<Longrightarrow>
     \<exists>own1. type_step own ot s own1 {} ot1 s1 \<and> own_grows own s own1 s1"
proof (induction ot s arbitrary: own rule: fill_min.induct)
  case (1 ot s)
  show ?case
  proof (cases "ot_InstanceCount ot < ot_MinInstances ot")
    case False
    then have "ot1 = ot \<and> s1 = s" using "1.prems"(3) by (simp add: fill_min.simps [of ot s])
    then show ?thesis
      using type_step_refl [OF "1.prems"(1,2)] by (auto simp: own_grows_def)
  next
    case True
    obtain p ot2 s2 where c: "APB_CreateInstance ot s = (p, ot2, s2)"
      by (cases "APB_CreateInstance ot s") auto
    show ?thesis
    proof (cases p)
      case None
      then have "ot1 = ot" "s1 = s2"
        using "1.prems"(3) True c APB_CreateInstance_None(1) [of ot s ot2 s2]
        by (simp_all add: fill_min.simps [of ot s])
      moreover note f = APB_CreateInstance_frame [OF c] APB_CreateInstance_None [OF c [unfolded None]]
      ultimately have "type_step own ot s own {} ot1 s1"
        using "1.prems"(1,2) by (simp add: type_step_def type_own_cong [of s2 s])
      moreover have "own_grows own s own s1" by (simp add: own_grows_def f \<open>s1 = s2\<close>)
      ultimately show ?thesis by blast
    next
      case (Some a)
      let ?ot = "ot2\<lparr>ot_Instances := ot_Instances ot2 @ [a]\<rparr>"
      let ?own = "own(a \<mapsto> Node_Block (ot_Id ot))"
      from c Some have c': "APB_CreateInstance ot s = (Some a, ot2, s2)" by simp
      from add_instance_step [OF c' "1.prems"(1,2)]
      have st: "type_step own ot s ?own {} ?ot s2" .
      have "fill_min ?ot s2 = (ot1, s1)"
        using "1.prems"(3) True c' by (simp add: fill_min.simps [of ot s])
      moreover have "type_own ?own {} s2 ?ot" and "mem_own ?own s2"
        using st by (simp_all add: type_step_def)
      ultimately obtain own1 where "type_step ?own ?ot s2 own1 {} ot1 s1"
        and "own_grows ?own s2 own1 s1"
        using "1.IH" [OF True c' [symmetric] refl refl, of ?own] by blast
      with type_step_trans [OF st this(1)]
        own_grows_trans [OF create_instance_grows [OF c' "1.prems"(2)] this(2)]
      show ?thesis by blast
    qed
  qed
qed

lemma type_own_new:
  assumes "pool_alloc sizeof_ObjectType s = (Some a, s1)" and "mem_own own s"
    and "ot_Addr ot = a" "ot_InstanceCount ot = 0" "ot_InUseCount ot = 0" "ot_Instances ot = []"
  shows "type_own (own(a \<mapsto> Type_Block (ot_Id ot))) {} s1 ot"
  using pool_alloc_Some [OF assms(1,2)] pool_alloc_facts [OF assms(1)] assms(3-6)
  by (simp add: type_own_def type_ok_def)

lemma pool_own_append:
  assumes inv: "pool_own own W s" and new: "ot_Id ot \<notin> ot_Id ` set (op_Types s)"
    and s1: "op_Types s1 = op_Types s" "op_MemPool s1 = op_MemPool s"
    and mem: "mem_own own1 s1" and own1: "type_own own1 {} s1 ot"
    and frame: "\<And>a. own a \<noteq> None \<Longrightarrow>
        own1 a = own a \<and> live (em_hist (op_Mem s1)) a = live (em_hist (op_Mem s)) a"
  shows "pool_own own1 W (s1\<lparr>op_Types := op_Types s1 @ [ot]\<rparr>)"
proof -
  let ?s = "s1\<lparr>op_Types := op_Types s1 @ [ot]\<rparr>"
  have cong: "type_own own1 U (s1\<lparr>op_Types := ts\<rparr>) t = type_own own1 U s1 t" for U t ts
    by (simp add: type_own_def)
  have "type_own own1 (W (ot_Id t)) s1 t" if "t \<in> set (op_Types s)" for t
  proof -
    have "type_own own (W (ot_Id t)) s t" using inv that by (simp add: pool_own_def)
    then show ?thesis using frame by (auto simp: type_own_def s1)
  qed
  moreover have "W (ot_Id ot) = {}" using inv new by (simp add: pool_own_def)
  ultimately have "\<forall>t \<in> set (op_Types ?s). type_own own1 (W (ot_Id t)) ?s t"
    using own1 by (auto simp: s1 cong)
  moreover have "distinct (map ot_Id (op_Types ?s))"
    using inv new by (simp add: pool_own_def s1)
  moreover have "mem_own own1 ?s" using mem by (simp add: mem_own_def)
  ultimately show ?thesis using inv by (auto simp: pool_own_def s1)
qed

lemma register_type_inv:
  assumes inv: "pool_inv W s"
  shows "pool_inv W (APB_RegisterObjectTypeInternal i name n lo hi s) \<and>
    faults (APB_RegisterObjectTypeInternal i name n lo hi s) = faults s"
proof (cases "APB_GetObjectType s i")
  case (Some ot)
  then show ?thesis using inv by (simp add: APB_RegisterObjectTypeInternal_def)
next
  case None
  from inv obtain own where own: "pool_own own W s" by (auto simp: pool_inv_def)
  then have mo: "mem_own own s" by (simp add: pool_own_def)
  have new: "i \<notin> ot_Id ` set (op_Types s)"
    using None by (simp add: APB_GetObjectType_def find_type_None)
  obtain p s1 where al: "pool_alloc sizeof_ObjectType s = (p, s1)" by fastforce
  note fr = pool_alloc_facts [OF al]
  show ?thesis
  proof (cases p)
    case p: None
    note n = pool_alloc_None [OF al [unfolded p]]
    have "pool_own own W s1"
      using own n(2) fr type_own_cong [OF n(1) fr(2)] by (simp add: pool_own_def)
    then show ?thesis
      using None al p fr by (auto simp: APB_RegisterObjectTypeInternal_def pool_inv_def)
  next
    case p: (Some a)
    let ?ot = "\<lparr>ot_Addr = a, ot_Id = i, ot_Name = name, ot_Size = n, ot_MinInstances = lo,
      ot_MaxInstances = hi, ot_InstanceCount = 0, ot_InUseCount = 0, ot_Instances = []\<rparr>"
    let ?own = "own(a \<mapsto> Type_Block i)"
    note al' = al [unfolded p]
    note ma = pool_alloc_Some [OF al' mo]
    have to: "type_own ?own {} s1 ?ot" using type_own_new [OF al' mo, of ?ot] by simp
    obtain ot1 s2 where fm: "fill_min ?ot s1 = (ot1, s2)" by fastforce
    from fill_min_step [OF to ma(3) fm] obtain own1 where
      st: "type_step ?own ?ot s1 own1 {} ot1 s2" "own_grows ?own s1 own1 s2" by blast
    from pool_alloc_grows [OF al' mo] st(2)
    have "own_grows own s own1 s2" by (rule own_grows_trans)
    then have "pool_own own1 W (s2\<lparr>op_Types := op_Types s2 @ [ot1]\<rparr>)"
      using st(1) fr new
      by (intro pool_own_append [OF own]) (auto simp: type_step_def own_grows_def)
    moreover have "faults s2 = faults s" using st(1) fr by (simp add: type_step_def)
    ultimately show ?thesis
      using None al' fm by (auto simp: APB_RegisterObjectTypeInternal_def pool_inv_def)
  qed
qed

section \<open>The contract of an object store\<close>

text \<open>
  What the server's components ask of the pool: an object handed out was not held before, an
  object given back is no longer held, and neither adds a fault. \<open>client_run\<close> is any client
  that gives back only what it holds; it keeps the list of what it holds.
\<close>

datatype store_op = Store_Alloc u16 | Store_Free nat

fun client_run ::
    "(u16 \<Rightarrow> 's \<Rightarrow> addr option \<times> 's) \<Rightarrow> (u16 \<Rightarrow> addr \<Rightarrow> 's \<Rightarrow> 's) \<Rightarrow> store_op list \<Rightarrow>
     (u16 \<times> addr) list \<Rightarrow> 's \<Rightarrow> (u16 \<times> addr) list \<times> 's" where
  "client_run alloc free [] held s = (held, s)"
| "client_run alloc free (Store_Alloc i # ops) held s =
     (case alloc i s of
        (None, s1) \<Rightarrow> client_run alloc free ops held s1
      | (Some p, s1) \<Rightarrow> client_run alloc free ops ((i, p) # held) s1)"
| "client_run alloc free (Store_Free k # ops) held s =
     (if k < length held
      then client_run alloc free ops (remove1 (held ! k) held)
             (free (fst (held ! k)) (snd (held ! k)) s)
      else client_run alloc free ops held s)"

definition held_of :: "(u16 \<times> addr) list \<Rightarrow> u16 \<Rightarrow> addr set" where
  "held_of held i = {p. (i, p) \<in> set held}"

lemma held_of_Nil [simp]: "held_of [] = (\<lambda>i. {})"
  by (simp add: held_of_def fun_eq_iff)

lemma held_of_Cons: "held_of ((i, p) # held) = (held_of held)(i := insert p (held_of held i))"
  by (auto simp: held_of_def fun_eq_iff)

lemma held_of_remove1:
  "distinct held \<Longrightarrow>
     held_of (remove1 (i, p) held) = (held_of held)(i := held_of held i - {p})"
  by (auto simp: held_of_def fun_eq_iff)

locale object_store =
  fixes alloc :: "u16 \<Rightarrow> 's \<Rightarrow> addr option \<times> 's"
    and free :: "u16 \<Rightarrow> addr \<Rightarrow> 's \<Rightarrow> 's"
    and holds :: "(u16 \<Rightarrow> addr set) \<Rightarrow> 's \<Rightarrow> bool"
    and log :: "'s \<Rightarrow> fault list"
  assumes alloc_Some: "holds H s \<Longrightarrow> alloc i s = (Some p, s1) \<Longrightarrow>
      p \<notin> H i \<and> holds (H(i := insert p (H i))) s1 \<and> log s1 = log s"
    and alloc_None: "holds H s \<Longrightarrow> alloc i s = (None, s1) \<Longrightarrow> holds H s1 \<and> log s1 = log s"
    and free_held: "holds H s \<Longrightarrow> p \<in> H i \<Longrightarrow>
      holds (H(i := H i - {p})) (free i p s) \<and> log (free i p s) = log s"
    and one_type: "holds H s \<Longrightarrow> p \<in> H i \<Longrightarrow> p \<in> H j \<Longrightarrow> i = j"
begin

lemma run_keeps:
  "holds (held_of held) s \<Longrightarrow> distinct held \<Longrightarrow>
     client_run alloc free ops held s = (held1, s1) \<Longrightarrow>
     distinct held1 \<and> holds (held_of held1) s1 \<and> log s1 = log s"
proof (induction ops arbitrary: held s)
  case (Cons op ops)
  show ?case
  proof (cases op)
    case op: (Store_Alloc i)
    obtain r s2 where al: "alloc i s = (r, s2)" by fastforce
    show ?thesis
    proof (cases r)
      case None
      then show ?thesis
        using Cons.IH [of held s2] Cons.prems alloc_None [OF Cons.prems(1), of i s2] al op by simp
    next
      case (Some p)
      have a: "p \<notin> held_of held i \<and> holds (held_of ((i, p) # held)) s2 \<and> log s2 = log s"
        using alloc_Some [OF Cons.prems(1), of i p s2] al Some by (simp add: held_of_Cons)
      then have "(i, p) \<notin> set held" by (simp add: held_of_def)
      then show ?thesis
        using Cons.IH [of "(i, p) # held" s2] Cons.prems(2,3) a al op Some by simp
    qed
  next
    case op: (Store_Free k)
    obtain i p where k: "held ! k = (i, p)" by fastforce
    show ?thesis
    proof (cases "k < length held")
      case False
      then show ?thesis using Cons.IH [of held s] Cons.prems op by simp
    next
      case True
      then have "(i, p) \<in> set held" using k nth_mem by fastforce
      then have "p \<in> held_of held i" by (simp add: held_of_def)
      from free_held [OF Cons.prems(1) this]
      have "holds (held_of (remove1 (i, p) held)) (free i p s) \<and> log (free i p s) = log s"
        by (simp add: held_of_remove1 [OF Cons.prems(2)])
      moreover have "distinct (remove1 (i, p) held)" using Cons.prems(2) by (rule distinct_remove1)
      ultimately show ?thesis
        using Cons.IH [of "remove1 (i, p) held" "free i p s"] Cons.prems(3) op True k by simp
    qed
  qed
qed simp

lemma run_addresses_distinct:
  assumes "holds (held_of held) s" and "distinct held"
    and "client_run alloc free ops held s = (held1, s1)"
  shows "distinct (map snd held1)"
proof -
  have k: "distinct held1" "holds (held_of held1) s1" using run_keeps [OF assms] by auto
  have "inj_on snd (set held1)"
  proof (rule inj_onI)
    fix x y assume xy: "x \<in> set held1" "y \<in> set held1" and e: "snd x = snd y"
    have "snd x \<in> held_of held1 (fst x)" using xy(1) by (simp add: held_of_def)
    moreover have "snd x \<in> held_of held1 (fst y)" using xy(2) by (simp add: held_of_def e)
    ultimately have "fst x = fst y" by (rule one_type [OF k(2)])
    with e show "x = y" by (simp add: prod_eq_iff)
  qed
  with k(1) show ?thesis by (simp add: distinct_map)
qed

end

lemma pool_holds_one_type:
  assumes "pool_holds H s" and "p \<in> H i" and "p \<in> H j"
  shows "i = j"
proof -
  from assms(1) obtain W own where W: "pool_own own W s" "H = (\<lambda>i. NODE_TO_OBJ ` W i)"
    by (auto simp: pool_holds_def pool_inv_def)
  from assms(2,3) obtain a where a: "a \<in> W i" "a \<in> W j" by (auto simp: W(2) NODE_TO_OBJ_def)
  have role: "own a = Some (Node_Block k)" if k: "a \<in> W k" for k
  proof -
    have "k \<in> ot_Id ` set (op_Types s)" using W(1) k by (auto simp: pool_own_def)
    then show ?thesis using W(1) k by (auto simp: pool_own_def type_own_def)
  qed
  show ?thesis using role [OF a(1)] role [OF a(2)] by simp
qed

lemma pool_faults_alloc:
  "pool_holds H s \<Longrightarrow> APB_AllocObjectInternal i s = (r, s1) \<Longrightarrow> faults s1 = faults s"
  using alloc_object_Some alloc_object_None
  by (cases r) (fastforce simp: pool_holds_def)+

lemma pool_faults_free:
  assumes "pool_holds H s" and "p \<in> H i"
  shows "faults (APB_FreeObjectInternal i p s) = faults s"
  using assms free_object by (fastforce simp: pool_holds_def)

interpretation obj: object_store APB_AllocObjectInternal APB_FreeObjectInternal pool_holds faults
proof unfold_locales
  fix H i p and s s1 :: "'a pool_scheme"
  assume h: "pool_holds H s"
  show "APB_AllocObjectInternal i s = (Some p, s1) \<Longrightarrow>
      p \<notin> H i \<and> pool_holds (H(i := insert p (H i))) s1 \<and> faults s1 = faults s"
    using pool_holds_alloc [OF h] pool_faults_alloc [OF h] by blast
  show "APB_AllocObjectInternal i s = (None, s1) \<Longrightarrow> pool_holds H s1 \<and> faults s1 = faults s"
    using pool_holds_alloc_None [OF h] pool_faults_alloc [OF h] by blast
  show "p \<in> H i \<Longrightarrow> pool_holds (H(i := H i - {p})) (APB_FreeObjectInternal i p s) \<and>
      faults (APB_FreeObjectInternal i p s) = faults s"
    using pool_holds_free [OF h] pool_faults_free [OF h] by blast
  show "p \<in> H i \<Longrightarrow> p \<in> H j \<Longrightarrow> i = j" for j by (rule pool_holds_one_type [OF h])
qed

section \<open>Pools from creation on\<close>

fun register_all :: "(u16 \<times> string \<times> u16 \<times> u16 \<times> u16) list \<Rightarrow> 'a pool_scheme \<Rightarrow> 'a pool_scheme" where
  "register_all [] s = s"
| "register_all ((i, name, n, lo, hi) # rs) s =
     register_all rs (APB_RegisterObjectTypeInternal i name n lo hi s)"

lemma register_all_inv:
  "pool_inv W s \<Longrightarrow> pool_inv W (register_all rs s) \<and> faults (register_all rs s) = faults s"
  by (induction rs s rule: register_all.induct) (auto simp: register_type_inv)

lemma create_pool_inv:
  assumes "exec_fresh (em_answer m)" and "frees_ok (em_hist m)"
    and "APB_CreateObjectPool memPool m = (Some (a, s), m1)"
  shows "pool_inv (\<lambda>i. {}) s \<and> faults s = []"
proof -
  from assms(3) have s: "s = \<lparr>op_Types = [], op_MemPool = memPool, op_Mem = m1, faults = []\<rparr>"
    and al: "exec_alloc (mem_fn_of memPool) sizeof_ObjectPool m = (Some a, m1)"
    by (auto simp: APB_CreateObjectPool_def APB_AllocMemInternal_alt split: prod.splits option.splits)
  have "pool_own Map.empty (\<lambda>i. {}) s"
    using exec_alloc_Some [OF al assms(1)] assms(1,2) by (simp add: pool_own_def mem_own_def s)
  then show ?thesis by (auto simp: pool_inv_def s)
qed

lemma pool_holds_none: "pool_inv (\<lambda>i. {}) s \<Longrightarrow> pool_holds (held_of []) s"
  by (auto simp: pool_holds_def intro!: exI [of _ "\<lambda>i. {}"])

lemma pool_holds_frees_ok: "pool_holds H s \<Longrightarrow> frees_ok (em_hist (op_Mem s))"
  by (auto simp: pool_holds_def pool_inv_def pool_own_def mem_own_def)

text \<open>
  C12: whatever types are registered in a new pool, and whatever a client allocates and gives
  back after that, the objects it holds at the end all have different addresses, every block
  the pool gave back to Exec was live and went back with the function and the size it came
  with, and nothing undefined happened.
\<close>

theorem pool_clients_never_collide:
  assumes "exec_fresh (em_answer m)" and "frees_ok (em_hist m)"
    and "APB_CreateObjectPool memPool m = (Some (a, s), m1)"
    and "client_run APB_AllocObjectInternal APB_FreeObjectInternal ops [] (register_all rs s) =
      (held, s1)"
  shows "distinct (map snd held) \<and> frees_ok (em_hist (op_Mem s1)) \<and> faults s1 = []"
proof -
  note c = create_pool_inv [OF assms(1-3)]
  have inv: "pool_inv (\<lambda>i. {}) (register_all rs s)" and f: "faults (register_all rs s) = []"
    using register_all_inv [OF c [THEN conjunct1]] c by simp_all
  note h = pool_holds_none [OF inv]
  show ?thesis
    using obj.run_addresses_distinct [OF h _ assms(4)] obj.run_keeps [OF h _ assms(4)] f
    by (auto dest: pool_holds_frees_ok)
qed

definition bump_mem :: exec_mem where
  "bump_mem = \<lparr>em_answer = bump, em_hist = []\<rparr>"

text \<open>A pool of two types, one with a single preallocated instance and room for two.\<close>

definition demo_types :: "(u16 \<times> string \<times> u16 \<times> u16 \<times> u16) list" where
  "demo_types = [(1, ''a'', 12, 1, 2), (2, ''b'', 30, 0, 5)]"

definition demo_pool :: pool where
  "demo_pool = register_all demo_types
     \<lparr>op_Types = [], op_MemPool = Some 4, op_Mem =
        \<lparr>em_answer = bump, em_hist = [MAlloc Exec_Pool 20 1000]\<rparr>, faults = []\<rparr>"

lemma demo_create:
  "APB_CreateObjectPool (Some 4) bump_mem =
     (Some (1000, \<lparr>op_Types = [], op_MemPool = Some 4, op_Mem =
        \<lparr>em_answer = bump, em_hist = [MAlloc Exec_Pool 20 1000]\<rparr>, faults = []\<rparr>),
      \<lparr>em_answer = bump, em_hist = [MAlloc Exec_Pool 20 1000]\<rparr>)"
  by (simp add: APB_CreateObjectPool_def bump_mem_def APB_AllocMemInternal_def exec_alloc_def
      bump_def sizeof_ObjectPool_def)

lemma demo_pool_inv: "pool_inv (\<lambda>i. {}) demo_pool \<and> faults demo_pool = []"
proof -
  have "exec_fresh (em_answer bump_mem)" and "frees_ok (em_hist bump_mem)"
    using exec_fresh_bump by (simp_all add: bump_mem_def)
  note c = create_pool_inv [OF this demo_create]
  show ?thesis
    unfolding demo_pool_def using register_all_inv [OF c [THEN conjunct1]] c by simp
qed

lemma demo_run:
  "map fst (fst (client_run APB_AllocObjectInternal APB_FreeObjectInternal
      [Store_Alloc 1, Store_Alloc 1, Store_Alloc 2, Store_Free 1, Store_Alloc 2] [] demo_pool)) =
    [2, 2, 1]"
  by code_simp

theorem pool_clients_never_collide_witness:
  "\<exists>held s1. client_run APB_AllocObjectInternal APB_FreeObjectInternal
      [Store_Alloc 1, Store_Alloc 1, Store_Alloc 2, Store_Free 1, Store_Alloc 2] [] demo_pool =
        (held, s1) \<and> map fst held = [2, 2, 1] \<and>
      distinct (map snd held) \<and> frees_ok (em_hist (op_Mem s1)) \<and> faults s1 = []"
proof -
  obtain held s1 where r: "client_run APB_AllocObjectInternal APB_FreeObjectInternal
      [Store_Alloc 1, Store_Alloc 1, Store_Alloc 2, Store_Free 1, Store_Alloc 2] [] demo_pool =
        (held, s1)" by fastforce
  have "exec_fresh (em_answer bump_mem)" and "frees_ok (em_hist bump_mem)"
    using exec_fresh_bump by (simp_all add: bump_mem_def)
  from pool_clients_never_collide [OF this demo_create r [unfolded demo_pool_def]] r demo_run
  show ?thesis by simp
qed

section \<open>Capacity\<close>

lemma type_ok_full:
  "type_ok U ot \<Longrightarrow> ot_InUseCount ot = ot_InstanceCount ot \<longleftrightarrow> ot_Instances ot = []"
  by (auto simp: type_ok_def word_unat_eq_iff)

lemma alloc_object_fails_iff:
  assumes "pool_own own W s" and "APB_GetObjectType s i = Some ot"
  shows "fst (APB_AllocObjectInternal i s) = None \<longleftrightarrow>
    ot_Instances ot = [] \<and>
    (ot_InstanceCount ot \<ge> ot_MaxInstances ot \<or> fst (pool_alloc (NODE_SIZE ot) s) = None)"
proof -
  have ok: "type_ok (W i) ot" using pool_own_find [OF assms] by (simp add: type_own_def)
  note full = type_ok_full [OF ok]
  show ?thesis
  proof (cases "ot_Instances ot")
    case Nil
    then show ?thesis
      using assms(2) full
      by (auto simp: APB_AllocObjectInternal_def APB_AllocInstance_def APB_CreateInstance_def
          split: prod.splits option.splits)
  next
    case (Cons x xs)
    then show ?thesis
      using assms(2) full
      by (auto simp: APB_AllocObjectInternal_def APB_AllocInstance_def RemHead_def)
  qed
qed

text \<open>
  C24: an object type never has more objects out than its maximum, and a request fails exactly
  when every instance is out and either the maximum is reached or Exec has no memory for one
  more instance.
\<close>

theorem alloc_object_capacity:
  assumes "pool_holds H s" and "APB_GetObjectType s i = Some ot"
  shows "card (H i) \<le> unat (ot_MaxInstances ot) \<and>
    (fst (APB_AllocObjectInternal i s) = None \<longleftrightarrow>
       card (H i) = unat (ot_InstanceCount ot) \<and>
       (card (H i) = unat (ot_MaxInstances ot) \<or> fst (pool_alloc (NODE_SIZE ot) s) = None))"
proof -
  from assms(1) obtain W own where W: "pool_own own W s" "H = (\<lambda>i. NODE_TO_OBJ ` W i)"
    by (auto simp: pool_holds_def pool_inv_def)
  have ok: "type_ok (W i) ot" using pool_own_find [OF W(1) assms(2)] by (simp add: type_own_def)
  have "inj_on NODE_TO_OBJ (W i)" by (rule inj_onI) (simp add: NODE_TO_OBJ_def)
  then have c: "card (H i) = unat (ot_InUseCount ot)"
    using ok by (simp add: W(2) card_image type_ok_def)
  have n: "unat (ot_InUseCount ot) + length (ot_Instances ot) = unat (ot_InstanceCount ot)"
    and le: "unat (ot_InstanceCount ot) \<le> unat (ot_MaxInstances ot)"
    using ok by (simp_all add: type_ok_def)
  have "ot_Instances ot = [] \<longleftrightarrow> card (H i) = unat (ot_InstanceCount ot)"
    using c n by auto
  then show ?thesis
    using alloc_object_fails_iff [OF W(1) assms(2)] c n le
    by (auto simp: word_le_nat_alt)
qed

lemma demo_pool_type:
  "map_option ot_MaxInstances (APB_GetObjectType demo_pool 1) = Some 2"
  by code_simp

theorem alloc_object_capacity_witness:
  "\<exists>ot. APB_GetObjectType demo_pool 1 = Some ot \<and> ot_MaxInstances ot = 2 \<and>
     (fst (APB_AllocObjectInternal 1 demo_pool) = None \<longleftrightarrow>
       card (held_of [] 1) = unat (ot_InstanceCount ot) \<and>
       (card (held_of [] 1) = unat (ot_MaxInstances ot) \<or>
        fst (pool_alloc (NODE_SIZE ot) demo_pool) = None))"
proof -
  obtain ot where ot: "APB_GetObjectType demo_pool 1 = Some ot" "ot_MaxInstances ot = 2"
    using demo_pool_type by auto
  have "pool_holds (held_of []) demo_pool" using demo_pool_inv by (simp add: pool_holds_none del: held_of_Nil)
  note c = alloc_object_capacity [OF this ot(1)]
  show ?thesis by (rule exI [of _ ot]) (intro conjI ot c [THEN conjunct2])
qed

section \<open>Tearing a pool down\<close>

lemma RemHead_Cons [simp]: "RemHead (x # xs) = (Some x, xs)" and RemHead_Nil [simp]: "RemHead [] = (None, [])"
  by (simp_all add: RemHead_def)

lemma destroy_instances_stop: "ot_InstanceCount ot = 0 \<Longrightarrow> destroy_instances ot s = (ot, s)"
  by (simp add: destroy_instances.simps [of ot s])

lemma destroy_instances_step:
  assumes "0 < unat (ot_InstanceCount ot)"
  shows "destroy_instances ot s = destroy_instances
    (ot\<lparr>ot_Instances := tl (ot_Instances ot), ot_InstanceCount := ot_InstanceCount ot - 1\<rparr>)
    ((if ot_Instances ot = [] then add_fault BadFree else id)
       (pool_free (fst (RemHead (ot_Instances ot))) (NODE_SIZE ot) s))"
proof -
  have "0 < ot_InstanceCount ot" using assms by (simp add: u16_gt_0)
  moreover have "NODE_SIZE (ot\<lparr>ot_Instances := xs\<rparr>) = NODE_SIZE ot" for xs
    by (rule NODE_SIZE_cong) simp
  ultimately show ?thesis
    by (cases "ot_Instances ot") (simp_all add: destroy_instances.simps [of ot s] APB_DestroyInstance_def)
qed

lemma add_fault_fields [frame_simps, simp]:
  "op_Types (add_fault f s) = op_Types s" "op_MemPool (add_fault f s) = op_MemPool s"
  "op_Mem (add_fault f s) = op_Mem s" "faults (add_fault f s) = f # faults s"
  by (simp_all add: add_fault_def)

text \<open>Instances on the free list go back to Exec; for the others NULL is given back.\<close>

lemma destroy_instances_frame:
  "n = unat (ot_InstanceCount ot) \<Longrightarrow> destroy_instances ot s = (ot1, s1) \<Longrightarrow>
     ot_Addr ot1 = ot_Addr ot \<and> op_MemPool s1 = op_MemPool s \<and> op_Types s1 = op_Types s \<and>
     faults s1 = replicate (n - length (ot_Instances ot)) BadFree @ faults s"
proof (induction n arbitrary: ot s)
  case 0
  then show ?case by (simp add: destroy_instances_stop word_unat_eq_iff)
next
  case (Suc n)
  then have pos: "0 < unat (ot_InstanceCount ot)" by simp
  let ?ot = "ot\<lparr>ot_Instances := tl (ot_Instances ot), ot_InstanceCount := ot_InstanceCount ot - 1\<rparr>"
  have n: "n = unat (ot_InstanceCount ?ot)" using Suc.prems(1) unat_pred_u16 [OF pos] by simp
  note ih = Suc.IH [OF n Suc.prems(2) [unfolded destroy_instances_step [OF pos]]]
  show ?case using ih by (cases "ot_Instances ot") (simp_all add: replicate_app_Cons_same)
qed

lemma destroy_instances_live:
  "unat (ot_InstanceCount ot) = length (ot_Instances ot) \<Longrightarrow> distinct (ot_Instances ot) \<Longrightarrow>
     (\<forall>a \<in> set (ot_Instances ot). live (em_hist (op_Mem s)) a =
        Some (mem_fn_of (op_MemPool s), NODE_SIZE ot)) \<Longrightarrow>
     destroy_instances ot s = (ot1, s1) \<Longrightarrow>
     live (em_hist (op_Mem s1)) = live (em_hist (op_Mem s)) |` (- set (ot_Instances ot)) \<and>
     frees_ok (em_hist (op_Mem s1)) = frees_ok (em_hist (op_Mem s))"
proof (induction "ot_Instances ot" arbitrary: ot s)
  case Nil
  then have "ot_InstanceCount ot = 0" by (simp add: word_unat_eq_iff)
  then show ?case using Nil by (simp add: destroy_instances_stop)
next
  case (Cons x xs)
  let ?ot = "ot\<lparr>ot_Instances := xs, ot_InstanceCount := ot_InstanceCount ot - 1\<rparr>"
  let ?s = "pool_free (Some x) (NODE_SIZE ot) s"
  note e = Cons.hyps(2) [symmetric]
  have pos: "0 < unat (ot_InstanceCount ot)" using Cons.prems(1) by (simp add: e)
  have d: "destroy_instances ?ot ?s = (ot1, s1)"
    using Cons.prems(4) by (simp add: destroy_instances_step [OF pos] e)
  have c: "unat (ot_InstanceCount ?ot) = length (ot_Instances ?ot)"
    using Cons.prems(1) unat_pred_u16 [OF pos] by (simp add: e)
  have dist: "distinct (ot_Instances ?ot)" and x: "x \<notin> set xs" using Cons.prems(2) by (simp_all add: e)
  have ns: "NODE_SIZE ?ot = NODE_SIZE ot" by (rule NODE_SIZE_cong) simp
  have lv: "\<forall>a \<in> set (ot_Instances ?ot). live (em_hist (op_Mem ?s)) a =
      Some (mem_fn_of (op_MemPool ?s), NODE_SIZE ?ot)"
    using Cons.prems(3) x ns by (auto simp: pool_free_live e)
  have "frees_ok (em_hist (op_Mem ?s)) = frees_ok (em_hist (op_Mem s))"
    using Cons.prems(3) by (simp add: pool_free_def APB_FreeMemInternal_alt exec_free_facts e)
  moreover have "(live (em_hist (op_Mem s)))(x := None) |` (- set xs) =
      live (em_hist (op_Mem s)) |` (- insert x (set xs))"
    by (auto simp: restrict_map_def fun_eq_iff)
  ultimately show ?case
    using Cons.hyps(1) [of ?ot ?s, OF _ c dist lv d] by (simp add: pool_free_live e)
qed

definition type_blocks :: "object_type \<Rightarrow> addr set" where
  "type_blocks ot = insert (ot_Addr ot) (set (ot_Instances ot))"

lemma restrict_upd_None: "m1 = m |` (- S) \<Longrightarrow> m1(a := None) = m |` (- insert a S)"
  by (auto simp: restrict_map_def fun_eq_iff)

lemma destroy_type_live:
  assumes own: "type_own own {} s ot"
  shows "live (em_hist (op_Mem (APB_DestroyObjectType ot s))) =
      live (em_hist (op_Mem s)) |` (- type_blocks ot)"
    and "frees_ok (em_hist (op_Mem (APB_DestroyObjectType ot s))) = frees_ok (em_hist (op_Mem s))"
    and "faults (APB_DestroyObjectType ot s) = faults s"
    and "op_MemPool (APB_DestroyObjectType ot s) = op_MemPool s"
proof -
  obtain ot1 s1 where d: "destroy_instances ot s = (ot1, s1)" by fastforce
  have ok: "unat (ot_InstanceCount ot) = length (ot_Instances ot)" "distinct (ot_Instances ot)"
    and lv: "\<forall>a \<in> set (ot_Instances ot). live (em_hist (op_Mem s)) a =
        Some (mem_fn_of (op_MemPool s), NODE_SIZE ot)"
    and A: "live (em_hist (op_Mem s)) (ot_Addr ot) = Some (mem_fn_of (op_MemPool s), sizeof_ObjectType)"
    and Ai: "ot_Addr ot \<notin> set (ot_Instances ot)"
    using own by (auto simp: type_own_def type_ok_def)
  note l = destroy_instances_live [OF ok lv d] and f = destroy_instances_frame [OF refl d]
  have e: "APB_DestroyObjectType ot s = pool_free (Some (ot_Addr ot)) sizeof_ObjectType s1"
    using d f by (simp add: APB_DestroyObjectType_def)
  show "live (em_hist (op_Mem (APB_DestroyObjectType ot s))) =
      live (em_hist (op_Mem s)) |` (- type_blocks ot)"
    unfolding e pool_free_live type_blocks_def by (rule restrict_upd_None) (simp add: l)
  show "frees_ok (em_hist (op_Mem (APB_DestroyObjectType ot s))) = frees_ok (em_hist (op_Mem s))"
    using l f A Ai
    by (simp add: e pool_free_def APB_FreeMemInternal_alt exec_free_facts)
  show "op_MemPool (APB_DestroyObjectType ot s) = op_MemPool s" using f by (simp add: e)
  show "faults (APB_DestroyObjectType ot s) = faults s" using f ok by (simp add: e)
qed

lemma type_blocks_role:
  "type_own own U s t \<Longrightarrow> a \<in> type_blocks t \<Longrightarrow>
     own a = Some (Type_Block (ot_Id t)) \<or> own a = Some (Node_Block (ot_Id t))"
  by (auto simp: type_own_def type_blocks_def)

lemma type_blocks_disjoint:
  assumes "type_own own U s t" and "type_own own V s u" and "ot_Id t \<noteq> ot_Id u"
  shows "type_blocks t \<inter> type_blocks u = {}"
  using type_blocks_role [OF assms(1)] type_blocks_role [OF assms(2)] assms(3)
  by (fastforce simp: disjoint_iff)

lemma destroy_types_live:
  "\<forall>t \<in> set ots. type_own own {} s t \<Longrightarrow> distinct (map ot_Id ots) \<Longrightarrow>
     live (em_hist (op_Mem (destroy_types ots s))) =
       live (em_hist (op_Mem s)) |` (- (\<Union>t \<in> set ots. type_blocks t)) \<and>
     frees_ok (em_hist (op_Mem (destroy_types ots s))) = frees_ok (em_hist (op_Mem s)) \<and>
     faults (destroy_types ots s) = faults s \<and>
     op_MemPool (destroy_types ots s) = op_MemPool s"
proof (induction ots arbitrary: s)
  case (Cons t ots)
  let ?s = "APB_DestroyObjectType t s"
  have t: "type_own own {} s t" using Cons.prems(1) by simp
  note l = destroy_type_live [OF t]
  have "type_own own {} ?s u" if u: "u \<in> set ots" for u
  proof -
    have own: "type_own own {} s u" using Cons.prems(1) u by simp
    have "ot_Id t \<noteq> ot_Id u" using Cons.prems(2) u by auto
    then have "type_blocks t \<inter> type_blocks u = {}" by (rule type_blocks_disjoint [OF t own])
    then show ?thesis
      using own by (auto simp: type_own_def l type_blocks_def disjoint_iff restrict_map_def)
  qed
  then have "live (em_hist (op_Mem (destroy_types ots ?s))) =
       live (em_hist (op_Mem ?s)) |` (- (\<Union>t \<in> set ots. type_blocks t)) \<and>
     frees_ok (em_hist (op_Mem (destroy_types ots ?s))) = frees_ok (em_hist (op_Mem ?s)) \<and>
     faults (destroy_types ots ?s) = faults ?s \<and> op_MemPool (destroy_types ots ?s) = op_MemPool ?s"
    using Cons.IH [of ?s] Cons.prems(2) by simp
  moreover have "- type_blocks t \<inter> - (\<Union>t \<in> set ots. type_blocks t) =
      - (\<Union>t \<in> set (t # ots). type_blocks t)" by auto
  ultimately show ?case by (simp add: l)
qed (simp add: restrict_map_def)

text \<open>
  C25: freeing a pool whose clients hold nothing gives every block of the pool back to Exec,
  each the way it was allocated, and no other block; nothing undefined happens.
\<close>

theorem free_pool_returns_all:
  assumes "pool_inv (\<lambda>i. {}) s"
    and "live (em_hist (op_Mem s)) op = Some (mem_fn_of (op_MemPool s), sizeof_ObjectPool)"
    and "op \<notin> (\<Union>t \<in> set (op_Types s). type_blocks t)"
  shows "live (em_hist (op_Mem (APB_FreeObjectPool op s))) =
      live (em_hist (op_Mem s)) |` (- insert op (\<Union>t \<in> set (op_Types s). type_blocks t)) \<and>
    frees_ok (em_hist (op_Mem (APB_FreeObjectPool op s))) \<and>
    faults (APB_FreeObjectPool op s) = faults s"
proof -
  from assms(1) obtain own where own: "pool_own own (\<lambda>i. {}) s" by (auto simp: pool_inv_def)
  let ?s = "destroy_types (rev (op_Types s)) s"
  have l: "live (em_hist (op_Mem ?s)) =
      live (em_hist (op_Mem s)) |` (- (\<Union>t \<in> set (op_Types s). type_blocks t)) \<and>
    frees_ok (em_hist (op_Mem ?s)) \<and> faults ?s = faults s \<and> op_MemPool ?s = op_MemPool s"
    using destroy_types_live [of "rev (op_Types s)" own s] own
    by (simp add: pool_own_def mem_own_def rev_map [symmetric])
  have e: "live (em_hist (op_Mem (APB_FreeObjectPool op s))) = (live (em_hist (op_Mem ?s)))(op := None)"
    by (simp add: APB_FreeObjectPool_def pool_free_live)
  have "live (em_hist (op_Mem (APB_FreeObjectPool op s))) =
      live (em_hist (op_Mem s)) |` (- insert op (\<Union>t \<in> set (op_Types s). type_blocks t))"
    unfolding e by (rule restrict_upd_None) (simp add: l)
  moreover have "frees_ok (em_hist (op_Mem (APB_FreeObjectPool op s)))"
    using l assms(2,3)
    by (simp add: APB_FreeObjectPool_def pool_free_def APB_FreeMemInternal_alt exec_free_facts)
  moreover have "faults (APB_FreeObjectPool op s) = faults s"
    using l by (simp add: APB_FreeObjectPool_def)
  ultimately show ?thesis by blast
qed

theorem free_pool_returns_all_witness:
  "live (em_hist (op_Mem (APB_FreeObjectPool 1000 demo_pool))) =
      live (em_hist (op_Mem demo_pool)) |`
        (- insert 1000 (\<Union>t \<in> set (op_Types demo_pool). type_blocks t)) \<and>
    frees_ok (em_hist (op_Mem (APB_FreeObjectPool 1000 demo_pool))) \<and>
    faults (APB_FreeObjectPool 1000 demo_pool) = faults demo_pool"
proof (rule free_pool_returns_all)
  show "pool_inv (\<lambda>i. {}) demo_pool" using demo_pool_inv by simp
  show "live (em_hist (op_Mem demo_pool)) 1000 =
      Some (mem_fn_of (op_MemPool demo_pool), sizeof_ObjectPool)" by code_simp
  show "1000 \<notin> (\<Union>t \<in> set (op_Types demo_pool). type_blocks t)"
    unfolding type_blocks_def by code_simp
qed

lemma destroy_type_faults:
  assumes "type_ok U ot"
  shows "faults (APB_DestroyObjectType ot s) =
    replicate (unat (ot_InUseCount ot)) BadFree @ faults s"
proof -
  obtain ot1 s1 where d: "destroy_instances ot s = (ot1, s1)" by fastforce
  have "unat (ot_InstanceCount ot) - length (ot_Instances ot) = unat (ot_InUseCount ot)"
    using assms by (auto simp: type_ok_def)
  then show ?thesis
    using destroy_instances_frame [OF refl d] d by (simp add: APB_DestroyObjectType_def)
qed

lemma destroy_types_faults:
  "\<forall>t \<in> set ots. \<exists>U. type_ok U t \<Longrightarrow>
     faults (destroy_types ots s) =
       replicate (sum_list (map (unat \<circ> ot_InUseCount) ots)) BadFree @ faults s"
proof (induction ots arbitrary: s)
  case (Cons t ots)
  then obtain U where "type_ok U t" by auto
  with Cons show ?case
    by (simp add: destroy_type_faults replicate_add [symmetric] add.commute flip: append_assoc)
qed simp

lemma free_pool_faults:
  assumes "pool_holds H s0" and types: "op_Types s = op_Types s0"
  shows "faults (APB_FreeObjectPool op s) =
    replicate (\<Sum>t \<leftarrow> op_Types s. card (H (ot_Id t))) BadFree @ faults s"
proof -
  from assms(1) obtain W own where W: "pool_own own W s0" "H = (\<lambda>i. NODE_TO_OBJ ` W i)"
    by (auto simp: pool_holds_def pool_inv_def)
  have inj: "inj_on NODE_TO_OBJ A" for A by (rule inj_onI) (simp add: NODE_TO_OBJ_def)
  have ok: "type_ok (W (ot_Id t)) t" if "t \<in> set (op_Types s)" for t
    using W(1) that by (auto simp: pool_own_def type_own_def types)
  then have e: "map (unat \<circ> ot_InUseCount) (op_Types s) = map (\<lambda>t. card (H (ot_Id t))) (op_Types s)"
    by (simp add: W(2) card_image [OF inj] type_ok_def)
  have "faults (destroy_types (rev (op_Types s)) s) =
      replicate (sum_list (map (unat \<circ> ot_InUseCount) (op_Types s))) BadFree @ faults s"
    using ok by (subst destroy_types_faults) (auto simp: sum_list_rev simp flip: rev_map)
  then show ?thesis unfolding e by (simp add: APB_FreeObjectPool_def)
qed

lemma free_pool_held_faults:
  assumes h: "pool_holds H s0" and types: "op_Types s = op_Types s0" and p: "p \<in> H i"
  shows "BadFree \<in> set (faults (APB_FreeObjectPool op s))"
proof -
  from h obtain W own where W: "pool_own own W s0" "H = (\<lambda>i. NODE_TO_OBJ ` W i)"
    by (auto simp: pool_holds_def pool_inv_def)
  have "i \<in> ot_Id ` set (op_Types s0)" using W p by (auto simp: pool_own_def)
  then obtain t where t: "t \<in> set (op_Types s)" "ot_Id t = i" using types by auto
  then have "type_ok (W i) t" using W(1) by (auto simp: pool_own_def type_own_def types)
  then have "0 < card (H i)" using p W(2) by (auto simp: type_ok_def card_gt_0_iff)
  also have "card (H i) \<le> (\<Sum>t \<leftarrow> op_Types s. card (H (ot_Id t)))"
    using t by (intro member_le_sum_list) auto
  finally have "(\<Sum>t \<leftarrow> op_Types s. card (H (ot_Id t))) \<noteq> 0" by linarith
  then show ?thesis unfolding free_pool_faults [OF h types] set_append in_set_replicate Un_iff by blast
qed

text \<open>
  \<open>APB_DestroyObjectType\<close> counts instances, not list nodes, so freeing a pool while
  clients hold objects gives a NULL block back to Exec once for every object still in use.
\<close>

theorem free_pool_in_use_faults:
  assumes "pool_holds H s"
  shows "faults (APB_FreeObjectPool op s) =
    replicate (\<Sum>t \<leftarrow> op_Types s. card (H (ot_Id t))) BadFree @ faults s"
  by (rule free_pool_faults [OF assms refl])

lemma demo_one_held:
  "fst (client_run APB_AllocObjectInternal APB_FreeObjectInternal [Store_Alloc 1] [] demo_pool) \<noteq> []"
  by code_simp

theorem free_pool_in_use_faults_witness:
  "\<exists>p s. APB_AllocObjectInternal 1 demo_pool = (Some p, s) \<and>
     faults (APB_FreeObjectPool 1000 s) = [BadFree]"
proof -
  obtain p s where al: "APB_AllocObjectInternal 1 demo_pool = (Some p, s)"
    using demo_one_held by (auto split: prod.splits option.splits)
  have h: "pool_holds (held_of []) demo_pool"
    using demo_pool_inv by (simp add: pool_holds_none del: held_of_Nil)
  from obj.alloc_Some [OF h al] have hs: "pool_holds ((\<lambda>i. {})(1 := {p})) s" and f: "faults s = []"
    using demo_pool_inv by simp_all
  have "map ot_Id (op_Types (snd (APB_AllocObjectInternal 1 demo_pool))) = [1, 2]" by code_simp
  then have "map (\<lambda>i. card (((\<lambda>i. {})(1 := {p})) i)) (map ot_Id (op_Types s)) = [1, 0]"
    using al by simp
  then have "map (\<lambda>t. card (((\<lambda>i. {})(1 := {p})) (ot_Id t))) (op_Types s) = [1, 0]"
    by (simp only: map_map o_def)
  with free_pool_in_use_faults [OF hs, of 1000] f al show ?thesis by simp
qed

section \<open>The functions of the library's context\<close>

text \<open>
  The exported functions fetch the pool or the memory pool from the context and call the
  internal ones. A program has one context, and it is part of the state; its memory pool is
  the one the object pool was made with.
\<close>

definition APB_AllocMem :: "u32 \<Rightarrow> 'a pool_scheme \<Rightarrow> addr option \<times> 'a pool_scheme" where
  "APB_AllocMem n s = pool_alloc n s"

definition APB_FreeMem :: "addr option \<Rightarrow> u32 \<Rightarrow> 'a pool_scheme \<Rightarrow> 'a pool_scheme" where
  "APB_FreeMem p n s = (if p = None then add_fault BadFree else id) (pool_free p n s)"

definition APB_TypeRegistered :: "u16 \<Rightarrow> 'a pool_scheme \<Rightarrow> bool" where
  "APB_TypeRegistered i s = APB_TypeRegisteredInternal i s"

definition APB_RegisterObjectType ::
    "u16 \<Rightarrow> string \<Rightarrow> u16 \<Rightarrow> u16 \<Rightarrow> u16 \<Rightarrow> 'a pool_scheme \<Rightarrow> 'a pool_scheme" where
  "APB_RegisterObjectType i name n minInstances maxInstances s =
     APB_RegisterObjectTypeInternal i name n minInstances maxInstances s"

definition APB_AllocObject :: "u16 \<Rightarrow> 'a pool_scheme \<Rightarrow> addr option \<times> 'a pool_scheme" where
  "APB_AllocObject i s = APB_AllocObjectInternal i s"

definition APB_FreeObject :: "u16 \<Rightarrow> addr \<Rightarrow> 'a pool_scheme \<Rightarrow> 'a pool_scheme" where
  "APB_FreeObject i obj s = APB_FreeObjectInternal i obj s"

text \<open>What the components above the pool need of it.\<close>

lemma pool_holds_register:
  "pool_holds H s \<Longrightarrow> pool_holds H (APB_RegisterObjectType i name n lo hi s) \<and>
     faults (APB_RegisterObjectType i name n lo hi s) = faults s"
  by (auto simp: pool_holds_def APB_RegisterObjectType_def dest: register_type_inv)

lemmas pool_laws = obj.alloc_Some [folded APB_AllocObject_def] obj.alloc_None [folded APB_AllocObject_def]
  obj.free_held [folded APB_FreeObject_def]

lemma pool_alloc_mem_holds:
  assumes "pool_holds H s" and "APB_AllocMem n s = (p, s1)"
  shows "pool_holds H s1 \<and> faults s1 = faults s"
proof -
  from assms(1) obtain W own where W: "pool_own own W s" "H = (\<lambda>i. NODE_TO_OBJ ` W i)"
    by (auto simp: pool_holds_def pool_inv_def)
  then have mo: "mem_own own s" by (simp add: pool_own_def)
  from assms(2) have al: "pool_alloc n s = (p, s1)" by (simp add: APB_AllocMem_def)
  note fr = pool_alloc_facts [OF al]
  have k: "mem_own own s1 \<and> (\<forall>a. own a \<noteq> None \<longrightarrow>
      live (em_hist (op_Mem s1)) a = live (em_hist (op_Mem s)) a)"
  proof (cases p)
    case None
    then show ?thesis using pool_alloc_None al mo by metis
  next
    case (Some a)
    note ma = pool_alloc_Some [OF al [unfolded Some] mo]
    have "mem_own own s1" using ma(3) ma(1) by (auto simp: mem_own_def split: if_splits)
    then show ?thesis using ma(1,2) by auto
  qed
  then have "type_own own (W (ot_Id t)) s1 t" if "t \<in> set (op_Types s)" for t
    using W(1) that by (auto simp: pool_own_def type_own_def fr)
  then have "pool_own own W s1" using W(1) k by (simp add: pool_own_def fr)
  then show ?thesis using W(2) fr by (auto simp: pool_holds_def pool_inv_def)
qed

text \<open>The clients' own fields do not matter to the pool.\<close>

lemma pool_holds_cong:
  assumes "op_Types s1 = op_Types s" "op_MemPool s1 = op_MemPool s" "op_Mem s1 = op_Mem s"
  shows "pool_holds H s1 = pool_holds H s"
proof -
  have "type_own own U s1 t = type_own own U s t" for own U t by (simp add: type_own_def assms)
  then show ?thesis
    by (simp add: pool_holds_def pool_inv_def pool_own_def mem_own_def assms)
qed

text \<open>
  The pool's functions change the pool and nothing of the records that extend it:
  \<open>pool.more\<close> holds the fields of the extensions.
\<close>

lemma pool_alloc_more: "pool_alloc n s = (p, s1) \<Longrightarrow> pool.more s1 = pool.more s"
  by (auto simp: pool_alloc_def split: prod.splits)

lemma pool_free_more [frame_simps, simp]: "pool.more (pool_free p n s) = pool.more s"
  by (simp add: pool_free_def)

lemma add_fault_more [frame_simps, simp]: "pool.more (add_fault f s) = pool.more s"
  by (simp add: add_fault_def)

lemma put_type_more [frame_simps, simp]: "pool.more (put_type t s) = pool.more s"
  by (simp add: put_type_def)

lemma APB_CreateInstance_more:
  "APB_CreateInstance ot s = (p, ot1, s1) \<Longrightarrow> pool.more s1 = pool.more s"
  by (auto simp: APB_CreateInstance_def dest: pool_alloc_more split: if_splits prod.splits option.splits)

lemma APB_AllocInstance_more:
  "APB_AllocInstance ot s = (p, ot1, s1) \<Longrightarrow> pool.more s1 = pool.more s"
  by (auto simp: APB_AllocInstance_def dest: APB_CreateInstance_more
      split: if_splits prod.splits option.splits)

lemma APB_AllocObject_more: "APB_AllocObject i s = (p, s1) \<Longrightarrow> pool.more s1 = pool.more s"
  by (auto simp: APB_AllocObject_def APB_AllocObjectInternal_def dest: APB_AllocInstance_more
      split: prod.splits option.splits)

lemma APB_FreeObject_more [frame_simps, simp]: "pool.more (APB_FreeObject i p s) = pool.more s"
  by (auto simp: APB_FreeObject_def APB_FreeObjectInternal_def APB_ReleaseInstance_def
      APB_DestroyInstance_def split: prod.splits option.splits if_splits)

lemma fill_min_more: "fill_min ot s = (ot1, s1) \<Longrightarrow> pool.more s1 = pool.more s"
proof (induction ot s rule: fill_min.induct)
  case (1 ot s)
  obtain p ot2 s2 where c: "APB_CreateInstance ot s = (p, ot2, s2)"
    by (cases "APB_CreateInstance ot s") auto
  note m = APB_CreateInstance_more [OF c]
  show ?case
  proof (cases "ot_InstanceCount ot < ot_MinInstances ot \<and> p \<noteq> None")
    case True
    then obtain a where a: "p = Some a" and lt: "ot_InstanceCount ot < ot_MinInstances ot" by auto
    show ?thesis
      using "1.prems" "1.IH" [OF lt c [symmetric, unfolded a] refl refl] m c a lt
      by (simp add: fill_min.simps [of ot s])
  next
    case False
    then show ?thesis using "1.prems" m c by (auto simp: fill_min.simps [of ot s] split: if_splits)
  qed
qed

lemma APB_RegisterObjectType_more [frame_simps, simp]:
  "pool.more (APB_RegisterObjectType i name n lo hi s) = pool.more s"
  by (auto simp: APB_RegisterObjectType_def APB_RegisterObjectTypeInternal_def
      dest!: pool_alloc_more fill_min_more split: prod.splits option.splits)

lemma pool_holds_card:
  assumes "pool_holds H s"
  shows "finite (H i)" and "card (H i) < 65536"
proof -
  from assms obtain W own where W: "pool_own own W s" "H = (\<lambda>i. NODE_TO_OBJ ` W i)"
    by (auto simp: pool_holds_def pool_inv_def)
  have f: "finite (W i) \<and> card (W i) < 65536"
  proof (cases "i \<in> ot_Id ` set (op_Types s)")
    case True
    then obtain ot where "type_ok (W i) ot" using W(1) by (auto simp: pool_own_def type_own_def)
    then show ?thesis by (simp add: type_ok_def)
  next
    case False
    then show ?thesis using W(1) by (simp add: pool_own_def)
  qed
  then show "finite (H i)" by (simp add: W(2))
  show "card (H i) < 65536" using f card_image_le [of "W i" NODE_TO_OBJ] by (simp add: W(2))
qed

lemma pool_holds_length:
  assumes "pool_holds H s" and "distinct xs" and "set xs \<subseteq> H i"
  shows "length xs < 65536"
  using assms pool_holds_card [OF assms(1), of i] card_mono [of "H i" "set xs"]
  by (simp add: distinct_card)

text \<open>Exec's answers are a parameter: no operation changes them.\<close>

lemma pool_alloc_answer: "pool_alloc n s = (p, s1) \<Longrightarrow> em_answer (op_Mem s1) = em_answer (op_Mem s)"
  using em_answer_exec_alloc [of "mem_fn_of (op_MemPool s)" n "op_Mem s"]
  by (cases "exec_alloc (mem_fn_of (op_MemPool s)) n (op_Mem s)")
    (auto simp: pool_alloc_def APB_AllocMemInternal_alt simp del: em_answer_exec_alloc)

lemma create_instance_answer:
  "APB_CreateInstance ot s = (p, ot1, s1) \<Longrightarrow> em_answer (op_Mem s1) = em_answer (op_Mem s)"
  by (auto simp: APB_CreateInstance_def dest: pool_alloc_answer split: if_splits prod.splits option.splits)

lemma fill_min_answer: "fill_min ot s = (ot1, s1) \<Longrightarrow> em_answer (op_Mem s1) = em_answer (op_Mem s)"
proof (induction ot s rule: fill_min.induct)
  case (1 ot s)
  obtain p ot2 s2 where c: "APB_CreateInstance ot s = (p, ot2, s2)"
    by (cases "APB_CreateInstance ot s") auto
  note m = create_instance_answer [OF c]
  show ?case
  proof (cases "ot_InstanceCount ot < ot_MinInstances ot \<and> p \<noteq> None")
    case True
    then obtain a where a: "p = Some a" and lt: "ot_InstanceCount ot < ot_MinInstances ot" by auto
    show ?thesis
      using "1.prems" "1.IH" [OF lt c [symmetric, unfolded a] refl refl] m c a lt
      by (simp add: fill_min.simps [of ot s])
  next
    case False
    then show ?thesis using "1.prems" m c by (auto simp: fill_min.simps [of ot s] split: if_splits)
  qed
qed

lemma register_answer [frame_simps, simp]:
  "em_answer (op_Mem (APB_RegisterObjectType i name n lo hi s)) = em_answer (op_Mem s)"
  by (auto simp: APB_RegisterObjectType_def APB_RegisterObjectTypeInternal_def
      dest!: pool_alloc_answer fill_min_answer split: prod.splits option.splits)

lemma alloc_mem_bump:
  assumes "em_answer (op_Mem s) = bump"
  shows "fst (APB_AllocMem n s) \<noteq> None"
  using assms by (auto simp: APB_AllocMem_def pool_alloc_def APB_AllocMemInternal_alt exec_alloc_def
      bump_def split: prod.splits)

section \<open>When an allocation succeeds\<close>

definition registered :: "u16 \<Rightarrow> u16 \<Rightarrow> 'a pool_scheme \<Rightarrow> bool" where
  "registered i n s \<longleftrightarrow> map_option ot_MaxInstances (APB_GetObjectType s i) = Some n"

lemma registered_cong: "op_Types s1 = op_Types s \<Longrightarrow> registered i n s1 = registered i n s"
  by (simp add: registered_def APB_GetObjectType_def)

lemma registered_put_type:
  assumes "APB_GetObjectType s (ot_Id t) = Some ot" "ot_MaxInstances t = ot_MaxInstances ot"
  shows "registered i n (put_type t s) = registered i n s"
  using assms by (simp add: registered_def APB_GetObjectType_def put_type_def find_replace_type)

lemma alloc_instance_frame:
  assumes "APB_AllocInstance ot s = (p, ot1, s1)"
  shows "ot_Id ot1 = ot_Id ot" "ot_MaxInstances ot1 = ot_MaxInstances ot" "op_Types s1 = op_Types s"
    "em_answer (op_Mem s1) = em_answer (op_Mem s)"
  using assms
  by (auto simp: APB_AllocInstance_def dest: APB_CreateInstance_frame create_instance_answer
      split: if_splits prod.splits option.splits)

lemma get_type_id: "APB_GetObjectType s i = Some ot \<Longrightarrow> ot_Id ot = i"
  using find_type_Some by (auto simp: APB_GetObjectType_def)

lemma alloc_object_registered:
  assumes "APB_AllocObject i s = (p, s1)"
  shows "registered j n s1 = registered j n s" "em_answer (op_Mem s1) = em_answer (op_Mem s)"
proof -
  have r: "registered j n s1 = registered j n s \<and> em_answer (op_Mem s1) = em_answer (op_Mem s)"
  proof (cases "APB_GetObjectType s i")
    case None
    then show ?thesis using assms by (simp add: APB_AllocObject_def APB_AllocObjectInternal_def)
  next
    case (Some ot)
    obtain q ot1 s2 where al: "APB_AllocInstance ot s = (q, ot1, s2)"
      by (cases "APB_AllocInstance ot s") auto
    note f = alloc_instance_frame [OF al]
    have s1: "s1 = put_type ot1 s2"
      using assms Some al by (simp add: APB_AllocObject_def APB_AllocObjectInternal_def)
    have "APB_GetObjectType s2 (ot_Id ot1) = Some ot"
      using Some f get_type_id [OF Some] by (simp add: APB_GetObjectType_def)
    from registered_put_type [OF this f(2), of j n] show ?thesis
      using f(4) registered_cong [OF f(3)] by (simp add: s1)
  qed
  then show "registered j n s1 = registered j n s" "em_answer (op_Mem s1) = em_answer (op_Mem s)"
    by simp_all
qed

lemma find_type_append:
  "find_type (ots @ [t]) i =
     (case find_type ots i of Some ot \<Rightarrow> Some ot | None \<Rightarrow> if ot_Id t = i then Some t else None)"
  by (induction ots) auto

lemma fill_min_frame:
  "fill_min ot s = (ot1, s1) \<Longrightarrow> ot_Id ot1 = ot_Id ot \<and> ot_MaxInstances ot1 = ot_MaxInstances ot \<and>
     op_Types s1 = op_Types s"
proof (induction ot s rule: fill_min.induct)
  case (1 ot s)
  obtain p ot2 s2 where c: "APB_CreateInstance ot s = (p, ot2, s2)"
    by (cases "APB_CreateInstance ot s") auto
  note m = APB_CreateInstance_frame [OF c]
  show ?case
  proof (cases "ot_InstanceCount ot < ot_MinInstances ot \<and> p \<noteq> None")
    case True
    then obtain a where a: "p = Some a" and lt: "ot_InstanceCount ot < ot_MinInstances ot" by auto
    show ?thesis
      using "1.prems" "1.IH" [OF lt c [symmetric, unfolded a] refl refl] m c a lt
      by (simp add: fill_min.simps [of ot s])
  next
    case False
    then show ?thesis using "1.prems" m c by (auto simp: fill_min.simps [of ot s] split: if_splits)
  qed
qed

lemma register_keeps:
  assumes "registered j n s"
  shows "registered j n (APB_RegisterObjectType i name k lo hi s)"
proof (cases "APB_GetObjectType s i")
  case (Some ot)
  then show ?thesis
    using assms by (simp add: APB_RegisterObjectType_def APB_RegisterObjectTypeInternal_def)
next
  case None
  from assms obtain ot where ot: "find_type (op_Types s) j = Some ot" "ot_MaxInstances ot = n"
    by (auto simp: registered_def APB_GetObjectType_def)
  obtain p s1 where al: "pool_alloc sizeof_ObjectType s = (p, s1)" by fastforce
  note a = pool_alloc_facts(1) [OF al]
  show ?thesis
  proof (cases p)
    case p: None
    then show ?thesis
      using None al a ot by (simp add: APB_RegisterObjectType_def APB_RegisterObjectTypeInternal_def
          registered_def APB_GetObjectType_def)
  next
    case p: (Some b)
    let ?ot = "\<lparr>ot_Addr = b, ot_Id = i, ot_Name = name, ot_Size = k, ot_MinInstances = lo,
      ot_MaxInstances = hi, ot_InstanceCount = 0, ot_InUseCount = 0, ot_Instances = []\<rparr>"
    obtain ot1 s2 where fm: "fill_min ?ot s1 = (ot1, s2)" by fastforce
    have "find_type (op_Types s2 @ [ot1]) j = Some ot"
      using fill_min_frame [OF fm] a ot by (simp add: find_type_append)
    then show ?thesis
      using None al p fm ot(2) by (simp add: APB_RegisterObjectType_def APB_RegisterObjectTypeInternal_def
          registered_def APB_GetObjectType_def)
  qed
qed

lemma register_bump:
  assumes "em_answer (op_Mem s) = bump" and "\<not> APB_TypeRegistered i s"
  shows "registered i hi (APB_RegisterObjectType i name k lo hi s)"
proof -
  have none: "find_type (op_Types s) i = None"
    using assms(2) by (simp add: APB_TypeRegistered_def APB_TypeRegisteredInternal_def APB_GetObjectType_def)
  obtain b s1 where al: "pool_alloc sizeof_ObjectType s = (Some b, s1)"
    using alloc_mem_bump [OF assms(1), of sizeof_ObjectType]
    by (cases "pool_alloc sizeof_ObjectType s") (auto simp: APB_AllocMem_def)
  note a = pool_alloc_facts(1) [OF al]
  let ?ot = "\<lparr>ot_Addr = b, ot_Id = i, ot_Name = name, ot_Size = k, ot_MinInstances = lo,
    ot_MaxInstances = hi, ot_InstanceCount = 0, ot_InUseCount = 0, ot_Instances = []\<rparr>"
  obtain ot1 s2 where fm: "fill_min ?ot s1 = (ot1, s2)" by fastforce
  have "find_type (op_Types s2 @ [ot1]) i = Some ot1"
    using fill_min_frame [OF fm] a none by (simp add: find_type_append)
  then show ?thesis
    using none al fm fill_min_frame [OF fm]
    by (simp add: APB_RegisterObjectType_def APB_RegisterObjectTypeInternal_def
        registered_def APB_GetObjectType_def)
qed

lemma alloc_object_bump:
  assumes h: "pool_holds H s" and r: "registered i n s" and c: "card (H i) < unat n"
    and b: "em_answer (op_Mem s) = bump"
  shows "\<exists>p s1. APB_AllocObject i s = (Some p, s1)"
proof -
  from h obtain W own where W: "pool_own own W s" "H = (\<lambda>i. NODE_TO_OBJ ` W i)"
    by (auto simp: pool_holds_def pool_inv_def)
  from r obtain ot where ot: "APB_GetObjectType s i = Some ot" "ot_MaxInstances ot = n"
    by (auto simp: registered_def)
  have ok: "type_ok (W i) ot" using pool_own_find [OF W(1) ot(1)] by (simp add: type_own_def)
  have "inj_on NODE_TO_OBJ (W i)" by (rule inj_onI) (simp add: NODE_TO_OBJ_def)
  then have "card (H i) = unat (ot_InUseCount ot)" using ok by (simp add: W(2) card_image type_ok_def)
  moreover have "ot_Instances ot = [] \<Longrightarrow> unat (ot_InUseCount ot) = unat (ot_InstanceCount ot)"
    using ok by (simp add: type_ok_def)
  ultimately have "ot_Instances ot = [] \<Longrightarrow> \<not> ot_InstanceCount ot \<ge> ot_MaxInstances ot"
    using c ot(2) by (simp add: word_le_nat_alt)
  moreover have "fst (pool_alloc (NODE_SIZE ot) s) \<noteq> None"
    using alloc_mem_bump [OF b] by (simp add: APB_AllocMem_def)
  ultimately have "fst (APB_AllocObjectInternal i s) \<noteq> None"
    using alloc_object_fails_iff [OF W(1) ot(1)] by metis
  then show ?thesis by (cases "APB_AllocObjectInternal i s") (auto simp: APB_AllocObject_def)
qed

lemma registered_pool_alloc:
  "pool_alloc n s = (p, s1) \<Longrightarrow> registered i k s1 = registered i k s"
  by (intro registered_cong pool_alloc_facts(1))

text \<open>Registering one type leaves the others as they were.\<close>

lemma register_only:
  assumes r: "registered i n (APB_RegisterObjectType j name k lo hi s)" and ij: "i \<noteq> j"
    and b: "em_answer (op_Mem s) = bump"
  shows "registered i n s"
proof (cases "APB_GetObjectType s j")
  case (Some ot)
  then show ?thesis using r by (simp add: APB_RegisterObjectType_def APB_RegisterObjectTypeInternal_def)
next
  case None
  obtain a s1 where al: "pool_alloc sizeof_ObjectType s = (Some a, s1)"
    using alloc_mem_bump [OF b, of sizeof_ObjectType]
    by (cases "pool_alloc sizeof_ObjectType s") (auto simp: APB_AllocMem_def)
  let ?ot = "\<lparr>ot_Addr = a, ot_Id = j, ot_Name = name, ot_Size = k, ot_MinInstances = lo,
    ot_MaxInstances = hi, ot_InstanceCount = 0, ot_InUseCount = 0, ot_Instances = []\<rparr>"
  obtain ot1 s2 where fm: "fill_min ?ot s1 = (ot1, s2)" by fastforce
  show ?thesis
    using r None al fm fill_min_frame [OF fm] pool_alloc_facts(1) [OF al] ij
    by (auto simp: APB_RegisterObjectType_def APB_RegisterObjectTypeInternal_def registered_def
        APB_GetObjectType_def find_type_append split: option.splits)
qed

lemma type_registered_iff: "APB_TypeRegistered i s \<longleftrightarrow> (\<exists>n. registered i n s)"
  by (auto simp: registered_def APB_TypeRegistered_def APB_TypeRegisteredInternal_def)

lemma free_object_registered:
  "registered j n (APB_FreeObjectInternal i p s) = registered j n s"
  "em_answer (op_Mem (APB_FreeObjectInternal i p s)) = em_answer (op_Mem s)"
proof -
  have r: "registered j n (APB_FreeObjectInternal i p s) = registered j n s \<and>
    em_answer (op_Mem (APB_FreeObjectInternal i p s)) = em_answer (op_Mem s)"
  proof (cases "APB_GetObjectType s i")
    case None
    then show ?thesis by (simp add: APB_FreeObjectInternal_def)
  next
    case (Some ot)
    obtain ot1 s1 where rel: "APB_ReleaseInstance ot (OBJ_TO_NODE p) s = (ot1, s1)" by fastforce
    have f: "ot_Id ot1 = ot_Id ot" "ot_MaxInstances ot1 = ot_MaxInstances ot" "op_Types s1 = op_Types s"
        "em_answer (op_Mem s1) = em_answer (op_Mem s)"
      using rel by (auto simp: APB_ReleaseInstance_def APB_DestroyInstance_def pool_free_def APB_FreeMemInternal_alt
          add_fault_def split: if_splits)
    have "APB_GetObjectType s1 (ot_Id ot1) = Some ot"
      using Some f get_type_id [OF Some] by (simp add: APB_GetObjectType_def)
    from registered_put_type [OF this f(2), of j n] show ?thesis
      using f(4) registered_cong [OF f(3)] Some rel by (simp add: APB_FreeObjectInternal_def)
  qed
  then show "registered j n (APB_FreeObjectInternal i p s) = registered j n s"
    "em_answer (op_Mem (APB_FreeObjectInternal i p s)) = em_answer (op_Mem s)" by simp_all
qed

text \<open>A pool on the demonstration allocator, step by step.\<close>

lemma register_step:
  fixes s :: "'a pool_scheme" and name :: string and k lo hi :: u16
  assumes "pool_holds H s" "em_answer (op_Mem s) = bump" "\<And>n. \<not> registered i n s"
  defines "t \<equiv> APB_RegisterObjectTypeInternal i name k lo hi s"
  shows "pool_holds H t" "em_answer (op_Mem t) = bump" "registered i hi t" "faults t = faults s"
    "pool.more t = pool.more s" "\<And>j n. registered j n s \<Longrightarrow> registered j n t"
    "\<And>j n. j \<noteq> i \<Longrightarrow> \<not> registered j n s \<Longrightarrow> \<not> registered j n t"
proof -
  have e: "t = APB_RegisterObjectType i name k lo hi s" by (simp add: t_def APB_RegisterObjectType_def)
  show "pool_holds H t" "faults t = faults s" using pool_holds_register [OF assms(1)] by (simp_all add: e)
  show "em_answer (op_Mem t) = bump" "pool.more t = pool.more s" by (simp_all add: e assms(2))
  show "registered i hi t"
    unfolding e by (rule register_bump [OF assms(2)]) (simp add: type_registered_iff assms(3))
  show "registered j n t" if "registered j n s" for j n unfolding e by (rule register_keeps [OF that])
  show "\<not> registered j n t" if "j \<noteq> i" "\<not> registered j n s" for j n
    using register_only [OF _ that(1) assms(2)] that(2) unfolding e by blast
qed

lemma alloc_step:
  assumes "pool_holds H s" "em_answer (op_Mem s) = bump" "registered i n s" "card (H i) < unat n"
  obtains p t where "APB_AllocObjectInternal i s = (Some p, t)" "pool_holds (H(i := insert p (H i))) t"
    "em_answer (op_Mem t) = bump" "\<And>j m. registered j m t = registered j m s" "faults t = faults s"
    "pool.more t = pool.more s" "p \<notin> H i"
proof -
  obtain p t where al: "APB_AllocObject i s = (Some p, t)"
    using alloc_object_bump [OF assms(1,3,4,2)] by (elim exE)
  note l = pool_laws(1) [OF assms(1) al] and r = alloc_object_registered [OF al] and m = APB_AllocObject_more [OF al]
  show ?thesis
    using that [of p t] al l r m assms(2) by (simp add: APB_AllocObject_def)
qed

end
