(* ===== verification/Buffer.thy ===== *)
theory Buffer
  imports ObjectPool
begin

text \<open>
  The server's data buffers (server/buffer.c, server/buffer.h) and its object type ids
  (server/objtype.h). A buffer lives at an address of the object pool; its fields are a heap
  \<open>h_Buf\<close> over addresses. A pointer into \<open>b_Data\<close> is a buffer address and an index; indices
  from \<open>BUFFER_SIZE\<close> on stand for the memory behind the array. \<open>b_Ctx\<close> is the one context.
\<close>

section \<open>Object types\<close>

definition OT_BUFFER :: u16 where "OT_BUFFER = 100"
definition OT_IN_PACKET :: u16 where "OT_IN_PACKET = 200"
definition OT_IN_BUFFER :: u16 where "OT_IN_BUFFER = 300"
definition OT_CONNECTION :: u16 where "OT_CONNECTION = 400"
definition OT_OUT_PACKET :: u16 where "OT_OUT_PACKET = 500"
definition OT_OUT_BUFFER :: u16 where "OT_OUT_BUFFER = 600"
definition OT_EVENT_SUB :: u16 where "OT_EVENT_SUB = 700"
definition OT_EVENT :: u16 where "OT_EVENT = 800"
definition OT_EVENT_NODE :: u16 where "OT_EVENT_NODE = 900"

lemmas OT_defs = OT_BUFFER_def OT_IN_PACKET_def OT_IN_BUFFER_def OT_CONNECTION_def
  OT_OUT_PACKET_def OT_OUT_BUFFER_def OT_EVENT_SUB_def OT_EVENT_def OT_EVENT_NODE_def

lemma OT_distinct [simp]:
  "OT_BUFFER \<noteq> OT_IN_PACKET" "OT_BUFFER \<noteq> OT_IN_BUFFER" "OT_BUFFER \<noteq> OT_CONNECTION"
  "OT_BUFFER \<noteq> OT_OUT_PACKET" "OT_BUFFER \<noteq> OT_OUT_BUFFER"
  "OT_IN_PACKET \<noteq> OT_BUFFER" "OT_IN_PACKET \<noteq> OT_IN_BUFFER" "OT_IN_PACKET \<noteq> OT_CONNECTION"
  "OT_IN_PACKET \<noteq> OT_OUT_PACKET" "OT_IN_PACKET \<noteq> OT_OUT_BUFFER"
  "OT_IN_BUFFER \<noteq> OT_BUFFER" "OT_IN_BUFFER \<noteq> OT_IN_PACKET" "OT_IN_BUFFER \<noteq> OT_CONNECTION"
  "OT_IN_BUFFER \<noteq> OT_OUT_PACKET" "OT_IN_BUFFER \<noteq> OT_OUT_BUFFER"
  "OT_OUT_PACKET \<noteq> OT_BUFFER" "OT_OUT_PACKET \<noteq> OT_IN_PACKET" "OT_OUT_PACKET \<noteq> OT_IN_BUFFER"
  "OT_OUT_PACKET \<noteq> OT_CONNECTION" "OT_OUT_PACKET \<noteq> OT_OUT_BUFFER"
  "OT_OUT_BUFFER \<noteq> OT_BUFFER" "OT_OUT_BUFFER \<noteq> OT_IN_PACKET" "OT_OUT_BUFFER \<noteq> OT_IN_BUFFER"
  "OT_OUT_BUFFER \<noteq> OT_CONNECTION" "OT_OUT_BUFFER \<noteq> OT_OUT_PACKET"
  "OT_CONNECTION \<noteq> OT_BUFFER" "OT_CONNECTION \<noteq> OT_IN_PACKET" "OT_CONNECTION \<noteq> OT_IN_BUFFER"
  "OT_CONNECTION \<noteq> OT_OUT_PACKET" "OT_CONNECTION \<noteq> OT_OUT_BUFFER"
  by (simp_all add: OT_defs)

section \<open>Buffers\<close>

definition BUFFER_SIZE :: nat where "BUFFER_SIZE = 4096"
definition MIN_BUFFERS :: u16 where "MIN_BUFFERS = 8"
definition MAX_BUFFERS :: u16 where "MAX_BUFFERS = 16"

record buffer =
  b_Offset :: u16
  b_Data :: bytes

record buf_state = pool +
  h_Buf :: "addr \<Rightarrow> buffer"

type_synonym bptr = "addr \<times> nat"

definition sizeof_Buffer :: u16 where "sizeof_Buffer = 4110"

abbreviation buf_offset :: "'a buf_state_scheme \<Rightarrow> addr \<Rightarrow> nat" where
  "buf_offset s b \<equiv> unat (b_Offset (h_Buf s b))"

definition BUF_CURR :: "'a buf_state_scheme \<Rightarrow> addr \<Rightarrow> bptr" where
  "BUF_CURR s b = (b, buf_offset s b)"

definition BUF_AVAIL :: "'a buf_state_scheme \<Rightarrow> addr \<Rightarrow> int" where
  "BUF_AVAIL s b = int BUFFER_SIZE - int (buf_offset s b)"

definition BUF_FULL :: "'a buf_state_scheme \<Rightarrow> addr \<Rightarrow> bool" where
  "BUF_FULL s b \<longleftrightarrow> BUFFER_SIZE = buf_offset s b"

definition upd_buf :: "addr \<Rightarrow> (buffer \<Rightarrow> buffer) \<Rightarrow> 'a buf_state_scheme \<Rightarrow> 'a buf_state_scheme" where
  "upd_buf b f s = s\<lparr>h_Buf := (h_Buf s)(b := f (h_Buf s b))\<rparr>"

text \<open>A write to memory: \<open>f\<close> changes bytes of \<open>b_Data\<close> up to index \<open>hi\<close> (excluded).\<close>

definition write_buf ::
    "addr \<Rightarrow> nat \<Rightarrow> (bytes \<Rightarrow> bytes) \<Rightarrow> 'a buf_state_scheme \<Rightarrow> 'a buf_state_scheme" where
  "write_buf b hi f s =
     (if hi \<le> BUFFER_SIZE then id else add_fault OutOfBounds)
       (upd_buf b (\<lambda>x. x\<lparr>b_Data := f (b_Data x)\<rparr>) s)"

abbreviation buf_data :: "'a buf_state_scheme \<Rightarrow> addr \<Rightarrow> bytes" where
  "buf_data s b \<equiv> b_Data (h_Buf s b)"

definition APB_AllocateBuffer :: "'a buf_state_scheme \<Rightarrow> addr option \<times> 'a buf_state_scheme" where
  "APB_AllocateBuffer s =
     (let s1 = if APB_TypeRegistered OT_BUFFER s then s
               else APB_RegisterObjectType OT_BUFFER ''Buffer'' sizeof_Buffer MIN_BUFFERS MAX_BUFFERS s
      in if \<not> APB_TypeRegistered OT_BUFFER s1 then (None, s1)
         else case APB_AllocObject OT_BUFFER s1 of
                (None, s2) \<Rightarrow> (None, s2)
              | (Some buf, s2) \<Rightarrow> (Some buf, upd_buf buf (\<lambda>x. x\<lparr>b_Offset := 0\<rparr>) s2))"

definition APB_ReleaseBuffer :: "addr \<Rightarrow> 'a buf_state_scheme \<Rightarrow> 'a buf_state_scheme" where
  "APB_ReleaseBuffer buf s = APB_FreeObject OT_BUFFER buf s"

section \<open>Frame rules\<close>

lemma upd_buf_frame [frame_simps, simp]:
  "op_Types (upd_buf b f s) = op_Types s" "op_MemPool (upd_buf b f s) = op_MemPool s"
  "op_Mem (upd_buf b f s) = op_Mem s" "faults (upd_buf b f s) = faults s"
  by (simp_all add: upd_buf_def)

lemma h_Buf_upd_buf [simp]: "h_Buf (upd_buf b f s) = (h_Buf s)(b := f (h_Buf s b))"
  by (simp add: upd_buf_def)

lemma pool_holds_upd_buf [simp]: "pool_holds H (upd_buf b f s) = pool_holds H s"
  by (rule pool_holds_cong) simp_all

lemma h_Buf_more: "pool.more s1 = pool.more s \<Longrightarrow> h_Buf s1 = h_Buf s"
  by (cases s, cases s1) simp

lemma write_buf_frame [frame_simps, simp]:
  "op_Types (write_buf b hi f s) = op_Types s" "op_MemPool (write_buf b hi f s) = op_MemPool s"
  "op_Mem (write_buf b hi f s) = op_Mem s"
  by (simp_all add: write_buf_def)

lemma pool_holds_write_buf [simp]: "pool_holds H (write_buf b hi f s) = pool_holds H s"
  by (rule pool_holds_cong) simp_all

lemma faults_write_buf:
  "faults (write_buf b hi f s) = (if hi \<le> BUFFER_SIZE then faults s else OutOfBounds # faults s)"
  by (simp add: write_buf_def)

lemma h_Buf_write_buf [simp]:
  "h_Buf (write_buf b hi f s) = (h_Buf s)(b := (h_Buf s b)\<lparr>b_Data := f (buf_data s b)\<rparr>)"
  by (simp add: write_buf_def add_fault_def upd_buf_def)

lemma buf_more_write_buf [frame_simps, simp]: "buf_state.more (write_buf b hi f s) = buf_state.more s"
  by (simp add: write_buf_def add_fault_def upd_buf_def)

lemma buf_more_upd_buf [frame_simps, simp]: "buf_state.more (upd_buf b f s) = buf_state.more s"
  by (simp add: upd_buf_def)

lemma buf_more_pool: "pool.more s1 = pool.more s \<Longrightarrow> buf_state.more s1 = buf_state.more s"
  by (cases s, cases s1) simp

section \<open>Allocating and releasing\<close>

lemma h_Buf_register [frame_simps, simp]:
  "h_Buf (APB_RegisterObjectType i name n lo hi s) = h_Buf s"
  by (rule h_Buf_more) (rule APB_RegisterObjectType_more)

lemma APB_AllocateBuffer_more:
  assumes "APB_AllocateBuffer s = (p, s1)"
  shows "buf_state.more s1 = buf_state.more s"
proof -
  let ?s = "if APB_TypeRegistered OT_BUFFER s then s
      else APB_RegisterObjectType OT_BUFFER ''Buffer'' sizeof_Buffer MIN_BUFFERS MAX_BUFFERS s"
  have r: "buf_state.more ?s = buf_state.more s" by (rule buf_more_pool) simp
  show ?thesis
  proof (cases "APB_TypeRegistered OT_BUFFER ?s")
    case True
    obtain q s2 where al: "APB_AllocObject OT_BUFFER ?s = (q, s2)" by fastforce
    from buf_more_pool [OF APB_AllocObject_more [OF al]] have "buf_state.more s2 = buf_state.more ?s" .
    then show ?thesis
      using assms True al r by (cases q) (auto simp: APB_AllocateBuffer_def Let_def)
  next
    case False
    then show ?thesis using assms r by (simp add: APB_AllocateBuffer_def Let_def)
  qed
qed

lemma APB_AllocateBuffer_holds:
  assumes h: "pool_holds H s" and al: "APB_AllocateBuffer s = (p, s1)"
  shows "faults s1 = faults s \<and>
    (case p of None \<Rightarrow> pool_holds H s1 \<and> h_Buf s1 = h_Buf s
     | Some b \<Rightarrow> b \<notin> H OT_BUFFER \<and> pool_holds (H(OT_BUFFER := insert b (H OT_BUFFER))) s1 \<and>
         h_Buf s1 = (h_Buf s)(b := (h_Buf s b)\<lparr>b_Offset := 0\<rparr>))"
proof -
  let ?s = "if APB_TypeRegistered OT_BUFFER s then s
      else APB_RegisterObjectType OT_BUFFER ''Buffer'' sizeof_Buffer MIN_BUFFERS MAX_BUFFERS s"
  have h': "pool_holds H ?s" "faults ?s = faults s" "h_Buf ?s = h_Buf s"
    using pool_holds_register [OF h] by (simp_all add: h)
  show ?thesis
  proof (cases "APB_TypeRegistered OT_BUFFER ?s")
    case True
    obtain q s2 where q: "APB_AllocObject OT_BUFFER ?s = (q, s2)" by fastforce
    note hb = h_Buf_more [OF APB_AllocObject_more [OF q]]
    show ?thesis
    proof (cases q)
      case None
      with pool_laws(2) [OF h'(1), of OT_BUFFER s2] q al True hb h' show ?thesis
        by (simp add: APB_AllocateBuffer_def Let_def)
    next
      case (Some b)
      with pool_laws(1) [OF h'(1), of OT_BUFFER b s2] q al True hb h' show ?thesis
        by (auto simp: APB_AllocateBuffer_def Let_def)
    qed
  next
    case False
    then show ?thesis using al h' by (simp add: APB_AllocateBuffer_def Let_def)
  qed
qed

lemma APB_ReleaseBuffer_frame [frame_simps, simp]:
  "h_Buf (APB_ReleaseBuffer b s) = h_Buf s"
  "buf_state.more (APB_ReleaseBuffer b s) = buf_state.more s"
  unfolding APB_ReleaseBuffer_def
  by (rule h_Buf_more [OF APB_FreeObject_more], rule buf_more_pool [OF APB_FreeObject_more])

lemma APB_ReleaseBuffer_holds:
  "pool_holds H s \<Longrightarrow> b \<in> H OT_BUFFER \<Longrightarrow>
     pool_holds (H(OT_BUFFER := H OT_BUFFER - {b})) (APB_ReleaseBuffer b s) \<and>
     faults (APB_ReleaseBuffer b s) = faults s"
  unfolding APB_ReleaseBuffer_def by (rule pool_laws(3))

end
