(* ===== verification/SerialRemote.thy ===== *)
theory SerialRemote
  imports Buffer
begin

text \<open>
  The serial transport (remote/serialremote.c): a remote reads one byte at a time
  asynchronously, then whatever else the device holds, into the buffer it was given, and
  writes from a buffer. Exec and serial.device are not part of the repository: what they
  answer is a parameter of each operation (the signal bits of new ports, whether a device
  opens, the bytes a finished read delivered, the count a query gives). What the program asks
  of the device is kept in \<open>ser_io\<close>, oldest first.
\<close>

section \<open>State\<close>

text \<open>An IOExtSer: the fields the code sets or reads. CMD and flags by name.\<close>

datatype ser_cmd = CMD_READ | CMD_WRITE | CMD_FLUSH | SDCMD_QUERY | SDCMD_SETPARAMS | CMD_NONE

record io_ext_ser =
  io_Command :: ser_cmd
  io_Length :: u32
  io_Data :: "bptr option"
  io_Actual :: u32
  io_PartyOn :: bool
  io_XDisabled :: bool
  io_Baud :: u32
  io_ReadLen :: u8
  io_WriteLen :: u8
  io_StopBits :: u8

definition new_io :: io_ext_ser where
  "new_io = \<lparr>io_Command = CMD_NONE, io_Length = 0, io_Data = None, io_Actual = 0,
     io_PartyOn = False, io_XDisabled = False, io_Baud = 0, io_ReadLen = 0, io_WriteLen = 0,
     io_StopBits = 0\<rparr>"

text \<open>A message port is known by its signal bit (\<open>mp_SigBit\<close>, below 32).\<close>

record remote =
  r_ReadPort :: "nat option"
  r_WritePort :: "nat option"
  r_ReadReq :: "io_ext_ser option"
  r_WriteReq :: "io_ext_ser option"
  r_ReadBuf :: "bptr option"
  r_ReadBufSize :: u16
  r_BytesRead :: u16
  r_ReadReady :: bool
  r_WriteReady :: bool
  r_Device :: "string option"
  r_Unit :: u16
  r_DataBits :: u16
  r_StopBits :: u16
  r_Baud :: u32
  r_Parity :: bool

datatype ser_event =
    Ser_Read "bptr option" u32
  | Ser_Write "u8 list"
  | Ser_Do ser_cmd
  | Ser_Abort
  | Ser_Close

record rem_state = buf_state +
  rem :: remote
  ser_io :: "ser_event list"

definition upd_rem :: "(remote \<Rightarrow> remote) \<Rightarrow> 'a rem_state_scheme \<Rightarrow> 'a rem_state_scheme" where
  "upd_rem f s = s\<lparr>rem := f (rem s)\<rparr>"

definition ser_do :: "ser_event \<Rightarrow> 'a rem_state_scheme \<Rightarrow> 'a rem_state_scheme" where
  "ser_do e s = s\<lparr>ser_io := ser_io s @ [e]\<rparr>"

section \<open>Reading\<close>

text \<open>The device stores bytes through a pointer; through NULL it is a fault.\<close>

definition put_list :: "nat \<Rightarrow> u8 list \<Rightarrow> bytes \<Rightarrow> bytes" where
  "put_list i xs m = (\<lambda>k. if i \<le> k \<and> k < i + length xs then xs ! (k - i) else m k)"

definition dev_store :: "bptr option \<Rightarrow> u8 list \<Rightarrow> 'a rem_state_scheme \<Rightarrow> 'a rem_state_scheme" where
  "dev_store p xs s =
     (if xs = [] then s
      else case p of
             None \<Rightarrow> add_fault NullDeref s
           | Some (b, i) \<Rightarrow> write_buf b (i + length xs) (put_list i xs) s)"

definition BeginRead :: "'a rem_state_scheme \<Rightarrow> 'a rem_state_scheme" where
  "BeginRead s =
     (case r_ReadReq (rem s) of
        None \<Rightarrow> add_fault NullDeref s
      | Some req \<Rightarrow>
          let req1 = req\<lparr>io_Command := CMD_READ, io_Length := 1, io_Data := r_ReadBuf (rem s)\<rparr>
          in ser_do (Ser_Read (r_ReadBuf (rem s)) 1)
               (upd_rem (\<lambda>r. r\<lparr>r_BytesRead := 0, r_ReadReq := Some req1\<rparr>) s))"

text \<open>
  \<open>ContinueRead\<close> finds the finished read's \<open>io_Actual\<close> in the request; \<open>unread\<close> is the
  device's answer to the query, \<open>rest\<close> what the second read delivers.
\<close>

definition ContinueRead ::
    "io_ext_ser \<Rightarrow> u32 \<Rightarrow> u8 list \<Rightarrow> 'a rem_state_scheme \<Rightarrow> 'a rem_state_scheme" where
  "ContinueRead req unread rest s =
     (let n = r_BytesRead (rem s) + ucast (io_Actual req);
          req1 = req\<lparr>io_Command := SDCMD_QUERY, io_Actual := unread\<rparr>;
          s1 = ser_do (Ser_Do SDCMD_QUERY)
                 (upd_rem (\<lambda>r. r\<lparr>r_BytesRead := n, r_ReadReq := Some req1\<rparr>) s);
          space = r_ReadBufSize (rem s) - n
      in if unread = 0 \<or> space = 0 then s1
         else
           let size = (if ucast space > unread then ucast unread else space) :: u16;
               p = map_option (\<lambda>(b, i). (b, i + unat n)) (r_ReadBuf (rem s));
               req2 = req1\<lparr>io_Command := CMD_READ, io_Length := ucast size, io_Data := p\<rparr>
           in dev_store p (take (unat size) rest)
                (ser_do (Ser_Do CMD_READ)
                  (upd_rem (\<lambda>r. r\<lparr>r_BytesRead := n + size, r_ReadReq := Some req2\<rparr>) s1)))"

section \<open>Life cycle\<close>

definition new_remote :: remote where
  "new_remote = \<lparr>r_ReadPort = None, r_WritePort = None, r_ReadReq = None, r_WriteReq = None,
     r_ReadBuf = None, r_ReadBufSize = 0, r_BytesRead = 0, r_ReadReady = False,
     r_WriteReady = False, r_Device = None, r_Unit = 0, r_DataBits = 8, r_StopBits = 1,
     r_Baud = 19200, r_Parity = False\<rparr>"

definition sizeof_Remote :: u32 where "sizeof_Remote = 44"

definition REM_CreateRemote :: "exec_mem \<Rightarrow> (addr \<times> remote) option \<times> exec_mem" where
  "REM_CreateRemote m =
     (case exec_alloc Exec_Mem sizeof_Remote m of
        (None, m1) \<Rightarrow> (None, m1)
      | (Some a, m1) \<Rightarrow> (Some (a, new_remote), m1))"

text \<open>The device name is a block of its own, at address \<open>devAddr\<close>.\<close>

definition REM_DestroyRemote :: "addr \<Rightarrow> addr \<Rightarrow> remote \<Rightarrow> exec_mem \<Rightarrow> exec_mem" where
  "REM_DestroyRemote remoteAddr devAddr r m =
     exec_free Exec_Mem (Some remoteAddr) sizeof_Remote
       (case r_Device r of
          None \<Rightarrow> m
        | Some d \<Rightarrow> exec_free Exec_Mem (Some devAddr) (of_nat (length d) + 1) m)"

text \<open>
  The argument array: what the user did not give keeps the value the template put there. The
  values are addresses (0 is NULL): of a string for DEVICE, of a LONG for the \<open>/N\<close> arguments,
  a truth value for PARITY.
\<close>

record remote_args =
  ra_Device :: addr
  ra_Unit :: addr
  ra_Baud :: addr
  ra_DataBits :: addr
  ra_Parity :: addr
  ra_StopBits :: addr

definition sizeof_RemoteArgs :: u32 where "sizeof_RemoteArgs = 10 + 4 * 6"

text \<open>\<open>SERIALNAME\<close> is a string constant of the library at address \<open>serialName\<close>.\<close>

definition REM_GetArgTemplate :: "addr \<Rightarrow> exec_mem \<Rightarrow> (addr \<times> remote_args) option \<times> exec_mem" where
  "REM_GetArgTemplate serialName m =
     (case exec_alloc Exec_Mem sizeof_RemoteArgs m of
        (None, m1) \<Rightarrow> (None, m1)
      | (Some a, m1) \<Rightarrow>
          (Some (a, \<lparr>ra_Device = serialName, ra_Unit = 0, ra_Baud = 19200, ra_DataBits = 8,
             ra_Parity = 0, ra_StopBits = 1\<rparr>), m1))"

text \<open>\<open>str\<close> and \<open>long\<close> read the string and the LONG at an address.\<close>

definition REM_ConfigureRemote ::
    "(addr \<Rightarrow> string) \<Rightarrow> (addr \<Rightarrow> u32) \<Rightarrow> addr \<Rightarrow> remote_args \<Rightarrow> remote \<Rightarrow> exec_mem \<Rightarrow>
     bool \<times> remote \<times> exec_mem" where
  "REM_ConfigureRemote str long raAddr ra r m =
     (let d = str (ra_Device ra);
          (dev, m1) = (if ra_Device ra \<noteq> 0
             then exec_alloc Exec_Mem (of_nat (length d) + 1) m else (Some 0, m));
          r1 = (if ra_Device ra \<noteq> 0
             then r\<lparr>r_Device := (case dev of None \<Rightarrow> None | Some _ \<Rightarrow> Some d)\<rparr> else r);
          set = (\<lambda>a f r. if a \<noteq> 0 then f (\<lambda>_. ucast (long a)) r else r);
          r2 = (if dev = None then r1
             else
               set (ra_StopBits ra) r_StopBits_update
                 ((if ra_Parity ra \<noteq> 0 then r_Parity_update (\<lambda>_. True) else id)
                   (set (ra_DataBits ra) r_DataBits_update
                     ((if ra_Baud ra \<noteq> 0
                       then r_Baud_update (\<lambda>_. ucast (ucast (long (ra_Baud ra)) :: u16)) else id)
                       (set (ra_Unit ra) r_Unit_update r1)))))
      in (dev \<noteq> None, r2, exec_free Exec_Mem (Some raAddr) sizeof_RemoteArgs m1))"

record open_answer =
  oa_ReadPort :: "nat option"
  oa_WritePort :: "nat option"
  oa_ReadReq :: bool
  oa_WriteReq :: bool
  oa_Device :: bool

definition REM_OpenRemote :: "open_answer \<Rightarrow> 'a rem_state_scheme \<Rightarrow> bool \<times> 'a rem_state_scheme" where
  "REM_OpenRemote oa s =
     (let r = rem s in
      if oa_ReadPort oa \<noteq> None \<and> oa_WritePort oa \<noteq> None \<and> oa_ReadReq oa \<and> oa_WriteReq oa \<and>
         oa_Device oa
      then
        let req = new_io\<lparr>io_Command := SDCMD_SETPARAMS, io_PartyOn := r_Parity r,
              io_XDisabled := True, io_Baud := r_Baud r, io_ReadLen := ucast (r_DataBits r),
              io_WriteLen := ucast (r_DataBits r), io_StopBits := ucast (r_StopBits r)\<rparr>;
            req1 = req\<lparr>io_Command := CMD_FLUSH\<rparr>
        in (True, ser_do (Ser_Do CMD_FLUSH) (ser_do (Ser_Do SDCMD_SETPARAMS)
              (upd_rem (\<lambda>r. r\<lparr>r_ReadPort := oa_ReadPort oa, r_WritePort := oa_WritePort oa,
                 r_ReadReq := Some req1, r_WriteReq := Some req1, r_ReadBuf := None,
                 r_ReadBufSize := 0, r_BytesRead := 0, r_ReadReady := True,
                 r_WriteReady := True\<rparr>) s)))
      else (False, s))"

definition REM_CloseRemote :: "'a rem_state_scheme \<Rightarrow> 'a rem_state_scheme" where
  "REM_CloseRemote s =
     upd_rem (\<lambda>r. r\<lparr>r_ReadPort := None, r_WritePort := None, r_ReadReq := None,
         r_WriteReq := None, r_ReadReady := False, r_WriteReady := False, r_ReadBuf := None\<rparr>)
       ((if r_WriteReq (rem s) \<noteq> None then ser_do Ser_Close \<circ> ser_do Ser_Abort else id)
         ((if r_ReadReq (rem s) \<noteq> None then ser_do Ser_Abort else id) s))"

section \<open>The interface of remote.library\<close>

definition REM_GetSignalBits :: "'a rem_state_scheme \<Rightarrow> u32" where
  "REM_GetSignalBits s =
     (case (r_ReadPort (rem s), r_WritePort (rem s)) of
        (Some p, Some q) \<Rightarrow> push_bit p 1 OR push_bit q 1
      | _ \<Rightarrow> 0)"

text \<open>
  What the device answers when a signal came: the bytes of the finished one-byte read, the
  number of unread bytes, and the bytes of the second read.
\<close>

record ser_answer =
  sa_First :: "u8 list"
  sa_Unread :: u32
  sa_Rest :: "u8 list"

definition handle_read :: "ser_answer \<Rightarrow> 'a rem_state_scheme \<Rightarrow> 'a rem_state_scheme" where
  "handle_read sa s =
     (case r_ReadReq (rem s) of
        None \<Rightarrow> add_fault NullDeref s
      | Some req \<Rightarrow>
          let first = take (unat (io_Length req)) (sa_First sa)
          in upd_rem (\<lambda>r. r\<lparr>r_ReadReady := True\<rparr>)
               (ContinueRead (req\<lparr>io_Actual := of_nat (length first)\<rparr>) (sa_Unread sa) (sa_Rest sa)
                 (dev_store (io_Data req) first s)))"

text \<open>\<open>mp_SigBit\<close> of a NULL port is a read through NULL; no branch is taken then.\<close>

definition port_signalled :: "nat option \<Rightarrow> u32 \<Rightarrow> bool" where
  "port_signalled p signalBits = (case p of None \<Rightarrow> False | Some i \<Rightarrow> bit signalBits i)"

definition null_port :: "nat option \<Rightarrow> 'a rem_state_scheme \<Rightarrow> 'a rem_state_scheme" where
  "null_port p s = (if p = None then add_fault NullDeref s else s)"

definition REM_HandleSignal ::
    "u32 \<Rightarrow> ser_answer \<Rightarrow> 'a rem_state_scheme \<Rightarrow> 'a rem_state_scheme" where
  "REM_HandleSignal signalBits sa s =
     (let s1 = null_port (r_ReadPort (rem s)) s;
          s2 = (if port_signalled (r_ReadPort (rem s)) signalBits then handle_read sa s1 else s1);
          s3 = null_port (r_WritePort (rem s)) s2
      in if port_signalled (r_WritePort (rem s)) signalBits
         then upd_rem (\<lambda>r. r\<lparr>r_WriteReady := True\<rparr>) s3 else s3)"

definition REM_CanRead :: "'a rem_state_scheme \<Rightarrow> bool" where
  "REM_CanRead s = r_ReadReady (rem s)"

definition REM_Read :: "bptr option \<Rightarrow> u16 \<Rightarrow> 'a rem_state_scheme \<Rightarrow> 'a rem_state_scheme" where
  "REM_Read data n s =
     BeginRead (upd_rem (\<lambda>r. r\<lparr>r_ReadBuf := data, r_ReadBufSize := n, r_BytesRead := 0,
       r_ReadReady := False\<rparr>) s)"

definition REM_BytesRead :: "'a rem_state_scheme \<Rightarrow> u16" where
  "REM_BytesRead s = r_BytesRead (rem s)"

definition REM_CanWrite :: "'a rem_state_scheme \<Rightarrow> bool" where
  "REM_CanWrite s = r_WriteReady (rem s)"

text \<open>The device is handed the bytes that are in the buffer when the write starts.\<close>

definition REM_Write :: "bptr option \<Rightarrow> u16 \<Rightarrow> 'a rem_state_scheme \<Rightarrow> 'a rem_state_scheme" where
  "REM_Write data n s =
     (case data of
        None \<Rightarrow> s
      | Some (b, i) \<Rightarrow>
          if n = 0 then s
          else case r_WriteReq (rem s) of
                 None \<Rightarrow> add_fault NullDeref s
               | Some req \<Rightarrow>
                   ser_do (Ser_Write (bytes_of (buf_data s b) i (unat n)))
                     (upd_rem (\<lambda>r. r\<lparr>r_WriteReady := False,
                        r_WriteReq := Some (req\<lparr>io_Command := CMD_WRITE, io_Length := ucast n,
                          io_Data := data\<rparr>)\<rparr>) s))"

section \<open>Frame rules\<close>

lemma upd_rem_frame [frame_simps, simp]:
  "op_Types (upd_rem f s) = op_Types s" "op_MemPool (upd_rem f s) = op_MemPool s"
  "op_Mem (upd_rem f s) = op_Mem s" "faults (upd_rem f s) = faults s" "h_Buf (upd_rem f s) = h_Buf s"
  "rem (upd_rem f s) = f (rem s)" "ser_io (upd_rem f s) = ser_io s"
  "rem_state.more (upd_rem f s) = rem_state.more s"
  by (simp_all add: upd_rem_def)

lemma ser_do_frame [frame_simps, simp]:
  "op_Types (ser_do e s) = op_Types s" "op_MemPool (ser_do e s) = op_MemPool s"
  "op_Mem (ser_do e s) = op_Mem s" "faults (ser_do e s) = faults s" "h_Buf (ser_do e s) = h_Buf s"
  "rem (ser_do e s) = rem s" "ser_io (ser_do e s) = ser_io s @ [e]"
  "rem_state.more (ser_do e s) = rem_state.more s"
  by (simp_all add: ser_do_def)

lemma rem_more: "buf_state.more s1 = buf_state.more s \<Longrightarrow> rem s1 = rem s"
  and ser_io_more: "buf_state.more s1 = buf_state.more s \<Longrightarrow> ser_io s1 = ser_io s"
  and rem_state_more: "buf_state.more s1 = buf_state.more s \<Longrightarrow> rem_state.more s1 = rem_state.more s"
  by (cases s, cases s1, simp)+

lemma rem_write_buf [frame_simps, simp]:
  "rem (write_buf b hi f s) = rem s" "ser_io (write_buf b hi f s) = ser_io s"
  "rem_state.more (write_buf b hi f s) = rem_state.more s"
  by (rule rem_more ser_io_more rem_state_more, simp)+

lemma add_fault_rem [frame_simps, simp]:
  "h_Buf (add_fault f s) = h_Buf s" "rem (add_fault f s) = rem s" "ser_io (add_fault f s) = ser_io s"
  "rem_state.more (add_fault f s) = rem_state.more s"
  by (simp_all add: add_fault_def)

lemma put_list_append:
  "put_list (i + length xs) ys (put_list i xs m) = put_list i (xs @ ys) m"
  by (auto simp: put_list_def fun_eq_iff nth_append)

lemma bytes_of_put_list [layout_simps, simp]: "bytes_of (put_list i xs m) i (length xs) = xs"
  by (rule nth_equalityI) (simp_all add: put_list_def)

lemma put_list_outside: "k < i \<or> i + length xs \<le> k \<Longrightarrow> put_list i xs m k = m k"
  by (auto simp: put_list_def)

lemma put_list_Nil [simp]: "put_list i [] m = m"
  by (auto simp add: put_list_def fun_eq_iff)

lemma dev_store_frame [frame_simps, simp]:
  "rem (dev_store p xs s) = rem s" "ser_io (dev_store p xs s) = ser_io s"
  "rem_state.more (dev_store p xs s) = rem_state.more s"
  by (simp_all add: dev_store_def split: option.split)

lemma dev_store_Some:
  "i + length xs \<le> BUFFER_SIZE \<Longrightarrow> faults (dev_store (Some (b, i)) xs s) = faults s"
  "h_Buf (dev_store (Some (b, i)) xs s) =
     (h_Buf s)(b := (h_Buf s b)\<lparr>b_Data := put_list i xs (buf_data s b)\<rparr>)"
  by (auto simp: dev_store_def faults_write_buf)

section \<open>Reading into a buffer\<close>

text \<open>A read of \<open>n\<close> bytes at index \<open>i\<close> of buffer \<open>b\<close> is under way.\<close>

definition reading :: "addr \<Rightarrow> nat \<Rightarrow> u16 \<Rightarrow> 'a rem_state_scheme \<Rightarrow> bool" where
  "reading b i n s \<longleftrightarrow>
     (case r_ReadReq (rem s) of None \<Rightarrow> False
      | Some req \<Rightarrow> io_Length req = 1 \<and> io_Data req = Some (b, i)) \<and>
     r_ReadBuf (rem s) = Some (b, i) \<and> r_ReadBufSize (rem s) = n \<and> r_BytesRead (rem s) = 0"

lemma REM_Read_reading:
  assumes "r_ReadReq (rem s) \<noteq> None"
  shows "reading b i n (REM_Read (Some (b, i)) n s)" and "faults (REM_Read (Some (b, i)) n s) = faults s"
    and "h_Buf (REM_Read (Some (b, i)) n s) = h_Buf s"
  using assms by (auto simp: REM_Read_def BeginRead_def reading_def Let_def)

text \<open>What one signal makes of the device's answer: the bytes that end up in the buffer.\<close>

definition received :: "u16 \<Rightarrow> ser_answer \<Rightarrow> u8 list" where
  "received n sa =
     (let first = take 1 (sa_First sa); space = unat n - length first
      in first @ take (min space (unat (sa_Unread sa))) (sa_Rest sa))"

lemma unat_u32_of_small: "k \<le> 1 \<Longrightarrow> unat (of_nat k :: u32) = k"
  by (cases k) auto

lemma ContinueRead_bytes:
  assumes n: "0 < unat n" and first: "length first \<le> 1" and io: "io_Actual req = of_nat (length first)"
    and r: "r_ReadBuf (rem s) = Some (b, i)" "r_ReadBufSize (rem s) = n" "r_BytesRead (rem s) = 0"
    and fit: "i + unat n \<le> BUFFER_SIZE"
    and full: "min (unat n - length first) (unat unread) \<le> length rest"
  defines "k \<equiv> min (unat n - length first) (unat unread)"
  shows "faults (ContinueRead req unread rest s) = faults s \<and>
    h_Buf (ContinueRead req unread rest s) =
      (h_Buf s)(b := (h_Buf s b)\<lparr>b_Data := put_list (i + length first) (take k rest) (buf_data s b)\<rparr>) \<and>
    unat (r_BytesRead (rem (ContinueRead req unread rest s))) = length first + k"
proof -
  let ?n = "ucast (io_Actual req) :: u16"
  have un: "unat ?n = length first"
    using first by (simp add: io unat_ucast_u32_u16 unat_u32_of_small)
  then have sp: "unat (n - ?n) = unat n - length first" using n first by (simp add: unat_sub_u16)
  have z: "n - ?n = 0 \<longleftrightarrow> unat n - length first = 0"
    using sp by (metis unat_0 word_unat_eq_iff)
  show ?thesis
  proof (cases "unread = 0 \<or> n - ?n = 0")
    case True
    then have "k = 0" using z by (auto simp: k_def)
    then show ?thesis using True r un by (simp add: ContinueRead_def Let_def)
  next
    case False
    define size where "size = (if ucast (n - ?n) > unread then ucast unread else n - ?n)"
    have sz: "unat size = k"
    proof (cases "ucast (n - ?n) > unread")
      case True
      then have "unat unread < unat n - length first" by (simp add: word_less_nat_alt sp)
      moreover have "unat unread < 65536" using calculation unat_u16_less [of n] by linarith
      ultimately show ?thesis using True by (simp add: size_def k_def unat_ucast_u32_u16)
    next
      case False
      then have "unat n - length first \<le> unat unread" by (simp add: word_less_nat_alt sp)
      then show ?thesis using False sp by (simp add: size_def k_def)
    qed
    have le: "length first + k \<le> unat n" using n first by (auto simp: k_def)
    have add: "unat (?n + size) = length first + k"
      using order_le_less_trans [OF le unat_u16_less]
      by (subst unat_add_u16_small) (simp_all add: un sz)
    have kl: "k \<le> length rest" using full by (simp add: k_def)
    have e: "ContinueRead req unread rest s =
        dev_store (Some (b, i + length first)) (take k rest)
          (ser_do (Ser_Do CMD_READ) (upd_rem (\<lambda>x. x\<lparr>r_BytesRead := ?n + size,
             r_ReadReq := Some (req\<lparr>io_Actual := unread, io_Command := CMD_READ, io_Length := ucast size,
               io_Data := Some (b, i + length first)\<rparr>)\<rparr>)
            (ser_do (Ser_Do SDCMD_QUERY) (upd_rem (\<lambda>x. x\<lparr>r_BytesRead := ?n,
               r_ReadReq := Some (req\<lparr>io_Command := SDCMD_QUERY, io_Actual := unread\<rparr>)\<rparr>) s))))"
      using False r un sz by (simp add: ContinueRead_def Let_def size_def)
    show ?thesis
      unfolding e using fit le kl add by (simp add: dev_store_Some)
  qed
qed

text \<open>The signal's handler, with only its read half.\<close>

definition read_signal :: "'a rem_state_scheme \<Rightarrow> u32" where
  "read_signal s = (case r_ReadPort (rem s) of None \<Rightarrow> 0 | Some p \<Rightarrow> push_bit p 1)"

text \<open>
  C21: while a read of \<open>n > 0\<close> bytes into a buffer is under way, one signal brings in the byte
  the device delivered and then as many of the unread ones as fit, in order, starting at the
  place the reader asked for; nothing outside that place changes, no byte beyond \<open>n\<close> is
  stored, and \<open>REM_BytesRead\<close> is exactly the number of bytes stored.
\<close>

theorem remote_read_exact:
  assumes "reading b i n s" and "0 < unat n" and "i + unat n \<le> BUFFER_SIZE"
    and "min (unat n - length (take 1 (sa_First sa))) (unat (sa_Unread sa)) \<le> length (sa_Rest sa)"
  shows "faults (handle_read sa s) = faults s \<and>
    h_Buf (handle_read sa s) =
      (h_Buf s)(b := (h_Buf s b)\<lparr>b_Data := put_list i (received n sa) (buf_data s b)\<rparr>) \<and>
    unat (REM_BytesRead (handle_read sa s)) = length (received n sa) \<and>
    length (received n sa) \<le> unat n \<and> REM_CanRead (handle_read sa s)"
proof -
  from assms(1) obtain req where req: "r_ReadReq (rem s) = Some req" "io_Length req = 1"
      "io_Data req = Some (b, i)"
    and r: "r_ReadBuf (rem s) = Some (b, i)" "r_ReadBufSize (rem s) = n" "r_BytesRead (rem s) = 0"
    by (auto simp: reading_def split: option.splits)
  define first where "first = take 1 (sa_First sa)"
  let ?req = "req\<lparr>io_Actual := of_nat (length first)\<rparr>"
  let ?s = "dev_store (Some (b, i)) first s"
  have l: "length first \<le> 1" by (simp add: first_def)
  have e: "handle_read sa s = upd_rem (\<lambda>r. r\<lparr>r_ReadReady := True\<rparr>)
      (ContinueRead ?req (sa_Unread sa) (sa_Rest sa) ?s)"
    using req by (simp add: handle_read_def Let_def first_def)
  have rs: "r_ReadBuf (rem ?s) = Some (b, i)" "r_ReadBufSize (rem ?s) = n" "r_BytesRead (rem ?s) = 0"
    using r by simp_all
  have io: "io_Actual ?req = of_nat (length first)" by simp
  note c = ContinueRead_bytes [OF assms(2) l io rs assms(3) assms(4) [folded first_def]]
  have f: "faults ?s = faults s" using assms(2,3) l by (intro dev_store_Some(1)) linarith
  have "put_list (i + length first) ys (put_list i first m) = put_list i (first @ ys) m" for ys m
    by (rule put_list_append)
  moreover have "length first + min (unat n - length first) (unat (sa_Unread sa)) \<le> unat n"
    using assms(2) l by simp
  ultimately show ?thesis
    using c f assms(4) unfolding e received_def first_def [symmetric] Let_def
    by (simp add: dev_store_Some REM_BytesRead_def REM_CanRead_def)
qed

definition demo_remote :: remote where
  "demo_remote = new_remote\<lparr>r_ReadPort := Some 3, r_WritePort := Some 4,
     r_ReadReq := Some new_io, r_WriteReq := Some new_io, r_ReadReady := True, r_WriteReady := True\<rparr>"

definition demo_rem :: rem_state where
  "demo_rem = \<lparr>op_Types = [], op_MemPool = None, op_Mem = bump_mem, faults = [],
     h_Buf = (\<lambda>_. \<lparr>b_Offset = 0, b_Data = (\<lambda>_. 0)\<rparr>), rem = demo_remote, ser_io = []\<rparr>"

definition demo_answer :: ser_answer where
  "demo_answer = \<lparr>sa_First = [65], sa_Unread = 9, sa_Rest = [66, 67, 68, 69, 70, 71, 72, 73, 74]\<rparr>"

theorem remote_read_exact_witness:
  "let s = REM_Read (Some (7, 100)) 4 demo_rem in
     received 4 demo_answer = [65, 66, 67, 68] \<and>
     bytes_of (buf_data (handle_read demo_answer s) 7) 100 4 = [65, 66, 67, 68]"
proof -
  let ?s = "REM_Read (Some (7, 100)) 4 demo_rem"
  have rd: "reading 7 100 4 ?s"
    by (rule REM_Read_reading) (simp add: demo_rem_def demo_remote_def)
  have rc: "received 4 demo_answer = [65, 66, 67, 68]"
    by (simp add: received_def demo_answer_def)
  have "min (unat (4 :: u16) - length (take 1 (sa_First demo_answer))) (unat (sa_Unread demo_answer))
      \<le> length (sa_Rest demo_answer)" by (simp add: demo_answer_def)
  from remote_read_exact [OF rd _ _ this]
  have "buf_data (handle_read demo_answer ?s) 7 =
      put_list 100 [65, 66, 67, 68] (buf_data ?s 7)"
    by (simp add: BUFFER_SIZE_def rc)
  then show ?thesis
    using bytes_of_put_list [of 100 "[65, 66, 67, 68] :: u8 list" "buf_data ?s 7"] rc
    by (simp add: numeral_eq_Suc)
qed

text \<open>
  A read of no bytes still asks the device for one, and then for up to 65535 more: with a
  byte delivered, it is stored at the pointer although the caller gave it no room. At the end
  of a buffer (the position of a full one) that is a write behind the array.
\<close>

theorem remote_read_zero_overflows:
  assumes "r_ReadReq (rem s) \<noteq> None" and "sa_First sa = [x]" and "sa_Unread sa = 0"
  shows "OutOfBounds \<in> set (faults (handle_read sa (REM_Read (Some (b, BUFFER_SIZE)) 0 s))) \<and>
    REM_BytesRead (handle_read sa (REM_Read (Some (b, BUFFER_SIZE)) 0 s)) = 1"
  using assms
  by (auto simp: handle_read_def REM_Read_def BeginRead_def ContinueRead_def dev_store_def
      faults_write_buf REM_BytesRead_def Let_def)

theorem remote_read_zero_overflows_witness:
  "OutOfBounds \<in> set (faults (handle_read \<lparr>sa_First = [65], sa_Unread = 0, sa_Rest = []\<rparr>
     (REM_Read (Some (7, BUFFER_SIZE)) 0 demo_rem)))"
proof -
  have "r_ReadReq (rem demo_rem) \<noteq> None" by (simp add: demo_rem_def demo_remote_def)
  then show ?thesis
    using remote_read_zero_overflows [of demo_rem "\<lparr>sa_First = [65], sa_Unread = 0, sa_Rest = []\<rparr>" 65 7]
    by simp
qed

section \<open>Writing\<close>

lemma REM_Write_facts:
  assumes "r_WriteReq (rem s) \<noteq> None" and "0 < unat n"
  shows "ser_io (REM_Write (Some (b, i)) n s) = ser_io s @ [Ser_Write (bytes_of (buf_data s b) i (unat n))]"
    and "\<not> REM_CanWrite (REM_Write (Some (b, i)) n s)"
    and "r_WriteReq (rem (REM_Write (Some (b, i)) n s)) \<noteq> None"
  using assms by (auto simp: REM_Write_def REM_CanWrite_def word_unat_eq_iff split: option.splits)

lemma REM_Write_frame [frame_simps, simp]:
  "h_Buf (REM_Write p n s) = h_Buf s" "op_Types (REM_Write p n s) = op_Types s"
  "op_MemPool (REM_Write p n s) = op_MemPool s" "op_Mem (REM_Write p n s) = op_Mem s"
  "rem_state.more (REM_Write p n s) = rem_state.more s"
  by (auto simp: REM_Write_def split: option.split)

lemma REM_Write_faults [simp]:
  "r_WriteReq (rem s) \<noteq> None \<Longrightarrow> faults (REM_Write p n s) = faults s"
  by (auto simp: REM_Write_def split: option.split)

section \<open>Configuration\<close>

text \<open>
  A numeric argument the user left out keeps the number the template put there, and
  \<open>REM_ConfigureRemote\<close> takes that number for the address of a LONG: without a BAUD argument
  the baud rate is not the default 19200 but what is stored at address 19200, and the data
  and stop bits come from addresses 8 and 1. A baud rate of 65536 or more loses its high bits.
\<close>

theorem configure_defaults_are_addresses:
  assumes "REM_GetArgTemplate name m = (Some (a, ra), m1)" and "name \<noteq> 0"
    and "REM_ConfigureRemote str long a ra new_remote m1 = (True, r, m2)"
  shows "r_Baud r = ucast (ucast (long 19200) :: u16) \<and> r_DataBits r = ucast (long 8) \<and>
    r_StopBits r = ucast (long 1) \<and> unat (r_Baud r) < 65536 \<and> r_Unit r = 0 \<and>
    r_Device r = Some (str name)"
proof -
  from assms(1) have ra: "ra = \<lparr>ra_Device = name, ra_Unit = 0, ra_Baud = 19200, ra_DataBits = 8,
      ra_Parity = 0, ra_StopBits = 1\<rparr>"
    by (auto simp: REM_GetArgTemplate_def split: prod.splits option.splits)
  show ?thesis
    using assms(2,3)
    by (auto simp: ra REM_ConfigureRemote_def new_remote_def Let_def split: prod.splits option.splits)
qed

theorem configure_defaults_are_addresses_witness:
  "\<exists>r m. REM_ConfigureRemote (\<lambda>_. ''serial.device'') (\<lambda>a. if a = 19200 then 115200 else 7) 1000
      \<lparr>ra_Device = 5, ra_Unit = 0, ra_Baud = 19200, ra_DataBits = 8, ra_Parity = 0, ra_StopBits = 1\<rparr>
      new_remote (snd (REM_GetArgTemplate 5 bump_mem)) = (True, r, m) \<and>
    r_Baud r = 49664 \<and> r_DataBits r = 7 \<and> r_StopBits r = 7"
proof -
  let ?long = "\<lambda>a. if a = 19200 then 115200 else 7 :: u32"
  obtain m1 where t: "REM_GetArgTemplate 5 bump_mem = (Some (1000, \<lparr>ra_Device = 5, ra_Unit = 0,
      ra_Baud = 19200, ra_DataBits = 8, ra_Parity = 0, ra_StopBits = 1\<rparr>), m1)"
    by (auto simp: REM_GetArgTemplate_def exec_alloc_def bump_mem_def bump_def)
  obtain r m where c: "REM_ConfigureRemote (\<lambda>_. ''serial.device'') ?long 1000
      \<lparr>ra_Device = 5, ra_Unit = 0, ra_Baud = 19200, ra_DataBits = 8, ra_Parity = 0, ra_StopBits = 1\<rparr>
      new_remote m1 = (True, r, m)"
    using t by (auto simp: REM_GetArgTemplate_def REM_ConfigureRemote_def exec_alloc_def bump_mem_def
        bump_def Let_def)
  from configure_defaults_are_addresses [OF t _ c] c t show ?thesis by simp
qed

end
