(* ===== verification/WireFormat.thy ===== *)
theory WireFormat
  imports Protocol SerialRemote
begin

text \<open>
  Packets as they lie in memory and on the wire: the header a writer keeps consistent, the
  tiling of a buffer by packets, and the packets a receiver accepts. The packet writer seals
  what the packet reader checks; both rest on the lemmas here.
\<close>

definition pack_len :: "bytes \<Rightarrow> nat \<Rightarrow> nat" where
  "pack_len m i =
     sizeof_Packet + unat (get16 m (i + 12)) + unat (get16 m (i + 12)) mod 2"

definition header_ok :: "bytes \<Rightarrow> nat \<Rightarrow> bool" where
  "header_ok m i \<longleftrightarrow> get32 m i = PACKET_ID \<and> unat (get16 m (i + 12)) \<le> 4082 \<and>
     (bit (m (i + 5)) 0 \<longleftrightarrow> odd (unat (get16 m (i + 12))))"

text \<open>What a receiver accepts at index \<open>i\<close>, and as a list of bytes.\<close>

definition wire_at :: "bytes \<Rightarrow> nat \<Rightarrow> bool" where
  "wire_at m i \<longleftrightarrow> header_ok m i \<and> word_sum m i (pack_len m i div 2) mod 65535 = 1"

definition mem_of :: "u8 list \<Rightarrow> bytes" where
  "mem_of xs k = (if k < length xs then xs ! k else 0)"

definition wire_ok :: "u8 list \<Rightarrow> bool" where
  "wire_ok xs \<longleftrightarrow> wire_at (mem_of xs) 0 \<and> length xs = pack_len (mem_of xs) 0"

text \<open>A packet as a value: what its reader gets to see.\<close>

record wire_packet =
  wp_Type :: u8
  wp_Flags :: u8
  wp_ConnId :: u16
  wp_PackId :: u16
  wp_Data :: "u8 list"

definition read_packet :: "bytes \<Rightarrow> nat \<Rightarrow> wire_packet" where
  "read_packet m i =
     \<lparr>wp_Type = m (i + 4), wp_Flags = m (i + 5), wp_ConnId = get16 m (i + 6), wp_PackId = get16 m (i + 8),
      wp_Data = bytes_of m (i + sizeof_Packet) (unat (get16 m (i + 12)))\<rparr>"

fun tiles :: "bytes \<Rightarrow> addr \<Rightarrow> nat \<Rightarrow> bptr list \<Rightarrow> nat \<Rightarrow> bool" where
  "tiles m b i [] j \<longleftrightarrow> i = j"
| "tiles m b i (p # ps) j \<longleftrightarrow> p = (b, i) \<and> header_ok m i \<and> get16 m (i + 10) = 0 \<and>
     tiles m b (i + pack_len m i) ps j"

lemma pack_len_ge: "sizeof_Packet \<le> pack_len m i"
  by (simp add: pack_len_def)

lemma pack_len_even: "even (pack_len m i)"
proof -
  have "even (n + n mod 2)" for n :: nat by (cases "even n") auto
  then show ?thesis by (simp add: pack_len_def add.assoc)
qed

lemma pack_len_le: "header_ok m i \<Longrightarrow> pack_len m i \<le> BUFFER_SIZE"
proof -
  assume "header_ok m i"
  then have l: "unat (get16 m (i + 12)) \<le> 4082" by (simp add: header_ok_def)
  have "n \<le> 4082 \<Longrightarrow> n + n mod 2 \<le> 4082" for n :: nat by presburger
  with l show ?thesis by (simp add: pack_len_def BUFFER_SIZE_def)
qed

definition same_on :: "nat \<Rightarrow> nat \<Rightarrow> bytes \<Rightarrow> bytes \<Rightarrow> bool" where
  "same_on i j m m' \<longleftrightarrow> (\<forall>k. i \<le> k \<longrightarrow> k < j \<longrightarrow> m' k = m k)"

lemma same_onD: "same_on i j m m' \<Longrightarrow> i \<le> k \<Longrightarrow> k < j \<Longrightarrow> m' k = m k"
  by (simp add: same_on_def)

lemma same_on_sub: "same_on i j m m' \<Longrightarrow> i \<le> i' \<Longrightarrow> j' \<le> j \<Longrightarrow> same_on i' j' m m'"
  by (simp add: same_on_def)

lemma get16_same: "same_on i j m m' \<Longrightarrow> i \<le> k \<Longrightarrow> k + 2 \<le> j \<Longrightarrow> get16 m' k = get16 m k"
  by (simp add: get16_def same_on_def)

lemma get32_same: "same_on i j m m' \<Longrightarrow> i \<le> k \<Longrightarrow> k + 4 \<le> j \<Longrightarrow> get32 m' k = get32 m k"
  by (simp add: get32_def get16_same)

lemma header_same:
  assumes "same_on i (i + sizeof_Packet) m m'"
  shows "header_ok m' i = header_ok m i" "pack_len m' i = pack_len m i"
    "get16 m' (i + 10) = get16 m (i + 10)"
  using assms by (simp_all add: header_ok_def pack_len_def get16_same get32_same same_onD)

lemma tiles_le: "tiles m b i ps j \<Longrightarrow> i + sizeof_Packet * length ps \<le> j"
proof (induction ps arbitrary: i)
  case (Cons p ps)
  then have "i + pack_len m i + sizeof_Packet * length ps \<le> j" by simp
  then show ?case using pack_len_ge [of m i] by simp
qed simp

lemma tiles_member:
  "tiles m b i ps j \<Longrightarrow> (b', k) \<in> set ps \<Longrightarrow>
     b' = b \<and> i \<le> k \<and> k + pack_len m k \<le> j \<and> header_ok m k"
proof (induction ps arbitrary: i)
  case (Cons p ps)
  show ?case
  proof (cases "(b', k) = p")
    case True
    then have "i + pack_len m i \<le> j" using Cons.prems(1) tiles_le [of m b "i + pack_len m i" ps j] by auto
    then show ?thesis using Cons.prems True by auto
  next
    case False
    then show ?thesis using Cons.IH [of "i + pack_len m i"] Cons.prems by auto
  qed
qed simp

lemma tiles_same: "tiles m b i ps j \<Longrightarrow> same_on i j m m' \<Longrightarrow> tiles m' b i ps j"
proof (induction ps arbitrary: i)
  case (Cons p ps)
  have le: "i + pack_len m i \<le> j"
    using Cons.prems(1) tiles_le [of m b "i + pack_len m i" ps j] by simp
  then have "same_on i (i + sizeof_Packet) m m'"
    using Cons.prems(2) pack_len_ge [of m i] by (intro same_on_sub [OF Cons.prems(2)]) simp_all
  moreover have "same_on (i + pack_len m i) j m m'"
    using Cons.prems(2) by (rule same_on_sub) simp_all
  ultimately show ?case
    using Cons.prems(1) Cons.IH [of "i + pack_len m i"] by (simp add: header_same)
qed simp

lemma tiles_snoc:
  "tiles m b i ps j \<Longrightarrow> header_ok m j \<Longrightarrow> get16 m (j + 10) = 0 \<Longrightarrow>
     tiles m b i (ps @ [(b, j)]) (j + pack_len m j)"
  by (induction ps arbitrary: i) auto

lemma tiles_even: "tiles m b i ps j \<Longrightarrow> even j \<longleftrightarrow> even i"
proof (induction ps arbitrary: i)
  case (Cons p ps)
  then show ?case using Cons.IH [of "i + pack_len m i"] pack_len_even [of m i] by simp
qed simp

section \<open>Moving packets between memories\<close>

lemma word_sum_shift: "word_sum m (i + k) n = word_sum (\<lambda>j. m (i + j)) k n"
proof (induction n arbitrary: k)
  case (Suc n)
  then show ?case using Suc.IH [of "k + 2"] by (simp add: get16_def add.assoc)
qed simp

lemma wire_at_same:
  assumes w: "wire_at m i" and s: "same_on i (i + pack_len m i) m m'"
  shows "wire_at m' i"
proof -
  have "same_on i (i + sizeof_Packet) m m'"
    using s by (rule same_on_sub) (simp_all add: pack_len_ge)
  note h = header_same [OF this]
  have "word_sum m' i (pack_len m i div 2) = word_sum m i (pack_len m i div 2)"
    by (rule word_sum_cong) (auto intro: same_onD [OF s])
  with w h show ?thesis by (simp add: wire_at_def)
qed

lemma wire_at_shift: "wire_at (\<lambda>k. m (i + k)) 0 = wire_at m i"
  and pack_len_shift: "pack_len (\<lambda>k. m (i + k)) 0 = pack_len m i"
proof -
  show l: "pack_len (\<lambda>k. m (i + k)) 0 = pack_len m i"
    by (simp add: pack_len_def get16_def ac_simps)
  have "header_ok (\<lambda>k. m (i + k)) 0 = header_ok m i"
    by (simp add: header_ok_def get32_def get16_def ac_simps)
  then show "wire_at (\<lambda>k. m (i + k)) 0 = wire_at m i"
    using word_sum_shift [of m i 0] by (simp add: wire_at_def l)
qed

lemma wire_ok_bytes:
  assumes "wire_at m i"
  shows "wire_ok (bytes_of m i (pack_len m i))"
proof -
  let ?xs = "bytes_of m i (pack_len m i)"
  have s: "same_on 0 (pack_len m i) (\<lambda>k. m (i + k)) (mem_of ?xs)"
    by (simp add: same_on_def mem_of_def)
  have w: "wire_at (\<lambda>k. m (i + k)) 0" by (subst wire_at_shift) (rule assms)
  have "same_on 0 (0 + pack_len (\<lambda>k. m (i + k)) 0) (\<lambda>k. m (i + k)) (mem_of ?xs)"
    by (subst pack_len_shift) (simp add: s)
  from wire_at_same [OF w this] have "wire_at (mem_of ?xs) 0" .
  moreover have "same_on 0 (0 + sizeof_Packet) (\<lambda>k. m (i + k)) (mem_of ?xs)"
    using s by (rule same_on_sub) (simp_all add: pack_len_ge)
  then have "pack_len (mem_of ?xs) 0 = pack_len m i"
    by (rule trans [OF header_same(2) pack_len_shift])
  ultimately show ?thesis by (simp add: wire_ok_def)
qed

section \<open>Packets as values\<close>

lemma read_packet_shift: "read_packet (\<lambda>k. m (i + k)) 0 = read_packet m i"
proof -
  have "bytes_of (\<lambda>k. m (i + k)) j n = bytes_of m (i + j) n" for j n
    by (rule nth_equalityI) (simp_all add: bytes_of_def ac_simps)
  then show ?thesis by (simp add: read_packet_def get16_def ac_simps)
qed

text \<open>The checksum is no part of the value.\<close>

lemma read_packet_same:
  assumes "\<forall>k. i \<le> k \<and> k < i + pack_len m i \<and> k \<noteq> i + 10 \<and> k \<noteq> i + 11 \<longrightarrow> m' k = m k"
  shows "read_packet m' i = read_packet m i"
proof -
  have s: "m' (i + k) = m (i + k)" if "k < pack_len m i" "k \<noteq> 10" "k \<noteq> 11" for k using assms that by simp
  have h: "m' (i + k) = m (i + k)" if "k \<in> {4, 5, 6, 7, 8, 9, 12, 13}" for k
    using s [of k] that pack_len_ge [of m i] by auto
  have "get16 m' (i + k) = get16 m (i + k)" if "k \<in> {6, 8, 12}" for k
    using h [of k] h [of "k + 1"] that unfolding get16_def add.assoc by auto
  then have l: "get16 m' (i + 12) = get16 m (i + 12)" "get16 m' (i + 6) = get16 m (i + 6)"
      "get16 m' (i + 8) = get16 m (i + 8)" by simp_all
  have "bytes_of m' (i + sizeof_Packet) (unat (get16 m (i + 12))) =
      bytes_of m (i + sizeof_Packet) (unat (get16 m (i + 12)))"
    using assms by (intro bytes_of_cong) (simp add: pack_len_def)
  then show ?thesis using h [of 4] h [of 5] l by (simp add: read_packet_def)
qed

lemma read_packet_bytes: "read_packet (mem_of (bytes_of m i (pack_len m i))) 0 = read_packet m i"
proof -
  have "read_packet (mem_of (bytes_of m i (pack_len m i))) 0 = read_packet (\<lambda>k. m (i + k)) 0"
    by (rule read_packet_same) (simp add: mem_of_def pack_len_shift)
  then show ?thesis by (simp add: read_packet_shift)
qed

section \<open>Sealing a packet\<close>

lemma seal_wire:
  assumes h: "header_ok m i" and z: "get16 m (i + 10) = 0"
  shows "\<exists>c. APB_CalculateChecksum m i (of_nat (pack_len m i)) = Some c \<and>
    wire_at (put16 (i + 10) c m) i \<and> pack_len (put16 (i + 10) c m) i = pack_len m i"
proof -
  let ?n = "pack_len m i div 2"
  have le: "pack_len m i \<le> 4096" using pack_len_le [OF h] by (simp add: BUFFER_SIZE_def)
  have n: "unat (of_nat (pack_len m i) :: u16) = 2 * ?n"
    using le pack_len_even [of m i] by (simp add: unat_of_nat_u16)
  have id: "get32 m i = PACKET_ID" using h by (simp add: header_ok_def)
  have n7: "7 \<le> ?n" using pack_len_ge [of m i] by simp
  from seal_verifies [OF n n7 id z] obtain c acc where
    c: "APB_CalculateChecksum m i (of_nat (pack_len m i)) = Some c"
    and acc: "APB_AddToChecksum 0 (put16 (i + 10) c m) i (of_nat (pack_len m i)) = Some acc"
      "APB_CompleteChecksum acc = 0xFFFF" by blast
  let ?m = "put16 (i + 10) c m"
  have "word_sum ?m i ?n mod 65535 = 1" using acc verify_iff [OF n] by blast
  moreover have "header_ok ?m i = header_ok m i" "pack_len ?m i = pack_len m i"
    by (simp_all add: header_ok_def pack_len_def get32_def get16_put16_other put16_apply)
  ultimately show ?thesis using c h by (auto simp: wire_at_def)
qed

section \<open>Filling in a packet\<close>

text \<open>The owner of a packet writes its type, its connection and its data.\<close>

definition payload_only :: "nat \<Rightarrow> bytes \<Rightarrow> bytes \<Rightarrow> bool" where
  "payload_only i m m' \<longleftrightarrow> (\<forall>k. m' k \<noteq> m k \<longrightarrow> k = i + 4 \<or> k = i + 6 \<or> k = i + 7 \<or>
     (i + sizeof_Packet \<le> k \<and> k < i + pack_len m i))"

definition hdr_same :: "nat \<Rightarrow> bytes \<Rightarrow> bytes \<Rightarrow> bool" where
  "hdr_same i m m' \<longleftrightarrow> (\<forall>d \<in> {0, 1, 2, 3, 5, 10, 11, 12, 13}. m' (i + d) = m (i + d))"

lemma hdr_same_facts:
  assumes "hdr_same i m m'"
  shows "header_ok m' i = header_ok m i" "pack_len m' i = pack_len m i"
    "get16 m' (i + 10) = get16 m (i + 10)" "get32 m' i = get32 m i"
proof -
  have d: "m' (i + k) = m (i + k)" if "k \<in> {0, 1, 2, 3, 5, 10, 11, 12, 13}" for k
    using assms that unfolding hdr_same_def by blast
  have g: "get16 m' (i + k) = get16 m (i + k)" if "k \<in> {0, 2, 10, 12}" for k
    using d [of k] d [of "k + 1"] that unfolding get16_def add.assoc by auto
  show "get16 m' (i + 10) = get16 m (i + 10)" by (simp add: g)
  show id: "get32 m' i = get32 m i" using g [of 0] g [of 2] by (simp add: get32_def)
  show "header_ok m' i = header_ok m i" "pack_len m' i = pack_len m i"
    using d [of 5] g [of 12] id by (simp_all add: header_ok_def pack_len_def)
qed

lemma payload_hdr_same: "payload_only i m m' \<Longrightarrow> hdr_same i m m'"
  unfolding payload_only_def hdr_same_def by fastforce

lemma payload_outside:
  "payload_only i m m' \<Longrightarrow> k < i \<or> i + pack_len m i \<le> k \<Longrightarrow> m' k = m k"
  using pack_len_ge [of m i] unfolding payload_only_def by fastforce

lemma same_hdr_same: "same_on i (i + sizeof_Packet) m m' \<Longrightarrow> hdr_same i m m'"
  by (auto simp: same_on_def hdr_same_def)

lemma tiles_disjoint:
  "tiles m b i ps j \<Longrightarrow> (b1, k) \<in> set ps \<Longrightarrow> (b2, l) \<in> set ps \<Longrightarrow> k \<noteq> l \<Longrightarrow>
     k + pack_len m k \<le> l \<or> l + pack_len m l \<le> k"
proof (induction ps arbitrary: i)
  case (Cons p ps)
  have t: "tiles m b (i + pack_len m i) ps j" and p: "p = (b, i)" using Cons.prems(1) by simp_all
  show ?case
  proof (cases "(b1, k) = p \<or> (b2, l) = p")
    case True
    then show ?thesis
      using Cons.prems(2-4) p tiles_member [OF t, of b1 k] tiles_member [OF t, of b2 l] by auto
  next
    case False
    then show ?thesis using Cons.IH [OF t] Cons.prems(2-4) by auto
  qed
qed simp

lemma tiles_hdr_same:
  "tiles m b i ps j \<Longrightarrow> \<forall>p \<in> set ps. hdr_same (snd p) m m' \<Longrightarrow> tiles m' b i ps j"
proof (induction ps arbitrary: i)
  case (Cons p ps)
  then have "hdr_same i m m'" by simp
  then show ?case using Cons.prems Cons.IH [of "i + pack_len m i"] by (simp add: hdr_same_facts)
qed simp

lemma tiles_payload:
  assumes t: "tiles m b i ps j" and q: "(b, k) \<in> set ps" and p: "payload_only k m m'"
  shows "tiles m' b i ps j"
proof (rule tiles_hdr_same [OF t], rule ballI)
  fix p' assume p': "p' \<in> set ps"
  obtain c l where cl: "p' = (c, l)" by fastforce
  show "hdr_same (snd p') m m'"
  proof (cases "l = k")
    case True
    then show ?thesis using payload_hdr_same [OF p] by (simp add: cl)
  next
    case False
    then have d: "k + pack_len m k \<le> l \<or> l + pack_len m l \<le> k"
      using tiles_disjoint [OF t q, of c l] p' cl by auto
    have "same_on l (l + sizeof_Packet) m m'"
      unfolding same_on_def using d pack_len_ge [of m l] by (intro allI impI payload_outside [OF p]) auto
    then show ?thesis by (simp add: cl same_hdr_same)
  qed
qed

end
