(* ===== verification/PacketWriter.thy ===== *)
theory PacketWriter
  imports Protocol SerialRemote
begin

text \<open>
  The packet writer (server/packetwriter.c): outgoing packets are laid out one after the other
  in buffers of 4096 bytes that queue up for the remote; the last ten or so packets are kept
  for a resend. OutBuffers and OutPackets are objects of the pool, two more heaps of the
  state; the lists of the C code are lists of their addresses, and the one PacketWriter is
  the field \<open>pw\<close>.
\<close>

section \<open>State\<close>

record out_buffer =
  ob_Buf :: addr
  ob_Offset :: u16
  ob_PacketCount :: u16
  ob_CanRelease :: bool

record out_packet =
  op_OutBuf :: addr
  op_Pac :: bptr
  op_Sent :: bool

record packet_writer =
  pw_Addr :: addr
  pw_Queue :: "addr list"
  pw_RecentPackets :: "addr list"
  pw_OutBuf :: "addr option"
  pw_RecentCount :: u16
  pw_BufCount :: u16
  pw_NextPackId :: u16

record writer_state = rem_state +
  h_OutBuf :: "addr \<Rightarrow> out_buffer"
  h_OutPac :: "addr \<Rightarrow> out_packet"
  pw :: packet_writer

definition RECENT_PACKETS_TO_KEEP :: u16 where "RECENT_PACKETS_TO_KEEP = 10"

definition sizeof_OutBuffer :: u16 where "sizeof_OutBuffer = 18"
definition sizeof_OutPacket :: u16 where "sizeof_OutPacket = 18"
definition sizeof_PacketWriter :: u32 where "sizeof_PacketWriter = 38"

definition upd_ob ::
    "addr \<Rightarrow> (out_buffer \<Rightarrow> out_buffer) \<Rightarrow> 'a writer_state_scheme \<Rightarrow> 'a writer_state_scheme" where
  "upd_ob a f s = s\<lparr>h_OutBuf := (h_OutBuf s)(a := f (h_OutBuf s a))\<rparr>"

definition upd_op ::
    "addr \<Rightarrow> (out_packet \<Rightarrow> out_packet) \<Rightarrow> 'a writer_state_scheme \<Rightarrow> 'a writer_state_scheme" where
  "upd_op a f s = s\<lparr>h_OutPac := (h_OutPac s)(a := f (h_OutPac s a))\<rparr>"

definition upd_pw ::
    "(packet_writer \<Rightarrow> packet_writer) \<Rightarrow> 'a writer_state_scheme \<Rightarrow> 'a writer_state_scheme" where
  "upd_pw f s = s\<lparr>pw := f (pw s)\<rparr>"

section \<open>Creating and destroying\<close>

definition register_missing ::
    "u16 \<Rightarrow> string \<Rightarrow> u16 \<Rightarrow> u16 \<Rightarrow> u16 \<Rightarrow> 'a pool_scheme \<Rightarrow> 'a pool_scheme" where
  "register_missing i name n lo hi s =
     (if APB_TypeRegistered i s then s else APB_RegisterObjectType i name n lo hi s)"

definition APB_CreatePacketWriter :: "'a writer_state_scheme \<Rightarrow> bool \<times> 'a writer_state_scheme" where
  "APB_CreatePacketWriter s =
     (let s1 = register_missing OT_OUT_BUFFER ''Outgoing Buffer'' sizeof_OutBuffer
                 MIN_BUFFERS MAX_BUFFERS s;
          s2 = register_missing OT_OUT_PACKET ''Outgoing Packet'' sizeof_OutPacket
                 (MIN_BUFFERS * 10) (MAX_BUFFERS * 10) s1
      in case APB_AllocMem sizeof_PacketWriter s2 of
           (None, s3) \<Rightarrow> (False, s3)
         | (Some a, s3) \<Rightarrow>
             (True, upd_pw (\<lambda>_. \<lparr>pw_Addr = a, pw_Queue = [], pw_RecentPackets = [], pw_OutBuf = None,
                pw_RecentCount = 0, pw_BufCount = 0, pw_NextPackId = 1\<rparr>) s3))"

definition APB_ReleaseOutBuffer :: "addr \<Rightarrow> 'a writer_state_scheme \<Rightarrow> 'a writer_state_scheme" where
  "APB_ReleaseOutBuffer ob s =
     APB_FreeObject OT_OUT_BUFFER ob (APB_ReleaseBuffer (ob_Buf (h_OutBuf s ob)) s)"

definition APB_ReleaseOutPacket :: "addr \<Rightarrow> 'a writer_state_scheme \<Rightarrow> 'a writer_state_scheme" where
  "APB_ReleaseOutPacket op s =
     (let ob = op_OutBuf (h_OutPac s op);
          s1 = upd_ob ob (\<lambda>x. x\<lparr>ob_PacketCount := ob_PacketCount x - 1\<rparr>) s;
          s2 = (if ob_PacketCount (h_OutBuf s1 ob) = 0 \<and> ob_CanRelease (h_OutBuf s1 ob)
                then APB_ReleaseOutBuffer ob s1 else s1)
      in APB_FreeObject OT_OUT_PACKET op s2)"

fun release_out_buffers :: "addr list \<Rightarrow> 'a writer_state_scheme \<Rightarrow> 'a writer_state_scheme" where
  "release_out_buffers [] s = s"
| "release_out_buffers (ob # obs) s = release_out_buffers obs (APB_ReleaseOutBuffer ob s)"

fun release_out_packets :: "addr list \<Rightarrow> 'a writer_state_scheme \<Rightarrow> 'a writer_state_scheme" where
  "release_out_packets [] s = s"
| "release_out_packets (op # ops) s = release_out_packets ops (APB_ReleaseOutPacket op s)"

definition APB_DestroyPacketWriter :: "'a writer_state_scheme \<Rightarrow> 'a writer_state_scheme" where
  "APB_DestroyPacketWriter s =
     (let s1 = upd_pw (\<lambda>w. w\<lparr>pw_Queue := []\<rparr>) (release_out_buffers (pw_Queue (pw s)) s);
          s2 = upd_pw (\<lambda>w. w\<lparr>pw_RecentPackets := []\<rparr>)
                 (release_out_packets (pw_RecentPackets (pw s1)) s1)
      in APB_FreeMem (Some (pw_Addr (pw s2))) sizeof_PacketWriter s2)"

section \<open>Allocating a packet\<close>

text \<open>
  The current buffer when it has room, or a new one. A new OutBuffer whose Buffer cannot be
  had stays allocated: nothing refers to it any more.
\<close>

definition get_out_buffer ::
    "u16 \<Rightarrow> 'a writer_state_scheme \<Rightarrow> addr option \<times> 'a writer_state_scheme" where
  "get_out_buffer len s =
     (let fits = (\<lambda>ob. \<not> buf_offset s (ob_Buf (h_OutBuf s ob)) + unat len + 1 \<ge> BUFFER_SIZE) in
      if (case pw_OutBuf (pw s) of None \<Rightarrow> False | Some ob \<Rightarrow> fits ob)
      then (pw_OutBuf (pw s), s)
      else case APB_AllocObject OT_OUT_BUFFER s of
             (None, s1) \<Rightarrow> (None, s1)
           | (Some ob, s1) \<Rightarrow>
               (case APB_AllocateBuffer s1 of
                  (None, s2) \<Rightarrow> (None, s2)
                | (Some b, s2) \<Rightarrow>
                    (Some ob,
                     upd_pw (\<lambda>w. w\<lparr>pw_OutBuf := Some ob, pw_Queue := pw_Queue w @ [ob],
                         pw_BufCount := pw_BufCount w + 1\<rparr>)
                       (upd_ob ob (\<lambda>_. \<lparr>ob_Buf = b, ob_Offset = 0, ob_PacketCount = 0,
                         ob_CanRelease = False\<rparr>) s2))))"

text \<open>The header fields the writer fills in; type and connection are the caller's.\<close>

definition init_packet :: "nat \<Rightarrow> u16 \<Rightarrow> u16 \<Rightarrow> bytes \<Rightarrow> bytes" where
  "init_packet i packId len m =
     put16 (i + 10) 0 (put16 (i + 12) (len - of_nat sizeof_Packet)
       (put8 (i + 5) 0 (put16 (i + 8) packId (put32 i PACKET_ID m))))"

definition init_out_packet ::
    "addr \<Rightarrow> addr \<Rightarrow> u16 \<Rightarrow> u16 \<Rightarrow> 'a writer_state_scheme \<Rightarrow> 'a writer_state_scheme" where
  "init_out_packet op ob len packId s =
     (let b = ob_Buf (h_OutBuf s ob);
          i = buf_offset s b;
          s1 = upd_op op (\<lambda>_. \<lparr>op_OutBuf = ob, op_Pac = (b, i), op_Sent = False\<rparr>) s;
          s2 = write_buf b (i + sizeof_Packet) (init_packet i packId len) s1;
          s3 = upd_ob ob (\<lambda>x. x\<lparr>ob_PacketCount := ob_PacketCount x + 1\<rparr>)
                 (upd_buf b (\<lambda>x. x\<lparr>b_Offset := b_Offset x + len\<rparr>) s2)
      in if unat len mod 2 = 1
         then let s4 = upd_buf b (\<lambda>x. x\<lparr>b_Offset := b_Offset x + 1\<rparr>)
                         (write_buf b (i + sizeof_Packet) (put8 (i + 5) PF_PAD_BYTE) s3)
              in write_buf b (buf_offset s4 b + 1) (put8 (buf_offset s4 b) 0) s4
         else s3)"

text \<open>
  Dropping old packets: \<open>lh_Head\<close> of an empty list is the address of its tail field, which is
  not a packet.
\<close>

function trim_recent :: "'a writer_state_scheme \<Rightarrow> 'a writer_state_scheme" where
  "trim_recent s =
     (if pw_RecentCount (pw s) > RECENT_PACKETS_TO_KEEP
      then case pw_RecentPackets (pw s) of
             [] \<Rightarrow> add_fault NullDeref s
           | op2 # rest \<Rightarrow>
               if \<not> op_Sent (h_OutPac s op2) then s
               else trim_recent
                 (upd_pw (\<lambda>w. w\<lparr>pw_RecentCount := pw_RecentCount w - 1\<rparr>)
                   (APB_ReleaseOutPacket op2 (upd_pw (\<lambda>w. w\<lparr>pw_RecentPackets := rest\<rparr>) s)))
      else s)"
  by pat_completeness auto

text \<open>The frame of what trimming does, which also shows that it ends.\<close>

lemma writer_fields_pool:
  assumes "pool.more s1 = pool.more s"
  shows "h_OutBuf s1 = h_OutBuf s" "h_OutPac s1 = h_OutPac s" "pw s1 = pw s"
    "writer_state.more s1 = writer_state.more s" "rem s1 = rem s" "ser_io s1 = ser_io s"
  using assms by (cases s, cases s1, simp)+

lemma writer_fields_buf:
  assumes "buf_state.more s1 = buf_state.more s"
  shows "h_OutBuf s1 = h_OutBuf s" "h_OutPac s1 = h_OutPac s" "pw s1 = pw s"
    "writer_state.more s1 = writer_state.more s" "rem s1 = rem s" "ser_io s1 = ser_io s"
  using assms by (cases s, cases s1, simp)+

lemma writer_fields_rem:
  assumes "rem_state.more s1 = rem_state.more s"
  shows "h_OutBuf s1 = h_OutBuf s" "h_OutPac s1 = h_OutPac s" "pw s1 = pw s"
    "writer_state.more s1 = writer_state.more s"
  using assms by (cases s, cases s1, simp)+

lemmas writer_free_frame [frame_simps, simp] =
  writer_fields_pool [OF APB_FreeObject_more] h_Buf_more [OF APB_FreeObject_more]

lemmas writer_release_frame [frame_simps, simp] =
  writer_fields_buf [OF APB_ReleaseBuffer_frame(2)]

lemmas writer_write_frame [frame_simps, simp] = writer_fields_buf [OF buf_more_write_buf]
  writer_fields_buf [OF buf_more_upd_buf]

lemma upd_ob_frame [frame_simps, simp]:
  "op_Types (upd_ob a f s) = op_Types s" "op_MemPool (upd_ob a f s) = op_MemPool s"
  "op_Mem (upd_ob a f s) = op_Mem s" "faults (upd_ob a f s) = faults s" "h_Buf (upd_ob a f s) = h_Buf s"
  "rem (upd_ob a f s) = rem s" "ser_io (upd_ob a f s) = ser_io s" "h_OutPac (upd_ob a f s) = h_OutPac s"
  "pw (upd_ob a f s) = pw s" "h_OutBuf (upd_ob a f s) = (h_OutBuf s)(a := f (h_OutBuf s a))"
  "writer_state.more (upd_ob a f s) = writer_state.more s"
  by (simp_all add: upd_ob_def)

lemma upd_op_frame [frame_simps, simp]:
  "op_Types (upd_op a f s) = op_Types s" "op_MemPool (upd_op a f s) = op_MemPool s"
  "op_Mem (upd_op a f s) = op_Mem s" "faults (upd_op a f s) = faults s" "h_Buf (upd_op a f s) = h_Buf s"
  "rem (upd_op a f s) = rem s" "ser_io (upd_op a f s) = ser_io s" "h_OutBuf (upd_op a f s) = h_OutBuf s"
  "pw (upd_op a f s) = pw s" "h_OutPac (upd_op a f s) = (h_OutPac s)(a := f (h_OutPac s a))"
  "writer_state.more (upd_op a f s) = writer_state.more s"
  by (simp_all add: upd_op_def)

lemma upd_pw_frame [frame_simps, simp]:
  "op_Types (upd_pw f s) = op_Types s" "op_MemPool (upd_pw f s) = op_MemPool s"
  "op_Mem (upd_pw f s) = op_Mem s" "faults (upd_pw f s) = faults s" "h_Buf (upd_pw f s) = h_Buf s"
  "rem (upd_pw f s) = rem s" "ser_io (upd_pw f s) = ser_io s" "h_OutBuf (upd_pw f s) = h_OutBuf s"
  "pw (upd_pw f s) = f (pw s)" "h_OutPac (upd_pw f s) = h_OutPac s"
  "writer_state.more (upd_pw f s) = writer_state.more s"
  by (simp_all add: upd_pw_def)

lemma APB_ReleaseOutBuffer_frame [frame_simps, simp]:
  "h_Buf (APB_ReleaseOutBuffer ob s) = h_Buf s" "rem (APB_ReleaseOutBuffer ob s) = rem s"
  "ser_io (APB_ReleaseOutBuffer ob s) = ser_io s" "h_OutBuf (APB_ReleaseOutBuffer ob s) = h_OutBuf s"
  "h_OutPac (APB_ReleaseOutBuffer ob s) = h_OutPac s" "pw (APB_ReleaseOutBuffer ob s) = pw s"
  "writer_state.more (APB_ReleaseOutBuffer ob s) = writer_state.more s"
  by (simp_all add: APB_ReleaseOutBuffer_def)

lemma APB_ReleaseOutPacket_frame [frame_simps, simp]:
  "h_Buf (APB_ReleaseOutPacket op s) = h_Buf s" "rem (APB_ReleaseOutPacket op s) = rem s"
  "ser_io (APB_ReleaseOutPacket op s) = ser_io s" "h_OutPac (APB_ReleaseOutPacket op s) = h_OutPac s"
  "pw (APB_ReleaseOutPacket op s) = pw s"
  "writer_state.more (APB_ReleaseOutPacket op s) = writer_state.more s"
  "h_OutBuf (APB_ReleaseOutPacket op s) =
     (h_OutBuf s)(op_OutBuf (h_OutPac s op) := (h_OutBuf s (op_OutBuf (h_OutPac s op)))
        \<lparr>ob_PacketCount := ob_PacketCount (h_OutBuf s (op_OutBuf (h_OutPac s op))) - 1\<rparr>)"
  by (simp_all add: APB_ReleaseOutPacket_def Let_def)

termination trim_recent
proof (relation "measure (\<lambda>s. unat (pw_RecentCount (pw s)))", simp)
  fix s :: "'a writer_state_scheme" and op2 rest
  assume "pw_RecentCount (pw s) > RECENT_PACKETS_TO_KEEP"
  then have "0 < unat (pw_RecentCount (pw s))"
    by (simp add: RECENT_PACKETS_TO_KEEP_def word_less_nat_alt)
  then have "unat (pw_RecentCount (pw s) - 1) < unat (pw_RecentCount (pw s))"
    by (subst unat_pred_u16) simp_all
  then show "(upd_pw (\<lambda>w. w\<lparr>pw_RecentCount := pw_RecentCount w - 1\<rparr>)
      (APB_ReleaseOutPacket op2 (upd_pw (\<lambda>w. w\<lparr>pw_RecentPackets := rest\<rparr>) s)), s)
      \<in> measure (\<lambda>s. unat (pw_RecentCount (pw s)))"
    by simp
qed

declare trim_recent.simps [simp del]

definition APB_AllocPacketWithId ::
    "u16 \<Rightarrow> u16 \<Rightarrow> 'a writer_state_scheme \<Rightarrow> bptr option \<times> 'a writer_state_scheme" where
  "APB_AllocPacketWithId len packId s =
     (if unat len > BUFFER_SIZE then (None, s)
      else if unat len < sizeof_Packet then (None, s)
      else case get_out_buffer len s of
             (None, s1) \<Rightarrow> (None, s1)
           | (Some ob, s1) \<Rightarrow>
               (case APB_AllocObject OT_OUT_PACKET s1 of
                  (None, s2) \<Rightarrow> (None, s2)
                | (Some op, s2) \<Rightarrow>
                    let s3 = trim_recent (init_out_packet op ob len packId s2)
                    in (Some (op_Pac (h_OutPac s3 op)),
                        upd_pw (\<lambda>w. w\<lparr>pw_RecentPackets := pw_RecentPackets w @ [op],
                          pw_RecentCount := pw_RecentCount w + 1\<rparr>) s3)))"

definition APB_AllocPacket ::
    "u16 \<Rightarrow> 'a writer_state_scheme \<Rightarrow> bptr option \<times> 'a writer_state_scheme" where
  "APB_AllocPacket len s =
     APB_AllocPacketWithId len (pw_NextPackId (pw s))
       (upd_pw (\<lambda>w. w\<lparr>pw_NextPackId := pw_NextPackId w + 1\<rparr>) s)"

section \<open>Writing to the remote\<close>

text \<open>One packet of the buffer: its checksum is computed over header, data and pad byte.\<close>

definition seal_packet ::
    "addr \<Rightarrow> addr \<Rightarrow> 'a writer_state_scheme \<Rightarrow> 'a writer_state_scheme option" where
  "seal_packet ob op s =
     (if op_OutBuf (h_OutPac s op) = ob \<and> \<not> op_Sent (h_OutPac s op)
      then let (b, i) = op_Pac (h_OutPac s op);
               len = get16 (buf_data s b) (i + 12);
               ps = of_nat sizeof_Packet + len + (if unat len mod 2 = 1 then 1 else 0)
           in case APB_CalculateChecksum (buf_data s b) i ps of
                None \<Rightarrow> None
              | Some c \<Rightarrow> Some (upd_op op (\<lambda>x. x\<lparr>op_Sent := True\<rparr>)
                  (write_buf b (i + sizeof_Packet) (put16 (i + 10) c) s))
      else Some s)"

fun seal_packets ::
    "addr \<Rightarrow> addr list \<Rightarrow> 'a writer_state_scheme \<Rightarrow> 'a writer_state_scheme option" where
  "seal_packets ob [] s = Some s"
| "seal_packets ob (op # ops) s =
     (case seal_packet ob op s of None \<Rightarrow> None | Some s1 \<Rightarrow> seal_packets ob ops s1)"

definition send_buffer ::
    "addr \<Rightarrow> 'a writer_state_scheme \<Rightarrow> 'a writer_state_scheme option" where
  "send_buffer ob s =
     (let b = ob_Buf (h_OutBuf s ob) in
      if ob_Offset (h_OutBuf s ob) < b_Offset (h_Buf s b)
      then case seal_packets ob (pw_RecentPackets (pw s)) s of
             None \<Rightarrow> None
           | Some s1 \<Rightarrow>
               let bc = b_Offset (h_Buf s1 b) - ob_Offset (h_OutBuf s1 ob);
                   s2 = REM_Write (Some (b, unat (ob_Offset (h_OutBuf s1 ob)))) bc s1
               in Some (upd_ob ob (\<lambda>x. x\<lparr>ob_Offset := b_Offset (h_Buf s2 b)\<rparr>) s2)
      else Some s)"

definition APB_WriteBuffer :: "'a writer_state_scheme \<Rightarrow> 'a writer_state_scheme option" where
  "APB_WriteBuffer s =
     (case pw_Queue (pw s) of
        [] \<Rightarrow> Some s
      | ob # _ \<Rightarrow>
          (case send_buffer ob s of
             None \<Rightarrow> None
           | Some s1 \<Rightarrow>
               if pw_BufCount (pw s1) > 1
               then case pw_Queue (pw s1) of
                      [] \<Rightarrow> Some s1
                    | ob1 # rest \<Rightarrow>
                        Some (upd_pw (\<lambda>w. w\<lparr>pw_Queue := rest, pw_BufCount := pw_BufCount w - 1\<rparr>)
                          (upd_ob ob1 (\<lambda>x. x\<lparr>ob_CanRelease := True\<rparr>) s1))
               else Some s1))"

section \<open>Resending\<close>

fun find_recent :: "u16 \<Rightarrow> addr list \<Rightarrow> 'a writer_state_scheme \<Rightarrow> addr option" where
  "find_recent packId [] s = None"
| "find_recent packId (op # ops) s =
     (let (b, i) = op_Pac (h_OutPac s op) in
      if get32 (buf_data s b) i = ucast packId then Some op else find_recent packId ops s)"

definition APB_ResendPacket :: "u16 \<Rightarrow> 'a writer_state_scheme \<Rightarrow> 'a writer_state_scheme" where
  "APB_ResendPacket packId s =
     (case find_recent packId (pw_RecentPackets (pw s)) s of
        None \<Rightarrow> s
      | Some op \<Rightarrow>
          let (b, i) = op_Pac (h_OutPac s op);
              len = get16 (buf_data s b) (i + 12)
          in case APB_AllocPacketWithId (of_nat sizeof_Packet + len) packId s of
               (None, s1) \<Rightarrow> s1
             | (Some (c, j), s1) \<Rightarrow>
                 let n = sizeof_Packet + unat (get16 (buf_data s1 b) (i + 12));
                     src = buf_data s1 b
                 in write_buf c (j + n) (\<lambda>m.
                      put16 (j + 10) 0 ((copy_mem src i m j n)
                        (j + 5 := (copy_mem src i m j n) (j + 5) OR PF_RESEND))) s1)"

end
