(* ===== verification/PacketReader.thy ===== *)
theory PacketReader
  imports WireFormat PacketWriter
begin

text \<open>
  The packet reader (server/packetreader.c): InBuffers around the buffers a remote fills form
  a chain; \<open>APB_ProcessBuffer\<close> finds the packets in it, also those split over two buffers,
  checks them and queues InPackets that point into the buffers. A local struct Packet is a
  memory of 14 bytes. None as the result of a loop means that it does not return: a checksum
  over an odd number of bytes never does.
\<close>

section \<open>State\<close>

record in_buffer =
  ib_Buf :: addr
  ib_Next :: "addr option"
  ib_Offset :: u16
  ib_PacketCount :: u16
  ib_CanRelease :: bool

record in_packet =
  ip_InBuf :: addr
  ip_Type :: u8
  ip_Flags :: u8
  ip_ConnId :: u16
  ip_PackId :: u16
  ip_Offset :: u16
  ip_Data1Length :: u16
  ip_Data2Length :: u16
  ip_Data1 :: "bptr option"
  ip_Data2 :: "bptr option"

record packet_reader =
  pr_Addr :: addr
  pr_InBuf :: "addr option"
  pr_Queue :: "addr list"
  pr_QueueSize :: u16

record reader_state = writer_state +
  h_InBuf :: "addr \<Rightarrow> in_buffer"
  h_InPac :: "addr \<Rightarrow> in_packet"
  pr :: packet_reader

definition sizeof_InBuffer :: u16 where "sizeof_InBuffer = 18"
definition sizeof_InPacket :: u16 where "sizeof_InPacket = 32"
definition sizeof_PacketReader :: u32 where "sizeof_PacketReader = 22"

definition upd_ib ::
    "addr \<Rightarrow> (in_buffer \<Rightarrow> in_buffer) \<Rightarrow> 'a reader_state_scheme \<Rightarrow> 'a reader_state_scheme" where
  "upd_ib a f s = s\<lparr>h_InBuf := (h_InBuf s)(a := f (h_InBuf s a))\<rparr>"

definition upd_ip ::
    "addr \<Rightarrow> (in_packet \<Rightarrow> in_packet) \<Rightarrow> 'a reader_state_scheme \<Rightarrow> 'a reader_state_scheme" where
  "upd_ip a f s = s\<lparr>h_InPac := (h_InPac s)(a := f (h_InPac s a))\<rparr>"

definition upd_pr ::
    "(packet_reader \<Rightarrow> packet_reader) \<Rightarrow> 'a reader_state_scheme \<Rightarrow> 'a reader_state_scheme" where
  "upd_pr f s = s\<lparr>pr := f (pr s)\<rparr>"

definition BUF_BYTES :: "'a reader_state_scheme \<Rightarrow> addr \<Rightarrow> u16" where
  "BUF_BYTES s ib = b_Offset (h_Buf s (ib_Buf (h_InBuf s ib)))"

definition ib_data :: "'a reader_state_scheme \<Rightarrow> addr \<Rightarrow> bytes" where
  "ib_data s ib = buf_data s (ib_Buf (h_InBuf s ib))"

section \<open>Creating the reader, releasing its objects\<close>

definition APB_CreatePacketReader :: "'a reader_state_scheme \<Rightarrow> bool \<times> 'a reader_state_scheme" where
  "APB_CreatePacketReader s =
     (case APB_AllocMem sizeof_PacketReader s of
        (None, s1) \<Rightarrow> (False, s1)
      | (Some a, s1) \<Rightarrow>
          let s2 = upd_pr (\<lambda>_. \<lparr>pr_Addr = a, pr_InBuf = None, pr_Queue = [], pr_QueueSize = 0\<rparr>) s1;
              s3 = register_missing OT_IN_BUFFER ''Incoming Buffer'' sizeof_InBuffer
                     MIN_BUFFERS MAX_BUFFERS s2;
              s4 = register_missing OT_IN_PACKET ''Incoming Packet'' sizeof_InPacket
                     (MIN_BUFFERS * 10) (MAX_BUFFERS * 10) s3
          in (True, s4))"

definition APB_ReleaseInBuffer :: "addr \<Rightarrow> 'a reader_state_scheme \<Rightarrow> 'a reader_state_scheme" where
  "APB_ReleaseInBuffer ib s =
     APB_FreeObject OT_IN_BUFFER ib (APB_ReleaseBuffer (ib_Buf (h_InBuf s ib)) s)"

text \<open>One packet less in a buffer; True when that gave the buffer back.\<close>

definition drop_packet :: "addr \<Rightarrow> 'a reader_state_scheme \<Rightarrow> bool \<times> 'a reader_state_scheme" where
  "drop_packet ib s =
     (let s1 = upd_ib ib (\<lambda>x. x\<lparr>ib_PacketCount := ib_PacketCount x - 1\<rparr>) s
      in if ib_PacketCount (h_InBuf s1 ib) = 0 \<and> ib_CanRelease (h_InBuf s1 ib)
         then (True, APB_ReleaseInBuffer ib s1) else (False, s1))"

text \<open>
  The next buffer is looked up in the InBuffer also when that has just been given back; what
  is read there is what it held before.
\<close>

definition APB_ReleaseInPacket :: "addr \<Rightarrow> 'a reader_state_scheme \<Rightarrow> 'a reader_state_scheme" where
  "APB_ReleaseInPacket ip s =
     (let ib = ip_InBuf (h_InPac s ip);
          (freed, s1) = drop_packet ib (APB_FreeObject OT_IN_PACKET ip s);
          s2 = (if freed then add_fault UseAfterFree s1 else s1)
      in case ib_Next (h_InBuf s2 ib) of
           None \<Rightarrow> s2
         | Some ib2 \<Rightarrow> snd (drop_packet ib2 s2))"

definition APB_ReaderQueueSize :: "'a reader_state_scheme \<Rightarrow> u16" where
  "APB_ReaderQueueSize s = pr_QueueSize (pr s)"

definition APB_DequeueInPacket ::
    "'a reader_state_scheme \<Rightarrow> addr option \<times> 'a reader_state_scheme" where
  "APB_DequeueInPacket s =
     (if pr_QueueSize (pr s) = 0 then (None, s)
      else let (p, rest) = RemHead (pr_Queue (pr s))
           in (p, upd_pr (\<lambda>r. r\<lparr>pr_QueueSize := pr_QueueSize r - 1, pr_Queue := rest\<rparr>) s))"

text \<open>What these operations leave alone.\<close>

lemma reader_fields_pool:
  assumes "pool.more s1 = pool.more s"
  shows "h_InBuf s1 = h_InBuf s" "h_InPac s1 = h_InPac s" "pr s1 = pr s"
    "reader_state.more s1 = reader_state.more s"
  using assms by (cases s, cases s1, simp)+

lemma reader_fields_buf:
  assumes "buf_state.more s1 = buf_state.more s"
  shows "h_InBuf s1 = h_InBuf s" "h_InPac s1 = h_InPac s" "pr s1 = pr s"
    "reader_state.more s1 = reader_state.more s"
  using assms by (cases s, cases s1, simp)+

lemma reader_fields_writer:
  assumes "writer_state.more s1 = writer_state.more s"
  shows "h_InBuf s1 = h_InBuf s" "h_InPac s1 = h_InPac s" "pr s1 = pr s"
    "reader_state.more s1 = reader_state.more s"
  using assms by (cases s, cases s1, simp)+

lemmas reader_free_frame [frame_simps, simp] = reader_fields_pool [OF APB_FreeObject_more]

lemmas reader_release_frame [frame_simps, simp] = reader_fields_buf [OF APB_ReleaseBuffer_frame(2)]

lemmas reader_fault_frame [frame_simps, simp] = reader_fields_pool [OF add_fault_more]
  writer_fields_pool [OF add_fault_more]

lemma upd_ib_frame [frame_simps, simp]:
  "op_Types (upd_ib a f s) = op_Types s" "op_MemPool (upd_ib a f s) = op_MemPool s"
  "op_Mem (upd_ib a f s) = op_Mem s" "faults (upd_ib a f s) = faults s" "h_Buf (upd_ib a f s) = h_Buf s"
  "rem (upd_ib a f s) = rem s" "ser_io (upd_ib a f s) = ser_io s" "h_OutBuf (upd_ib a f s) = h_OutBuf s"
  "h_OutPac (upd_ib a f s) = h_OutPac s" "pw (upd_ib a f s) = pw s"
  "h_InBuf (upd_ib a f s) = (h_InBuf s)(a := f (h_InBuf s a))" "h_InPac (upd_ib a f s) = h_InPac s"
  "pr (upd_ib a f s) = pr s" "reader_state.more (upd_ib a f s) = reader_state.more s"
  by (simp_all add: upd_ib_def)

lemma upd_ip_frame [frame_simps, simp]:
  "op_Types (upd_ip a f s) = op_Types s" "op_MemPool (upd_ip a f s) = op_MemPool s"
  "op_Mem (upd_ip a f s) = op_Mem s" "faults (upd_ip a f s) = faults s" "h_Buf (upd_ip a f s) = h_Buf s"
  "rem (upd_ip a f s) = rem s" "ser_io (upd_ip a f s) = ser_io s" "h_OutBuf (upd_ip a f s) = h_OutBuf s"
  "h_OutPac (upd_ip a f s) = h_OutPac s" "pw (upd_ip a f s) = pw s"
  "h_InPac (upd_ip a f s) = (h_InPac s)(a := f (h_InPac s a))" "h_InBuf (upd_ip a f s) = h_InBuf s"
  "pr (upd_ip a f s) = pr s" "reader_state.more (upd_ip a f s) = reader_state.more s"
  by (simp_all add: upd_ip_def)

lemma upd_pr_frame [frame_simps, simp]:
  "op_Types (upd_pr f s) = op_Types s" "op_MemPool (upd_pr f s) = op_MemPool s"
  "op_Mem (upd_pr f s) = op_Mem s" "faults (upd_pr f s) = faults s" "h_Buf (upd_pr f s) = h_Buf s"
  "rem (upd_pr f s) = rem s" "ser_io (upd_pr f s) = ser_io s" "h_OutBuf (upd_pr f s) = h_OutBuf s"
  "h_OutPac (upd_pr f s) = h_OutPac s" "pw (upd_pr f s) = pw s" "h_InBuf (upd_pr f s) = h_InBuf s"
  "h_InPac (upd_pr f s) = h_InPac s" "pr (upd_pr f s) = f (pr s)"
  "reader_state.more (upd_pr f s) = reader_state.more s"
  by (simp_all add: upd_pr_def)

lemma APB_ReleaseInBuffer_frame [frame_simps, simp]:
  "h_InBuf (APB_ReleaseInBuffer ib s) = h_InBuf s" "h_InPac (APB_ReleaseInBuffer ib s) = h_InPac s"
  "pr (APB_ReleaseInBuffer ib s) = pr s" "h_Buf (APB_ReleaseInBuffer ib s) = h_Buf s"
  "h_OutBuf (APB_ReleaseInBuffer ib s) = h_OutBuf s" "h_OutPac (APB_ReleaseInBuffer ib s) = h_OutPac s"
  "pw (APB_ReleaseInBuffer ib s) = pw s" "rem (APB_ReleaseInBuffer ib s) = rem s"
  "ser_io (APB_ReleaseInBuffer ib s) = ser_io s"
  "reader_state.more (APB_ReleaseInBuffer ib s) = reader_state.more s"
  by (simp_all add: APB_ReleaseInBuffer_def)

lemma drop_packet_frame:
  "h_InBuf (snd (drop_packet ib s)) = (h_InBuf s)(ib := (h_InBuf s ib)
     \<lparr>ib_PacketCount := ib_PacketCount (h_InBuf s ib) - 1\<rparr>)"
  "h_InPac (snd (drop_packet ib s)) = h_InPac s" "pr (snd (drop_packet ib s)) = pr s"
  "h_Buf (snd (drop_packet ib s)) = h_Buf s" "h_OutBuf (snd (drop_packet ib s)) = h_OutBuf s"
  "h_OutPac (snd (drop_packet ib s)) = h_OutPac s" "pw (snd (drop_packet ib s)) = pw s"
  "rem (snd (drop_packet ib s)) = rem s" "ser_io (snd (drop_packet ib s)) = ser_io s"
  "reader_state.more (snd (drop_packet ib s)) = reader_state.more s"
  by (simp_all add: drop_packet_def Let_def)

lemma APB_ReleaseInPacket_frame [frame_simps, simp]:
  "h_InPac (APB_ReleaseInPacket ip s) = h_InPac s" "pr (APB_ReleaseInPacket ip s) = pr s"
  "h_Buf (APB_ReleaseInPacket ip s) = h_Buf s" "h_OutBuf (APB_ReleaseInPacket ip s) = h_OutBuf s"
  "h_OutPac (APB_ReleaseInPacket ip s) = h_OutPac s" "pw (APB_ReleaseInPacket ip s) = pw s"
  "rem (APB_ReleaseInPacket ip s) = rem s" "ser_io (APB_ReleaseInPacket ip s) = ser_io s"
  "reader_state.more (APB_ReleaseInPacket ip s) = reader_state.more s"
  unfolding APB_ReleaseInPacket_def Let_def case_prod_beta
  by (simp_all add: drop_packet_frame split: option.split)

lemma dequeue_less:
  assumes "0 < pr_QueueSize (pr s)" "APB_DequeueInPacket s = (p, s1)"
  shows "unat (pr_QueueSize (pr s1)) < unat (pr_QueueSize (pr s))"
proof -
  have pos: "0 < unat (pr_QueueSize (pr s))" using assms(1) by (simp add: u16_gt_0)
  have "pr_QueueSize (pr s1) = pr_QueueSize (pr s) - 1"
    using assms pos by (cases "pr_QueueSize (pr s) = 0"; cases "RemHead (pr_Queue (pr s))")
      (auto simp: APB_DequeueInPacket_def)
  then show ?thesis using unat_pred_u16 [OF pos] pos by simp
qed

function release_queue :: "'a reader_state_scheme \<Rightarrow> 'a reader_state_scheme" where
  "release_queue s =
     (if pr_QueueSize (pr s) > 0
      then case APB_DequeueInPacket s of
             (None, s1) \<Rightarrow> release_queue (add_fault NullDeref s1)
           | (Some ip, s1) \<Rightarrow> release_queue (APB_ReleaseInPacket ip s1)
      else s)"
  by pat_completeness auto
termination
  by (relation "measure (\<lambda>s. unat (pr_QueueSize (pr s)))")
    (simp_all add: reader_fault_frame dequeue_less [OF _ sym])

declare release_queue.simps [simp del]

text \<open>
  \<open>APB_DestroyPacketReader\<close> walks over the chain of InBuffers without giving any back, then
  forgets it.
\<close>

definition APB_DestroyPacketReader :: "'a reader_state_scheme \<Rightarrow> 'a reader_state_scheme" where
  "APB_DestroyPacketReader s =
     (let s1 = release_queue (upd_pr (\<lambda>r. r\<lparr>pr_InBuf := None\<rparr>) s)
      in APB_FreeMem (Some (pr_Addr (pr s1))) sizeof_PacketReader s1)"

section \<open>The chain of buffers\<close>

partial_function (option) find_in_buf ::
    "(addr \<Rightarrow> in_buffer) \<Rightarrow> addr \<Rightarrow> addr option \<Rightarrow> bool option" where
  "find_in_buf h buf p =
     (case p of
        None \<Rightarrow> Some False
      | Some ib \<Rightarrow> if ib_Buf (h ib) = buf then Some True else find_in_buf h buf (ib_Next (h ib)))"

text \<open>Every buffer of the chain may now be released, and the last one gets a successor.\<close>

partial_function (option) link_last ::
    "addr \<Rightarrow> addr \<Rightarrow> (addr \<Rightarrow> in_buffer) \<Rightarrow> (addr \<Rightarrow> in_buffer) option" where
  "link_last ib ib2 h =
     (let h1 = h(ib2 := (h ib2)\<lparr>ib_CanRelease := True\<rparr>) in
      case ib_Next (h1 ib2) of
        None \<Rightarrow> Some (h1(ib2 := (h1 ib2)\<lparr>ib_Next := Some ib\<rparr>))
      | Some ib3 \<Rightarrow> link_last ib ib3 h1)"

definition new_in_buffer :: "addr \<Rightarrow> in_buffer" where
  "new_in_buffer buf = \<lparr>ib_Buf = buf, ib_Next = None, ib_Offset = 0, ib_PacketCount = 0,
     ib_CanRelease = False\<rparr>"

definition APB_AppendBuffer ::
    "addr \<Rightarrow> 'a reader_state_scheme \<Rightarrow> (bool \<times> 'a reader_state_scheme) option" where
  "APB_AppendBuffer buf s =
     (case find_in_buf (h_InBuf s) buf (pr_InBuf (pr s)) of
        None \<Rightarrow> None
      | Some True \<Rightarrow> Some (True, s)
      | Some False \<Rightarrow>
          (case APB_AllocObject OT_IN_BUFFER s of
             (None, s1) \<Rightarrow> Some (False, s1)
           | (Some ib, s1) \<Rightarrow>
               let s2 = upd_ib ib (\<lambda>_. new_in_buffer buf) s1 in
               (case pr_InBuf (pr s2) of
                  None \<Rightarrow> Some (True, upd_pr (\<lambda>r. r\<lparr>pr_InBuf := Some ib\<rparr>) s2)
                | Some ib2 \<Rightarrow>
                    (case link_last ib ib2 (h_InBuf s2) of
                       None \<Rightarrow> None
                     | Some h \<Rightarrow> Some (True, s2\<lparr>h_InBuf := h\<rparr>)))))"

section \<open>Processing\<close>

text \<open>
  The header at the current offset: copied from one buffer, or from two when the first is
  full. The result is the local packet, the second buffer if it was used, and the number of
  bytes consumed; None is \<open>break\<close>.
\<close>

definition read_header ::
    "addr \<Rightarrow> 'a reader_state_scheme \<Rightarrow> (bytes \<times> addr option \<times> u16) option" where
  "read_header ib1 s =
     (let bc = BUF_BYTES s ib1 - ib_Offset (h_InBuf s ib1);
          off = unat (ib_Offset (h_InBuf s ib1)) in
      if unat bc < sizeof_Packet
      then
        if unat (BUF_BYTES s ib1) < BUFFER_SIZE then None
        else case ib_Next (h_InBuf s ib1) of
               None \<Rightarrow> None
             | Some ib2 \<Rightarrow>
                 let consumed = of_nat sizeof_Packet - bc in
                 if BUF_BYTES s ib2 < consumed then None
                 else Some (copy_mem (ib_data s ib2) 0
                              (copy_mem (ib_data s ib1) off (\<lambda>_. 0) 0 (unat bc)) (unat bc) (unat consumed),
                            Some ib2, consumed)
      else Some (copy_mem (ib_data s ib1) off (\<lambda>_. 0) 0 sizeof_Packet, None, of_nat sizeof_Packet))"

text \<open>Where the data is: one piece or two, and what is consumed of the last buffer.\<close>

record data_pos =
  dp_Ib2 :: "addr option"
  dp_Data1 :: "bptr option"
  dp_Len1 :: u16
  dp_Data2 :: "bptr option"
  dp_Len2 :: u16
  dp_Consumed :: u16

definition ib_ptr :: "'a reader_state_scheme \<Rightarrow> addr \<Rightarrow> nat \<Rightarrow> bptr option" where
  "ib_ptr s ib i = Some (ib_Buf (h_InBuf s ib), i)"

definition locate_data ::
    "addr \<Rightarrow> addr option \<Rightarrow> u16 \<Rightarrow> u16 \<Rightarrow> u16 \<Rightarrow> 'a reader_state_scheme \<Rightarrow> data_pos option" where
  "locate_data ib1 ib2 consumed len oddSize s =
     (let bc = BUF_BYTES s ib1 - ib_Offset (h_InBuf s ib1);
          off = unat (ib_Offset (h_InBuf s ib1));
          dl = len + oddSize in
      case ib2 of
        Some ib2 \<Rightarrow>
          if unat (BUF_BYTES s ib2) < unat dl + unat consumed then None
          else Some \<lparr>dp_Ib2 = Some ib2, dp_Data1 = ib_ptr s ib2 (sizeof_Packet - unat bc), dp_Len1 = len,
                     dp_Data2 = None, dp_Len2 = 0, dp_Consumed = consumed + len\<rparr>
      | None \<Rightarrow>
          if unat bc = sizeof_Packet \<and> unat (BUF_BYTES s ib1) = BUFFER_SIZE
          then case ib_Next (h_InBuf s ib1) of
                 None \<Rightarrow> None
               | Some ib2 \<Rightarrow>
                   if BUF_BYTES s ib2 < dl then None
                   else Some \<lparr>dp_Ib2 = Some ib2, dp_Data1 = ib_ptr s ib2 0, dp_Len1 = len,
                              dp_Data2 = None, dp_Len2 = 0, dp_Consumed = len\<rparr>
          else if unat bc - sizeof_Packet < unat dl
          then
            if unat (BUF_BYTES s ib1) < BUFFER_SIZE then None
            else case ib_Next (h_InBuf s ib1) of
                   None \<Rightarrow> None
                 | Some ib2 \<Rightarrow>
                     let len1 = bc - of_nat sizeof_Packet; len2 = len - len1 in
                     if unat (BUF_BYTES s ib2) < unat len2 + unat oddSize then None
                     else Some \<lparr>dp_Ib2 = Some ib2, dp_Data1 = ib_ptr s ib1 (off + sizeof_Packet),
                                dp_Len1 = len1, dp_Data2 = ib_ptr s ib2 0, dp_Len2 = len2,
                                dp_Consumed = len2\<rparr>
          else Some \<lparr>dp_Ib2 = None, dp_Data1 = ib_ptr s ib1 (off + sizeof_Packet), dp_Len1 = len,
                     dp_Data2 = None, dp_Len2 = 0, dp_Consumed = consumed + len\<rparr>)"

text \<open>The sum over the local header and the one or two pieces of data.\<close>

definition add_data ::
    "u32 \<Rightarrow> bptr option \<Rightarrow> u16 \<Rightarrow> 'a reader_state_scheme \<Rightarrow> u32 option" where
  "add_data acc p len s =
     (case p of None \<Rightarrow> APB_AddToChecksum acc (\<lambda>_. 0) 0 len
      | Some (b, i) \<Rightarrow> APB_AddToChecksum acc (buf_data s b) i len)"

definition packet_sum ::
    "bytes \<Rightarrow> data_pos \<Rightarrow> u16 \<Rightarrow> 'a reader_state_scheme \<Rightarrow> u32 option" where
  "packet_sum hdr dp oddSize s =
     (case APB_AddToChecksum 0 hdr 0 (of_nat sizeof_Packet) of
        None \<Rightarrow> None
      | Some acc \<Rightarrow>
          if dp_Len1 dp > 0
          then if dp_Len2 dp > 0
               then (case add_data acc (dp_Data1 dp) (dp_Len1 dp) s of
                       None \<Rightarrow> None
                     | Some acc1 \<Rightarrow> add_data acc1 (dp_Data2 dp) (dp_Len2 dp + oddSize) s)
               else add_data acc (dp_Data1 dp) (dp_Len1 dp + oddSize) s
          else Some acc)"

datatype 's loop_step = Break 's | Continue "addr option" 's

definition bad_data ::
    "addr \<Rightarrow> addr option \<Rightarrow> 'a reader_state_scheme \<Rightarrow> 'a reader_state_scheme loop_step" where
  "bad_data ib1 ib2 s =
     (let ib = (case ib2 of None \<Rightarrow> ib1 | Some ib2 \<Rightarrow> ib2);
          s1 = (if ib_Offset (h_InBuf s ib) < BUF_BYTES s ib
                then upd_ib ib (\<lambda>x. x\<lparr>ib_Offset := ib_Offset x + 2\<rparr>) s
                else if unat (BUF_BYTES s ib) = BUFFER_SIZE \<and> ib_Next (h_InBuf s ib) \<noteq> None
                then upd_pr (\<lambda>r. r\<lparr>pr_InBuf := ib_Next (h_InBuf s ib)\<rparr>) s
                else s)
      in if unat (BUF_BYTES s1 ib) > BUFFER_SIZE then Break s1 else Continue (Some ib) s1)"

definition queue_packet ::
    "addr \<Rightarrow> packet \<Rightarrow> data_pos \<Rightarrow> u16 \<Rightarrow> 'a reader_state_scheme \<Rightarrow>
     'a reader_state_scheme loop_step" where
  "queue_packet ib1 p dp oddSize s =
     (case APB_AllocObject OT_IN_PACKET s of
        (None, s1) \<Rightarrow> Break s1
      | (Some ip, s1) \<Rightarrow>
          let s2 = upd_ip ip (\<lambda>_. \<lparr>ip_InBuf = ib1, ip_Type = pac_Type p, ip_Flags = pac_Flags p,
                     ip_ConnId = pac_ConnId p, ip_PackId = pac_PackId p, ip_Offset = 0,
                     ip_Data1Length = dp_Len1 dp, ip_Data2Length = dp_Len2 dp,
                     ip_Data1 = dp_Data1 dp, ip_Data2 = dp_Data2 dp\<rparr>) s1;
              s3 = upd_pr (\<lambda>r. r\<lparr>pr_Queue := pr_Queue r @ [ip], pr_QueueSize := pr_QueueSize r + 1\<rparr>) s2;
              s4 = upd_ib ib1 (\<lambda>x. x\<lparr>ib_PacketCount := ib_PacketCount x + 1\<rparr>) s3;
              (ib, s5) = (case dp_Ib2 dp of
                 None \<Rightarrow> (ib1, s4)
               | Some ib2 \<Rightarrow> (ib2, upd_ib ib2 (\<lambda>x. x\<lparr>ib_PacketCount := ib_PacketCount x + 1\<rparr>) s4));
              s6 = upd_pr (\<lambda>r. r\<lparr>pr_InBuf := Some ib\<rparr>) s5;
              s7 = upd_ib ib (\<lambda>x. x\<lparr>ib_Offset := ib_Offset x + (dp_Consumed dp + oddSize)\<rparr>) s6
          in Continue (if unat (ib_Offset (h_InBuf s7 ib)) = BUFFER_SIZE
                       then ib_Next (h_InBuf s7 ib) else Some ib) s7)"

definition process_step ::
    "addr \<Rightarrow> 'a reader_state_scheme \<Rightarrow> 'a reader_state_scheme loop_step option" where
  "process_step ib1 s =
     (case read_header ib1 s of
        None \<Rightarrow> Some (Break s)
      | Some (hdr, ib2, consumed) \<Rightarrow>
          let p = packet_at hdr 0 in
          if pac_Id p \<noteq> PACKET_ID then Some (bad_data ib1 ib2 s)
          else if unat (pac_Length p) > BUFFER_SIZE then Some (bad_data ib1 ib2 s)
          else
            let oddSize = (if pac_Length p > 0 \<and> pac_Flags p AND PF_PAD_BYTE \<noteq> 0 then 1 else 0) in
            case (if pac_Length p > 0 then locate_data ib1 ib2 consumed (pac_Length p) oddSize s
                  else Some \<lparr>dp_Ib2 = ib2, dp_Data1 = None, dp_Len1 = 0, dp_Data2 = None,
                             dp_Len2 = 0, dp_Consumed = consumed\<rparr>) of
              None \<Rightarrow> Some (Break s)
            | Some dp \<Rightarrow>
                (case packet_sum hdr dp oddSize s of
                   None \<Rightarrow> None
                 | Some acc \<Rightarrow>
                     if APB_CompleteChecksum acc \<noteq> 0xFFFF then Some (bad_data ib1 (dp_Ib2 dp) s)
                     else Some (queue_packet ib1 p dp oddSize s)))"

partial_function (option) process_loop ::
    "addr option \<Rightarrow> 'a reader_state_scheme \<Rightarrow> 'a reader_state_scheme option" where
  "process_loop p s =
     (case p of
        None \<Rightarrow> Some s
      | Some ib1 \<Rightarrow>
          if ib_Offset (h_InBuf s ib1) \<le> BUF_BYTES s ib1
          then case process_step ib1 s of
                 None \<Rightarrow> None
               | Some (Break s1) \<Rightarrow> Some s1
               | Some (Continue q s1) \<Rightarrow> process_loop q s1
          else Some s)"

definition APB_ProcessBuffer ::
    "addr \<Rightarrow> 'a reader_state_scheme \<Rightarrow> 'a reader_state_scheme option" where
  "APB_ProcessBuffer buf s =
     (case APB_AppendBuffer buf s of
        None \<Rightarrow> None
      | Some (False, s1) \<Rightarrow> Some s1
      | Some (True, s1) \<Rightarrow> process_loop (pr_InBuf (pr s1)) s1)"

section \<open>Taking a packet's data\<close>

definition copy_ptr :: "bptr option \<Rightarrow> u16 \<Rightarrow> nat \<Rightarrow> 'a buf_state_scheme \<Rightarrow> bytes \<Rightarrow> bytes" where
  "copy_ptr p n d s m = (case p of None \<Rightarrow> m | Some (b, i) \<Rightarrow> copy_mem (buf_data s b) i m d (unat n))"

definition APB_InPacketToBuffer ::
    "addr \<Rightarrow> 'a reader_state_scheme \<Rightarrow> bytes \<Rightarrow> bytes \<times> u16" where
  "APB_InPacketToBuffer ip s m =
     (let x = h_InPac s ip;
          m1 = copy_ptr (ip_Data1 x) (ip_Data1Length x) 0 s m;
          m2 = (if ip_Data2Length x > 0
                then copy_ptr (ip_Data2 x) (ip_Data2Length x) (unat (ip_Data1Length x)) s m1 else m1)
      in (m2, ip_Data1Length x + ip_Data2Length x))"

end
