(* ===== verification/WriterCorrect.thy ===== *)
theory WriterCorrect
  imports WireFormat PacketWriter
begin

text \<open>
  Correctness of the packet writer: the invariant that ties its lists, counters and buffers
  together, its preservation by every operation, and what follows for the bytes that reach
  the remote.
\<close>

section \<open>Sealing the packets of a buffer\<close>

definition mark_sent :: "addr \<Rightarrow> addr list \<Rightarrow> (addr \<Rightarrow> out_packet) \<Rightarrow> addr \<Rightarrow> out_packet" where
  "mark_sent ob ops h =
     (\<lambda>a. if a \<in> set ops \<and> op_OutBuf (h a) = ob then (h a)\<lparr>op_Sent := True\<rparr> else h a)"

abbreviation unsent_of :: "addr \<Rightarrow> addr list \<Rightarrow> (addr \<Rightarrow> out_packet) \<Rightarrow> addr list" where
  "unsent_of ob ops h \<equiv> filter (\<lambda>op. op_OutBuf (h op) = ob \<and> \<not> op_Sent (h op)) ops"

definition same_but_data :: "addr \<Rightarrow> 'a writer_state_scheme \<Rightarrow> 'a writer_state_scheme \<Rightarrow> bool" where
  "same_but_data b s s1 \<longleftrightarrow> op_Types s1 = op_Types s \<and> op_MemPool s1 = op_MemPool s \<and>
     op_Mem s1 = op_Mem s \<and> faults s1 = faults s \<and> rem s1 = rem s \<and> ser_io s1 = ser_io s \<and>
     h_OutBuf s1 = h_OutBuf s \<and> pw s1 = pw s \<and> writer_state.more s1 = writer_state.more s \<and>
     (\<forall>c. c \<noteq> b \<longrightarrow> h_Buf s1 c = h_Buf s c) \<and> b_Offset (h_Buf s1 b) = b_Offset (h_Buf s b)"

lemma same_but_data_refl: "same_but_data b s s"
  by (simp add: same_but_data_def)

lemma same_but_data_trans:
  "same_but_data b s s1 \<Longrightarrow> same_but_data b s1 s2 \<Longrightarrow> same_but_data b s s2"
  by (auto simp: same_but_data_def)

lemma seal_packet_skip:
  "\<not> (op_OutBuf (h_OutPac s op) = ob \<and> \<not> op_Sent (h_OutPac s op)) \<Longrightarrow> seal_packet ob op s = Some s"
  by (simp only: seal_packet_def if_False)

lemma ps_word:
  assumes "header_ok m i"
  shows "of_nat sizeof_Packet + get16 m (i + 12) +
    (if unat (get16 m (i + 12)) mod 2 = 1 then 1 else 0) = (of_nat (pack_len m i) :: u16)"
  by (cases "unat (get16 m (i + 12)) mod 2 = 1") (auto simp: pack_len_def)

lemma seal_packet_step:
  assumes op: "op_OutBuf (h_OutPac s op) = ob" "\<not> op_Sent (h_OutPac s op)" "op_Pac (h_OutPac s op) = (b, i)"
    and h: "header_ok (buf_data s b) i" "get16 (buf_data s b) (i + 10) = 0"
    and fit: "i + sizeof_Packet \<le> BUFFER_SIZE"
  shows "\<exists>s1. seal_packet ob op s = Some s1 \<and> same_but_data b s s1 \<and>
    h_OutPac s1 = (h_OutPac s)(op := (h_OutPac s op)\<lparr>op_Sent := True\<rparr>) \<and>
    wire_at (buf_data s1 b) i \<and> pack_len (buf_data s1 b) i = pack_len (buf_data s b) i \<and>
    (\<forall>k. k < i \<or> i + sizeof_Packet \<le> k \<longrightarrow> buf_data s1 b k = buf_data s b k) \<and>
    read_packet (buf_data s1 b) i = read_packet (buf_data s b) i"
proof -
  from seal_wire [OF h] obtain c where
    c: "APB_CalculateChecksum (buf_data s b) i (of_nat (pack_len (buf_data s b) i)) = Some c"
    and w: "wire_at (put16 (i + 10) c (buf_data s b)) i"
      "pack_len (put16 (i + 10) c (buf_data s b)) i = pack_len (buf_data s b) i" by blast
  let ?s = "upd_op op (\<lambda>x. x\<lparr>op_Sent := True\<rparr>) (write_buf b (i + sizeof_Packet) (put16 (i + 10) c) s)"
  have "seal_packet ob op s = Some ?s"
    using op c by (simp add: seal_packet_def ps_word [OF h(1), simplified] Let_def)
  moreover have "same_but_data b s ?s"
    using fit by (simp add: same_but_data_def faults_write_buf)
  moreover have d: "buf_data ?s b = put16 (i + 10) c (buf_data s b)" by simp
  have "read_packet (buf_data ?s b) i = read_packet (buf_data s b) i"
    unfolding d by (rule read_packet_same) (simp add: put16_apply)
  moreover have "\<forall>k. k < i \<or> i + sizeof_Packet \<le> k \<longrightarrow> buf_data ?s b k = buf_data s b k"
    unfolding d by (simp add: put16_apply)
  moreover have "h_OutPac ?s = (h_OutPac s)(op := (h_OutPac s op)\<lparr>op_Sent := True\<rparr>)" by simp
  ultimately show ?thesis using w unfolding d [symmetric] by blast
qed

lemma seal_packets_ok:
  "distinct ops \<Longrightarrow>
   tiles (buf_data s b) b i (map (op_Pac \<circ> h_OutPac s) (unsent_of ob ops (h_OutPac s))) j \<Longrightarrow>
   j \<le> BUFFER_SIZE \<Longrightarrow>
   \<exists>s1 pkts. seal_packets ob ops s = Some s1 \<and> same_but_data b s s1 \<and>
     h_OutPac s1 = mark_sent ob ops (h_OutPac s) \<and>
     (\<forall>k. k < i \<or> j \<le> k \<longrightarrow> buf_data s1 b k = buf_data s b k) \<and>
     bytes_of (buf_data s1 b) i (j - i) = concat pkts \<and> (\<forall>p \<in> set pkts. wire_ok p) \<and>
     length pkts = length (unsent_of ob ops (h_OutPac s)) \<and>
     map (\<lambda>p. read_packet (mem_of p) 0) pkts =
       map (\<lambda>op. read_packet (buf_data s b) (snd (op_Pac (h_OutPac s op)))) (unsent_of ob ops (h_OutPac s)) \<and>
     (\<forall>op \<in> set (unsent_of ob ops (h_OutPac s)).
        get32 (buf_data s1 b) (snd (op_Pac (h_OutPac s op))) = PACKET_ID)"
proof (induction ops arbitrary: s i)
  case Nil
  then show ?case
    by (auto intro!: exI [of _ "[]"] simp: same_but_data_refl mark_sent_def bytes_of_def)
next
  case (Cons op ops)
  let ?h = "h_OutPac s"
  show ?case
  proof (cases "op_OutBuf (?h op) = ob \<and> \<not> op_Sent (?h op)")
    case False
    have "mark_sent ob (op # ops) ?h = mark_sent ob ops ?h"
    proof
      fix a
      show "mark_sent ob (op # ops) ?h a = mark_sent ob ops ?h a"
        using False by (cases "?h op") (auto simp: mark_sent_def)
    qed
    moreover have "unsent_of ob (op # ops) ?h = unsent_of ob ops ?h" using False by simp
    moreover have "seal_packets ob (op # ops) s = seal_packets ob ops s"
      by (simp add: seal_packet_skip [OF False])
    ultimately show ?thesis using Cons.IH [of s i] Cons.prems by simp
  next
    case True
    let ?m = "buf_data s b" and ?n = "pack_len (buf_data s b) i"
    have op: "op_Pac (?h op) = (b, i)" and hd: "header_ok ?m i" "get16 ?m (i + 10) = 0"
      and rest: "tiles ?m b (i + ?n) (map (op_Pac \<circ> ?h) (unsent_of ob ops ?h)) j"
      using Cons.prems(2) True by (auto simp: o_def)
    have le: "i + ?n \<le> j" using tiles_le [OF rest] by simp
    then have fit: "i + sizeof_Packet \<le> BUFFER_SIZE" using pack_len_ge [of ?m i] Cons.prems(3) by simp
    from seal_packet_step [OF conjunct1 [OF True] conjunct2 [OF True] op hd fit] obtain s1 where
      s1: "seal_packet ob op s = Some s1" "same_but_data b s s1"
        "h_OutPac s1 = ?h(op := (?h op)\<lparr>op_Sent := True\<rparr>)"
        "wire_at (buf_data s1 b) i" "pack_len (buf_data s1 b) i = ?n"
        "\<forall>k. k < i \<or> i + sizeof_Packet \<le> k \<longrightarrow> buf_data s1 b k = ?m k"
        "read_packet (buf_data s1 b) i = read_packet ?m i" by blast
    have nin: "op \<notin> set ops" and dist: "distinct ops" using Cons.prems(1) by simp_all
    have un: "unsent_of ob ops (h_OutPac s1) = unsent_of ob ops ?h"
      using nin by (intro filter_cong) (auto simp: s1(3))
    have mp: "map (op_Pac \<circ> h_OutPac s1) (unsent_of ob ops ?h) = map (op_Pac \<circ> ?h) (unsent_of ob ops ?h)"
      using nin by (auto simp: s1(3))
    have "same_on (i + ?n) j ?m (buf_data s1 b)"
      using s1(6) pack_len_ge [of ?m i] by (auto simp: same_on_def)
    from tiles_same [OF rest this]
    have t1: "tiles (buf_data s1 b) b (i + ?n)
        (map (op_Pac \<circ> h_OutPac s1) (unsent_of ob ops (h_OutPac s1))) j"
      by (simp only: un mp)
    from Cons.IH [OF dist t1 Cons.prems(3)] obtain s2 pkts where
      s2: "seal_packets ob ops s1 = Some s2" "same_but_data b s1 s2"
        "h_OutPac s2 = mark_sent ob ops (h_OutPac s1)"
        "\<forall>k. k < i + ?n \<or> j \<le> k \<longrightarrow> buf_data s2 b k = buf_data s1 b k"
        "bytes_of (buf_data s2 b) (i + ?n) (j - (i + ?n)) = concat pkts"
        "\<forall>p \<in> set pkts. wire_ok p" "length pkts = length (unsent_of ob ops ?h)"
      and vals: "map (\<lambda>p. read_packet (mem_of p) 0) pkts =
        map (\<lambda>op. read_packet (buf_data s1 b) (snd (op_Pac (h_OutPac s1 op)))) (unsent_of ob ops ?h)"
      and id: "\<forall>op \<in> set (unsent_of ob ops ?h).
        get32 (buf_data s2 b) (snd (op_Pac (h_OutPac s1 op))) = PACKET_ID"
      unfolding un by blast
    have so: "same_on i (i + pack_len (buf_data s1 b) i) (buf_data s1 b) (buf_data s2 b)"
      using s2(4) by (simp add: same_on_def s1(5))
    have w: "wire_at (buf_data s2 b) i" by (rule wire_at_same [OF s1(4) so])
    have n: "pack_len (buf_data s2 b) i = ?n"
      using header_same(2) [OF same_on_sub [OF so]] pack_len_ge [of "buf_data s1 b" i] s1(5) by simp
    have "bytes_of (buf_data s2 b) i (j - i) =
        bytes_of (buf_data s2 b) i (?n + (j - (i + ?n)))" using le by simp
    also have "\<dots> = bytes_of (buf_data s2 b) i ?n @ concat pkts"
      by (simp only: bytes_of_append s2(5))
    finally have b: "bytes_of (buf_data s2 b) i (j - i) = concat (bytes_of (buf_data s2 b) i ?n # pkts)"
      by simp
    have wk: "wire_ok (bytes_of (buf_data s2 b) i ?n)" using wire_ok_bytes [OF w] by (simp add: n)
    have un2: "unsent_of ob (op # ops) ?h = op # unsent_of ob ops ?h" using True by simp
    have ms: "h_OutPac s2 = mark_sent ob (op # ops) ?h"
      using True nin by (auto simp: s2(3) s1(3) mark_sent_def fun_eq_iff)
    have "get32 (buf_data s2 b) (snd (op_Pac (?h op))) = PACKET_ID"
      using w by (simp add: op wire_at_def header_ok_def)
    moreover have "snd (op_Pac (h_OutPac s1 q)) = snd (op_Pac (?h q))" if "q \<in> set ops" for q
      using that nin by (auto simp: s1(3))
    ultimately have ids: "\<forall>q \<in> set (unsent_of ob (op # ops) ?h).
        get32 (buf_data s2 b) (snd (op_Pac (?h q))) = PACKET_ID"
      unfolding un2 using id by auto
    have out: "\<forall>k. k < i \<or> j \<le> k \<longrightarrow> buf_data s2 b k = ?m k"
      using s2(4) s1(6) le pack_len_ge [of ?m i] by auto
    have sp: "seal_packets ob (op # ops) s = Some s2" by (simp add: s1(1) s2(1))
    have len: "length (bytes_of (buf_data s2 b) i ?n # pkts) = length (unsent_of ob (op # ops) ?h)"
      unfolding un2 by (simp add: s2(7))
    have "read_packet (mem_of (bytes_of (buf_data s2 b) i ?n)) 0 = read_packet (buf_data s2 b) i"
      using read_packet_bytes [of "buf_data s2 b" i] by (simp add: n)
    also have "\<dots> = read_packet (buf_data s1 b) i"
      using s2(4) by (intro read_packet_same) (simp add: s1(5))
    finally have v0: "read_packet (mem_of (bytes_of (buf_data s2 b) i ?n)) 0 = read_packet ?m i"
      using s1(7) by simp
    have v1: "read_packet (buf_data s1 b) (snd (op_Pac (h_OutPac s1 q))) = read_packet ?m (snd (op_Pac (?h q)))"
      if q: "q \<in> set (unsent_of ob ops ?h)" for q
    proof -
      have "op_Pac (?h q) \<in> set (map (op_Pac \<circ> ?h) (unsent_of ob ops ?h))"
        using q unfolding set_map comp_apply by (rule imageI)
      then have "(fst (op_Pac (?h q)), snd (op_Pac (?h q))) \<in> set (map (op_Pac \<circ> ?h) (unsent_of ob ops ?h))"
        by (simp only: prod.collapse)
      from tiles_member [OF rest this] have k: "i + ?n \<le> snd (op_Pac (?h q))" by simp
      have "h_OutPac s1 q = ?h q" using q nin by (auto simp: s1(3))
      moreover have "read_packet (buf_data s1 b) (snd (op_Pac (?h q))) = read_packet ?m (snd (op_Pac (?h q)))"
        using s1(6) k pack_len_ge [of ?m i] by (intro read_packet_same) simp
      ultimately show ?thesis by simp
    qed
    have vs: "map (\<lambda>p. read_packet (mem_of p) 0) (bytes_of (buf_data s2 b) i ?n # pkts) =
        map (\<lambda>op. read_packet ?m (snd (op_Pac (?h op)))) (unsent_of ob (op # ops) ?h)"
      unfolding un2 using v0 op vals v1 by simp
    show ?thesis
    proof (rule exI [of _ s2], rule exI [of _ "bytes_of (buf_data s2 b) i ?n # pkts"], intro conjI)
      show "seal_packets ob (op # ops) s = Some s2" by (rule sp)
      show "same_but_data b s s2" by (rule same_but_data_trans [OF s1(2) s2(2)])
      show "\<forall>p \<in> set (bytes_of (buf_data s2 b) i ?n # pkts). wire_ok p" using wk s2(6) by simp
    qed (rule ms out b len vs ids)+
  qed
qed

section \<open>The invariant\<close>

text \<open>
  \<open>xs\<close> are packets that are laid out but not yet on the recent list: none between operations,
  the new one inside \<open>APB_AllocPacketWithId\<close>. \<open>H\<close> are the objects held of the pool.
\<close>

definition packs :: "addr list \<Rightarrow> 'a writer_state_scheme \<Rightarrow> addr list" where
  "packs xs s = pw_RecentPackets (pw s) @ xs"

definition out_refs :: "addr list \<Rightarrow> 'a writer_state_scheme \<Rightarrow> addr set" where
  "out_refs xs s = set (pw_Queue (pw s)) \<union> (\<lambda>op. op_OutBuf (h_OutPac s op)) ` set (packs xs s)"

definition wbufs :: "addr list \<Rightarrow> 'a writer_state_scheme \<Rightarrow> addr set" where
  "wbufs xs s = (\<lambda>ob. ob_Buf (h_OutBuf s ob)) ` out_refs xs s"

definition w_heap :: "(u16 \<Rightarrow> addr set) \<Rightarrow> addr list \<Rightarrow> 'a writer_state_scheme \<Rightarrow> bool" where
  "w_heap H xs s \<longleftrightarrow> pool_holds H s \<and> distinct (pw_Queue (pw s)) \<and> distinct (packs xs s) \<and>
     set (packs xs s) \<subseteq> H OT_OUT_PACKET \<and> out_refs xs s \<subseteq> H OT_OUT_BUFFER \<and>
     inj_on (\<lambda>ob. ob_Buf (h_OutBuf s ob)) (out_refs xs s) \<and> wbufs xs s \<subseteq> H OT_BUFFER"

definition ob_count :: "addr list \<Rightarrow> 'a writer_state_scheme \<Rightarrow> addr \<Rightarrow> nat" where
  "ob_count xs s ob = length (filter (\<lambda>op. op_OutBuf (h_OutPac s op) = ob) (packs xs s))"

definition w_counts :: "addr list \<Rightarrow> 'a writer_state_scheme \<Rightarrow> bool" where
  "w_counts xs s \<longleftrightarrow>
     pw_OutBuf (pw s) = (if pw_Queue (pw s) = [] then None else Some (last (pw_Queue (pw s)))) \<and>
     unat (pw_BufCount (pw s)) = length (pw_Queue (pw s)) \<and>
     unat (pw_RecentCount (pw s)) = length (pw_RecentPackets (pw s)) \<and>
     (\<forall>ob \<in> out_refs xs s. unat (ob_PacketCount (h_OutBuf s ob)) = ob_count xs s ob \<and>
        ob_CanRelease (h_OutBuf s ob) = (ob \<notin> set (pw_Queue (pw s))))"

definition buf_layout :: "addr list \<Rightarrow> 'a writer_state_scheme \<Rightarrow> addr \<Rightarrow> bool" where
  "buf_layout xs s ob \<longleftrightarrow> (let b = ob_Buf (h_OutBuf s ob) in
     tiles (buf_data s b) b (unat (ob_Offset (h_OutBuf s ob)))
       (map (op_Pac \<circ> h_OutPac s) (unsent_of ob (packs xs s) (h_OutPac s))) (buf_offset s b) \<and>
     buf_offset s b \<le> BUFFER_SIZE \<and> even (buf_offset s b))"

definition pac_layout :: "'a writer_state_scheme \<Rightarrow> addr \<Rightarrow> bool" where
  "pac_layout s op \<longleftrightarrow> (let p = h_OutPac s op; ob = op_OutBuf p; q = op_Pac p in
     (\<not> op_Sent p \<longrightarrow> ob \<in> set (pw_Queue (pw s))) \<and> fst q = ob_Buf (h_OutBuf s ob) \<and>
     get32 (buf_data s (fst q)) (snd q) = PACKET_ID \<and>
     (op_Sent p \<longrightarrow> ob \<in> set (pw_Queue (pw s)) \<longrightarrow>
        snd q + sizeof_Packet \<le> unat (ob_Offset (h_OutBuf s ob))))"

lemma pac_layout_id:
  "pac_layout s op \<Longrightarrow>
     get32 (buf_data s (fst (op_Pac (h_OutPac s op)))) (snd (op_Pac (h_OutPac s op))) = PACKET_ID"
  unfolding pac_layout_def Let_def by (elim conjE) assumption

definition w_layout :: "addr list \<Rightarrow> 'a writer_state_scheme \<Rightarrow> bool" where
  "w_layout xs s \<longleftrightarrow> (\<forall>ob \<in> set (pw_Queue (pw s)). buf_layout xs s ob) \<and>
     (\<forall>op \<in> set (packs xs s). pac_layout s op)"

definition writer_inv :: "(u16 \<Rightarrow> addr set) \<Rightarrow> addr list \<Rightarrow> 'a writer_state_scheme \<Rightarrow> bool" where
  "writer_inv H xs s \<longleftrightarrow> w_heap H xs s \<and> w_counts xs s \<and> w_layout xs s"

text \<open>What a writer operation leaves alone.\<close>

definition writer_frame ::
    "(u16 \<Rightarrow> addr set) \<Rightarrow> addr list \<Rightarrow> 'a writer_state_scheme \<Rightarrow>
     (u16 \<Rightarrow> addr set) \<Rightarrow> addr list \<Rightarrow> 'a writer_state_scheme \<Rightarrow> bool" where
  "writer_frame H xs s H1 xs1 s1 \<longleftrightarrow>
     (\<forall>i. i \<notin> {OT_BUFFER, OT_OUT_BUFFER, OT_OUT_PACKET} \<longrightarrow> H1 i = H i) \<and>
     (\<forall>b \<in> H OT_BUFFER - wbufs xs s. b \<in> H1 OT_BUFFER - wbufs xs1 s1 \<and> h_Buf s1 b = h_Buf s b) \<and>
     rem s1 = rem s \<and> ser_io s1 = ser_io s \<and> writer_state.more s1 = writer_state.more s"

lemma writer_frame_trans:
  "writer_frame H xs s H1 xs1 s1 \<Longrightarrow> writer_frame H1 xs1 s1 H2 xs2 s2 \<Longrightarrow>
     writer_frame H xs s H2 xs2 s2"
  by (auto simp: writer_frame_def)

lemma writer_inv_cong:
  assumes inv: "writer_inv H xs s" and H: "\<And>i. H i \<subseteq> H1 i" and p: "pool_holds H1 s1"
    and pw: "pw s1 = pw s" and hp: "\<forall>a \<in> set (packs xs s). h_OutPac s1 a = h_OutPac s a"
    and ho: "\<forall>ob \<in> out_refs xs s. h_OutBuf s1 ob = h_OutBuf s ob"
    and hb: "\<forall>b \<in> wbufs xs s. h_Buf s1 b = h_Buf s b"
  shows "writer_inv H1 xs s1" and "wbufs xs s1 = wbufs xs s" and "out_refs xs s1 = out_refs xs s"
proof -
  have pk: "packs xs s1 = packs xs s" by (simp add: packs_def pw)
  have rf: "out_refs xs s1 = out_refs xs s" using hp by (auto simp: out_refs_def pk pw)
  have bf: "wbufs xs s1 = wbufs xs s" using ho by (auto simp: wbufs_def rf)
  have un: "unsent_of ob (packs xs s) (h_OutPac s1) = unsent_of ob (packs xs s) (h_OutPac s)" for ob
    using hp by (intro filter_cong) auto
  have mp: "map (op_Pac \<circ> h_OutPac s1) (unsent_of ob (packs xs s) (h_OutPac s)) =
      map (op_Pac \<circ> h_OutPac s) (unsent_of ob (packs xs s) (h_OutPac s))" for ob
    using hp by auto
  have ct: "ob_count xs s1 ob = ob_count xs s ob" for ob
    unfolding ob_count_def pk using hp by (intro arg_cong [where f = length] filter_cong) auto
  have inj: "inj_on (\<lambda>ob. ob_Buf (h_OutBuf s1 ob)) (out_refs xs s) =
      inj_on (\<lambda>ob. ob_Buf (h_OutBuf s ob)) (out_refs xs s)"
    using ho by (intro inj_on_cong) auto
  have "w_heap H1 xs s1"
    using inv p by (auto simp: writer_inv_def w_heap_def pk rf bf pw inj intro!: subsetD [OF H])
  moreover have "w_counts xs s1"
    using inv ho by (auto simp: writer_inv_def w_counts_def rf pw ct)
  moreover have "buf_layout xs s1 ob = buf_layout xs s ob" if "ob \<in> set (pw_Queue (pw s))" for ob
  proof -
    have "ob \<in> out_refs xs s" using that by (simp add: out_refs_def)
    moreover then have "ob_Buf (h_OutBuf s ob) \<in> wbufs xs s" by (auto simp: wbufs_def)
    ultimately show ?thesis using ho hb by (simp add: buf_layout_def pk un mp)
  qed
  moreover have "pac_layout s1 op = pac_layout s op" if "op \<in> set (packs xs s)" "pac_layout s op" for op
  proof -
    have "op_OutBuf (h_OutPac s op) \<in> out_refs xs s" using that by (auto simp: out_refs_def)
    moreover then have "ob_Buf (h_OutBuf s (op_OutBuf (h_OutPac s op))) \<in> wbufs xs s"
      by (auto simp: wbufs_def)
    ultimately show ?thesis using ho hb hp that by (auto simp: pac_layout_def pw Let_def)
  qed
  ultimately show "writer_inv H1 xs s1"
    using inv by (auto simp: writer_inv_def w_layout_def pk pw)
  show "wbufs xs s1 = wbufs xs s" and "out_refs xs s1 = out_refs xs s" by (rule bf, rule rf)
qed

section \<open>Allocating a packet keeps the invariant\<close>

lemma pool_step_frame:
  assumes "APB_AllocObject i s = (p, s1)"
  shows "h_Buf s1 = h_Buf s" "h_OutBuf s1 = h_OutBuf s" "h_OutPac s1 = h_OutPac s" "pw s1 = pw s"
    "rem s1 = rem s" "ser_io s1 = ser_io s" "writer_state.more s1 = writer_state.more s"
  using h_Buf_more [OF APB_AllocObject_more [OF assms]]
    writer_fields_pool [OF APB_AllocObject_more [OF assms]] by simp_all

lemma alloc_object_writer:
  assumes inv: "writer_inv H xs s" and al: "APB_AllocObject i s = (p, s1)"
    and i: "i \<in> {OT_OUT_BUFFER, OT_OUT_PACKET}"
  defines "H1 \<equiv> (case p of None \<Rightarrow> H | Some a \<Rightarrow> H(i := insert a (H i)))"
  shows "writer_inv H1 xs s1" "writer_frame H xs s H1 xs s1" "faults s1 = faults s"
    "p = Some a \<Longrightarrow> a \<notin> H i" "wbufs xs s1 = wbufs xs s" "out_refs xs s1 = out_refs xs s"
proof -
  note f = pool_step_frame [OF al]
  have h: "pool_holds H s" using inv by (simp add: writer_inv_def w_heap_def)
  have ph: "pool_holds H1 s1 \<and> faults s1 = faults s"
    using pool_laws(1,2) [OF h, of i] al by (cases p) (auto simp: H1_def)
  have sub: "H j \<subseteq> H1 j" for j by (cases p) (auto simp: H1_def)
  note c = writer_inv_cong [OF inv sub conjunct1 [OF ph], of] 
  show "writer_inv H1 xs s1" "wbufs xs s1 = wbufs xs s" "out_refs xs s1 = out_refs xs s"
    using writer_inv_cong [OF inv sub conjunct1 [OF ph]] by (simp_all add: f)
  show "faults s1 = faults s" using ph by simp
  show "p = Some a \<Longrightarrow> a \<notin> H i" using pool_laws(1) [OF h] al by blast
  show "writer_frame H xs s H1 xs s1"
    using i \<open>wbufs xs s1 = wbufs xs s\<close> by (cases p) (auto simp: writer_frame_def f H1_def)
qed

lemma add_out_buffer:
  assumes inv: "writer_inv H xs s"
    and ob: "ob \<in> H OT_OUT_BUFFER" "ob \<notin> out_refs xs s"
    and b: "b \<in> H OT_BUFFER" "b \<notin> wbufs xs s" and b0: "buf_offset s b = 0"
    and s1: "s1 = upd_pw (\<lambda>w. w\<lparr>pw_OutBuf := Some ob, pw_Queue := pw_Queue w @ [ob],
                 pw_BufCount := pw_BufCount w + 1\<rparr>)
               (upd_ob ob (\<lambda>_. \<lparr>ob_Buf = b, ob_Offset = 0, ob_PacketCount = 0,
                 ob_CanRelease = False\<rparr>) s)"
  shows "writer_inv H xs s1" and "wbufs xs s1 = insert b (wbufs xs s)"
    and "out_refs xs s1 = insert ob (out_refs xs s)"
proof -
  have w: "w_heap H xs s" "w_counts xs s" "w_layout xs s" using inv by (simp_all add: writer_inv_def)
  let ?q = "pw_Queue (pw s)"
  have f: "pw s1 = (pw s)\<lparr>pw_OutBuf := Some ob, pw_Queue := ?q @ [ob], pw_BufCount := pw_BufCount (pw s) + 1\<rparr>"
    "h_OutPac s1 = h_OutPac s" "h_Buf s1 = h_Buf s"
    by (simp_all add: s1)
  have obq: "ob \<notin> set ?q" and obp: "\<forall>op \<in> set (packs xs s). op_OutBuf (h_OutPac s op) \<noteq> ob"
    using ob(2) by (auto simp: out_refs_def)
  have pk: "packs xs s1 = packs xs s" by (simp add: packs_def f)
  show rf: "out_refs xs s1 = insert ob (out_refs xs s)" by (auto simp: out_refs_def pk f)
  have oth: "h_OutBuf s1 c = h_OutBuf s c" if "c \<in> out_refs xs s" for c
    using that ob(2) by (auto simp: s1)
  have new: "h_OutBuf s1 ob = \<lparr>ob_Buf = b, ob_Offset = 0, ob_PacketCount = 0, ob_CanRelease = False\<rparr>"
    by (simp add: s1)
  show bf: "wbufs xs s1 = insert b (wbufs xs s)"
    using oth new by (auto simp: wbufs_def rf)
  have ct: "ob_count xs s1 c = ob_count xs s c" for c by (simp add: ob_count_def pk f)
  have c0: "ob_count xs s ob = 0" using obp by (simp add: ob_count_def filter_empty_conv)
  have un0: "unsent_of ob (packs xs s) (h_OutPac s) = []" using obp by (simp add: filter_empty_conv)
  have len: "length ?q < 65535"
  proof -
    have "distinct (?q @ [ob])" "set (?q @ [ob]) \<subseteq> H OT_OUT_BUFFER"
      using w(1) obq ob(1) by (auto simp: w_heap_def out_refs_def)
    moreover have "pool_holds H s" using w(1) by (simp add: w_heap_def)
    ultimately have "length (?q @ [ob]) < 65536" using pool_holds_length by blast
    then show ?thesis by simp
  qed
  have "pool_holds H s1 = pool_holds H s" by (rule pool_holds_cong) (simp_all add: s1)
  moreover have "inj_on (\<lambda>c. ob_Buf (h_OutBuf s1 c)) (out_refs xs s)"
    using w(1) oth by (subst inj_on_cong [of _ _ "\<lambda>c. ob_Buf (h_OutBuf s c)"]) (auto simp: w_heap_def)
  moreover have "b \<notin> (\<lambda>c. ob_Buf (h_OutBuf s1 c)) ` out_refs xs s"
    using b(2) oth by (auto simp: wbufs_def)
  ultimately have h: "w_heap H xs s1"
    using w(1) ob b obq new by (simp add: w_heap_def pk rf bf f)
  have "unat (pw_BufCount (pw s) + 1) = Suc (length ?q)"
    using w(2) len by (subst unat_Suc_u16) (simp_all add: w_counts_def)
  then have c: "w_counts xs s1"
    using w(2) oth new obq ob(2)
    by (auto simp: w_counts_def rf ct c0 f)
  have "buf_layout xs s1 c" if "c \<in> set ?q" for c
  proof -
    have "c \<in> out_refs xs s" using that by (simp add: out_refs_def)
    moreover have "buf_layout xs s c" using w(3) that by (simp add: w_layout_def)
    ultimately show ?thesis by (simp add: buf_layout_def pk oth f)
  qed
  moreover have "buf_layout xs s1 ob"
    using un0 b0 by (simp add: buf_layout_def pk new f)
  moreover have "pac_layout s1 op" if "op \<in> set (packs xs s)" for op
  proof -
    have "op_OutBuf (h_OutPac s op) \<in> out_refs xs s" using that by (auto simp: out_refs_def)
    moreover have "pac_layout s op" using w(3) that by (simp add: w_layout_def)
    moreover have "op_OutBuf (h_OutPac s op) \<noteq> ob" using obp that by blast
    ultimately show ?thesis by (auto simp: pac_layout_def f oth Let_def)
  qed
  ultimately have "w_layout xs s1" by (auto simp: w_layout_def pk f)
  with h c show "writer_inv H xs s1" by (simp add: writer_inv_def)
qed

lemma alloc_buffer_writer:
  assumes inv: "writer_inv H xs s" and al: "APB_AllocateBuffer s = (p, s1)"
  defines "H1 \<equiv> (case p of None \<Rightarrow> H | Some b \<Rightarrow> H(OT_BUFFER := insert b (H OT_BUFFER)))"
  shows "writer_inv H1 xs s1" "writer_frame H xs s H1 xs s1" "faults s1 = faults s"
    "p = Some b \<Longrightarrow> b \<notin> wbufs xs s1 \<and> buf_offset s1 b = 0" "out_refs xs s1 = out_refs xs s"
    "h_OutPac s1 = h_OutPac s" "pw s1 = pw s" "h_OutBuf s1 = h_OutBuf s"
proof -
  note f = writer_fields_buf [OF APB_AllocateBuffer_more [OF al]]
  show "h_OutPac s1 = h_OutPac s" "pw s1 = pw s" "h_OutBuf s1 = h_OutBuf s" by (rule f)+
  have h: "pool_holds H s" and wb: "wbufs xs s \<subseteq> H OT_BUFFER"
    using inv by (simp_all add: writer_inv_def w_heap_def)
  note a = APB_AllocateBuffer_holds [OF h al]
  have ph: "pool_holds H1 s1 \<and> faults s1 = faults s" using a by (cases p) (auto simp: H1_def)
  have sub: "H j \<subseteq> H1 j" for j by (cases p) (auto simp: H1_def)
  have hb: "\<forall>b \<in> H OT_BUFFER. h_Buf s1 b = h_Buf s b" using a by (cases p) auto
  then have "\<forall>b \<in> wbufs xs s. h_Buf s1 b = h_Buf s b" using wb by blast
  note c = writer_inv_cong [OF inv sub conjunct1 [OF ph] f(3) _ _ this]
  show "writer_inv H1 xs s1" "out_refs xs s1 = out_refs xs s" using c by (simp_all add: f)
  have wbs: "wbufs xs s1 = wbufs xs s" using c by (simp add: f)
  show "faults s1 = faults s" using ph by simp
  show "p = Some b \<Longrightarrow> b \<notin> wbufs xs s1 \<and> buf_offset s1 b = 0" using a wb wbs by auto
  show "writer_frame H xs s H1 xs s1"
    using hb wbs by (cases p) (auto simp: writer_frame_def f H1_def)
qed

definition has_room :: "u16 \<Rightarrow> addr \<Rightarrow> 'a writer_state_scheme \<Rightarrow> bool" where
  "has_room len ob s \<longleftrightarrow> (let i = buf_offset s (ob_Buf (h_OutBuf s ob)) in
     i + unat len + 1 < BUFFER_SIZE \<or> i = 0)"

lemma get_out_buffer_inv:
  assumes inv: "writer_inv H xs s" and go: "get_out_buffer len s = (r, s1)"
  shows "\<exists>H1. writer_inv H1 xs s1 \<and> writer_frame H xs s H1 xs s1 \<and> faults s1 = faults s \<and>
    H1 OT_OUT_PACKET = H OT_OUT_PACKET \<and> packs xs s1 = packs xs s \<and> h_OutPac s1 = h_OutPac s \<and>
    pw_RecentCount (pw s1) = pw_RecentCount (pw s) \<and>
    (\<forall>ob. r = Some ob \<longrightarrow> ob \<in> set (pw_Queue (pw s1)) \<and> has_room len ob s1)"
proof (cases "case pw_OutBuf (pw s) of None \<Rightarrow> False
    | Some ob \<Rightarrow> \<not> buf_offset s (ob_Buf (h_OutBuf s ob)) + unat len + 1 \<ge> BUFFER_SIZE")
  case True
  then obtain ob where ob: "pw_OutBuf (pw s) = Some ob" by (auto split: option.splits)
  then have "r = Some ob" "s1 = s" "has_room len ob s"
    using go True by (auto simp: get_out_buffer_def has_room_def Let_def)
  moreover have "ob \<in> set (pw_Queue (pw s))"
    using inv ob by (auto simp: writer_inv_def w_counts_def split: if_splits)
  ultimately show ?thesis using inv by (auto simp: writer_frame_def)
next
  case new: False
  note go = go [unfolded get_out_buffer_def Let_def if_not_P [OF new]]
  obtain p s2 where al: "APB_AllocObject OT_OUT_BUFFER s = (p, s2)" by fastforce
  note a = alloc_object_writer [OF inv al, simplified]
  note fr = pool_step_frame [OF al]
  show ?thesis
  proof (cases p)
    case None
    then have "r = None" "s1 = s2" using go al by auto
    then show ?thesis using a None fr by (auto simp: packs_def)
  next
    case (Some ob)
    let ?H = "H(OT_OUT_BUFFER := insert ob (H OT_OUT_BUFFER))"
    obtain q s3 where bl: "APB_AllocateBuffer s2 = (q, s3)" by fastforce
    have inv2: "writer_inv ?H xs s2" and fr2: "writer_frame H xs s ?H xs s2" using a Some by simp_all
    note b = alloc_buffer_writer [OF inv2 bl]
    show ?thesis
    proof (cases q)
      case None
      then have "r = None" "s1 = s3" using go al Some bl by auto
      then show ?thesis
        using b None writer_frame_trans [OF fr2 b(2)] a fr by (auto simp: packs_def)
    next
      case q: (Some c)
      let ?H1 = "?H(OT_BUFFER := insert c (?H OT_BUFFER))"
      let ?s = "upd_pw (\<lambda>w. w\<lparr>pw_OutBuf := Some ob, pw_Queue := pw_Queue w @ [ob],
                 pw_BufCount := pw_BufCount w + 1\<rparr>)
               (upd_ob ob (\<lambda>_. \<lparr>ob_Buf = c, ob_Offset = 0, ob_PacketCount = 0,
                 ob_CanRelease = False\<rparr>) s3)"
      have r: "r = Some ob" "s1 = ?s"
        using go al Some bl q by auto
      have inv3: "writer_inv ?H1 xs s3" and fr3: "writer_frame ?H xs s2 ?H1 xs s3"
        using b q by simp_all
      have "out_refs xs s \<subseteq> H OT_OUT_BUFFER" using inv by (simp add: writer_inv_def w_heap_def)
      then have "ob \<notin> out_refs xs s3" using a(4) [of ob] Some b(5) a(6) by auto
      moreover have "c \<notin> wbufs xs s3" and c0: "buf_offset s3 c = 0" using b(4) q by auto
      ultimately have d: "writer_inv ?H1 xs s1" "wbufs xs s1 = insert c (wbufs xs s3)"
        using add_out_buffer [OF inv3 _ _ _ _ _ r(2)] by auto
      have "c \<notin> ?H OT_BUFFER"
        using APB_AllocateBuffer_holds [OF _ bl, of ?H] inv2 q by (simp add: writer_inv_def w_heap_def)
      then have "writer_frame ?H xs s2 ?H1 xs s1"
        using fr3 d(2) by (auto simp: writer_frame_def r(2))
      with fr2 have "writer_frame H xs s ?H1 xs s1" by (rule writer_frame_trans)
      moreover have "has_room len ob s1" using c0 by (simp add: has_room_def r(2))
      ultimately show ?thesis
        using d(1) r b(3,6,7) a(3) fr by (intro exI [of _ ?H1]) (auto simp: packs_def)
    qed
  qed
qed

subsection \<open>Laying out the packet\<close>

text \<open>The memory of a new packet of \<open>len\<close> bytes at index \<open>i\<close>.\<close>

definition new_packet_mem :: "nat \<Rightarrow> u16 \<Rightarrow> u16 \<Rightarrow> bytes \<Rightarrow> bytes" where
  "new_packet_mem i packId len m =
     (if unat len mod 2 = 1
      then put8 (i + unat len + 1) 0 (put8 (i + 5) PF_PAD_BYTE (init_packet i packId len m))
      else init_packet i packId len m)"

lemma init_packet_outside:
  "k < i \<or> i + sizeof_Packet \<le> k \<Longrightarrow> init_packet i packId len m k = m k"
  by (auto simp: init_packet_def put16_apply put32_apply put8_apply)

lemma new_packet_outside:
  assumes "k < i \<or> i + unat len + 2 \<le> k" and "sizeof_Packet \<le> unat len"
  shows "new_packet_mem i packId len m k = m k"
  using assms by (auto simp: new_packet_mem_def put8_apply init_packet_outside)

lemma init_packet_header:
  "get32 (init_packet i packId len m) i = PACKET_ID"
  "get16 (init_packet i packId len m) (i + 8) = packId"
  "get16 (init_packet i packId len m) (i + 10) = 0"
  "get16 (init_packet i packId len m) (i + 12) = len - of_nat sizeof_Packet"
  "init_packet i packId len m (i + 5) = 0"
  by (simp_all add: init_packet_def get32_def get16_def put16_apply put32_apply put8_apply)

lemma new_packet_header:
  fixes i :: nat and packId len :: u16 and m :: bytes
  assumes "sizeof_Packet \<le> unat len" and "unat len \<le> BUFFER_SIZE"
  defines "m1 \<equiv> new_packet_mem i packId len m"
  shows "header_ok m1 i" "get16 m1 (i + 10) = 0" "get16 m1 (i + 8) = packId"
    "get16 m1 (i + 12) = len - of_nat sizeof_Packet"
    "pack_len m1 i = unat len + unat len mod 2"
proof -
  let ?m = "init_packet i packId len m"
  have same: "m1 k = ?m k" if "k < i + sizeof_Packet" "k \<noteq> i + 5" for k
    using that assms(1) by (auto simp: m1_def new_packet_mem_def put8_apply)
  have f: "m1 (i + 5) = (if unat len mod 2 = 1 then PF_PAD_BYTE else 0)"
    using assms(1) init_packet_header(5) by (auto simp: m1_def new_packet_mem_def put8_apply)
  note h = init_packet_header [of i packId len m]
  show "get16 m1 (i + 10) = 0" "get16 m1 (i + 8) = packId"
    and l: "get16 m1 (i + 12) = len - of_nat sizeof_Packet"
    using h(2-4) by (simp_all add: get16_def same)
  have id: "get32 m1 i = PACKET_ID" using h(1) by (simp add: get32_def get16_def same)
  have n: "unat (len - of_nat sizeof_Packet) = unat len - sizeof_Packet"
    using assms(1) by (subst unat_sub_u16) simp_all
  have par: "odd (unat len - sizeof_Packet) \<longleftrightarrow> unat len mod 2 = 1"
    using assms(1) by (simp add: odd_iff_mod_2_eq_one)
  show "header_ok m1 i"
    using id l n assms(2) par f
    by (auto simp: header_ok_def BUFFER_SIZE_def PF_PAD_BYTE_def bit_1_iff)
  have "(unat len - sizeof_Packet) mod 2 = unat len mod 2"
    using par by (metis even_iff_mod_2_eq_zero odd_iff_mod_2_eq_one)
  then show "pack_len m1 i = unat len + unat len mod 2"
    using l n assms(1) by (simp add: pack_len_def)
qed

lemma init_out_packet_fields:
  fixes op ob :: addr and packId len :: u16
  assumes len: "sizeof_Packet \<le> unat len" "unat len \<le> BUFFER_SIZE" and room: "has_room len ob s"
    and ev: "even (buf_offset s (ob_Buf (h_OutBuf s ob)))"
    and s1: "s1 = init_out_packet op ob len packId s"
  defines "b \<equiv> ob_Buf (h_OutBuf s ob)"
  defines "i \<equiv> buf_offset s b"
  shows "h_OutPac s1 = (h_OutPac s)(op := \<lparr>op_OutBuf = ob, op_Pac = (b, i), op_Sent = False\<rparr>)"
    "h_OutBuf s1 = (h_OutBuf s)(ob := (h_OutBuf s ob)\<lparr>ob_PacketCount := ob_PacketCount (h_OutBuf s ob) + 1\<rparr>)"
    "\<forall>c. c \<noteq> b \<longrightarrow> h_Buf s1 c = h_Buf s c"
    "buf_data s1 b = new_packet_mem i packId len (buf_data s b)"
    "buf_offset s1 b = i + unat len + unat len mod 2"
    "i + unat len + unat len mod 2 \<le> BUFFER_SIZE"
    "faults s1 = (if unat len = 4095 then OutOfBounds # faults s else faults s)"
    "pw s1 = pw s" "rem s1 = rem s" "ser_io s1 = ser_io s"
    "writer_state.more s1 = writer_state.more s"
    "op_Types s1 = op_Types s" "op_MemPool s1 = op_MemPool s" "op_Mem s1 = op_Mem s"
proof -
  have cases: "i + unat len + 1 < 4096 \<or> i = 0"
    using room by (simp add: has_room_def b_def i_def BUFFER_SIZE_def Let_def)
  have le: "unat len \<le> 4096" using len(2) by (simp add: BUFFER_SIZE_def)
  show fit: "i + unat len + unat len mod 2 \<le> BUFFER_SIZE"
  proof (cases "i = 0")
    case True
    have "n \<le> 4096 \<Longrightarrow> n + n mod 2 \<le> 4096" for n :: nat by presburger
    then show ?thesis using True le by (simp add: BUFFER_SIZE_def)
  next
    case False
    then show ?thesis using cases by (simp add: BUFFER_SIZE_def mod_2_eq_odd)
  qed
  let ?e = "unat (b_Offset (h_Buf s b) + len)"
  have e: "?e = i + unat len"
    using fit by (subst unat_add_u16_small) (simp_all add: i_def BUFFER_SIZE_def)
  have e1: "unat (b_Offset (h_Buf s b) + len + 1) = i + unat len + 1" if "unat len mod 2 = 1"
    using fit that e by (subst unat_add_u16_small) (simp_all add: BUFFER_SIZE_def)
  have hi: "i + sizeof_Packet \<le> BUFFER_SIZE" using fit len(1) by linarith
  have pad: "unat len mod 2 = 1 \<Longrightarrow> i + unat len + 1 + 1 \<le> BUFFER_SIZE \<longleftrightarrow> unat len \<noteq> 4095"
  proof -
    assume odd: "unat len mod 2 = 1"
    show "i + unat len + 1 + 1 \<le> BUFFER_SIZE \<longleftrightarrow> unat len \<noteq> 4095"
    proof (cases "i = 0")
      case True
      have "n \<le> 4096 \<Longrightarrow> n mod 2 = 1 \<Longrightarrow> n + 2 \<le> 4096 \<longleftrightarrow> n \<noteq> 4095" for n :: nat by presburger
      then show ?thesis using True le odd by (simp add: BUFFER_SIZE_def)
    next
      case False
      then have "i + unat len + 1 < 4096" using cases by simp
      then show ?thesis using odd by (simp add: BUFFER_SIZE_def)
    qed
  qed
  show "h_OutPac s1 = (h_OutPac s)(op := \<lparr>op_OutBuf = ob, op_Pac = (b, i), op_Sent = False\<rparr>)"
    "h_OutBuf s1 = (h_OutBuf s)(ob := (h_OutBuf s ob)\<lparr>ob_PacketCount := ob_PacketCount (h_OutBuf s ob) + 1\<rparr>)"
    "\<forall>c. c \<noteq> b \<longrightarrow> h_Buf s1 c = h_Buf s c" "pw s1 = pw s" "rem s1 = rem s" "ser_io s1 = ser_io s"
    "writer_state.more s1 = writer_state.more s"
    "op_Types s1 = op_Types s" "op_MemPool s1 = op_MemPool s" "op_Mem s1 = op_Mem s"
    unfolding s1 init_out_packet_def b_def [symmetric] i_def [symmetric] Let_def
    by (simp_all add: i_def)
  show "buf_data s1 b = new_packet_mem i packId len (buf_data s b)"
    "buf_offset s1 b = i + unat len + unat len mod 2"
    unfolding s1 init_out_packet_def b_def [symmetric] i_def [symmetric] Let_def
    using e e1 by (auto simp: new_packet_mem_def)
  show "faults s1 = (if unat len = 4095 then OutOfBounds # faults s else faults s)"
  proof (cases "unat len mod 2 = 1")
    case True
    then show ?thesis
      unfolding s1 init_out_packet_def b_def [symmetric] i_def [symmetric] Let_def
      using hi e1 pad by (simp add: faults_write_buf)
  next
    case False
    then have "unat len \<noteq> 4095" by auto
    then show ?thesis
      unfolding s1 init_out_packet_def b_def [symmetric] i_def [symmetric] Let_def
      using hi False by (simp add: faults_write_buf)
  qed
qed

lemma init_out_packet_inv:
  fixes packId :: u16
  assumes inv: "writer_inv H [] s"
    and op: "op \<in> H OT_OUT_PACKET" "op \<notin> set (packs [] s)"
    and ob: "ob \<in> set (pw_Queue (pw s))"
    and len: "sizeof_Packet \<le> unat len" "unat len \<le> BUFFER_SIZE" and room: "has_room len ob s"
  defines "s1 \<equiv> init_out_packet op ob len packId s"
  shows "writer_inv H [op] s1" and "writer_frame H [] s H [op] s1"
proof -
  have w: "w_heap H [] s" "w_counts [] s" "w_layout [] s" using inv by (simp_all add: writer_inv_def)
  define b where "b = ob_Buf (h_OutBuf s ob)"
  define i where "i = buf_offset s b"
  have lay: "buf_layout [] s ob" using w(3) ob by (simp add: w_layout_def)
  then have ev: "even (buf_offset s (ob_Buf (h_OutBuf s ob)))" by (simp add: buf_layout_def Let_def)
  have s1: "s1 = init_out_packet op ob len packId s" by (simp add: s1_def)
  note f = init_out_packet_fields [OF len room ev s1, folded b_def, folded i_def]
  have obr: "ob \<in> out_refs [] s" using ob by (simp add: out_refs_def)
  have pk: "packs [op] s1 = packs [] s @ [op]" by (simp add: packs_def f)
  have hp: "h_OutPac s1 a = h_OutPac s a" if "a \<in> set (packs [] s)" for a using that op(2) by (auto simp: f)
  have hop: "h_OutPac s1 op = \<lparr>op_OutBuf = ob, op_Pac = (b, i), op_Sent = False\<rparr>" by (simp add: f)
  have rf: "out_refs [op] s1 = out_refs [] s"
    using hp obr by (auto simp: out_refs_def pk hop f)
  have obuf: "ob_Buf (h_OutBuf s1 c) = ob_Buf (h_OutBuf s c)" for c by (simp add: f)
  have oboff: "ob_Offset (h_OutBuf s1 c) = ob_Offset (h_OutBuf s c)" for c by (simp add: f)
  have bf: "wbufs [op] s1 = wbufs [] s" by (simp add: wbufs_def rf obuf)
  have bw: "b \<in> wbufs [] s" using obr by (auto simp: wbufs_def b_def)
  have inj: "ob_Buf (h_OutBuf s c) \<noteq> b" if "c \<in> out_refs [] s" "c \<noteq> ob" for c
    using w(1) that obr by (auto simp: w_heap_def b_def inj_on_def)
  have ph: "pool_holds H s1 = pool_holds H s" by (rule pool_holds_cong) (simp_all add: f)
  have heap: "w_heap H [op] s1"
    using w(1) op ph by (simp add: w_heap_def pk rf bf obuf) (simp add: f)
  have un: "unsent_of c (packs [op] s1) (h_OutPac s1) =
      unsent_of c (packs [] s) (h_OutPac s) @ (if c = ob then [op] else [])" for c
  proof -
    have "unsent_of c (packs [] s) (h_OutPac s1) = unsent_of c (packs [] s) (h_OutPac s)"
      using hp by (intro filter_cong) auto
    then show ?thesis by (simp add: pk hop)
  qed
  have mp: "map (op_Pac \<circ> h_OutPac s1) (unsent_of c (packs [] s) (h_OutPac s)) =
      map (op_Pac \<circ> h_OutPac s) (unsent_of c (packs [] s) (h_OutPac s))" for c
    using hp by auto
  have ct: "ob_count [op] s1 c = ob_count [] s c + (if c = ob then 1 else 0)" for c
  proof -
    have "filter (\<lambda>a. op_OutBuf (h_OutPac s1 a) = c) (packs [] s) =
        filter (\<lambda>a. op_OutBuf (h_OutPac s a) = c) (packs [] s)"
      using hp by (intro filter_cong) auto
    then show ?thesis by (simp add: ob_count_def pk hop)
  qed
  have "length (packs [] s @ [op]) < 65536"
    using heap pool_holds_length [of H s1 "packs [op] s1" OT_OUT_PACKET]
    by (simp add: w_heap_def pk)
  moreover have "ob_count [] s ob \<le> length (packs [] s)" by (simp add: ob_count_def)
  ultimately have "ob_count [] s ob < 65535" by simp
  then have "unat (ob_PacketCount (h_OutBuf s ob) + 1) = Suc (ob_count [] s ob)"
    using w(2) obr by (subst unat_Suc_u16) (simp_all add: w_counts_def)
  then have counts: "w_counts [op] s1"
    using w(2) by (auto simp: w_counts_def rf ct f)
  have data: "buf_data s1 b = new_packet_mem i packId len (buf_data s b)" by (rule f)
  have low: "same_on 0 i (buf_data s b) (buf_data s1 b)"
    using new_packet_outside [OF _ len(1)] by (auto simp: same_on_def data)
  note hd = new_packet_header [OF len, of i packId "buf_data s b", folded data]
  have t: "tiles (buf_data s b) b (unat (ob_Offset (h_OutBuf s ob)))
      (map (op_Pac \<circ> h_OutPac s) (unsent_of ob (packs [] s) (h_OutPac s))) i"
    using lay by (simp add: buf_layout_def Let_def b_def i_def)
  have "buf_layout [op] s1 ob"
  proof -
    have "tiles (buf_data s1 b) b (unat (ob_Offset (h_OutBuf s ob)))
        (map (op_Pac \<circ> h_OutPac s) (unsent_of ob (packs [] s) (h_OutPac s))) i"
      by (rule tiles_same [OF t same_on_sub [OF low]]) simp_all
    from tiles_snoc [OF this hd(1,2)]
    have "tiles (buf_data s1 b) b (unat (ob_Offset (h_OutBuf s ob)))
        (map (op_Pac \<circ> h_OutPac s) (unsent_of ob (packs [] s) (h_OutPac s)) @ [(b, i)])
        (buf_offset s1 b)"
      by (simp add: hd(5) f(5) add.assoc)
    moreover have "even (buf_offset s1 b)"
    proof -
      have "buf_offset s1 b = i + pack_len (buf_data s1 b) i" using f(5) hd(5) by simp
      then show ?thesis using ev [folded b_def, folded i_def] pack_len_even by simp
    qed
    moreover have "buf_offset s1 b \<le> BUFFER_SIZE" using f(5,6) by simp
    ultimately show ?thesis
      by (simp add: buf_layout_def Let_def obuf oboff un mp hop b_def [symmetric])
  qed
  moreover have "buf_layout [op] s1 c" if c: "c \<in> set (pw_Queue (pw s))" "c \<noteq> ob" for c
  proof -
    have "c \<in> out_refs [] s" using c(1) by (simp add: out_refs_def)
    then have "h_Buf s1 (ob_Buf (h_OutBuf s c)) = h_Buf s (ob_Buf (h_OutBuf s c))"
      using inj [OF _ c(2)] f(3) by simp
    moreover have "buf_layout [] s c" using w(3) c(1) by (simp add: w_layout_def)
    ultimately show ?thesis using c(2) by (simp add: buf_layout_def Let_def obuf oboff un mp)
  qed
  moreover have "pac_layout s1 op"
    using ob hd(1) by (simp add: pac_layout_def hop obuf header_ok_def f(8)) (simp add: b_def)
  moreover have "pac_layout s1 a" if a: "a \<in> set (packs [] s)" for a
  proof -
    let ?p = "h_OutPac s a"
    have pl: "pac_layout s a" using w(3) a by (simp add: w_layout_def)
    have ar: "op_OutBuf ?p \<in> out_refs [] s" using a by (auto simp: out_refs_def)
    have "get32 (buf_data s1 (fst (op_Pac ?p))) (snd (op_Pac ?p)) = PACKET_ID"
    proof (cases "op_OutBuf ?p = ob")
      case True
      have fst: "fst (op_Pac ?p) = b" using pl True by (simp add: pac_layout_def Let_def b_def)
      have "snd (op_Pac ?p) + sizeof_Packet \<le> i"
      proof (cases "op_Sent ?p")
        case sent: True
        then have "snd (op_Pac ?p) + sizeof_Packet \<le> unat (ob_Offset (h_OutBuf s ob))"
          using pl True ob by (simp add: pac_layout_def Let_def)
        moreover have "unat (ob_Offset (h_OutBuf s ob)) \<le> i"
          using lay tiles_le by (fastforce simp: buf_layout_def Let_def b_def i_def)
        ultimately show ?thesis by simp
      next
        case False
        then have "a \<in> set (unsent_of ob (packs [] s) (h_OutPac s))" using a True by simp
        then have "op_Pac ?p \<in> set (map (op_Pac \<circ> h_OutPac s) (unsent_of ob (packs [] s) (h_OutPac s)))"
          by (auto simp: image_iff)
        then have "snd (op_Pac ?p) + pack_len (buf_data s b) (snd (op_Pac ?p)) \<le> i"
          using tiles_member [OF t, of "fst (op_Pac ?p)" "snd (op_Pac ?p)"] by simp
        then show ?thesis using pack_len_ge [of "buf_data s b" "snd (op_Pac ?p)"] by linarith
      qed
      then have "get32 (buf_data s1 b) (snd (op_Pac ?p)) = get32 (buf_data s b) (snd (op_Pac ?p))"
        by (intro get32_same [OF low]) simp_all
      moreover have "get32 (buf_data s (fst (op_Pac ?p))) (snd (op_Pac ?p)) = PACKET_ID"
        using pl by (rule pac_layout_id)
      ultimately show ?thesis unfolding fst by simp
    next
      case False
      then have "fst (op_Pac ?p) \<noteq> b" using inj [OF ar] pl by (simp add: pac_layout_def Let_def)
      then have "h_Buf s1 (fst (op_Pac ?p)) = h_Buf s (fst (op_Pac ?p))" using f(3) by blast
      then show ?thesis using pac_layout_id [OF pl] by (simp only:)
    qed
    then show ?thesis using pl hp [OF a] by (simp add: pac_layout_def Let_def obuf oboff f(8))
  qed
  ultimately have "w_layout [op] s1" by (auto simp: w_layout_def pk f(8))
  with heap counts show "writer_inv H [op] s1" by (simp add: writer_inv_def)
  show "writer_frame H [] s H [op] s1"
    using f(3) bw by (auto simp: writer_frame_def bf f(9-11))
qed

subsection \<open>Dropping an old packet\<close>

definition drop_holds ::
    "(u16 \<Rightarrow> addr set) \<Rightarrow> addr \<Rightarrow> 'a writer_state_scheme \<Rightarrow> u16 \<Rightarrow> addr set" where
  "drop_holds H op s =
     (let ob = op_OutBuf (h_OutPac s op); x = h_OutBuf s ob in
      (if ob_PacketCount x - 1 = 0 \<and> ob_CanRelease x
       then H(OT_BUFFER := H OT_BUFFER - {ob_Buf x}, OT_OUT_BUFFER := H OT_OUT_BUFFER - {ob})
       else H)(OT_OUT_PACKET := H OT_OUT_PACKET - {op}))"

lemma pool_holds_upd [simp]:
  "pool_holds H (upd_ob a f s) = pool_holds H s" "pool_holds H (upd_op a g s) = pool_holds H s"
  "pool_holds H (upd_pw k s) = pool_holds H s"
  by (rule pool_holds_cong; simp)+

lemma release_out_packet_pool:
  assumes "pool_holds H s" and "op \<in> H OT_OUT_PACKET"
    and "op_OutBuf (h_OutPac s op) \<in> H OT_OUT_BUFFER"
    and "ob_Buf (h_OutBuf s (op_OutBuf (h_OutPac s op))) \<in> H OT_BUFFER"
  shows "pool_holds (drop_holds H op s) (APB_ReleaseOutPacket op s) \<and>
    faults (APB_ReleaseOutPacket op s) = faults s"
proof -
  define ob where "ob = op_OutBuf (h_OutPac s op)"
  define x where "x = h_OutBuf s ob"
  define s1 where "s1 = upd_ob ob (\<lambda>x. x\<lparr>ob_PacketCount := ob_PacketCount x - 1\<rparr>) s"
  have h1: "pool_holds H s1" and f1: "faults s1 = faults s" using assms(1) by (simp_all add: s1_def)
  show ?thesis
  proof (cases "ob_PacketCount x - 1 = 0 \<and> ob_CanRelease x")
    case True
    let ?H = "H(OT_BUFFER := H OT_BUFFER - {ob_Buf x})"
    let ?H2 = "?H(OT_OUT_BUFFER := ?H OT_OUT_BUFFER - {ob})"
    let ?s2 = "APB_ReleaseBuffer (ob_Buf x) s1" and ?s3 = "APB_ReleaseOutBuffer ob s1"
    have "pool_holds ?H ?s2 \<and> faults ?s2 = faults s1"
      using APB_ReleaseBuffer_holds [OF h1, of "ob_Buf x"] assms(4) by (simp add: x_def ob_def)
    then have "pool_holds ?H2 ?s3 \<and> faults ?s3 = faults s"
      using pool_laws(3) [of ?H ?s2 ob OT_OUT_BUFFER] assms(3) f1
      by (simp add: APB_ReleaseOutBuffer_def s1_def x_def ob_def)
    then have "pool_holds (?H2(OT_OUT_PACKET := ?H2 OT_OUT_PACKET - {op}))
        (APB_FreeObject OT_OUT_PACKET op ?s3) \<and> faults (APB_FreeObject OT_OUT_PACKET op ?s3) = faults s"
      using pool_laws(3) [of ?H2 ?s3 op OT_OUT_PACKET] assms(2) by simp
    then show ?thesis
      using True by (simp add: drop_holds_def APB_ReleaseOutPacket_def Let_def s1_def x_def ob_def)
  next
    case False
    then show ?thesis
      using pool_laws(3) [OF h1 assms(2)] f1
      by (auto simp: drop_holds_def APB_ReleaseOutPacket_def Let_def s1_def x_def ob_def)
  qed
qed

lemma drop_recent_inv:
  assumes inv: "writer_inv H xs s" and rec: "pw_RecentPackets (pw s) = op # rest"
    and sent: "op_Sent (h_OutPac s op)"
    and s1: "s1 = upd_pw (\<lambda>w. w\<lparr>pw_RecentCount := pw_RecentCount w - 1\<rparr>)
                   (APB_ReleaseOutPacket op (upd_pw (\<lambda>w. w\<lparr>pw_RecentPackets := rest\<rparr>) s))"
  shows "\<exists>H1. writer_inv H1 xs s1 \<and> writer_frame H xs s H1 xs s1 \<and> faults s1 = faults s"
proof -
  have w: "w_heap H xs s" "w_counts xs s" "w_layout xs s" using inv by (simp_all add: writer_inv_def)
  define ob where "ob = op_OutBuf (h_OutPac s op)"
  define x where "x = h_OutBuf s ob"
  define gone where "gone \<longleftrightarrow> ob_PacketCount x - 1 = 0 \<and> ob_CanRelease x"
  let ?H = "drop_holds H op s"
  have pk0: "packs xs s = op # (rest @ xs)" by (simp add: packs_def rec)
  have obr: "ob \<in> out_refs xs s" by (simp add: out_refs_def pk0 ob_def)
  have f: "pw s1 = (pw s)\<lparr>pw_RecentPackets := rest, pw_RecentCount := pw_RecentCount (pw s) - 1\<rparr>"
    "h_OutPac s1 = h_OutPac s" "h_Buf s1 = h_Buf s" "rem s1 = rem s" "ser_io s1 = ser_io s"
    "writer_state.more s1 = writer_state.more s"
    "h_OutBuf s1 = (h_OutBuf s)(ob := x\<lparr>ob_PacketCount := ob_PacketCount x - 1\<rparr>)"
    by (simp_all add: s1 ob_def x_def)
  have pk: "packs xs s1 = rest @ xs" by (simp add: packs_def f)
  have bufs: "ob_Buf x \<in> H OT_BUFFER" "ob \<in> H OT_OUT_BUFFER" "op \<in> H OT_OUT_PACKET"
    using w(1) obr by (auto simp: w_heap_def wbufs_def x_def pk0)
  let ?r = "upd_pw (\<lambda>w. w\<lparr>pw_RecentPackets := rest\<rparr>) s"
  have "drop_holds H op ?r = ?H" by (simp add: drop_holds_def)
  then have ph: "pool_holds ?H s1" and ft: "faults s1 = faults s"
    using release_out_packet_pool [of H ?r op] w(1) bufs by (simp_all add: w_heap_def s1 ob_def x_def)
  have nin: "op \<notin> set (rest @ xs)" and dist: "distinct (rest @ xs)"
    using w(1) by (auto simp: w_heap_def pk0)
  have refs: "out_refs xs s1 \<subseteq> out_refs xs s" by (auto simp: out_refs_def pk pk0 f)
  have ct: "ob_count xs s c = ob_count xs s1 c + (if c = ob then 1 else 0)" for c
    by (simp add: ob_count_def pk pk0 f ob_def)
  have cnt: "unat (ob_PacketCount x) = Suc (ob_count xs s1 ob)"
    and can: "ob_CanRelease x \<longleftrightarrow> ob \<notin> set (pw_Queue (pw s))"
    using w(2) obr ct [of ob] by (auto simp: w_counts_def x_def)
  have cnt1: "unat (ob_PacketCount x - 1) = ob_count xs s1 ob"
    using cnt by (subst unat_pred_u16) simp_all
  have gone_iff: "gone \<longleftrightarrow> ob_count xs s1 ob = 0 \<and> ob \<notin> set (pw_Queue (pw s))"
    using cnt1 can by (metis gone_def unat_0 word_unat_eq_iff)
  have gone_refs: "gone \<Longrightarrow> ob \<notin> out_refs xs s1"
    by (auto simp: gone_iff ob_count_def out_refs_def f filter_empty_conv)
  have obuf: "ob_Buf (h_OutBuf s1 c) = ob_Buf (h_OutBuf s c)"
    and oboff: "ob_Offset (h_OutBuf s1 c) = ob_Offset (h_OutBuf s c)" for c by (simp_all add: f x_def)
  have bf: "wbufs xs s1 = (\<lambda>c. ob_Buf (h_OutBuf s c)) ` out_refs xs s1" by (simp add: wbufs_def obuf)
  have bsub: "wbufs xs s1 \<subseteq> wbufs xs s" unfolding bf using refs by (auto simp: wbufs_def)
  have gone_bufs: "gone \<Longrightarrow> ob_Buf x \<notin> wbufs xs s1"
  proof
    assume g: gone and "ob_Buf x \<in> wbufs xs s1"
    then obtain c where "c \<in> out_refs xs s1" "ob_Buf (h_OutBuf s c) = ob_Buf (h_OutBuf s ob)"
      by (auto simp: bf x_def)
    moreover have "inj_on (\<lambda>ob. ob_Buf (h_OutBuf s ob)) (out_refs xs s)"
      using w(1) by (simp add: w_heap_def)
    ultimately have "c = ob" using refs obr by (auto dest: inj_onD)
    then show False using \<open>c \<in> out_refs xs s1\<close> gone_refs [OF g] by simp
  qed
  have H: "?H OT_OUT_PACKET = H OT_OUT_PACKET - {op}"
    "?H OT_OUT_BUFFER = (if gone then H OT_OUT_BUFFER - {ob} else H OT_OUT_BUFFER)"
    "?H OT_BUFFER = (if gone then H OT_BUFFER - {ob_Buf x} else H OT_BUFFER)"
    by (auto simp: drop_holds_def gone_def ob_def x_def Let_def)
  have "w_heap ?H xs s1"
  proof -
    have "inj_on (\<lambda>c. ob_Buf (h_OutBuf s1 c)) (out_refs xs s1)"
      unfolding obuf using w(1) refs by (auto simp: w_heap_def intro: inj_on_subset)
    moreover have "set (packs xs s1) \<subseteq> ?H OT_OUT_PACKET"
      using w(1) nin by (auto simp: w_heap_def pk pk0 H(1))
    moreover have "out_refs xs s1 \<subseteq> ?H OT_OUT_BUFFER"
      using w(1) refs gone_refs by (auto simp: w_heap_def H(2))
    moreover have "wbufs xs s1 \<subseteq> ?H OT_BUFFER"
      using w(1) bsub gone_bufs by (auto simp: w_heap_def H(3))
    ultimately show ?thesis using w(1) ph dist by (simp add: w_heap_def pk f)
  qed
  moreover have "w_counts xs s1"
  proof -
    have "unat (pw_RecentCount (pw s) - 1) = length rest"
      using w(2) rec by (subst unat_pred_u16) (simp_all add: w_counts_def)
    moreover have "unat (ob_PacketCount (h_OutBuf s1 c)) = ob_count xs s1 c \<and>
        ob_CanRelease (h_OutBuf s1 c) = (c \<notin> set (pw_Queue (pw s)))" if "c \<in> out_refs xs s1" for c
    proof (cases "c = ob")
      case True
      then show ?thesis using cnt1 can by (simp add: f)
    next
      case False
      then show ?thesis using w(2) refs that ct [of c] by (auto simp: w_counts_def f)
    qed
    ultimately show ?thesis using w(2) by (simp add: w_counts_def f)
  qed
  moreover have "w_layout xs s1"
  proof -
    have "unsent_of c (packs xs s1) (h_OutPac s1) = unsent_of c (packs xs s) (h_OutPac s)" for c
      using sent by (simp add: pk pk0 f)
    then have "buf_layout xs s1 c = buf_layout xs s c" for c
      by (simp add: buf_layout_def obuf oboff f(2,3))
    moreover have "pac_layout s1 a = pac_layout s a" for a
      by (simp add: pac_layout_def obuf oboff f(1-3))
    ultimately show ?thesis using w(3) by (auto simp: w_layout_def pk pk0 f(1))
  qed
  moreover have "writer_frame H xs s ?H xs s1"
  proof -
    have "b \<in> ?H OT_BUFFER - wbufs xs s1" if "b \<in> H OT_BUFFER - wbufs xs s" for b
      using that bsub obr by (auto simp: H(3) wbufs_def x_def)
    then show ?thesis by (auto simp: writer_frame_def f drop_holds_def Let_def)
  qed
  ultimately show ?thesis using ft by (auto simp: writer_inv_def)
qed

lemma trim_recent_inv:
  "writer_inv H xs s \<Longrightarrow> \<exists>H1. writer_inv H1 xs (trim_recent s) \<and>
     writer_frame H xs s H1 xs (trim_recent s) \<and> faults (trim_recent s) = faults s"
proof (induction s arbitrary: H rule: trim_recent.induct)
  case (1 s)
  show ?case
  proof (cases "pw_RecentCount (pw s) > RECENT_PACKETS_TO_KEEP")
    case False
    then have "trim_recent s = s" by (simp add: trim_recent.simps [of s])
    then show ?thesis using "1.prems" by (auto simp: writer_frame_def)
  next
    case True
    have "unat (pw_RecentCount (pw s)) = length (pw_RecentPackets (pw s))"
      using "1.prems" by (simp add: writer_inv_def w_counts_def)
    then obtain op rest where rec: "pw_RecentPackets (pw s) = op # rest"
      using True by (cases "pw_RecentPackets (pw s)")
        (auto simp: word_less_nat_alt RECENT_PACKETS_TO_KEEP_def)
    show ?thesis
    proof (cases "op_Sent (h_OutPac s op)")
      case sent: False
      then have "trim_recent s = s" using rec by (simp add: trim_recent.simps [of s])
      then show ?thesis using "1.prems" by (auto simp: writer_frame_def)
    next
      case sent: True
      let ?s = "upd_pw (\<lambda>w. w\<lparr>pw_RecentCount := pw_RecentCount w - 1\<rparr>)
          (APB_ReleaseOutPacket op (upd_pw (\<lambda>w. w\<lparr>pw_RecentPackets := rest\<rparr>) s))"
      have e: "trim_recent s = trim_recent ?s" using True rec sent by (simp add: trim_recent.simps [of s])
      from drop_recent_inv [OF "1.prems" rec sent refl] obtain H1 where
        h: "writer_inv H1 xs ?s" "writer_frame H xs s H1 xs ?s" "faults ?s = faults s" by blast
      have "\<not> \<not> op_Sent (h_OutPac s op)" using sent by simp
      from "1.IH" [OF True rec this h(1)] obtain H2 where
        "writer_inv H2 xs (trim_recent ?s)" "writer_frame H1 xs ?s H2 xs (trim_recent ?s)"
        "faults (trim_recent ?s) = faults ?s" by blast
      then show ?thesis unfolding e using h writer_frame_trans [OF h(2)] by auto
    qed
  qed
qed

subsection \<open>The whole allocation\<close>

lemma trim_recent_frame:
  "h_Buf (trim_recent s) = h_Buf s \<and> h_OutPac (trim_recent s) = h_OutPac s \<and>
     pw_Queue (pw (trim_recent s)) = pw_Queue (pw s)"
proof (induction s rule: trim_recent.induct)
  case (1 s)
  show ?case
  proof (cases "pw_RecentCount (pw s) > RECENT_PACKETS_TO_KEEP")
    case True
    show ?thesis
    proof (cases "pw_RecentPackets (pw s)")
      case (Cons op rest)
      then show ?thesis using "1.IH" [OF True Cons] True by (simp add: trim_recent.simps [of s])
    qed (simp add: trim_recent.simps [of s] add_fault_def)
  qed (simp add: trim_recent.simps [of s])
qed

lemma push_recent_inv:
  assumes inv: "writer_inv H [op] s"
    and s1: "s1 = upd_pw (\<lambda>w. w\<lparr>pw_RecentPackets := pw_RecentPackets w @ [op],
                    pw_RecentCount := pw_RecentCount w + 1\<rparr>) s"
  shows "writer_inv H [] s1" and "writer_frame H [op] s H [] s1"
proof -
  have f: "pw s1 = (pw s)\<lparr>pw_RecentPackets := pw_RecentPackets (pw s) @ [op],
      pw_RecentCount := pw_RecentCount (pw s) + 1\<rparr>" "h_OutPac s1 = h_OutPac s"
    "h_Buf s1 = h_Buf s" "h_OutBuf s1 = h_OutBuf s" "rem s1 = rem s" "ser_io s1 = ser_io s"
    "writer_state.more s1 = writer_state.more s" by (simp_all add: s1)
  have pk: "packs [] s1 = packs [op] s" by (simp add: packs_def f)
  have rf: "out_refs [] s1 = out_refs [op] s" by (simp add: out_refs_def pk f)
  have bf: "wbufs [] s1 = wbufs [op] s" by (simp add: wbufs_def rf f)
  have ct: "ob_count [] s1 = ob_count [op] s" by (simp add: ob_count_def fun_eq_iff pk f)
  have ph: "pool_holds H s1 = pool_holds H s" by (simp add: s1)
  have heap: "w_heap H [] s1" using inv ph by (simp add: writer_inv_def w_heap_def pk rf bf f)
  have "length (packs [] s1) < 65536"
    using heap pool_holds_length [of H s1 "packs [] s1" OT_OUT_PACKET] by (simp add: w_heap_def)
  then have "length (pw_RecentPackets (pw s)) < 65535" by (simp add: packs_def f)
  then have "unat (pw_RecentCount (pw s) + 1) = Suc (length (pw_RecentPackets (pw s)))"
    using inv by (subst unat_Suc_u16) (simp_all add: writer_inv_def w_counts_def)
  then have "w_counts [] s1" using inv by (simp add: writer_inv_def w_counts_def rf ct f)
  moreover have "w_layout [] s1"
    using inv by (simp add: writer_inv_def w_layout_def buf_layout_def pac_layout_def pk f)
  ultimately show "writer_inv H [] s1" using heap by (simp add: writer_inv_def)
  show "writer_frame H [op] s H [] s1" by (simp add: writer_frame_def bf f)
qed

text \<open>A packet its owner may still fill in: on the recent list and not sent.\<close>

definition packet_open :: "bptr \<Rightarrow> 'a writer_state_scheme \<Rightarrow> bool" where
  "packet_open p s \<longleftrightarrow> (\<exists>op \<in> set (packs [] s).
     op_Pac (h_OutPac s op) = p \<and> \<not> op_Sent (h_OutPac s op))"

definition packet_got ::
    "u16 \<Rightarrow> u16 \<Rightarrow> bptr option \<Rightarrow> fault list \<Rightarrow> 'a writer_state_scheme \<Rightarrow> bool" where
  "packet_got len packId p fs s1 \<longleftrightarrow> (p = None \<longrightarrow> faults s1 = fs) \<and>
    (\<forall>b i. p = Some (b, i) \<longrightarrow> sizeof_Packet \<le> unat len \<and> unat len \<le> BUFFER_SIZE \<and>
       packet_open (b, i) s1 \<and> i + unat len + unat len mod 2 \<le> BUFFER_SIZE \<and>
       get16 (buf_data s1 b) (i + 8) = packId \<and>
       get16 (buf_data s1 b) (i + 12) = len - of_nat sizeof_Packet \<and>
       pack_len (buf_data s1 b) i = unat len + unat len mod 2 \<and>
       faults s1 = (if unat len = 4095 then OutOfBounds # fs else fs))"

lemma alloc_packet_ok:
  assumes inv: "writer_inv H [] s" and al: "APB_AllocPacketWithId len packId s = (p, s1)"
  shows "\<exists>H1. writer_inv H1 [] s1 \<and> writer_frame H [] s H1 [] s1 \<and> packet_got len packId p (faults s) s1"
proof (cases "unat len > BUFFER_SIZE \<or> unat len < sizeof_Packet")
  case True
  then have "p = None" "s1 = s" using al by (auto simp: APB_AllocPacketWithId_def split: if_splits)
  then show ?thesis using inv by (auto simp: writer_frame_def packet_got_def)
next
  case False
  then have len: "sizeof_Packet \<le> unat len" "unat len \<le> BUFFER_SIZE" by auto
  obtain r s2 where go: "get_out_buffer len s = (r, s2)" by fastforce
  from get_out_buffer_inv [OF inv go] obtain H2 where
    i2: "writer_inv H2 [] s2" "writer_frame H [] s H2 [] s2" "faults s2 = faults s"
    and r: "\<forall>ob. r = Some ob \<longrightarrow> ob \<in> set (pw_Queue (pw s2)) \<and> has_room len ob s2" by blast
  note al = al [unfolded APB_AllocPacketWithId_def if_not_P [OF conjunct1 [OF False [unfolded de_Morgan_disj]]]
      if_not_P [OF conjunct2 [OF False [unfolded de_Morgan_disj]]] go]
  show ?thesis
  proof (cases r)
    case None
    then have "p = None" "s1 = s2" using al by simp_all
    then show ?thesis using i2 by (auto simp: packet_got_def)
  next
    case ob: (Some ob)
    obtain q s3 where ao: "APB_AllocObject OT_OUT_PACKET s2 = (q, s3)" by fastforce
    note a = alloc_object_writer [OF i2(1) ao, simplified]
    show ?thesis
    proof (cases q)
      case None
      then have "p = None" "s1 = s3" using al ob ao by simp_all
      then show ?thesis using a None i2(3) writer_frame_trans [OF i2(2)] by (auto simp: packet_got_def)
    next
      case (Some op)
      let ?H = "H2(OT_OUT_PACKET := insert op (H2 OT_OUT_PACKET))"
      let ?s4 = "init_out_packet op ob len packId s3" and ?s5 = "trim_recent (init_out_packet op ob len packId s3)"
      have i3: "writer_inv ?H [] s3" "writer_frame H [] s ?H [] s3"
        using a Some writer_frame_trans [OF i2(2)] by auto
      have opn: "op \<notin> set (packs [] s3)"
        using a(4) [of op] Some i2(1) pool_step_frame [OF ao]
        by (auto simp: writer_inv_def w_heap_def packs_def)
      have obq: "ob \<in> set (pw_Queue (pw s3))" and room: "has_room len ob s3"
        using r ob pool_step_frame [OF ao] by (auto simp: has_room_def)
      have ev: "even (buf_offset s3 (ob_Buf (h_OutBuf s3 ob)))"
        using i3(1) obq by (auto simp: writer_inv_def w_layout_def buf_layout_def Let_def)
      note i4 = init_out_packet_inv [OF i3(1) _ opn obq len room, of packId]
      define s4 where "s4 = ?s4"
      note f = init_out_packet_fields [OF len room ev s4_def, unfolded s4_def]
      from trim_recent_inv [OF i4(1)] obtain H5 where
        i5: "writer_inv H5 [op] ?s5" "writer_frame ?H [op] ?s4 H5 [op] ?s5" "faults ?s5 = faults ?s4"
        by auto
      have s1: "s1 = upd_pw (\<lambda>w. w\<lparr>pw_RecentPackets := pw_RecentPackets w @ [op],
                    pw_RecentCount := pw_RecentCount w + 1\<rparr>) ?s5"
        and p: "p = Some (op_Pac (h_OutPac ?s5 op))"
        using al ob ao Some by (simp_all add: Let_def)
      note i6 = push_recent_inv [OF i5(1) s1]
      have "writer_frame ?H [] s3 ?H [op] ?s4" using i4(2) by simp
      from writer_frame_trans [OF writer_frame_trans [OF i3(2) this] writer_frame_trans [OF i5(2) i6(2)]]
      have frame: "writer_frame H [] s H5 [] s1" .
      define b where "b = ob_Buf (h_OutBuf s3 ob)"
      define i where "i = buf_offset s3 b"
      have hp: "h_OutPac s1 op = \<lparr>op_OutBuf = ob, op_Pac = (b, i), op_Sent = False\<rparr>"
        using trim_recent_frame [of ?s4] f(1) by (simp add: s1 b_def i_def)
      have pbi: "p = Some (b, i)" using p hp trim_recent_frame [of ?s4] by (simp add: s1)
      have data: "buf_data s1 b = new_packet_mem i packId len (buf_data s3 b)"
        using trim_recent_frame [of ?s4] f(4) by (simp add: s1 b_def i_def)
      have op: "packet_open (b, i) s1"
        unfolding packet_open_def using hp by (intro bexI [of _ op]) (auto simp: packs_def s1)
      have ft: "faults s1 = (if unat len = 4095 then OutOfBounds # faults s else faults s)"
        using f(7) i5(3) a(3) i2(3) by (simp add: s1)
      show ?thesis
        using i6(1) frame len op f(6) [folded b_def, folded i_def] ft pbi
          new_packet_header [OF len, of i packId "buf_data s3 b", folded data]
        by (intro exI [of _ H5]) (simp add: packet_got_def)
    qed
  qed
qed

section \<open>Filling in a packet keeps the invariant\<close>

lemma open_packet_tile:
  assumes inv: "writer_inv H [] s" and op: "packet_open (b, i) s"
  obtains ob where "ob \<in> set (pw_Queue (pw s))" "b = ob_Buf (h_OutBuf s ob)"
    "buf_layout [] s ob"
    "(b, i) \<in> set (map (op_Pac \<circ> h_OutPac s) (unsent_of ob (packs [] s) (h_OutPac s)))"
    "unat (ob_Offset (h_OutBuf s ob)) \<le> i" "i + pack_len (buf_data s b) i \<le> buf_offset s b"
    "buf_offset s b \<le> BUFFER_SIZE" "header_ok (buf_data s b) i"
proof -
  from op obtain a where a: "a \<in> set (packs [] s)" "op_Pac (h_OutPac s a) = (b, i)"
    "\<not> op_Sent (h_OutPac s a)" by (auto simp: packet_open_def)
  define ob where "ob = op_OutBuf (h_OutPac s a)"
  have pl: "pac_layout s a" using inv a(1) by (simp add: writer_inv_def w_layout_def)
  have q: "ob \<in> set (pw_Queue (pw s))" and b: "b = ob_Buf (h_OutBuf s ob)"
    using pl a by (simp_all add: pac_layout_def Let_def ob_def)
  have bl: "buf_layout [] s ob" using inv q by (simp add: writer_inv_def w_layout_def)
  have "a \<in> set (unsent_of ob (packs [] s) (h_OutPac s))" using a by (simp add: ob_def)
  then have m: "(b, i) \<in> set (map (op_Pac \<circ> h_OutPac s) (unsent_of ob (packs [] s) (h_OutPac s)))"
    unfolding set_map comp_apply by (rule image_eqI [rotated, of a]) (rule a(2) [symmetric])
  have t: "tiles (buf_data s b) b (unat (ob_Offset (h_OutBuf s ob)))
      (map (op_Pac \<circ> h_OutPac s) (unsent_of ob (packs [] s) (h_OutPac s))) (buf_offset s b)"
    and le: "buf_offset s b \<le> BUFFER_SIZE"
    using bl by (simp_all add: buf_layout_def Let_def b)
  note tm = tiles_member [OF t m]
  show ?thesis by (rule that [OF q b bl m _ _ le]) (use tm in simp_all)
qed

lemma fill_packet_inv:
  assumes inv: "writer_inv H [] s" and op: "packet_open (b, i) s"
    and p: "payload_only i (buf_data s b) (buf_data s1 b)"
    and s1: "same_but_data b s s1" "h_OutPac s1 = h_OutPac s"
  shows "writer_inv H [] s1" "writer_frame H [] s H [] s1"
proof -
  from open_packet_tile [OF inv op] obtain ob where ob: "ob \<in> set (pw_Queue (pw s))"
    "b = ob_Buf (h_OutBuf s ob)" "buf_layout [] s ob"
    and m: "(b, i) \<in> set (map (op_Pac \<circ> h_OutPac s) (unsent_of ob (packs [] s) (h_OutPac s)))"
    and le: "unat (ob_Offset (h_OutBuf s ob)) \<le> i" .
  have f: "h_OutBuf s1 = h_OutBuf s" "pw s1 = pw s" "rem s1 = rem s" "ser_io s1 = ser_io s"
    "writer_state.more s1 = writer_state.more s" "op_Types s1 = op_Types s"
    "op_MemPool s1 = op_MemPool s" "op_Mem s1 = op_Mem s"
    "\<And>c. c \<noteq> b \<Longrightarrow> h_Buf s1 c = h_Buf s c" "b_Offset (h_Buf s1 b) = b_Offset (h_Buf s b)"
    using s1(1) by (simp_all add: same_but_data_def)
  have pk: "packs [] s1 = packs [] s" by (simp add: packs_def f)
  have rf: "out_refs [] s1 = out_refs [] s" by (simp add: out_refs_def pk f s1(2))
  have bf: "wbufs [] s1 = wbufs [] s" by (simp add: wbufs_def rf f)
  have obr: "ob \<in> out_refs [] s" using ob by (simp add: out_refs_def)
  have inj: "inj_on (\<lambda>ob. ob_Buf (h_OutBuf s ob)) (out_refs [] s)"
    using inv by (simp add: writer_inv_def w_heap_def)
  have "pool_holds H s1 = pool_holds H s" by (rule pool_holds_cong) (simp_all add: f)
  then have "w_heap H [] s1" using inv by (simp add: writer_inv_def w_heap_def pk rf bf f)
  moreover have "w_counts [] s1"
    using inv by (simp add: writer_inv_def w_counts_def ob_count_def pk rf f s1(2))
  moreover have "buf_layout [] s1 c" if c: "c \<in> set (pw_Queue (pw s))" for c
  proof (cases "c = ob")
    case True
    have t: "tiles (buf_data s b) b (unat (ob_Offset (h_OutBuf s ob)))
        (map (op_Pac \<circ> h_OutPac s) (unsent_of ob (packs [] s) (h_OutPac s))) (buf_offset s b)"
      using ob(3) by (simp add: buf_layout_def Let_def ob(2))
    from tiles_payload [OF t m p] show ?thesis
      using ob(3) f(10) by (simp add: buf_layout_def Let_def pk f(1-9) s1(2) True ob(2))
  next
    case False
    have "c \<in> out_refs [] s" using c by (simp add: out_refs_def)
    then have "ob_Buf (h_OutBuf s c) \<noteq> b" using inj obr False ob(2) by (auto simp: inj_on_def)
    moreover have "buf_layout [] s c" using inv c by (simp add: writer_inv_def w_layout_def)
    ultimately show ?thesis by (simp add: buf_layout_def Let_def pk f s1(2))
  qed
  moreover have "pac_layout s1 a" if a: "a \<in> set (packs [] s)" for a
  proof -
    let ?p = "h_OutPac s a"
    have pl: "pac_layout s a" using inv a by (simp add: writer_inv_def w_layout_def)
    have "get32 (buf_data s1 (fst (op_Pac ?p))) (snd (op_Pac ?p)) =
        get32 (buf_data s (fst (op_Pac ?p))) (snd (op_Pac ?p))"
    proof (cases "op_OutBuf ?p = ob")
      case True
      then have fb: "fst (op_Pac ?p) = b" using pl by (simp add: pac_layout_def Let_def ob(2))
      show ?thesis
      proof (cases "op_Sent ?p")
        case sent: True
        then have "snd (op_Pac ?p) + sizeof_Packet \<le> i"
          using pl True ob(1) le by (simp add: pac_layout_def Let_def)
        then have "same_on (snd (op_Pac ?p)) (snd (op_Pac ?p) + sizeof_Packet) (buf_data s b) (buf_data s1 b)"
          unfolding same_on_def by (intro allI impI payload_outside [OF p]) auto
        then show ?thesis unfolding fb by (rule get32_same) simp_all
      next
        case False
        have t: "tiles (buf_data s b) b (unat (ob_Offset (h_OutBuf s ob)))
            (map (op_Pac \<circ> h_OutPac s) (unsent_of ob (packs [] s) (h_OutPac s))) (buf_offset s b)"
          using ob(3) by (simp add: buf_layout_def Let_def ob(2))
        have "a \<in> set (unsent_of ob (packs [] s) (h_OutPac s))" using a True False by simp
        then have "op_Pac ?p \<in> set (map (op_Pac \<circ> h_OutPac s) (unsent_of ob (packs [] s) (h_OutPac s)))"
          unfolding set_map comp_apply by (rule imageI)
        then have ma: "(b, snd (op_Pac ?p)) \<in> set (map (op_Pac \<circ> h_OutPac s)
            (unsent_of ob (packs [] s) (h_OutPac s)))" using fb by (metis prod.collapse)
        have "hdr_same (snd (op_Pac ?p)) (buf_data s b) (buf_data s1 b)"
        proof (cases "snd (op_Pac ?p) = i")
          case True
          then show ?thesis using payload_hdr_same [OF p] by simp
        next
          case ne: False
          let ?k = "snd (op_Pac ?p)"
          have "?k + pack_len (buf_data s b) ?k \<le> i \<or> i + pack_len (buf_data s b) i \<le> ?k"
            using tiles_disjoint [OF t ma m ne] .
          then have "same_on ?k (?k + sizeof_Packet) (buf_data s b) (buf_data s1 b)"
            unfolding same_on_def using pack_len_ge [of "buf_data s b" ?k]
            by (intro allI impI payload_outside [OF p]) auto
          then show ?thesis by (rule same_hdr_same)
        qed
        then show ?thesis unfolding fb by (rule hdr_same_facts(4))
      qed
    next
      case False
      have "op_OutBuf ?p \<in> out_refs [] s" using a by (auto simp: out_refs_def)
      then have "fst (op_Pac ?p) \<noteq> b"
        using inj obr False ob(2) pl by (auto simp: inj_on_def pac_layout_def Let_def)
      then show ?thesis using f(9) by simp
    qed
    then have "get32 (buf_data s1 (fst (op_Pac ?p))) (snd (op_Pac ?p)) = PACKET_ID"
      using pac_layout_id [OF pl] by simp
    then show ?thesis using pl by (auto simp: pac_layout_def Let_def f s1(2))
  qed
  ultimately show "writer_inv H [] s1"
    by (simp add: writer_inv_def w_layout_def pk f)
  have bw: "b \<in> wbufs [] s" using obr ob(2) by (simp add: wbufs_def)
  have "h_Buf s1 c = h_Buf s c" if "c \<notin> wbufs [] s" for c by (rule f(9)) (use that bw in blast)
  then show "writer_frame H [] s H [] s1" by (simp add: writer_frame_def bf f(3-5))
qed

section \<open>Writing to the remote\<close>

lemma mark_sent_fields [simp]:
  "op_OutBuf (mark_sent ob ops h a) = op_OutBuf (h a)" "op_Pac (mark_sent ob ops h a) = op_Pac (h a)"
  "op_Sent (mark_sent ob ops h a) \<longleftrightarrow> op_Sent (h a) \<or> (a \<in> set ops \<and> op_OutBuf (h a) = ob)"
  by (auto simp: mark_sent_def)

lemma mark_sent_none: "unsent_of ob ops h = [] \<Longrightarrow> mark_sent ob ops h = h"
  by (auto simp: mark_sent_def fun_eq_iff filter_empty_conv)

lemma sealed_inv:
  assumes inv: "writer_inv H [] s" and ob: "ob \<in> set (pw_Queue (pw s))"
    and s1: "same_but_data b s s1" "h_OutPac s1 = mark_sent ob (packs [] s) (h_OutPac s)"
    and b: "b = ob_Buf (h_OutBuf s ob)" and i: "i = unat (ob_Offset (h_OutBuf s ob))"
    and out: "\<forall>k. k < i \<or> buf_offset s b \<le> k \<longrightarrow> buf_data s1 b k = buf_data s b k"
    and ids: "\<forall>op \<in> set (unsent_of ob (packs [] s) (h_OutPac s)).
        get32 (buf_data s1 b) (snd (op_Pac (h_OutPac s op))) = PACKET_ID"
    and s2: "h_OutBuf s2 = (h_OutBuf s)(ob := (h_OutBuf s ob)\<lparr>ob_Offset := b_Offset (h_Buf s b)\<rparr>)"
      "h_Buf s2 = h_Buf s1" "h_OutPac s2 = h_OutPac s1" "pw s2 = pw s" "op_Types s2 = op_Types s"
      "op_MemPool s2 = op_MemPool s" "op_Mem s2 = op_Mem s"
  shows "writer_inv H [] s2" and "wbufs [] s2 = wbufs [] s"
proof -
  have bo: "b_Offset (h_Buf s1 c) = b_Offset (h_Buf s c)" and hb: "c \<noteq> b \<Longrightarrow> h_Buf s1 c = h_Buf s c" for c
    using s1(1) by (cases "c = b"; simp add: same_but_data_def)+
  have pk: "packs [] s2 = packs [] s" by (simp add: packs_def s2)
  have rf: "out_refs [] s2 = out_refs [] s" by (simp add: out_refs_def pk s2 s1(2))
  have obuf: "ob_Buf (h_OutBuf s2 c) = ob_Buf (h_OutBuf s c)" for c by (simp add: s2)
  show bf: "wbufs [] s2 = wbufs [] s" by (simp add: wbufs_def rf obuf)
  have inj: "inj_on (\<lambda>ob. ob_Buf (h_OutBuf s ob)) (out_refs [] s)"
    using inv by (simp add: writer_inv_def w_heap_def)
  have obr: "ob \<in> out_refs [] s" using ob by (simp add: out_refs_def)
  have "pool_holds H s2 = pool_holds H s" by (rule pool_holds_cong) (simp_all add: s2)
  then have "w_heap H [] s2" using inv by (simp add: writer_inv_def w_heap_def pk rf bf obuf s2(4))
  moreover have "ob_count [] s2 c = ob_count [] s c" for c by (simp add: ob_count_def pk s2 s1(2))
  then have "w_counts [] s2" using inv by (auto simp: writer_inv_def w_counts_def rf s2)
  moreover have lay: "buf_layout [] s ob" using inv ob by (simp add: writer_inv_def w_layout_def)
  then have t: "tiles (buf_data s b) b i
      (map (op_Pac \<circ> h_OutPac s) (unsent_of ob (packs [] s) (h_OutPac s))) (buf_offset s b)"
    by (simp add: buf_layout_def Let_def b i)
  have ile: "i \<le> buf_offset s b" using tiles_le [OF t] by simp
  have "buf_layout [] s2 c" if c: "c \<in> set (pw_Queue (pw s))" for c
  proof (cases "c = ob")
    case True
    have "unsent_of ob (packs [] s) (h_OutPac s2) = []"
      by (simp add: filter_empty_conv s2(3) s1(2))
    then show ?thesis
      using lay by (simp add: buf_layout_def Let_def pk True s2(1,2) bo b [symmetric])
  next
    case False
    have "unsent_of c (packs [] s) (h_OutPac s2) = unsent_of c (packs [] s) (h_OutPac s)"
      using False by (intro filter_cong) (auto simp: s2(3) s1(2))
    moreover have "op_Pac \<circ> h_OutPac s2 = op_Pac \<circ> h_OutPac s"
      by (simp add: fun_eq_iff s2(3) s1(2))
    moreover have "c \<in> out_refs [] s" using c by (simp add: out_refs_def)
    then have "ob_Buf (h_OutBuf s c) \<noteq> b" using inj obr False b by (auto simp: inj_on_def)
    then have "h_Buf s2 (ob_Buf (h_OutBuf s c)) = h_Buf s (ob_Buf (h_OutBuf s c))"
      by (simp add: s2(2) hb)
    moreover have "buf_layout [] s c" using inv c by (simp add: writer_inv_def w_layout_def)
    ultimately show ?thesis using False by (simp add: buf_layout_def Let_def pk s2(1))
  qed
  moreover have "pac_layout s2 a" if a: "a \<in> set (packs [] s)" for a
  proof -
    let ?p = "h_OutPac s a"
    have pl: "pac_layout s a" using inv a by (simp add: writer_inv_def w_layout_def)
    have fst: "fst (op_Pac ?p) = ob_Buf (h_OutBuf s (op_OutBuf ?p))" using pl by (simp add: pac_layout_def Let_def)
    have sq: "op_Sent ?p \<Longrightarrow> op_OutBuf ?p \<in> set (pw_Queue (pw s)) \<Longrightarrow>
        snd (op_Pac ?p) + sizeof_Packet \<le> unat (ob_Offset (h_OutBuf s (op_OutBuf ?p)))"
      using pl by (simp add: pac_layout_def Let_def)
    have "get32 (buf_data s1 (fst (op_Pac ?p))) (snd (op_Pac ?p)) = PACKET_ID \<and>
      (op_OutBuf ?p = ob \<longrightarrow> snd (op_Pac ?p) + sizeof_Packet \<le> buf_offset s b)"
    proof (cases "op_OutBuf ?p = ob")
      case True
      then have fb: "fst (op_Pac ?p) = b" by (simp add: fst b)
      show ?thesis
      proof (cases "op_Sent ?p")
        case sent: True
        then have le: "snd (op_Pac ?p) + sizeof_Packet \<le> i" using sq True ob i by simp
        then have "same_on (snd (op_Pac ?p)) (snd (op_Pac ?p) + 4) (buf_data s b) (buf_data s1 b)"
          using out by (simp add: same_on_def)
        then have "get32 (buf_data s1 b) (snd (op_Pac ?p)) = get32 (buf_data s b) (snd (op_Pac ?p))"
          by (rule get32_same) simp_all
        then show ?thesis using pac_layout_id [OF pl] fb le ile by simp
      next
        case False
        then have u: "a \<in> set (unsent_of ob (packs [] s) (h_OutPac s))" using a True by simp
        then have "op_Pac ?p \<in> set (map (op_Pac \<circ> h_OutPac s) (unsent_of ob (packs [] s) (h_OutPac s)))"
          unfolding set_map comp_apply by (rule imageI)
        then have "(fst (op_Pac ?p), snd (op_Pac ?p)) \<in>
            set (map (op_Pac \<circ> h_OutPac s) (unsent_of ob (packs [] s) (h_OutPac s)))" by simp
        from tiles_member [OF t this]
        have "snd (op_Pac ?p) + sizeof_Packet \<le> buf_offset s b"
          using pack_len_ge [of "buf_data s b" "snd (op_Pac ?p)"] by linarith
        then show ?thesis using ids u fb by simp
      qed
    next
      case False
      have "op_OutBuf ?p \<in> out_refs [] s" using a by (auto simp: out_refs_def)
      then have "fst (op_Pac ?p) \<noteq> b" using inj obr False b fst by (auto simp: inj_on_def)
      then show ?thesis using hb pac_layout_id [OF pl] False by simp
    qed
    then show ?thesis
      using pl a ob sq fst by (auto simp: pac_layout_def Let_def obuf s2 s1(2))
  qed
  ultimately show "writer_inv H [] s2" by (simp add: writer_inv_def w_layout_def pk s2(4))
qed

definition sent_only :: "'a writer_state_scheme \<Rightarrow> 'a writer_state_scheme \<Rightarrow> bool" where
  "sent_only s s1 \<longleftrightarrow> (\<forall>b. b \<notin> wbufs [] s \<longrightarrow> h_Buf s1 b = h_Buf s b) \<and> faults s1 = faults s \<and>
     r_WriteReq (rem s1) \<noteq> None \<and> writer_state.more s1 = writer_state.more s"

text \<open>A packet on the recent list, as its reader will see it.\<close>

definition packet_value :: "'a writer_state_scheme \<Rightarrow> addr \<Rightarrow> wire_packet" where
  "packet_value s op = (case op_Pac (h_OutPac s op) of (b, i) \<Rightarrow> read_packet (buf_data s b) i)"

lemma send_buffer_ok:
  assumes inv: "writer_inv H [] s" and ob: "ob \<in> set (pw_Queue (pw s))"
    and wr: "r_WriteReq (rem s) \<noteq> None"
  shows "\<exists>s1 pkts. send_buffer ob s = Some s1 \<and> writer_inv H [] s1 \<and> wbufs [] s1 = wbufs [] s \<and>
    sent_only s s1 \<and> pw s1 = pw s \<and> unsent_of ob (packs [] s1) (h_OutPac s1) = [] \<and>
    (\<forall>p \<in> set pkts. wire_ok p) \<and> length pkts = length (unsent_of ob (packs [] s) (h_OutPac s)) \<and>
    map (\<lambda>p. read_packet (mem_of p) 0) pkts = map (packet_value s) (unsent_of ob (packs [] s) (h_OutPac s)) \<and>
    (\<forall>c. c \<noteq> ob_Buf (h_OutBuf s ob) \<longrightarrow> h_Buf s1 c = h_Buf s c) \<and>
    h_OutPac s1 = mark_sent ob (packs [] s) (h_OutPac s) \<and> (\<forall>c. ob_Buf (h_OutBuf s1 c) = ob_Buf (h_OutBuf s c)) \<and>
    ser_io s1 = ser_io s @ (if pkts = [] then [] else [Ser_Write (concat pkts)])"
proof -
  define b where "b = ob_Buf (h_OutBuf s ob)"
  define i where "i = unat (ob_Offset (h_OutBuf s ob))"
  have lay: "buf_layout [] s ob" using inv ob by (simp add: writer_inv_def w_layout_def)
  have t: "tiles (buf_data s b) b i
      (map (op_Pac \<circ> h_OutPac s) (unsent_of ob (packs [] s) (h_OutPac s))) (buf_offset s b)"
    and le: "buf_offset s b \<le> BUFFER_SIZE"
    using lay by (simp_all add: buf_layout_def Let_def b_def i_def)
  have pk: "pw_RecentPackets (pw s) = packs [] s" by (simp add: packs_def)
  show ?thesis
  proof (cases "ob_Offset (h_OutBuf s ob) < b_Offset (h_Buf s b)")
    case False
    then have "i = buf_offset s b" using tiles_le [OF t] by (simp add: i_def word_less_nat_alt)
    then have none: "unsent_of ob (packs [] s) (h_OutPac s) = []"
      using tiles_le [OF t] by (cases "unsent_of ob (packs [] s) (h_OutPac s)") simp_all
    have "send_buffer ob s = Some s" using False by (simp add: send_buffer_def Let_def b_def)
    then show ?thesis
      using inv wr none mark_sent_none [OF none]
      by (intro exI [of _ s] exI [of _ "[]"]) (simp add: sent_only_def)
  next
    case True
    have dist: "distinct (packs [] s)" using inv by (simp add: writer_inv_def w_heap_def)
    from seal_packets_ok [OF dist t le] obtain s1 pkts where
      s1: "seal_packets ob (packs [] s) s = Some s1" "same_but_data b s s1"
        "h_OutPac s1 = mark_sent ob (packs [] s) (h_OutPac s)"
        "\<forall>k. k < i \<or> buf_offset s b \<le> k \<longrightarrow> buf_data s1 b k = buf_data s b k"
        "bytes_of (buf_data s1 b) i (buf_offset s b - i) = concat pkts" "\<forall>p \<in> set pkts. wire_ok p"
        "length pkts = length (unsent_of ob (packs [] s) (h_OutPac s))"
        "map (\<lambda>p. read_packet (mem_of p) 0) pkts = map (\<lambda>op. read_packet (buf_data s b)
          (snd (op_Pac (h_OutPac s op)))) (unsent_of ob (packs [] s) (h_OutPac s))"
      and ids: "\<forall>op \<in> set (unsent_of ob (packs [] s) (h_OutPac s)).
        get32 (buf_data s1 b) (snd (op_Pac (h_OutPac s op))) = PACKET_ID" by blast
    have same: "h_OutBuf s1 = h_OutBuf s" "pw s1 = pw s" "rem s1 = rem s" "ser_io s1 = ser_io s"
      "b_Offset (h_Buf s1 b) = b_Offset (h_Buf s b)" "faults s1 = faults s" "op_Types s1 = op_Types s"
      "op_MemPool s1 = op_MemPool s" "op_Mem s1 = op_Mem s" "writer_state.more s1 = writer_state.more s"
      using s1(2) by (simp_all add: same_but_data_def)
    define n where "n = b_Offset (h_Buf s b) - ob_Offset (h_OutBuf s ob)"
    have un: "unat n = buf_offset s b - i"
      using tiles_le [OF t] by (simp add: n_def i_def unat_sub_u16)
    have npos: "0 < unat n" using True by (simp add: un i_def word_less_nat_alt)
    let ?w = "REM_Write (Some (b, i)) n s1"
    let ?s2 = "upd_ob ob (\<lambda>x. x\<lparr>ob_Offset := b_Offset (h_Buf ?w b)\<rparr>) ?w"
    have wf: "h_OutBuf ?w = h_OutBuf s1" "h_OutPac ?w = h_OutPac s1" "pw ?w = pw s1"
      "writer_state.more ?w = writer_state.more s1"
      by (rule writer_fields_rem, simp)+
    have e: "send_buffer ob s = Some ?s2"
      using True s1(1) same by (simp add: send_buffer_def Let_def pk n_def i_def b_def [symmetric])
    have wr1: "r_WriteReq (rem s1) \<noteq> None" using wr same by simp
    note rw = REM_Write_facts [OF wr1 npos, of b i]
    have f2: "h_OutBuf ?s2 = (h_OutBuf s)(ob := (h_OutBuf s ob)\<lparr>ob_Offset := b_Offset (h_Buf s b)\<rparr>)"
      "h_Buf ?s2 = h_Buf s1" "h_OutPac ?s2 = h_OutPac s1" "pw ?s2 = pw s"
      "op_Types ?s2 = op_Types s" "op_MemPool ?s2 = op_MemPool s" "op_Mem ?s2 = op_Mem s"
      by (simp_all add: wf same)
    note si = sealed_inv [OF inv ob s1(2,3) b_def i_def s1(4) ids f2]
    have pne: "pkts \<noteq> []"
      using s1(5) npos un by (metis concat.simps(1) length_bytes_of less_numeral_extra(3) list.size(3))
    have "b \<in> wbufs [] s" using ob by (auto simp: wbufs_def out_refs_def b_def)
    then have "sent_only s ?s2"
      using s1(2) rw wr1 same wf f2(2) by (auto simp: sent_only_def same_but_data_def)
    moreover have "unsent_of ob (packs [] ?s2) (h_OutPac ?s2) = []"
      by (simp add: packs_def wf same s1(3) filter_empty_conv)
    moreover have "ser_io ?s2 = ser_io s @ [Ser_Write (concat pkts)]"
      using rw(1) s1(5) un by (simp add: same)
    moreover have "map (\<lambda>p. read_packet (mem_of p) 0) pkts =
        map (packet_value s) (unsent_of ob (packs [] s) (h_OutPac s))"
    proof -
      have "packet_value s op = read_packet (buf_data s b) (snd (op_Pac (h_OutPac s op)))"
        if q: "op \<in> set (unsent_of ob (packs [] s) (h_OutPac s))" for op
      proof -
        have "op_Pac (h_OutPac s op) \<in> set (map (op_Pac \<circ> h_OutPac s) (unsent_of ob (packs [] s) (h_OutPac s)))"
          using q unfolding set_map comp_apply by (rule imageI)
        then have "(fst (op_Pac (h_OutPac s op)), snd (op_Pac (h_OutPac s op))) \<in>
            set (map (op_Pac \<circ> h_OutPac s) (unsent_of ob (packs [] s) (h_OutPac s)))"
          by (simp only: prod.collapse)
        from tiles_member [OF t this] have "fst (op_Pac (h_OutPac s op)) = b" by simp
        then show ?thesis by (simp add: packet_value_def split_beta)
      qed
      then show ?thesis unfolding s1(8) by simp
    qed
    moreover have "\<forall>c. c \<noteq> b \<longrightarrow> h_Buf ?s2 c = h_Buf s c" using s1(2) by (simp add: f2(2) same_but_data_def)
    moreover have "h_OutPac ?s2 = mark_sent ob (packs [] s) (h_OutPac s)" unfolding f2(3) by (rule s1(3))
    moreover have "\<forall>c. ob_Buf (h_OutBuf ?s2 c) = ob_Buf (h_OutBuf s c)" unfolding f2(1) by simp
    ultimately show ?thesis
      using e si s1(6,7) pne f2(4) unfolding b_def [symmetric]
      by (intro exI [of _ ?s2] exI [of _ pkts]) simp
  qed
qed

lemma dequeue_inv:
  assumes inv: "writer_inv H [] s" and q: "pw_Queue (pw s) = ob # rest" "rest \<noteq> []"
    and un: "unsent_of ob (packs [] s) (h_OutPac s) = []"
    and s1: "s1 = upd_pw (\<lambda>w. w\<lparr>pw_Queue := rest, pw_BufCount := pw_BufCount w - 1\<rparr>)
                   (upd_ob ob (\<lambda>x. x\<lparr>ob_CanRelease := True\<rparr>) s)"
  shows "writer_inv H [] s1" and "wbufs [] s1 \<subseteq> wbufs [] s"
proof -
  have f: "pw s1 = (pw s)\<lparr>pw_Queue := rest, pw_BufCount := pw_BufCount (pw s) - 1\<rparr>"
    "h_OutBuf s1 = (h_OutBuf s)(ob := (h_OutBuf s ob)\<lparr>ob_CanRelease := True\<rparr>)"
    "h_OutPac s1 = h_OutPac s" "h_Buf s1 = h_Buf s" by (simp_all add: s1)
  have pk: "packs [] s1 = packs [] s" by (simp add: packs_def f)
  have rf: "out_refs [] s1 \<subseteq> out_refs [] s" by (auto simp: out_refs_def pk f q)
  have obuf: "ob_Buf (h_OutBuf s1 c) = ob_Buf (h_OutBuf s c)" for c by (simp add: f)
  show bf: "wbufs [] s1 \<subseteq> wbufs [] s" using rf unfolding wbufs_def obuf by (rule image_mono)
  have nin: "ob \<notin> set rest" using inv q(1) by (simp add: writer_inv_def w_heap_def)
  have ph: "pool_holds H s1 = pool_holds H s" by (simp add: s1)
  have "inj_on (\<lambda>c. ob_Buf (h_OutBuf s1 c)) (out_refs [] s1)"
    unfolding obuf using inv rf by (auto simp: writer_inv_def w_heap_def intro: inj_on_subset)
  moreover have "out_refs [] s1 \<subseteq> H OT_OUT_BUFFER" "wbufs [] s1 \<subseteq> H OT_BUFFER"
    using inv rf bf by (auto simp: writer_inv_def w_heap_def)
  ultimately have "w_heap H [] s1" using inv ph by (simp add: writer_inv_def w_heap_def pk f(1) q)
  moreover have "w_counts [] s1"
  proof -
    have "unat (pw_BufCount (pw s)) = Suc (length rest)"
      using inv q by (simp add: writer_inv_def w_counts_def)
    then have "unat (pw_BufCount (pw s) - 1) = length rest" by (subst unat_pred_u16) simp_all
    moreover have "ob_count [] s1 = ob_count [] s" by (simp add: fun_eq_iff ob_count_def pk f)
    ultimately show ?thesis
      using inv q rf nin by (auto simp: writer_inv_def w_counts_def f)
  qed
  moreover have "w_layout [] s1"
  proof -
    have "buf_layout [] s1 c" if "c \<in> set rest" for c
    proof -
      have "buf_layout [] s c" using inv q that by (simp add: writer_inv_def w_layout_def)
      then show ?thesis by (cases "c = ob") (simp_all add: buf_layout_def pk f Let_def)
    qed
    moreover have "pac_layout s1 a" if a: "a \<in> set (packs [] s)" for a
    proof -
      have "pac_layout s a" using inv a by (simp add: writer_inv_def w_layout_def)
      moreover have "\<not> op_Sent (h_OutPac s a) \<Longrightarrow> op_OutBuf (h_OutPac s a) \<noteq> ob"
        using un a by (auto simp: filter_empty_conv)
      ultimately show ?thesis by (auto simp: pac_layout_def Let_def f q)
    qed
    ultimately show ?thesis by (simp add: w_layout_def pk f(1))
  qed
  ultimately show "writer_inv H [] s1" by (simp add: writer_inv_def)
qed

text \<open>The packets the next write will send, in the order of their positions.\<close>

definition due :: "'a writer_state_scheme \<Rightarrow> addr list" where
  "due s = (case pw_Queue (pw s) of [] \<Rightarrow> [] | ob # _ \<Rightarrow> unsent_of ob (packs [] s) (h_OutPac s))"

lemma APB_WriteBuffer_ok:
  assumes inv: "writer_inv H [] s" and wr: "r_WriteReq (rem s) \<noteq> None"
  shows "\<exists>s1 pkts. APB_WriteBuffer s = Some s1 \<and> writer_inv H [] s1 \<and> wbufs [] s1 \<subseteq> wbufs [] s \<and>
    sent_only s s1 \<and> (\<forall>p \<in> set pkts. wire_ok p) \<and> length pkts = length (due s) \<and>
    ser_io s1 = ser_io s @ (if pkts = [] then [] else [Ser_Write (concat pkts)])"
proof (cases "pw_Queue (pw s)")
  case Nil
  then show ?thesis
    using inv wr by (intro exI [of _ s] exI [of _ "[]"]) (simp add: APB_WriteBuffer_def sent_only_def due_def)
next
  case q: (Cons ob rest)
  from send_buffer_ok [OF inv _ wr, of ob] q obtain s1 pkts where
    s1: "send_buffer ob s = Some s1" "writer_inv H [] s1" "wbufs [] s1 = wbufs [] s" "sent_only s s1"
      "pw s1 = pw s" "unsent_of ob (packs [] s1) (h_OutPac s1) = []" "\<forall>p \<in> set pkts. wire_ok p"
      "length pkts = length (unsent_of ob (packs [] s) (h_OutPac s))"
      "ser_io s1 = ser_io s @ (if pkts = [] then [] else [Ser_Write (concat pkts)])" by auto
  have cnt: "pw_BufCount (pw s1) > 1 \<longleftrightarrow> rest \<noteq> []"
    using inv q by (auto simp: writer_inv_def w_counts_def word_less_nat_alt s1(5))
  show ?thesis
  proof (cases "rest = []")
    case True
    then have "APB_WriteBuffer s = Some s1" using q s1(1) cnt by (simp add: APB_WriteBuffer_def)
    then show ?thesis using s1 q by (intro exI [of _ s1] exI [of _ pkts]) (simp add: due_def)
  next
    case False
    let ?s = "upd_pw (\<lambda>w. w\<lparr>pw_Queue := rest, pw_BufCount := pw_BufCount w - 1\<rparr>)
        (upd_ob ob (\<lambda>x. x\<lparr>ob_CanRelease := True\<rparr>) s1)"
    have "APB_WriteBuffer s = Some ?s" using q s1(1,5) cnt False by (simp add: APB_WriteBuffer_def)
    moreover have q1: "pw_Queue (pw s1) = ob # rest" using q s1(5) by simp
    note d = dequeue_inv [OF s1(2) q1 False s1(6) refl]
    have "sent_only s ?s" using s1(4) by (simp add: sent_only_def)
    ultimately show ?thesis
      using d s1(3,7-9) q by (intro exI [of _ ?s] exI [of _ pkts]) (simp add: due_def)
  qed
qed

section \<open>Resending\<close>

lemma find_recent_None:
  assumes "\<forall>op \<in> set ops. get32 (buf_data s (fst (op_Pac (h_OutPac s op)))) (snd (op_Pac (h_OutPac s op))) = PACKET_ID"
  shows "find_recent packId ops s = None"
proof -
  have "unat packId \<noteq> 1097683049" using unat_u16_less [of packId] by linarith
  then have "unat (ucast packId :: u32) \<noteq> unat PACKET_ID" by (simp add: PACKET_ID_def)
  then have "(ucast packId :: u32) \<noteq> PACKET_ID" by metis
  then show ?thesis using assms by (induction ops) (auto split: prod.splits)
qed

lemma APB_ResendPacket_noop:
  assumes "writer_inv H [] s"
  shows "APB_ResendPacket packId s = s"
proof -
  have "\<forall>op \<in> set (pw_RecentPackets (pw s)). pac_layout s op"
    using assms by (simp add: writer_inv_def w_layout_def packs_def)
  then have "find_recent packId (pw_RecentPackets (pw s)) s = None"
    using pac_layout_id by (intro find_recent_None) blast
  then show ?thesis by (simp add: APB_ResendPacket_def)
qed

section \<open>A channel of packets\<close>

text \<open>
  What the connections and the server rely on: whatever they do with the writer, it goes on,
  and what reaches the device is one well-formed packet after the other. An owner fills in a
  packet through the pointer it got: type, connection and data.
\<close>

definition fill_packet ::
    "bptr \<Rightarrow> u8 \<Rightarrow> u16 \<Rightarrow> u8 list \<Rightarrow> 'a writer_state_scheme \<Rightarrow> 'a writer_state_scheme" where
  "fill_packet p ty cn xs s =
     (let (b, i) = p in
      write_buf b (i + sizeof_Packet + length xs)
        (\<lambda>m. put_list (i + sizeof_Packet) xs (put16 (i + 6) cn (put8 (i + 4) ty m))) s)"

definition sent_bytes :: "'a rem_state_scheme \<Rightarrow> u8 list" where
  "sent_bytes s = concat (map (\<lambda>e. case e of Ser_Write bs \<Rightarrow> bs | _ \<Rightarrow> []) (ser_io s))"

datatype writer_op =
    W_Alloc u16
  | W_Fill nat u8 u16 "u8 list"
  | W_Resend u16
  | W_Write

definition may_fill :: "bptr \<Rightarrow> u8 list \<Rightarrow> 'a writer_state_scheme \<Rightarrow> bool" where
  "may_fill p xs s \<longleftrightarrow> packet_open p s \<and>
     length xs \<le> unat (get16 (buf_data s (fst p)) (snd p + 12))"

fun writer_step :: "writer_op \<Rightarrow> 'a writer_state_scheme \<Rightarrow> 'a writer_state_scheme option" where
  "writer_step (W_Alloc n) s = Some (snd (APB_AllocPacket n s))"
| "writer_step (W_Fill k ty cn xs) s =
     (if k < length (pw_RecentPackets (pw s)) \<and>
         may_fill (op_Pac (h_OutPac s (pw_RecentPackets (pw s) ! k))) xs s
      then Some (fill_packet (op_Pac (h_OutPac s (pw_RecentPackets (pw s) ! k))) ty cn xs s)
      else Some s)"
| "writer_step (W_Resend packId) s = Some (APB_ResendPacket packId s)"
| "writer_step W_Write s = APB_WriteBuffer s"

fun run_steps :: "('o \<Rightarrow> 's \<Rightarrow> 's option) \<Rightarrow> 'o list \<Rightarrow> 's \<Rightarrow> 's option" where
  "run_steps step [] s = Some s"
| "run_steps step (x # xs) s = (case step x s of None \<Rightarrow> None | Some s1 \<Rightarrow> run_steps step xs s1)"

locale packet_channel =
  fixes inv :: "'s \<Rightarrow> bool"
    and step :: "'o \<Rightarrow> 's \<Rightarrow> 's option"
    and out :: "'s \<Rightarrow> u8 list"
  assumes step_ok: "inv s \<Longrightarrow> \<exists>s1 pkts. step x s = Some s1 \<and> inv s1 \<and>
      out s1 = out s @ concat pkts \<and> (\<forall>p \<in> set pkts. wire_ok p)"
begin

lemma run_ok:
  "inv s \<Longrightarrow> \<exists>s1 pkts. run_steps step xs s = Some s1 \<and> inv s1 \<and>
     out s1 = out s @ concat pkts \<and> (\<forall>p \<in> set pkts. wire_ok p)"
proof (induction xs arbitrary: s)
  case Nil
  then show ?case by (intro exI [of _ s] exI [of _ "[]"]) simp
next
  case (Cons x xs)
  from step_ok [OF Cons.prems, of x] obtain s1 p1 where
    1: "step x s = Some s1" "inv s1" "out s1 = out s @ concat p1" "\<forall>p \<in> set p1. wire_ok p" by blast
  from Cons.IH [OF 1(2)] obtain s2 p2 where
    2: "run_steps step xs s1 = Some s2" "inv s2" "out s2 = out s1 @ concat p2"
      "\<forall>p \<in> set p2. wire_ok p" by blast
  show ?case
    using 1 2 by (intro exI [of _ s2] exI [of _ "p1 @ p2"]) auto
qed

end

definition writer_ready :: "'a writer_state_scheme \<Rightarrow> bool" where
  "writer_ready s \<longleftrightarrow> (\<exists>H. writer_inv H [] s) \<and> r_WriteReq (rem s) \<noteq> None"

lemma writer_inv_next_id:
  "writer_inv H xs (upd_pw (\<lambda>w. w\<lparr>pw_NextPackId := n\<rparr>) s) = writer_inv H xs s"
  by (simp add: writer_inv_def w_heap_def w_counts_def w_layout_def buf_layout_def pac_layout_def
      out_refs_def wbufs_def packs_def ob_count_def)

lemma wbufs_next_id [simp]: "wbufs xs (upd_pw (\<lambda>w. w\<lparr>pw_NextPackId := n\<rparr>) s) = wbufs xs s"
  by (simp add: wbufs_def out_refs_def packs_def)

lemma APB_AllocPacket_eq:
  "APB_AllocPacket n s = APB_AllocPacketWithId n (pw_NextPackId (pw s))
     (upd_pw (\<lambda>w. w\<lparr>pw_NextPackId := pw_NextPackId (pw s) + 1\<rparr>) s)"
  by (simp add: APB_AllocPacket_def upd_pw_def)

lemma APB_AllocPacket_ok:
  assumes "writer_inv H [] s" and "APB_AllocPacket len s = (p, s1)"
  shows "\<exists>H1. writer_inv H1 [] s1 \<and> writer_frame H [] s H1 [] s1 \<and>
    packet_got len (pw_NextPackId (pw s)) p (faults s) s1"
proof -
  let ?s = "upd_pw (\<lambda>w. w\<lparr>pw_NextPackId := pw_NextPackId (pw s) + 1\<rparr>) s"
  have i: "writer_inv H [] ?s" using assms(1) by (simp add: writer_inv_next_id)
  have al: "APB_AllocPacketWithId len (pw_NextPackId (pw s)) ?s = (p, s1)"
    using assms(2) by (simp add: APB_AllocPacket_eq)
  have f: "faults ?s = faults s" by simp
  have "writer_frame H [] s H [] ?s" by (simp add: writer_frame_def)
  with alloc_packet_ok [OF i al, unfolded f] writer_frame_trans [OF this] show ?thesis by blast
qed

lemma fill_packet_ok:
  assumes inv: "writer_inv H [] s" and may: "may_fill (b, i) xs s"
  shows "writer_inv H [] (fill_packet (b, i) ty cn xs s)"
    and "writer_frame H [] s H [] (fill_packet (b, i) ty cn xs s)"
    and "faults (fill_packet (b, i) ty cn xs s) = faults s"
proof -
  let ?s = "fill_packet (b, i) ty cn xs s"
  have op: "packet_open (b, i) s" and len: "length xs \<le> unat (get16 (buf_data s b) (i + 12))"
    using may by (simp_all add: may_fill_def)
  from open_packet_tile [OF inv op] have "i + pack_len (buf_data s b) i \<le> BUFFER_SIZE"
    by (metis le_trans)
  then have fit: "i + sizeof_Packet + length xs \<le> BUFFER_SIZE" using len by (simp add: pack_len_def)
  then show ft: "faults ?s = faults s" by (simp add: fill_packet_def faults_write_buf)
  have "payload_only i (buf_data s b) (buf_data ?s b)"
    using len by (auto simp: payload_only_def fill_packet_def put_list_def put16_apply put8_apply
        pack_len_def split: if_splits)
  moreover have "same_but_data b s ?s"
    using ft by (simp add: same_but_data_def fill_packet_def)
  moreover have "h_OutPac ?s = h_OutPac s" by (simp add: fill_packet_def)
  ultimately show "writer_inv H [] ?s" "writer_frame H [] s H [] ?s"
    using fill_packet_inv [OF inv op] by blast+
qed

lemma sent_bytes_cong: "ser_io s1 = ser_io s \<Longrightarrow> sent_bytes s1 = sent_bytes s"
  by (simp add: sent_bytes_def)

lemma writer_step_ok:
  assumes "writer_ready s"
  shows "\<exists>s1 pkts. writer_step x s = Some s1 \<and> writer_ready s1 \<and>
      sent_bytes s1 = sent_bytes s @ concat pkts \<and> (\<forall>p \<in> set pkts. wire_ok p)"
proof -
  from assms obtain H where H: "writer_inv H [] s" and wr: "r_WriteReq (rem s) \<noteq> None"
    by (auto simp: writer_ready_def)
  have quiet: ?thesis if "writer_step x s = Some s1" "writer_inv H1 [] s1" "writer_frame H [] s H1 [] s1"
    for s1 H1
  proof -
    have "rem s1 = rem s" "ser_io s1 = ser_io s" using that(3) by (simp_all add: writer_frame_def)
    then show ?thesis
      using that(1,2) wr sent_bytes_cong [of s1 s]
      by (intro exI [of _ s1] exI [of _ "[]"]) (auto simp: writer_ready_def)
  qed
  have id: "writer_frame H [] s H [] s" by (simp add: writer_frame_def)
  show ?thesis
  proof (cases x)
    case (W_Alloc n)
    obtain p s1 where "APB_AllocPacket n s = (p, s1)" by fastforce
    with APB_AllocPacket_ok [OF H this] show ?thesis using quiet [of s1] W_Alloc by auto
  next
    case (W_Fill k ty cn xs)
    let ?p = "op_Pac (h_OutPac s (pw_RecentPackets (pw s) ! k))"
    show ?thesis
    proof (cases "k < length (pw_RecentPackets (pw s)) \<and> may_fill ?p xs s")
      case True
      obtain b i where p: "?p = (b, i)" by fastforce
      note f = fill_packet_ok [OF H, of b i xs]
      show ?thesis using quiet [of _ H] f True W_Fill p by simp
    next
      case False
      then have "writer_step x s = Some s" unfolding W_Fill writer_step.simps by (rule if_not_P)
      then show ?thesis using quiet [of s H] H id by blast
    qed
  next
    case (W_Resend packId)
    then show ?thesis using quiet [of s H] H id by (simp add: APB_ResendPacket_noop)
  next
    case W_Write
    from APB_WriteBuffer_ok [OF H wr] obtain s1 pkts where
      w: "APB_WriteBuffer s = Some s1" "writer_inv H [] s1" "sent_only s s1" "\<forall>p \<in> set pkts. wire_ok p"
      "ser_io s1 = ser_io s @ (if pkts = [] then [] else [Ser_Write (concat pkts)])" by blast
    then have "sent_bytes s1 = sent_bytes s @ concat pkts" by (simp add: sent_bytes_def)
    then show ?thesis
      using w W_Write by (intro exI [of _ s1] exI [of _ pkts]) (auto simp: writer_ready_def sent_only_def)
  qed
qed

interpretation chan: packet_channel writer_ready writer_step sent_bytes
  by unfold_locales (rule writer_step_ok)

section \<open>A new writer\<close>

lemma register_missing_holds:
  "pool_holds H s \<Longrightarrow> pool_holds H (register_missing i name n lo hi s) \<and>
     faults (register_missing i name n lo hi s) = faults s"
  by (simp add: register_missing_def pool_holds_register)

lemma register_missing_more [frame_simps, simp]:
  "pool.more (register_missing i name n lo hi s) = pool.more s"
  by (simp add: register_missing_def)

lemma APB_AllocMem_more: "APB_AllocMem n s = (p, s1) \<Longrightarrow> pool.more s1 = pool.more s"
  unfolding APB_AllocMem_def by (rule pool_alloc_more)

lemma create_writer_inv:
  assumes "pool_holds H s" and "APB_CreatePacketWriter s = (True, s1)"
  shows "writer_inv H [] s1" "rem s1 = rem s" "ser_io s1 = ser_io s" "faults s1 = faults s"
    "pw_Queue (pw s1) = []" "pw_RecentPackets (pw s1) = []"
proof -
  define s2 where "s2 = register_missing OT_OUT_PACKET ''Outgoing Packet'' sizeof_OutPacket
    (MIN_BUFFERS * 10) (MAX_BUFFERS * 10)
    (register_missing OT_OUT_BUFFER ''Outgoing Buffer'' sizeof_OutBuffer MIN_BUFFERS MAX_BUFFERS s)"
  have h2: "pool_holds H s2" and f2: "faults s2 = faults s"
    using register_missing_holds assms(1) unfolding s2_def by metis+
  have m2: "pool.more s2 = pool.more s" by (simp add: s2_def)
  from assms(2) obtain a s3 where al: "APB_AllocMem sizeof_PacketWriter s2 = (Some a, s3)"
    and s1: "s1 = upd_pw (\<lambda>_. \<lparr>pw_Addr = a, pw_Queue = [], pw_RecentPackets = [], pw_OutBuf = None,
        pw_RecentCount = 0, pw_BufCount = 0, pw_NextPackId = 1\<rparr>) s3"
    by (auto simp: APB_CreatePacketWriter_def s2_def Let_def split: prod.splits option.splits)
  note h3 = pool_alloc_mem_holds [OF h2 al]
  have m3: "pool.more s3 = pool.more s" using APB_AllocMem_more [OF al] m2 by simp
  have e: "packs [] s1 = []" "out_refs [] s1 = {}" "wbufs [] s1 = {}"
    by (simp_all add: packs_def out_refs_def wbufs_def s1)
  have "pool_holds H s1" using h3 by (simp add: s1)
  then show "writer_inv H [] s1"
    by (simp add: writer_inv_def w_heap_def w_counts_def w_layout_def e) (simp add: s1)
  show "rem s1 = rem s" "ser_io s1 = ser_io s"
    using writer_fields_pool(5,6) [OF m3] by (simp_all add: s1)
  show "faults s1 = faults s" using h3 f2 by (simp add: s1)
  show "pw_Queue (pw s1) = []" "pw_RecentPackets (pw s1) = []" by (simp_all add: s1)
qed

text \<open>A server's state before its components are made: an empty pool and an open remote.\<close>

definition demo_writer :: writer_state where
  "demo_writer = \<lparr>op_Types = [], op_MemPool = Some 4, op_Mem =
        \<lparr>em_answer = bump, em_hist = [MAlloc Exec_Pool 20 1000]\<rparr>, faults = [],
      h_Buf = (\<lambda>_. \<lparr>b_Offset = 0, b_Data = (\<lambda>_. 0)\<rparr>), rem = demo_remote, ser_io = [],
      h_OutBuf = (\<lambda>_. \<lparr>ob_Buf = 0, ob_Offset = 0, ob_PacketCount = 0, ob_CanRelease = False\<rparr>),
      h_OutPac = (\<lambda>_. \<lparr>op_OutBuf = 0, op_Pac = (0, 0), op_Sent = False\<rparr>),
      pw = \<lparr>pw_Addr = 0, pw_Queue = [], pw_RecentPackets = [], pw_OutBuf = None,
        pw_RecentCount = 0, pw_BufCount = 0, pw_NextPackId = 0\<rparr>\<rparr>"

lemma demo_writer_holds: "pool_holds (\<lambda>i. {}) demo_writer"
proof -
  have "exec_fresh (em_answer bump_mem)" and "frees_ok (em_hist bump_mem)"
    using exec_fresh_bump by (simp_all add: bump_mem_def)
  from pool_holds_none [OF conjunct1 [OF create_pool_inv [OF this demo_create]]]
  show ?thesis by (subst pool_holds_cong [of _ "\<lparr>op_Types = [], op_MemPool = Some 4, op_Mem =
        \<lparr>em_answer = bump, em_hist = [MAlloc Exec_Pool 20 1000]\<rparr>, faults = []\<rparr>"])
      (simp_all add: demo_writer_def)
qed

lemma create_writer_bump:
  assumes "em_answer (op_Mem s) = bump"
  shows "fst (APB_CreatePacketWriter s)"
proof -
  let ?s = "register_missing OT_OUT_PACKET ''Outgoing Packet'' sizeof_OutPacket
    (MIN_BUFFERS * 10) (MAX_BUFFERS * 10)
    (register_missing OT_OUT_BUFFER ''Outgoing Buffer'' sizeof_OutBuffer MIN_BUFFERS MAX_BUFFERS s)"
  have "em_answer (op_Mem ?s) = bump" using assms by (simp add: register_missing_def)
  from alloc_mem_bump [OF this, of sizeof_PacketWriter] show ?thesis
    by (auto simp: APB_CreatePacketWriter_def Let_def split: prod.splits)
qed

lemma demo_writer_create: "\<exists>s. APB_CreatePacketWriter demo_writer = (True, s)"
proof -
  have "fst (APB_CreatePacketWriter demo_writer)"
    by (rule create_writer_bump) (simp add: demo_writer_def)
  then show ?thesis by (metis prod.collapse)
qed

section \<open>Properties\<close>

text \<open>
  C27: a packet the writer hands out is its own: header and data lie inside one buffer, the
  packet carries the next packet number and its data length, it is unsent, and the invariant
  of the writer is kept; only a length of 4095 writes its pad byte behind the buffer. Buffers
  that are not the writer's do not change.
\<close>

theorem alloc_packet_sound:
  assumes "writer_inv H [] s" and "APB_AllocPacket len s = (Some (b, i), s1)"
  shows "\<exists>H1. writer_inv H1 [] s1 \<and> writer_frame H [] s H1 [] s1 \<and> packet_open (b, i) s1 \<and>
    i + unat len + unat len mod 2 \<le> BUFFER_SIZE \<and>
    get16 (buf_data s1 b) (i + 8) = pw_NextPackId (pw s) \<and>
    unat (get16 (buf_data s1 b) (i + 12)) + sizeof_Packet = unat len \<and>
    faults s1 = (if unat len = 4095 then OutOfBounds # faults s else faults s)"
proof -
  from APB_AllocPacket_ok [OF assms] obtain H1 where
    h: "writer_inv H1 [] s1" "writer_frame H [] s H1 [] s1"
    and g: "packet_got len (pw_NextPackId (pw s)) (Some (b, i)) (faults s) s1" by blast
  have len: "sizeof_Packet \<le> unat len" using g by (simp add: packet_got_def)
  have "get16 (buf_data s1 b) (i + 12) = len - of_nat sizeof_Packet"
    using g by (simp add: packet_got_def)
  moreover have "unat (len - of_nat sizeof_Packet) = unat len - sizeof_Packet"
    using len by (subst unat_sub_u16) simp_all
  ultimately show ?thesis using h g len by (intro exI [of _ H1]) (simp add: packet_got_def)
qed

text \<open>
  \<open>APB_ResendPacket\<close> compares the packet number with the magic number of the packets it
  keeps, a 32 bit constant that no packet number equals: a resend never happens.
\<close>

theorem resend_does_nothing:
  assumes "pool_holds H s" and "r_WriteReq (rem s) \<noteq> None"
    and "APB_CreatePacketWriter s = (True, s0)"
    and "run_steps writer_step ops s0 = Some s1"
  shows "APB_ResendPacket packId s1 = s1"
proof -
  have "writer_ready s0" using create_writer_inv [OF assms(1,3)] assms(2) by (auto simp: writer_ready_def)
  from chan.run_ok [OF this, of ops] assms(4) obtain H1 where "writer_inv H1 [] s1"
    by (auto simp: writer_ready_def)
  then show ?thesis by (rule APB_ResendPacket_noop)
qed

theorem resend_does_nothing_witness:
  "\<exists>s0 s1. APB_CreatePacketWriter demo_writer = (True, s0) \<and>
    run_steps writer_step [W_Alloc 14, W_Write] s0 = Some s1 \<and> APB_ResendPacket 1 s1 = s1"
proof -
  obtain s0 where s0: "APB_CreatePacketWriter demo_writer = (True, s0)" using demo_writer_create by blast
  have wr: "r_WriteReq (rem demo_writer) \<noteq> None" by (simp add: demo_writer_def demo_remote_def)
  then have "writer_ready s0"
    using create_writer_inv [OF demo_writer_holds s0] by (auto simp: writer_ready_def)
  from chan.run_ok [OF this, of "[W_Alloc 14, W_Write]"] obtain s1 where
    s1: "run_steps writer_step [W_Alloc 14, W_Write] s0 = Some s1" by blast
  from resend_does_nothing [OF demo_writer_holds wr s0 s1] s0 s1 show ?thesis by blast
qed

text \<open>
  When the packets of the first buffer were all dropped from the recent list before the
  buffer leaves the queue, nobody refers to it any more but the pool still counts it as in
  use: the OutBuffer and its 4096 byte Buffer are lost.
\<close>

theorem write_buffer_loses_buffer:
  assumes inv: "writer_inv H [] s" and wr: "r_WriteReq (rem s) \<noteq> None"
    and q: "pw_Queue (pw s) = ob # rest" "rest \<noteq> []"
    and none: "\<forall>op \<in> set (pw_RecentPackets (pw s)). op_OutBuf (h_OutPac s op) \<noteq> ob"
  shows "\<exists>s1. APB_WriteBuffer s = Some s1 \<and> pool_holds H s1 \<and> ob \<in> H OT_OUT_BUFFER \<and>
    ob_Buf (h_OutBuf s ob) \<in> H OT_BUFFER \<and> ob \<notin> out_refs [] s1"
proof -
  have obr: "ob \<in> out_refs [] s" using q by (simp add: out_refs_def)
  have held: "ob \<in> H OT_OUT_BUFFER" "ob_Buf (h_OutBuf s ob) \<in> H OT_BUFFER"
    using inv obr by (auto simp: writer_inv_def w_heap_def wbufs_def)
  have un: "unsent_of ob (packs [] s) (h_OutPac s) = []"
    using none by (auto simp: packs_def filter_empty_conv)
  have "buf_layout [] s ob" using inv q by (simp add: writer_inv_def w_layout_def)
  then have "unat (ob_Offset (h_OutBuf s ob)) = buf_offset s (ob_Buf (h_OutBuf s ob))"
    by (simp add: buf_layout_def Let_def un)
  then have sb: "send_buffer ob s = Some s" by (simp add: send_buffer_def Let_def word_less_nat_alt)
  have "pw_BufCount (pw s) > 1"
    using inv q by (cases rest) (auto simp: writer_inv_def w_counts_def word_less_nat_alt)
  then have e: "APB_WriteBuffer s = Some (upd_pw (\<lambda>w. w\<lparr>pw_Queue := rest, pw_BufCount := pw_BufCount w - 1\<rparr>)
      (upd_ob ob (\<lambda>x. x\<lparr>ob_CanRelease := True\<rparr>) s))" (is "_ = Some ?s")
    using q sb by (simp add: APB_WriteBuffer_def)
  have "ob \<notin> set rest" using inv q by (simp add: writer_inv_def w_heap_def)
  then have "ob \<notin> out_refs [] ?s" using none by (auto simp: out_refs_def packs_def)
  moreover have "pool_holds H ?s" using inv by (simp add: writer_inv_def w_heap_def)
  ultimately show ?thesis using e held by blast
qed

section \<open>Witnesses\<close>

text \<open>With memory available, an idle writer hands out a packet of any valid length.\<close>

lemma allocate_buffer_bump:
  assumes h: "pool_holds H s" and e: "card (H OT_BUFFER) < 16"
    and r: "APB_TypeRegistered OT_BUFFER s \<longrightarrow> registered OT_BUFFER MAX_BUFFERS s"
    and b: "em_answer (op_Mem s) = bump" and k: "registered j n s"
  shows "\<exists>p s1. APB_AllocateBuffer s = (Some p, s1) \<and> registered j n s1 \<and>
    registered OT_BUFFER MAX_BUFFERS s1 \<and> em_answer (op_Mem s1) = bump"
proof -
  let ?s = "if APB_TypeRegistered OT_BUFFER s then s
      else APB_RegisterObjectType OT_BUFFER ''Buffer'' sizeof_Buffer MIN_BUFFERS MAX_BUFFERS s"
  have s: "registered OT_BUFFER MAX_BUFFERS ?s" "em_answer (op_Mem ?s) = bump" "registered j n ?s"
    "pool_holds H ?s"
    using r b k h register_bump [OF b, of OT_BUFFER MAX_BUFFERS] register_keeps [OF k]
      pool_holds_register [OF h] by simp_all
  then have t: "APB_TypeRegistered OT_BUFFER ?s"
    by (auto simp: registered_def APB_TypeRegistered_def APB_TypeRegisteredInternal_def)
  have "card (H OT_BUFFER) < unat MAX_BUFFERS" using e by (simp add: MAX_BUFFERS_def)
  from alloc_object_bump [OF s(4,1) this s(2)] obtain p s1 where
    al: "APB_AllocObject OT_BUFFER ?s = (Some p, s1)" by blast
  note f = alloc_object_registered [OF al]
  have "APB_AllocateBuffer s = (Some p, upd_buf p (\<lambda>x. x\<lparr>b_Offset := 0\<rparr>) s1)"
    using t al by (simp add: APB_AllocateBuffer_def Let_def)
  then show ?thesis using f s by (simp add: registered_cong [of "upd_buf p _ s1" s1])
qed

definition buffers_left :: "(u16 \<Rightarrow> addr set) \<Rightarrow> 'a writer_state_scheme \<Rightarrow> bool" where
  "buffers_left H s \<longleftrightarrow> pool_holds H s \<and> em_answer (op_Mem s) = bump \<and>
     registered OT_OUT_BUFFER MAX_BUFFERS s \<and> registered OT_OUT_PACKET (MAX_BUFFERS * 10) s \<and>
     (APB_TypeRegistered OT_BUFFER s \<longrightarrow> registered OT_BUFFER MAX_BUFFERS s) \<and>
     card (H OT_OUT_BUFFER) < 16 \<and> card (H OT_BUFFER) < 16"

lemma get_out_buffer_new:
  assumes r: "buffers_left H s"
    and full: "case pw_OutBuf (pw s) of None \<Rightarrow> True
      | Some ob \<Rightarrow> buf_offset s (ob_Buf (h_OutBuf s ob)) + unat len + 1 \<ge> BUFFER_SIZE"
  shows "\<exists>ob b s1. get_out_buffer len s = (Some ob, s1) \<and> ob \<notin> H OT_OUT_BUFFER \<and> b \<notin> H OT_BUFFER \<and>
    pool_holds (H(OT_OUT_BUFFER := insert ob (H OT_OUT_BUFFER), OT_BUFFER := insert b (H OT_BUFFER))) s1 \<and>
    em_answer (op_Mem s1) = bump \<and> registered OT_OUT_BUFFER MAX_BUFFERS s1 \<and>
    registered OT_OUT_PACKET (MAX_BUFFERS * 10) s1 \<and> registered OT_BUFFER MAX_BUFFERS s1 \<and>
    pw_Queue (pw s1) = pw_Queue (pw s) @ [ob] \<and> pw_OutBuf (pw s1) = Some ob \<and>
    pw_RecentPackets (pw s1) = pw_RecentPackets (pw s) \<and> rem s1 = rem s"
proof -
  have h: "pool_holds H s" and b: "em_answer (op_Mem s) = bump"
    and ro: "registered OT_OUT_BUFFER MAX_BUFFERS s"
    and rp: "registered OT_OUT_PACKET (MAX_BUFFERS * 10) s"
    and rb: "APB_TypeRegistered OT_BUFFER s \<longrightarrow> registered OT_BUFFER MAX_BUFFERS s"
    and c: "card (H OT_OUT_BUFFER) < 16" "card (H OT_BUFFER) < 16"
    using r by (simp_all add: buffers_left_def)
  from alloc_object_bump [OF h ro _ b] c obtain ob s1 where
    a1: "APB_AllocObject OT_OUT_BUFFER s = (Some ob, s1)" by (auto simp: MAX_BUFFERS_def)
  note f1 = alloc_object_registered [OF a1]
  let ?H1 = "H(OT_OUT_BUFFER := insert ob (H OT_OUT_BUFFER))"
  have h1: "pool_holds ?H1 s1" and ob: "ob \<notin> H OT_OUT_BUFFER" using pool_laws(1) [OF h a1] by simp_all
  have t1: "APB_TypeRegistered OT_BUFFER s1 \<longrightarrow> registered OT_BUFFER MAX_BUFFERS s1"
    using rb f1(1) by (simp add: type_registered_iff)
  have b1: "em_answer (op_Mem s1) = bump" using f1(2) b by simp
  have c1: "card (?H1 OT_BUFFER) < 16" using c by simp
  have p1: "registered OT_OUT_PACKET (MAX_BUFFERS * 10) s1" "registered OT_OUT_BUFFER MAX_BUFFERS s1"
    using f1(1) rp ro by simp_all
  from allocate_buffer_bump [OF h1 c1 t1 b1 p1(1)] allocate_buffer_bump [OF h1 c1 t1 b1 p1(2)]
  obtain d s2 where a2: "APB_AllocateBuffer s1 = (Some d, s2)"
    and f2: "registered OT_OUT_PACKET (MAX_BUFFERS * 10) s2" "em_answer (op_Mem s2) = bump"
      "registered OT_OUT_BUFFER MAX_BUFFERS s2" "registered OT_BUFFER MAX_BUFFERS s2" by auto
  define s3 where "s3 = upd_pw (\<lambda>w. w\<lparr>pw_OutBuf := Some ob, pw_Queue := pw_Queue w @ [ob],
                         pw_BufCount := pw_BufCount w + 1\<rparr>)
                       (upd_ob ob (\<lambda>_. \<lparr>ob_Buf = d, ob_Offset = 0, ob_PacketCount = 0,
                         ob_CanRelease = False\<rparr>) s2)"
  have go: "get_out_buffer len s = (Some ob, s3)"
    using full a1 a2 by (auto simp: get_out_buffer_def Let_def s3_def split: option.splits)
  have d: "d \<notin> H OT_BUFFER" and h2: "pool_holds (?H1(OT_BUFFER := insert d (H OT_BUFFER))) s2"
    using APB_AllocateBuffer_holds [OF h1 a2] by simp_all
  have reg: "registered i n s3 = registered i n s2" for i n
    by (rule registered_cong) (simp add: s3_def)
  have pw: "pw s2 = pw s" "rem s2 = rem s"
    using writer_fields_buf [OF APB_AllocateBuffer_more [OF a2]] pool_step_frame [OF a1] by simp_all
  show ?thesis
    by (rule exI [of _ ob], rule exI [of _ d], rule exI [of _ s3])
      (use go ob d h2 f2 pw in \<open>simp add: reg; simp add: s3_def\<close>)
qed

lemma alloc_packet_idle:
  assumes inv: "writer_inv (\<lambda>i. {}) [] s" and b: "em_answer (op_Mem s) = bump"
    and r: "registered OT_OUT_BUFFER MAX_BUFFERS s" "registered OT_OUT_PACKET (MAX_BUFFERS * 10) s"
      "APB_TypeRegistered OT_BUFFER s \<longrightarrow> registered OT_BUFFER MAX_BUFFERS s"
    and len: "sizeof_Packet \<le> unat len" "unat len \<le> BUFFER_SIZE"
  shows "\<exists>p i s1. APB_AllocPacket len s = (Some (p, i), s1) \<and> length (pw_Queue (pw s1)) = 1"
proof -
  define s0 where "s0 = upd_pw (\<lambda>w. w\<lparr>pw_NextPackId := pw_NextPackId w + 1\<rparr>) s"
  have reg: "registered i n s0 = registered i n s" for i n by (rule registered_cong) (simp add: s0_def)
  have inv0: "writer_inv (\<lambda>i. {}) [] s0"
    using inv writer_inv_next_id [of "\<lambda>i. {}" "[]" "pw_NextPackId (pw s) + 1" s] by (simp add: s0_def upd_pw_def)
  have q0: "pw_Queue (pw s0) = []" using inv0 by (simp add: writer_inv_def w_heap_def out_refs_def)
  then have none: "pw_OutBuf (pw s0) = None" using inv0 by (simp add: writer_inv_def w_counts_def)
  have "buffers_left (\<lambda>i. {}) s0"
    using inv0 b r by (simp add: buffers_left_def writer_inv_def w_heap_def reg type_registered_iff)
      (simp add: s0_def)
  from get_out_buffer_new [OF this, of len] none q0 obtain ob c s3 where
    go: "get_out_buffer len s0 = (Some ob, s3)"
    and h3: "pool_holds (((\<lambda>i. {})(OT_OUT_BUFFER := {ob}))(OT_BUFFER := {c})) s3"
    and f3: "em_answer (op_Mem s3) = bump" "registered OT_OUT_PACKET (MAX_BUFFERS * 10) s3"
      "pw_Queue (pw s3) = [ob]" by auto
  from alloc_object_bump [OF h3 f3(2) _ f3(1)] obtain op s4 where
    a4: "APB_AllocObject OT_OUT_PACKET s3 = (Some op, s4)"
    by (auto simp: MAX_BUFFERS_def)
  define s5 where "s5 = trim_recent (init_out_packet op ob len (pw_NextPackId (pw s)) s4)"
  define s6 where "s6 = upd_pw (\<lambda>w. w\<lparr>pw_RecentPackets := pw_RecentPackets w @ [op],
                          pw_RecentCount := pw_RecentCount w + 1\<rparr>) s5"
  obtain p i where pi: "op_Pac (h_OutPac s5 op) = (p, i)" by fastforce
  have "APB_AllocPacketWithId len (pw_NextPackId (pw s)) s0 = (Some (p, i), s6)"
    using go a4 len pi by (simp add: APB_AllocPacketWithId_def Let_def s5_def s6_def)
  moreover have "pw_Queue (pw s5) = [ob]"
  proof -
    have "pw_Queue (pw s5) = pw_Queue (pw (init_out_packet op ob len (pw_NextPackId (pw s)) s4))"
      using trim_recent_frame [of "init_out_packet op ob len (pw_NextPackId (pw s)) s4"]
      by (simp add: s5_def)
    also have "\<dots> = pw_Queue (pw s4)" by (simp add: init_out_packet_def Let_def)
    also have "\<dots> = pw_Queue (pw s3)" using pool_step_frame(4) [OF a4] by simp
    also have "\<dots> = [ob]" by (rule f3(3))
    finally show ?thesis .
  qed
  ultimately show ?thesis by (auto simp: APB_AllocPacket_def s0_def s6_def)
qed

definition idle_writer :: "'a writer_state_scheme \<Rightarrow> bool" where
  "idle_writer s \<longleftrightarrow> writer_inv (\<lambda>i. {}) [] s \<and> em_answer (op_Mem s) = bump \<and>
     registered OT_OUT_BUFFER MAX_BUFFERS s \<and> registered OT_OUT_PACKET (MAX_BUFFERS * 10) s \<and>
     (APB_TypeRegistered OT_BUFFER s \<longrightarrow> registered OT_BUFFER MAX_BUFFERS s) \<and>
     r_WriteReq (rem s) \<noteq> None \<and> faults s = [] \<and> ser_io s = [] \<and> pw_NextPackId (pw s) = 1"

lemma demo_writer_start:
  "\<exists>s0. APB_CreatePacketWriter demo_writer = (True, s0) \<and> idle_writer s0"
proof -
  obtain s0 where s0: "APB_CreatePacketWriter demo_writer = (True, s0)" using demo_writer_create by blast
  note c = create_writer_inv [OF demo_writer_holds s0]
  define r1 where "r1 = APB_RegisterObjectType OT_OUT_BUFFER ''Outgoing Buffer'' sizeof_OutBuffer
    MIN_BUFFERS MAX_BUFFERS demo_writer"
  define r2 where "r2 = APB_RegisterObjectType OT_OUT_PACKET ''Outgoing Packet'' sizeof_OutPacket
    (MIN_BUFFERS * 10) (MAX_BUFFERS * 10) r1"
  have b: "em_answer (op_Mem demo_writer) = bump" by (simp add: demo_writer_def)
  have n0: "\<not> APB_TypeRegistered i demo_writer" for i
    by (simp add: demo_writer_def APB_TypeRegistered_def APB_TypeRegisteredInternal_def APB_GetObjectType_def)
  have b1: "em_answer (op_Mem r1) = bump" and b2: "em_answer (op_Mem r2) = bump"
    by (simp_all add: r1_def r2_def b)
  have k1: "registered OT_OUT_BUFFER MAX_BUFFERS r1"
    unfolding r1_def by (rule register_bump [OF b n0])
  have n1: "\<not> APB_TypeRegistered OT_OUT_PACKET r1" "\<not> APB_TypeRegistered OT_BUFFER r1"
    using register_only [of _ _ OT_OUT_BUFFER _ _ _ _ demo_writer] n0 b
    by (fastforce simp: type_registered_iff r1_def)+
  have k2: "registered OT_OUT_PACKET (MAX_BUFFERS * 10) r2"
    unfolding r2_def by (rule register_bump [OF b1 n1(1)])
  have k3: "registered OT_OUT_BUFFER MAX_BUFFERS r2" unfolding r2_def by (rule register_keeps [OF k1])
  have n2: "\<not> APB_TypeRegistered OT_BUFFER r2"
    using register_only [of _ _ OT_OUT_PACKET _ _ _ _ r1] n1(2) b1
    by (fastforce simp: type_registered_iff r2_def)
  from s0 obtain a r3 where al: "APB_AllocMem sizeof_PacketWriter r2 = (Some a, r3)"
    and e: "s0 = upd_pw (\<lambda>_. \<lparr>pw_Addr = a, pw_Queue = [], pw_RecentPackets = [], pw_OutBuf = None,
        pw_RecentCount = 0, pw_BufCount = 0, pw_NextPackId = 1\<rparr>) r3"
    using n0 n1(1) by (auto simp: APB_CreatePacketWriter_def register_missing_def r1_def r2_def Let_def
        split: prod.splits option.splits)
  have reg: "registered i k s0 = registered i k r2" for i k
    using registered_pool_alloc [OF al [unfolded APB_AllocMem_def]] registered_cong [of s0 r3]
    by (simp add: e)
  have "em_answer (op_Mem s0) = bump"
    using pool_alloc_answer [OF al [unfolded APB_AllocMem_def]] b2 by (simp add: e)
  moreover have "registered OT_OUT_BUFFER MAX_BUFFERS s0" "registered OT_OUT_PACKET (MAX_BUFFERS * 10) s0"
    using k2 k3 by (simp_all add: reg)
  moreover have "APB_TypeRegistered OT_BUFFER s0 \<longrightarrow> registered OT_BUFFER MAX_BUFFERS s0"
    using n2 by (simp add: type_registered_iff reg)
  moreover have "r_WriteReq (rem s0) \<noteq> None" using c(2) by (simp add: demo_writer_def demo_remote_def)
  moreover have "faults s0 = []" "ser_io s0 = []" using c(3,4) by (simp_all add: demo_writer_def)
  moreover have "pw_NextPackId (pw s0) = 1" by (simp add: e)
  ultimately have "idle_writer s0" using c(1) by (simp add: idle_writer_def)
  with s0 show ?thesis by blast
qed

lemma idle_writer_facts:
  assumes "idle_writer s"
  shows "writer_inv (\<lambda>i. {}) [] s" "em_answer (op_Mem s) = bump"
    "registered OT_OUT_BUFFER MAX_BUFFERS s" "registered OT_OUT_PACKET (MAX_BUFFERS * 10) s"
    "APB_TypeRegistered OT_BUFFER s \<longrightarrow> registered OT_BUFFER MAX_BUFFERS s"
    "r_WriteReq (rem s) \<noteq> None" "faults s = []" "ser_io s = []" "pw_NextPackId (pw s) = 1"
  using assms by (simp_all add: idle_writer_def)

theorem alloc_packet_sound_witness:
  "\<exists>(s0 :: writer_state) b i s1 H1. APB_AllocPacket 4095 s0 = (Some (b, i), s1) \<and> faults s0 = [] \<and>
     writer_inv H1 [] s1 \<and> packet_open (b, i) s1 \<and> i + 4096 \<le> BUFFER_SIZE \<and>
     get16 (buf_data s1 b) (i + 8) = 1 \<and> faults s1 = [OutOfBounds]"
proof -
  obtain s0 :: writer_state where "idle_writer s0" using demo_writer_start by blast
  note s = idle_writer_facts [OF this]
  have "sizeof_Packet \<le> unat (4095 :: u16)" and "unat (4095 :: u16) \<le> BUFFER_SIZE"
    by (simp_all add: BUFFER_SIZE_def)
  from alloc_packet_idle [OF s(1-5) this] obtain b i s1 where
    al: "APB_AllocPacket 4095 s0 = (Some (b, i), s1)" by blast
  from alloc_packet_sound [OF s(1) al] obtain H1 where
    "writer_inv H1 [] s1" "packet_open (b, i) s1" "i + 4096 \<le> BUFFER_SIZE"
    "get16 (buf_data s1 b) (i + 8) = 1" "faults s1 = [OutOfBounds]"
    using s(7,9) by auto
  with al s(7) show ?thesis by blast
qed

text \<open>Two buffers in the queue, and no packets left that refer to the first.\<close>

theorem write_buffer_loses_buffer_witness:
  "\<exists>H (s :: writer_state) s1 ob. pw_RecentPackets (pw s) = [] \<and> hd (pw_Queue (pw s)) = ob \<and>
     APB_WriteBuffer s = Some s1 \<and> pool_holds H s1 \<and> ob \<in> H OT_OUT_BUFFER \<and>
     ob_Buf (h_OutBuf s ob) \<in> H OT_BUFFER \<and> ob \<notin> out_refs [] s1"
proof -
  obtain s0 :: writer_state where "idle_writer s0" using demo_writer_start by blast
  note s = idle_writer_facts [OF this]
  have q0: "pw_Queue (pw s0) = []" "pw_RecentPackets (pw s0) = []"
    using s(1) by (simp_all add: writer_inv_def w_heap_def out_refs_def packs_def)
  then have o0: "pw_OutBuf (pw s0) = None" using s(1) by (simp add: writer_inv_def w_counts_def)
  have "buffers_left (\<lambda>i. {}) s0"
    using s by (simp add: buffers_left_def writer_inv_def w_heap_def)
  from get_out_buffer_new [OF this, of 14] o0 q0 obtain ob b s1 where
    g1: "get_out_buffer 14 s0 = (Some ob, s1)"
    and h1: "pool_holds ((\<lambda>i. {})(OT_OUT_BUFFER := {ob}, OT_BUFFER := {b})) s1"
      "em_answer (op_Mem s1) = bump" "registered OT_OUT_BUFFER MAX_BUFFERS s1"
      "registered OT_OUT_PACKET (MAX_BUFFERS * 10) s1" "registered OT_BUFFER MAX_BUFFERS s1"
    and q1: "pw_Queue (pw s1) = [ob]" "pw_OutBuf (pw s1) = Some ob" "pw_RecentPackets (pw s1) = []"
      "rem s1 = rem s0" by auto
  have "buffers_left ((\<lambda>i. {})(OT_OUT_BUFFER := {ob}, OT_BUFFER := {b})) s1"
    using h1 by (simp add: buffers_left_def)
  from get_out_buffer_new [OF this, of 4096] q1 obtain ob2 s2 where
    g2: "get_out_buffer 4096 s1 = (Some ob2, s2)" and q2: "pw_Queue (pw s2) = [ob, ob2]"
      "pw_RecentPackets (pw s2) = []" "rem s2 = rem s1"
    by (auto simp: BUFFER_SIZE_def)
  from get_out_buffer_inv [OF s(1) g1] obtain H1 where "writer_inv H1 [] s1" by blast
  from get_out_buffer_inv [OF this g2] obtain H2 where i2: "writer_inv H2 [] s2" by blast
  have wr: "r_WriteReq (rem s2) \<noteq> None" using q2 q1 s(6) by simp
  have "\<forall>op \<in> set (pw_RecentPackets (pw s2)). op_OutBuf (h_OutPac s2 op) \<noteq> ob" using q2 by simp
  from write_buffer_loses_buffer [OF i2 wr q2(1) _ this] obtain s3 where
    "APB_WriteBuffer s2 = Some s3" "pool_holds H2 s3" "ob \<in> H2 OT_OUT_BUFFER"
    "ob_Buf (h_OutBuf s2 ob) \<in> H2 OT_BUFFER" "ob \<notin> out_refs [] s3" by blast
  then show ?thesis
    using q2(1,2) by (intro exI [of _ H2] exI [of _ s2] exI [of _ s3] exI [of _ ob]) simp
qed

end
