(* ===== verification/Connections.thy ===== *)
theory Connections
  imports AmiPiBorg PacketReader WriterCorrect
begin

text \<open>
  Connections between clients and handlers (server/connection.c, connection.h, and the request
  structure of include/amipiborg.h). Connections and requests are two more heaps of the state;
  \<open>cnns\<close> is the server's list of connections and \<open>replies\<close> the messages given back to clients
  with \<open>ReplyMsg\<close>, each with the contents it had then, oldest first. The memory behind
  \<open>r_Data\<close> is part of the request: a client gives no two requests the same memory.
\<close>

section \<open>State\<close>

definition CS_CONNECTING :: u16 where "CS_CONNECTING = 1"
definition CS_CONNECTED :: u16 where "CS_CONNECTED = 2"
definition CS_DISCONNECTING :: u16 where "CS_DISCONNECTING = 3"
definition CS_DISCONNECTED :: u16 where "CS_DISCONNECTED = 4"
definition CS_NO_HANDLER :: u16 where "CS_NO_HANDLER = 5"

lemmas CS_defs = CS_CONNECTING_def CS_CONNECTED_def CS_DISCONNECTING_def CS_DISCONNECTED_def
  CS_NO_HANDLER_def

record connection =
  cnn_PacketQueue :: "addr list"
  cnn_ReqQueue :: "addr list"
  cnn_Id :: u16
  cnn_HandlerId :: u16
  cnn_State :: u16

text \<open>\<open>r_ReplyPort\<close> tells whether the message's \<open>mn_ReplyPort\<close> is set.\<close>

record request =
  r_ReplyPort :: bool
  r_Type :: u16
  r_ConnId :: u16
  r_HandlerId :: u16
  r_State :: u16
  r_Actual :: u16
  r_Length :: u16
  r_Timeout :: u16
  r_DataType :: u16
  r_Data :: bytes
  ri_TimeoutTicks :: u16

record cnn_state = reader_state +
  h_Cnn :: "addr \<Rightarrow> connection"
  h_Req :: "addr \<Rightarrow> request"
  cnns :: "addr list"
  replies :: "(addr \<times> request) list"

definition sizeof_Connection :: u16 where "sizeof_Connection = 58"

definition upd_cnn ::
    "addr \<Rightarrow> (connection \<Rightarrow> connection) \<Rightarrow> 'a cnn_state_scheme \<Rightarrow> 'a cnn_state_scheme" where
  "upd_cnn c f s = s\<lparr>h_Cnn := (h_Cnn s)(c := f (h_Cnn s c))\<rparr>"

definition upd_req ::
    "addr \<Rightarrow> (request \<Rightarrow> request) \<Rightarrow> 'a cnn_state_scheme \<Rightarrow> 'a cnn_state_scheme" where
  "upd_req r f s = s\<lparr>h_Req := (h_Req s)(r := f (h_Req s r))\<rparr>"

definition ReplyMsg :: "addr \<Rightarrow> 'a cnn_state_scheme \<Rightarrow> 'a cnn_state_scheme" where
  "ReplyMsg r s = s\<lparr>replies := replies s @ [(r, h_Req s r)]\<rparr>"

section \<open>Connecting and disconnecting\<close>

text \<open>A 16 bit field behind the header, as the bytes of the packet's data.\<close>

definition word_bytes :: "u16 \<Rightarrow> u8 list" where
  "word_bytes w = [hi8 w, lo8 w]"

definition APB_CnnConnect :: "addr \<Rightarrow> 'a cnn_state_scheme \<Rightarrow> 'a cnn_state_scheme" where
  "APB_CnnConnect c s =
     (case APB_AllocPacket (of_nat sizeof_Packet + 2) s of
        (None, s1) \<Rightarrow> s1
      | (Some p, s1) \<Rightarrow>
          upd_cnn c (\<lambda>x. x\<lparr>cnn_State := CS_CONNECTING\<rparr>)
            (fill_packet p (pt_code PT_CONNECT) (cnn_Id (h_Cnn s1 c))
              (word_bytes (cnn_HandlerId (h_Cnn s1 c))) s1))"

definition APB_CnnDisconnect :: "addr \<Rightarrow> 'a cnn_state_scheme \<Rightarrow> 'a cnn_state_scheme" where
  "APB_CnnDisconnect c s =
     (case APB_AllocPacket (of_nat sizeof_Packet) s of
        (None, s1) \<Rightarrow> s1
      | (Some p, s1) \<Rightarrow>
          upd_cnn c (\<lambda>x. x\<lparr>cnn_State := CS_DISCONNECTING\<rparr>)
            (fill_packet p (pt_code PT_DISCONNECT) (cnn_Id (h_Cnn s1 c)) [] s1))"

text \<open>A new connection's \<open>cnn_State\<close> is what the object's memory held before.\<close>

definition APB_CreateConnection ::
    "u16 \<Rightarrow> 'a cnn_state_scheme \<Rightarrow> addr option \<times> 'a cnn_state_scheme" where
  "APB_CreateConnection connId s =
     (case APB_AllocObject OT_CONNECTION
             (register_missing OT_CONNECTION ''Connection'' sizeof_Connection 5 1000 s) of
        (None, s1) \<Rightarrow> (None, s1)
      | (Some c, s1) \<Rightarrow>
          (Some c,
           (upd_cnn c (\<lambda>x. x\<lparr>cnn_Id := connId, cnn_HandlerId := 0, cnn_PacketQueue := [],
              cnn_ReqQueue := []\<rparr>) s1)\<lparr>cnns := cnns s1 @ [c]\<rparr>))"

fun release_in_packets :: "addr list \<Rightarrow> 'a cnn_state_scheme \<Rightarrow> 'a cnn_state_scheme" where
  "release_in_packets [] s = s"
| "release_in_packets (ip # ips) s = release_in_packets ips (APB_ReleaseInPacket ip s)"

definition APB_DestroyConnection :: "addr \<Rightarrow> 'a cnn_state_scheme \<Rightarrow> 'a cnn_state_scheme" where
  "APB_DestroyConnection c s =
     (let s1 = (if cnn_State (h_Cnn s c) < CS_DISCONNECTING then APB_CnnDisconnect c s else s);
          s2 = upd_cnn c (\<lambda>x. x\<lparr>cnn_PacketQueue := []\<rparr>)
                 (release_in_packets (cnn_PacketQueue (h_Cnn s1 c)) s1)
      in APB_FreeObject OT_CONNECTION c (s2\<lparr>cnns := remove1 c (cnns s2)\<rparr>))"

section \<open>Data\<close>

text \<open>The length handed to \<open>APB_AllocPacket\<close> is a UWORD.\<close>

definition APB_PushToRemote :: "addr \<Rightarrow> addr \<Rightarrow> 'a cnn_state_scheme \<Rightarrow> 'a cnn_state_scheme" where
  "APB_PushToRemote c r s =
     (case APB_AllocPacket (of_nat sizeof_Packet + r_Length (h_Req s r)) s of
        (None, s1) \<Rightarrow> upd_req r (\<lambda>x. x\<lparr>r_State := APB_RS_FAILED\<rparr>) s1
      | (Some p, s1) \<Rightarrow>
          upd_req r (\<lambda>x. x\<lparr>r_State := APB_RS_OK, r_Actual := r_Length x\<rparr>)
            (fill_packet p (pt_code PT_DATA) (cnn_Id (h_Cnn s1 c))
              (bytes_of (r_Data (h_Req s1 r)) 0 (unat (r_Length (h_Req s1 r)))) s1))"

text \<open>One round of the loop: the oldest request takes the oldest packet.\<close>

definition push_one :: "addr \<Rightarrow> addr \<Rightarrow> addr \<Rightarrow> 'a cnn_state_scheme \<Rightarrow> 'a cnn_state_scheme" where
  "push_one c r ip s =
     (let s1 = upd_cnn c (\<lambda>x. x\<lparr>cnn_ReqQueue := tl (cnn_ReqQueue x),
                 cnn_PacketQueue := tl (cnn_PacketQueue x)\<rparr>) s;
          toCopy = ip_Data1Length (h_InPac s1 ip) + ip_Data2Length (h_InPac s1 ip);
          s2 = upd_req r (\<lambda>x. x\<lparr>r_Actual := toCopy\<rparr>) s1;
          s3 = (if r_Length (h_Req s2 r) < toCopy
                then upd_cnn c (\<lambda>x. x\<lparr>cnn_PacketQueue := ip # cnn_PacketQueue x\<rparr>)
                       (upd_req r (\<lambda>x. x\<lparr>r_State := APB_RS_BUFFER_TOO_SMALL\<rparr>) s2)
                else APB_ReleaseInPacket ip
                       (upd_req r (\<lambda>x. x\<lparr>r_Data := fst (APB_InPacketToBuffer ip s2 (r_Data x)),
                          r_State := APB_RS_OK\<rparr>) s2))
      in ReplyMsg r s3)"

fun push_loop :: "addr \<Rightarrow> addr list \<Rightarrow> 'a cnn_state_scheme \<Rightarrow> 'a cnn_state_scheme" where
  "push_loop c [] s = s"
| "push_loop c (r # rs) s =
     (case cnn_PacketQueue (h_Cnn s c) of
        [] \<Rightarrow> s
      | ip # _ \<Rightarrow> push_loop c rs (push_one c r ip s))"

definition APB_PushToClient :: "addr \<Rightarrow> 'a cnn_state_scheme \<Rightarrow> 'a cnn_state_scheme" where
  "APB_PushToClient c s =
     (if cnn_State (h_Cnn s c) \<noteq> CS_CONNECTED then s
      else push_loop c (cnn_ReqQueue (h_Cnn s c)) s)"

section \<open>Packets of a connection\<close>

text \<open>The first waiting request of a type is given back with a state.\<close>

definition reply_first :: "addr \<Rightarrow> u16 \<Rightarrow> u16 \<Rightarrow> 'a cnn_state_scheme \<Rightarrow> 'a cnn_state_scheme" where
  "reply_first c ty st s =
     (case filter (\<lambda>r. r_Type (h_Req s r) = ty) (cnn_ReqQueue (h_Cnn s c)) of
        [] \<Rightarrow> s
      | r # _ \<Rightarrow>
          ReplyMsg r
            (upd_cnn c (\<lambda>x. x\<lparr>cnn_ReqQueue := remove1 r (cnn_ReqQueue x)\<rparr>)
              (upd_req r (\<lambda>x. x\<lparr>r_State := st\<rparr>) s)))"

definition APB_HandleConnectionPacket ::
    "addr \<Rightarrow> addr \<Rightarrow> 'a cnn_state_scheme \<Rightarrow> 'a cnn_state_scheme" where
  "APB_HandleConnectionPacket c ip s =
     (let ty = ip_Type (h_InPac s ip);
          set = (\<lambda>st. upd_cnn c (\<lambda>x. x\<lparr>cnn_State := st\<rparr>))
      in if ty = pt_code PT_CONNECTED
         then reply_first c APB_RT_OPEN APB_RS_OK (APB_ReleaseInPacket ip (set CS_CONNECTED s))
         else if ty = pt_code PT_DISCONNECTED
         then APB_DestroyConnection c (APB_ReleaseInPacket ip (set CS_DISCONNECTED s))
         else if ty = pt_code PT_NO_HANDLER
         then reply_first c APB_RT_OPEN APB_RS_NO_HANDLER (set CS_NO_HANDLER s)
         else if cnn_State (h_Cnn s c) \<ge> CS_DISCONNECTING
         then APB_ReleaseInPacket ip s
         else APB_PushToClient c
                (upd_cnn c (\<lambda>x. x\<lparr>cnn_PacketQueue := cnn_PacketQueue x @ [ip]\<rparr>) s))"

section \<open>Timeouts\<close>

text \<open>
  \<open>ReplyMsg\<close> links the message into the list of its reply port, so the \<open>ln_Succ\<close> the loop follows
  after it is that list's end marker and the loop is over; a message without a reply port keeps
  its links.
\<close>

fun check_timeouts :: "addr \<Rightarrow> addr list \<Rightarrow> 'a cnn_state_scheme \<Rightarrow> 'a cnn_state_scheme" where
  "check_timeouts c [] s = s"
| "check_timeouts c (r # rs) s =
     (if ri_TimeoutTicks (h_Req s r) = 1
      then let s1 = ReplyMsg r
                 (upd_cnn c (\<lambda>x. x\<lparr>cnn_ReqQueue := remove1 r (cnn_ReqQueue x)\<rparr>)
                   (upd_req r (\<lambda>x. x\<lparr>r_State := APB_RS_TIMEOUT\<rparr>) s))
           in if r_ReplyPort (h_Req s r) then s1 else check_timeouts c rs s1
      else check_timeouts c rs
             (if ri_TimeoutTicks (h_Req s r) > 1
              then upd_req r (\<lambda>x. x\<lparr>ri_TimeoutTicks := ri_TimeoutTicks x - 1\<rparr>) s else s))"

definition APB_CnnCheckRequestTimeouts :: "addr \<Rightarrow> 'a cnn_state_scheme \<Rightarrow> 'a cnn_state_scheme" where
  "APB_CnnCheckRequestTimeouts c s = check_timeouts c (cnn_ReqQueue (h_Cnn s c)) s"

fun check_all_timeouts :: "addr list \<Rightarrow> 'a cnn_state_scheme \<Rightarrow> 'a cnn_state_scheme" where
  "check_all_timeouts [] s = s"
| "check_all_timeouts (c # cs) s = check_all_timeouts cs (APB_CnnCheckRequestTimeouts c s)"

definition APB_CheckRequestTimeouts :: "'a cnn_state_scheme \<Rightarrow> 'a cnn_state_scheme" where
  "APB_CheckRequestTimeouts s = check_all_timeouts (cnns s) s"

section \<open>Requests of a client\<close>

definition queue_request :: "addr \<Rightarrow> addr \<Rightarrow> 'a cnn_state_scheme \<Rightarrow> 'a cnn_state_scheme" where
  "queue_request c r = upd_cnn c (\<lambda>x. x\<lparr>cnn_ReqQueue := cnn_ReqQueue x @ [r]\<rparr>)"

definition reply_state :: "addr \<Rightarrow> u16 \<Rightarrow> 'a cnn_state_scheme \<Rightarrow> 'a cnn_state_scheme" where
  "reply_state r st s = ReplyMsg r (upd_req r (\<lambda>x. x\<lparr>r_State := st\<rparr>) s)"

definition APB_HandleClientRequest :: "addr \<Rightarrow> addr \<Rightarrow> 'a cnn_state_scheme \<Rightarrow> 'a cnn_state_scheme" where
  "APB_HandleClientRequest c r s0 =
     (let s = upd_req r (\<lambda>x. x\<lparr>r_State := APB_RS_OK, r_Actual := 0, r_ConnId := cnn_Id (h_Cnn s0 c),
                 ri_TimeoutTicks := (if r_Timeout x > 0 then r_Timeout x else ri_TimeoutTicks x)\<rparr>) s0;
          ty = r_Type (h_Req s r);
          st = cnn_State (h_Cnn s c)
      in if ty = APB_RT_OPEN
         then APB_CnnConnect c (queue_request c r
                (upd_cnn c (\<lambda>x. x\<lparr>cnn_HandlerId := r_HandlerId (h_Req s r)\<rparr>) s))
         else if ty = APB_RT_CLOSE
         then ReplyMsg r (if st < CS_DISCONNECTING then APB_CnnDisconnect c s else s)
         else if ty = APB_RT_READ \<or> ty = APB_RT_WRITE
         then if st = CS_DISCONNECTING \<or> st = CS_DISCONNECTED then reply_state r APB_RS_NOT_CONNECTED s
              else if st = CS_NO_HANDLER then reply_state r APB_RS_NO_HANDLER s
              else if ty = APB_RT_READ then APB_PushToClient c (queue_request c r s)
              else ReplyMsg r (APB_PushToRemote c r s)
         else ReplyMsg r s)"

definition APB_GetConnectionState :: "'a cnn_state_scheme \<Rightarrow> addr \<Rightarrow> u16" where
  "APB_GetConnectionState s c = cnn_State (h_Cnn s c)"

definition APB_GetId :: "'a cnn_state_scheme \<Rightarrow> addr \<Rightarrow> u16" where
  "APB_GetId s c = cnn_Id (h_Cnn s c)"

definition APB_FindConnection :: "u16 \<Rightarrow> 'a cnn_state_scheme \<Rightarrow> addr option" where
  "APB_FindConnection i s = find (\<lambda>c. cnn_Id (h_Cnn s c) = i) (cnns s)"

end
