(* ===== verification/Server.thy ===== *)
theory Server
  imports Connections
begin

text \<open>
  The server (server/server.c): it talks to the remote through writer and reader, to its clients
  through a message port, and counts time in ticks of one second. What the outside answers is
  an input of the step that asks: the signals \<open>Wait\<close> returns, the requests that came to the
  client port, what the serial device delivered, whether a port or a device could be had. None
  is "does not return" (a checksum over an odd length).
\<close>

section \<open>State\<close>

definition PING_TICKS :: u16 where "PING_TICKS = 5"
definition MAX_MISSED_PINGS :: u16 where "MAX_MISSED_PINGS = 5"
definition TICK_MILLIS :: u32 where "TICK_MILLIS = 1000"

datatype srv_state =
    SS_STARTING | SS_OPENING_REMOTE | SS_OPENING_CLIENT | SS_CONNECTING | SS_WAIT_FOR_CONNECT
  | SS_CONNECTED | SS_CONNECTION_LOST | SS_CONNECT_FAILED | SS_DISCONNECTING
  | SS_WAIT_FOR_DISCONNECT | SS_DISCONNECTED | SS_STOPPING | SS_CLOSING_CLIENT
  | SS_CLOSING_REMOTE | SS_STOPPED

text \<open>A port is its signal bit; the packet writer, the packet reader and the remote are the
  fields \<open>pw\<close>, \<open>pr\<close> and \<open>rem\<close> of the state, the list of connections is \<open>cnns\<close>.\<close>

record server =
  srv_ReadBuffer :: "addr option"
  srv_ClientPort :: "nat option"
  srv_TimerPort :: "nat option"
  srv_State :: srv_state
  srv_NextConnId :: u16
  srv_LastInPackId :: u16
  srv_PingSendTicks :: u16
  srv_MissedPingCount :: u16
  srv_PingTimeoutTicks :: u16

text \<open>\<open>timer_io\<close> are the timer requests sent: seconds and microseconds. \<open>log_level\<close> is the context's.\<close>

record server_state = cnn_state +
  srv :: server
  client_msgs :: "addr list"
  timer_io :: "(u32 \<times> u32) list"
  log_level :: u16

definition upd_srv :: "(server \<Rightarrow> server) \<Rightarrow> 'a server_state_scheme \<Rightarrow> 'a server_state_scheme" where
  "upd_srv f s = s\<lparr>srv := f (srv s)\<rparr>"

definition set_state :: "srv_state \<Rightarrow> 'a server_state_scheme \<Rightarrow> 'a server_state_scheme" where
  "set_state st = upd_srv (\<lambda>x. x\<lparr>srv_State := st\<rparr>)"

section \<open>Timer and writer\<close>

definition APB_EnableTimer :: "u32 \<Rightarrow> 'a server_state_scheme \<Rightarrow> 'a server_state_scheme" where
  "APB_EnableTimer ms s = s\<lparr>timer_io := timer_io s @ [(ms div 1000, (ms mod 1000) * 1000)]\<rparr>"

definition APB_SrvSendToRemote :: "'a server_state_scheme \<Rightarrow> 'a server_state_scheme option" where
  "APB_SrvSendToRemote s = (if \<not> REM_CanWrite s then Some s else APB_WriteBuffer s)"

definition APB_SendPing :: "'a server_state_scheme \<Rightarrow> 'a server_state_scheme option" where
  "APB_SendPing s =
     (case APB_AllocPacket (of_nat sizeof_Packet) s of
        (None, s1) \<Rightarrow> Some s1
      | (Some p, s1) \<Rightarrow>
          map_option
            (upd_srv (\<lambda>x. x\<lparr>srv_PingTimeoutTicks := PING_TICKS, srv_PingSendTicks := 0\<rparr>))
            (APB_SrvSendToRemote (fill_packet p (pt_code PT_PING) DEFAULT_CONNECTION [] s1)))"

text \<open>\<open>pac_Type\<close> is a UBYTE.\<close>

definition APB_SendError :: "u16 \<Rightarrow> u16 \<Rightarrow> 'a server_state_scheme \<Rightarrow> 'a server_state_scheme option" where
  "APB_SendError connId errorCode s =
     (case APB_AllocPacket (of_nat sizeof_Packet) s of
        (None, s1) \<Rightarrow> Some s1
      | (Some p, s1) \<Rightarrow> APB_SrvSendToRemote (fill_packet p (ucast errorCode) connId [] s1))"

definition APB_SendInit :: "'a server_state_scheme \<Rightarrow> (bool \<times> 'a server_state_scheme) option" where
  "APB_SendInit s =
     (case APB_AllocPacket (of_nat sizeof_Packet + 4) s of
        (None, s1) \<Rightarrow> Some (False, s1)
      | (Some p, s1) \<Rightarrow>
          map_option (Pair True)
            (APB_SrvSendToRemote
              (fill_packet p (pt_code PT_INIT) DEFAULT_CONNECTION
                (word_bytes AMIPIBORG_VERSION @ word_bytes (of_nat BUFFER_SIZE))
                (set_state SS_WAIT_FOR_CONNECT s1))))"

definition APB_SendShutdown :: "'a server_state_scheme \<Rightarrow> (bool \<times> 'a server_state_scheme) option" where
  "APB_SendShutdown s =
     (case APB_AllocPacket (of_nat sizeof_Packet) s of
        (None, s1) \<Rightarrow> Some (False, s1)
      | (Some p, s1) \<Rightarrow>
          map_option (Pair True)
            (APB_SrvSendToRemote (fill_packet p (pt_code PT_SHUTDOWN) DEFAULT_CONNECTION [] s1)))"

section \<open>Packets for the server\<close>

text \<open>The word behind \<open>ip_Data1\<close>; the pointer is NULL in a packet without data.\<close>

definition APB_HandleResendRequest :: "addr \<Rightarrow> 'a server_state_scheme \<Rightarrow> 'a server_state_scheme" where
  "APB_HandleResendRequest ip s =
     (case ip_Data1 (h_InPac s ip) of
        None \<Rightarrow> APB_ResendPacket 0 (add_fault NullDeref s)
      | Some (b, i) \<Rightarrow> APB_ResendPacket (get16 (buf_data s b) i) s)"

text \<open>The hello packet is copied to be logged, and its memory given back.\<close>

definition APB_ConfigureServer :: "addr \<Rightarrow> 'a server_state_scheme \<Rightarrow> 'a server_state_scheme" where
  "APB_ConfigureServer ip s =
     (let size = ip_Data1Length (h_InPac s ip) + ip_Data2Length (h_InPac s ip)
      in case APB_AllocMem (ucast size) s of
           (None, s1) \<Rightarrow> s1
         | (Some a, s1) \<Rightarrow> APB_FreeMem (Some a) (ucast size) s1)"

definition APB_HandleControlPacket ::
    "addr \<Rightarrow> 'a server_state_scheme \<Rightarrow> 'a server_state_scheme option" where
  "APB_HandleControlPacket ip s =
     (let ty = ip_Type (h_InPac s ip)
      in map_option (APB_ReleaseInPacket ip)
          (if ty = pt_code PT_HELLO
           then APB_SendPing (APB_ConfigureServer ip (set_state SS_CONNECTED s))
           else if ty = pt_code PT_GOODBYE then Some (set_state SS_DISCONNECTED s)
           else if ty = pt_code PT_PONG then Some (upd_srv (\<lambda>x. x\<lparr>srv_MissedPingCount := 0\<rparr>) s)
           else if ty = pt_code PT_RESEND then Some (APB_HandleResendRequest ip s)
           else Some s))"

text \<open>Resend requests for the packets between the last one and this one.\<close>

function request_resends :: "u16 \<Rightarrow> u16 \<Rightarrow> 'a server_state_scheme \<Rightarrow> 'a server_state_scheme" where
  "request_resends packId currPackId s =
     (if packId < currPackId
      then case APB_AllocPacket (of_nat sizeof_Packet + 2) s of
             (None, s1) \<Rightarrow> s1
           | (Some p, s1) \<Rightarrow>
               request_resends (packId + 1) currPackId
                 (fill_packet p (pt_code PT_RESEND) DEFAULT_CONNECTION (word_bytes packId) s1)
      else s)"
  by pat_completeness auto
termination
proof (relation "measure (\<lambda>(p, c, s). unat c - unat p)", simp)
  fix packId currPackId :: u16 and s s1 :: "'a server_state_scheme" and p x
  assume "packId < currPackId"
  then have "unat packId < unat currPackId" by (simp add: word_less_nat_alt)
  moreover then have "unat (packId + 1) = Suc (unat packId)"
    using unat_u16_less [of currPackId] by (intro unat_Suc_u16) linarith
  ultimately show "((packId + 1, currPackId,
      fill_packet x (pt_code PT_RESEND) DEFAULT_CONNECTION (word_bytes packId) s1), packId, currPackId, s)
      \<in> measure (\<lambda>(p, c, s). unat c - unat p)"
    by simp
qed

declare request_resends.simps [simp del]

definition APB_RequestResend :: "u16 \<Rightarrow> 'a server_state_scheme \<Rightarrow> 'a server_state_scheme" where
  "APB_RequestResend currPackId s = request_resends (srv_LastInPackId (srv s) + 1) currPackId s"

text \<open>\<open>ip_PackId - 1\<close> is an \<open>int\<close>.\<close>

definition note_packet :: "addr \<Rightarrow> 'a server_state_scheme \<Rightarrow> 'a server_state_scheme" where
  "note_packet ip s =
     (let x = h_InPac s ip;
          s1 = upd_srv (\<lambda>v. v\<lparr>srv_PingSendTicks := PING_TICKS, srv_PingTimeoutTicks := 0\<rparr>) s
      in if ip_Flags x AND PF_RESEND = 0
         then upd_srv (\<lambda>v. v\<lparr>srv_LastInPackId := ip_PackId x\<rparr>)
                (if int (unat (ip_PackId x)) - 1 > int (unat (srv_LastInPackId (srv s1)))
                 then APB_RequestResend (ip_PackId x) s1 else s1)
         else s1)"

definition APB_HandlePacket :: "addr \<Rightarrow> 'a server_state_scheme \<Rightarrow> 'a server_state_scheme option" where
  "APB_HandlePacket ip s =
     (let s1 = note_packet ip s;
          cid = ip_ConnId (h_InPac s ip)
      in if cid = DEFAULT_CONNECTION then APB_HandleControlPacket ip s1
         else case APB_FindConnection cid s1 of
                None \<Rightarrow> map_option (APB_ReleaseInPacket ip)
                  (APB_SendError cid (ucast (pt_code PT_NO_CONNECTION)) s1)
              | Some c \<Rightarrow> Some (APB_HandleConnectionPacket c ip s1))"

section \<open>Reading\<close>

text \<open>
  The macros read \<open>b_Offset\<close> through the buffer pointer: with no buffer the address and the size
  handed to the remote are what stands at address 0.
\<close>

definition APB_SrvBeginRead :: "'a server_state_scheme \<Rightarrow> 'a server_state_scheme" where
  "APB_SrvBeginRead s =
     (let need = (case srv_ReadBuffer (srv s) of None \<Rightarrow> True | Some b \<Rightarrow> BUF_FULL s b);
          s1 = (if need
                then case APB_AllocateBuffer s of
                       (None, s1) \<Rightarrow> s1
                     | (Some b, s1) \<Rightarrow> upd_srv (\<lambda>x. x\<lparr>srv_ReadBuffer := Some b\<rparr>) s1
                else s)
      in if \<not> REM_CanRead s1 then s1
         else case srv_ReadBuffer (srv s1) of
                None \<Rightarrow> REM_Read None (of_nat BUFFER_SIZE) (add_fault NullDeref s1)
              | Some b \<Rightarrow> REM_Read (Some (BUF_CURR s1 b)) (word_of_int (BUF_AVAIL s1 b)) s1)"

text \<open>Handling a packet queues none, so the loop ends; None comes from \<open>APB_HandlePacket\<close>.\<close>

partial_function (option) handle_packets ::
    "'a server_state_scheme \<Rightarrow> 'a server_state_scheme option" where
  "handle_packets s =
     (if APB_ReaderQueueSize s > 0
      then case APB_DequeueInPacket s of
             (None, s1) \<Rightarrow> handle_packets (add_fault NullDeref s1)
           | (Some ip, s1) \<Rightarrow>
               (case APB_HandlePacket ip s1 of None \<Rightarrow> None | Some s2 \<Rightarrow> handle_packets s2)
      else Some s)"

definition APB_SrvReceiveFromRemote :: "'a server_state_scheme \<Rightarrow> 'a server_state_scheme option" where
  "APB_SrvReceiveFromRemote s =
     (if \<not> REM_CanRead s \<or> REM_BytesRead s = 0 then Some s
      else case srv_ReadBuffer (srv s) of
             None \<Rightarrow> Some (add_fault NullDeref s)
           | Some b \<Rightarrow>
               (case APB_ProcessBuffer b
                       (upd_buf b (\<lambda>x. x\<lparr>b_Offset := b_Offset x + REM_BytesRead s\<rparr>) s) of
                  None \<Rightarrow> None
                | Some s1 \<Rightarrow> handle_packets (APB_SrvBeginRead s1)))"

section \<open>Requests of clients\<close>

text \<open>A connection that could not be made is used all the same.\<close>

definition APB_HandleClientControlMessage ::
    "addr \<Rightarrow> 'a server_state_scheme \<Rightarrow> 'a server_state_scheme" where
  "APB_HandleClientControlMessage r s0 =
     (let s = upd_req r (\<lambda>x. x\<lparr>r_State := APB_RS_OK\<rparr>) s0;
          ty = r_Type (h_Req s r)
      in if ty = APB_RT_OPEN
         then case APB_CreateConnection (srv_NextConnId (srv s))
                     (upd_srv (\<lambda>x. x\<lparr>srv_NextConnId := srv_NextConnId x + 1\<rparr>) s) of
                (None, s1) \<Rightarrow> add_fault NullDeref s1
              | (Some c, s1) \<Rightarrow> APB_HandleClientRequest c r s1
         else if ty = APB_RT_SRV_QUIT then ReplyMsg r (set_state SS_DISCONNECTED s)
         else if ty = APB_RT_SRV_LOG_LEVEL
         then ReplyMsg r (s\<lparr>log_level := get16 (r_Data (h_Req s r)) 0\<rparr>)
         else reply_state r APB_RS_FAILED s)"

definition receive_one :: "addr \<Rightarrow> 'a server_state_scheme \<Rightarrow> 'a server_state_scheme" where
  "receive_one r s =
     (if r_ConnId (h_Req s r) = DEFAULT_CONNECTION then APB_HandleClientControlMessage r s
      else case APB_FindConnection (r_ConnId (h_Req s r)) s of
             None \<Rightarrow> reply_state r APB_RS_NO_CONNECTION s
           | Some c \<Rightarrow> APB_HandleClientRequest c r s)"

fun receive_all :: "addr list \<Rightarrow> 'a server_state_scheme \<Rightarrow> 'a server_state_scheme" where
  "receive_all [] s = s"
| "receive_all (r # rs) s = receive_all rs (receive_one r s)"

definition APB_ReceiveFromClient :: "'a server_state_scheme \<Rightarrow> 'a server_state_scheme" where
  "APB_ReceiveFromClient s = receive_all (client_msgs s) (s\<lparr>client_msgs := []\<rparr>)"

section \<open>Time\<close>

definition ping_timeout :: "server \<Rightarrow> server" where
  "ping_timeout v =
     (if srv_PingTimeoutTicks v = 1
      then let w = v\<lparr>srv_PingTimeoutTicks := 0, srv_MissedPingCount := srv_MissedPingCount v + 1\<rparr>
           in if srv_MissedPingCount w > MAX_MISSED_PINGS
              then w\<lparr>srv_State := SS_CONNECTION_LOST\<rparr> else w
      else if srv_PingTimeoutTicks v > 1
      then v\<lparr>srv_PingTimeoutTicks := srv_PingTimeoutTicks v - 1\<rparr> else v)"

definition ping_send :: "'a server_state_scheme \<Rightarrow> 'a server_state_scheme option" where
  "ping_send s =
     (if srv_PingSendTicks (srv s) = 1 then APB_SendPing s
      else if srv_PingSendTicks (srv s) > 1
      then Some (upd_srv (\<lambda>v. v\<lparr>srv_PingSendTicks := srv_PingSendTicks v - 1\<rparr>) s)
      else Some s)"

definition APB_HandleTimer :: "'a server_state_scheme \<Rightarrow> 'a server_state_scheme option" where
  "APB_HandleTimer s =
     map_option
       (\<lambda>s1. if srv_State (srv s1) \<noteq> SS_DISCONNECTED then APB_EnableTimer TICK_MILLIS s1 else s1)
       (case srv_State (srv s) of
          SS_WAIT_FOR_CONNECT \<Rightarrow> Some (set_state SS_CONNECT_FAILED s)
        | SS_CONNECTED \<Rightarrow> map_option APB_CheckRequestTimeouts (ping_send (upd_srv ping_timeout s))
        | SS_DISCONNECTING \<Rightarrow> Some (set_state SS_DISCONNECTED s)
        | _ \<Rightarrow> Some s)"

section \<open>Waiting\<close>

definition SIGBREAKF_CTRL_C :: u32 where "SIGBREAKF_CTRL_C = 0x1000"

text \<open>
  What has happened when \<open>Wait\<close> returns: the signals that are set, the requests that have come to
  the client port, with their contents, and what the serial device delivers. Nothing comes to a
  port that is not there.
\<close>

record wait_input =
  wi_Signals :: u32
  wi_Requests :: "(addr \<times> request) list"
  wi_Serial :: ser_answer

definition port_bit :: "nat option \<Rightarrow> u32" where
  "port_bit p = (case p of None \<Rightarrow> 0 | Some i \<Rightarrow> push_bit i 1)"

definition wait_mask :: "'a server_state_scheme \<Rightarrow> u32" where
  "wait_mask s = SIGBREAKF_CTRL_C OR REM_GetSignalBits s OR port_bit (srv_ClientPort (srv s))
     OR port_bit (srv_TimerPort (srv s))"

definition arrive :: "(addr \<times> request) list \<Rightarrow> 'a server_state_scheme \<Rightarrow> 'a server_state_scheme" where
  "arrive reqs s =
     (if srv_ClientPort (srv s) = None then s
      else s\<lparr>h_Req := foldl (\<lambda>h (r, x). h(r := x)) (h_Req s) reqs,
             client_msgs := client_msgs s @ map fst reqs\<rparr>)"

definition APB_WaitForMessage ::
    "wait_input \<Rightarrow> 'a server_state_scheme \<Rightarrow> 'a server_state_scheme option" where
  "APB_WaitForMessage w s0 =
     (let remoteSigBits = REM_GetSignalBits s0;
          sig = wi_Signals w AND wait_mask s0;
          s = arrive (wi_Requests w) s0;
          s1 = (if sig AND SIGBREAKF_CTRL_C \<noteq> 0 then set_state SS_DISCONNECTED s else s)
      in case (if sig AND port_bit (srv_TimerPort (srv s)) \<noteq> 0 then APB_HandleTimer s1 else Some s1) of
           None \<Rightarrow> None
         | Some s2 \<Rightarrow>
             let s3 = (if sig AND port_bit (srv_ClientPort (srv s)) \<noteq> 0
                       then APB_ReceiveFromClient s2 else s2);
                 s4 = (if sig AND remoteSigBits \<noteq> 0 then REM_HandleSignal sig (wi_Serial w) s3 else s3)
             in case APB_SrvReceiveFromRemote s4 of
                  None \<Rightarrow> None
                | Some s5 \<Rightarrow> APB_SrvSendToRemote s5)"

section \<open>The main loop\<close>

definition APB_OpenClient :: "nat option \<Rightarrow> 'a server_state_scheme \<Rightarrow> bool \<times> 'a server_state_scheme" where
  "APB_OpenClient port s = (port \<noteq> None, upd_srv (\<lambda>x. x\<lparr>srv_ClientPort := port\<rparr>) s)"

text \<open>The messages still in the client port are given back unanswered.\<close>

definition APB_DeletePort :: "nat option \<Rightarrow> 'a server_state_scheme \<Rightarrow> 'a server_state_scheme" where
  "APB_DeletePort port s =
     (case port of
        None \<Rightarrow> s
      | Some _ \<Rightarrow> (fold ReplyMsg (client_msgs s) s)\<lparr>client_msgs := []\<rparr>)"

record run_input =
  ri_Open :: open_answer
  ri_Port :: "nat option"
  ri_Wait :: wait_input

definition RETRIES :: u16 where "RETRIES = 5"

text \<open>One round of the loop, with the local \<open>retryCount\<close>; no case handles SS_WAIT_FOR_DISCONNECT.\<close>

definition run_step ::
    "run_input \<Rightarrow> u16 \<times> 'a server_state_scheme \<Rightarrow> (u16 \<times> 'a server_state_scheme) option" where
  "run_step i = (\<lambda>(retry, s).
     (case srv_State (srv s) of
        SS_STARTING \<Rightarrow> Some (RETRIES, set_state SS_OPENING_REMOTE s)
      | SS_OPENING_REMOTE \<Rightarrow>
          (let (ok, s1) = REM_OpenRemote (ri_Open i) s
           in Some (retry, if ok then set_state SS_OPENING_CLIENT (APB_SrvBeginRead s1)
                           else set_state SS_STOPPING s1))
      | SS_OPENING_CLIENT \<Rightarrow>
          (let (ok, s1) = APB_OpenClient (ri_Port i) s
           in Some (retry, set_state (if ok then SS_CONNECTING else SS_STOPPING) s1))
      | SS_CONNECTING \<Rightarrow>
          (case APB_SendInit s of
             None \<Rightarrow> None
           | Some (True, s1) \<Rightarrow> map_option (Pair retry) (APB_WaitForMessage (ri_Wait i) s1)
           | Some (False, s1) \<Rightarrow> Some (retry, set_state SS_STOPPING s1))
      | SS_WAIT_FOR_CONNECT \<Rightarrow> map_option (Pair retry) (APB_WaitForMessage (ri_Wait i) s)
      | SS_CONNECT_FAILED \<Rightarrow>
          Some (retry - 1, set_state (if retry - 1 = 0 then SS_STOPPING else SS_CONNECTING) s)
      | SS_CONNECTED \<Rightarrow> map_option (Pair retry) (APB_WaitForMessage (ri_Wait i) s)
      | SS_CONNECTION_LOST \<Rightarrow> Some (retry, set_state SS_CONNECTING s)
      | SS_DISCONNECTING \<Rightarrow>
          (case APB_SendShutdown s of
             None \<Rightarrow> None
           | Some (True, s1) \<Rightarrow> map_option (Pair retry) (APB_WaitForMessage (ri_Wait i) s1)
           | Some (False, s1) \<Rightarrow> Some (retry, set_state SS_STOPPING s1))
      | SS_WAIT_FOR_DISCONNECT \<Rightarrow> Some (retry, s)
      | SS_DISCONNECTED \<Rightarrow> Some (retry, set_state SS_STOPPING s)
      | SS_STOPPING \<Rightarrow> Some (retry, set_state SS_CLOSING_CLIENT s)
      | SS_CLOSING_CLIENT \<Rightarrow>
          Some (retry, set_state SS_CLOSING_REMOTE (upd_srv (\<lambda>x. x\<lparr>srv_ClientPort := None\<rparr>)
            (APB_DeletePort (srv_ClientPort (srv s)) s)))
      | SS_CLOSING_REMOTE \<Rightarrow> Some (retry, set_state SS_STOPPED (REM_CloseRemote s))
      | SS_STOPPED \<Rightarrow> Some (retry, s)))"

definition run_init :: "'a server_state_scheme \<Rightarrow> u16 \<times> 'a server_state_scheme" where
  "run_init s = (RETRIES, APB_EnableTimer TICK_MILLIS (set_state SS_STARTING s))"

text \<open>\<open>APB_Run\<close> on a list of inputs, one for each round: it stops with the state SS_STOPPED.\<close>

fun run_rounds ::
    "run_input list \<Rightarrow> u16 \<times> 'a server_state_scheme \<Rightarrow> (u16 \<times> 'a server_state_scheme) option" where
  "run_rounds [] x = Some x"
| "run_rounds (i # is) x =
     (if srv_State (srv (snd x)) = SS_STOPPED then Some x
      else case run_step i x of None \<Rightarrow> None | Some y \<Rightarrow> run_rounds is y)"

definition APB_Run ::
    "run_input list \<Rightarrow> 'a server_state_scheme \<Rightarrow> (u16 \<times> 'a server_state_scheme) option" where
  "APB_Run is s = run_rounds is (run_init s)"

end
