(* ===== verification/Frames.thy ===== *)
theory Frames
  imports Server
begin

text \<open>
  What each layer leaves alone: an operation of the writer, the reader or the remote does not
  touch the fields of the layers above it. \<open>writer_state.more\<close> and \<open>reader_state.more\<close> are all
  of these fields at once.
\<close>

section \<open>Fields above a layer\<close>

lemma cnn_fields:
  assumes "reader_state.more s1 = reader_state.more s"
  shows "h_Cnn s1 = h_Cnn s" "h_Req s1 = h_Req s" "cnns s1 = cnns s" "replies s1 = replies s"
    "cnn_state.more s1 = cnn_state.more s"
  using assms by (cases s, cases s1, simp)+

lemma srv_fields:
  assumes "cnn_state.more s1 = cnn_state.more s"
  shows "srv s1 = srv s" "client_msgs s1 = client_msgs s" "timer_io s1 = timer_io s"
    "log_level s1 = log_level s" "server_state.more s1 = server_state.more s"
  using assms by (cases s, cases s1, simp)+

lemma writer_more_rem:
  "rem_state.more s1 = rem_state.more s \<Longrightarrow> writer_state.more s1 = writer_state.more s"
  by (rule writer_fields_rem(4))

lemma reader_more_pool: "pool.more s1 = pool.more s \<Longrightarrow> reader_state.more s1 = reader_state.more s"
  and reader_more_buf: "buf_state.more s1 = buf_state.more s \<Longrightarrow> reader_state.more s1 = reader_state.more s"
  and reader_more_rem: "rem_state.more s1 = rem_state.more s \<Longrightarrow> reader_state.more s1 = reader_state.more s"
  and reader_more_writer: "writer_state.more s1 = writer_state.more s \<Longrightarrow> reader_state.more s1 = reader_state.more s"
  by (cases s, cases s1, simp)+

section \<open>The remote\<close>

lemma add_fault_rem_more [frame_simps, simp]: "rem_state.more (add_fault f s) = rem_state.more s"
  by (cases s) (simp add: add_fault_def)

lemma dev_store_more [frame_simps, simp]: "rem_state.more (dev_store p xs s) = rem_state.more s"
  by (simp add: dev_store_def split: option.split)

lemma BeginRead_more [frame_simps, simp]: "rem_state.more (BeginRead s) = rem_state.more s"
  by (simp add: BeginRead_def Let_def split: option.split)

lemma ContinueRead_more [frame_simps, simp]: "rem_state.more (ContinueRead req u xs s) = rem_state.more s"
  by (simp add: ContinueRead_def Let_def)

lemma handle_read_more [frame_simps, simp]: "rem_state.more (handle_read sa s) = rem_state.more s"
  by (simp add: handle_read_def Let_def split: option.split)

lemma rem_ops_more [frame_simps, simp]:
  "rem_state.more (REM_Read p n s) = rem_state.more s"
  "rem_state.more (REM_Write p n s) = rem_state.more s"
  "rem_state.more (REM_HandleSignal sig sa s) = rem_state.more s"
  "rem_state.more (REM_CloseRemote s) = rem_state.more s"
  "rem_state.more (snd (REM_OpenRemote oa s)) = rem_state.more s"
  by (simp_all add: REM_Read_def REM_Write_def REM_HandleSignal_def REM_CloseRemote_def
      REM_OpenRemote_def null_port_def Let_def split: option.split)

lemmas rem_ops_upper [frame_simps, simp] =
  rem_ops_more [THEN writer_more_rem] rem_ops_more [THEN reader_more_rem]
  rem_ops_more [THEN writer_fields_rem(3)]

section \<open>The writer\<close>

lemma get_out_buffer_more:
  assumes "get_out_buffer len s = (p, s1)"
  shows "writer_state.more s1 = writer_state.more s"
  using assms
  by (auto simp: get_out_buffer_def dest!: writer_fields_pool(4) [OF APB_AllocObject_more]
      writer_fields_buf(4) [OF APB_AllocateBuffer_more] split: if_splits option.splits prod.splits)

lemma init_out_packet_more [frame_simps, simp]:
  "writer_state.more (init_out_packet op ob len k s) = writer_state.more s"
  by (simp add: init_out_packet_def Let_def)

lemma trim_recent_more [frame_simps, simp]: "writer_state.more (trim_recent s) = writer_state.more s"
proof (induction s rule: trim_recent.induct)
  case (1 s)
  show ?case
  proof (cases "pw_RecentCount (pw s) > RECENT_PACKETS_TO_KEEP")
    case False
    then show ?thesis by (simp add: trim_recent.simps [of s])
  next
    case True
    show ?thesis
    proof (cases "pw_RecentPackets (pw s)")
      case Nil
      then show ?thesis using True writer_fields_pool(4) [OF add_fault_more] by (simp add: trim_recent.simps [of s])
    next
      case (Cons op2 rest)
      then show ?thesis using True "1.IH" [OF True Cons] by (simp add: trim_recent.simps [of s])
    qed
  qed
qed

lemma APB_AllocPacketWithId_more:
  "APB_AllocPacketWithId len k s = (p, s1) \<Longrightarrow> writer_state.more s1 = writer_state.more s"
  by (auto simp: APB_AllocPacketWithId_def Let_def dest!: get_out_buffer_more
      writer_fields_pool(4) [OF APB_AllocObject_more] split: if_splits option.splits prod.splits)

lemma APB_AllocPacket_more:
  "APB_AllocPacket len s = (p, s1) \<Longrightarrow> writer_state.more s1 = writer_state.more s"
  by (auto simp: APB_AllocPacket_def dest!: APB_AllocPacketWithId_more)

lemma fill_packet_more [frame_simps, simp]: "writer_state.more (fill_packet p ty cn xs s) = writer_state.more s"
  by (simp add: fill_packet_def split: prod.split)

lemma seal_packet_more: "seal_packet ob op s = Some s1 \<Longrightarrow> writer_state.more s1 = writer_state.more s"
  by (auto simp: seal_packet_def Let_def split: if_splits prod.splits option.splits)

lemma seal_packets_more: "seal_packets ob ops s = Some s1 \<Longrightarrow> writer_state.more s1 = writer_state.more s"
  by (induction ops arbitrary: s) (auto dest: seal_packet_more split: option.splits)

lemma send_buffer_more:
  assumes "send_buffer ob s = Some s1"
  shows "writer_state.more s1 = writer_state.more s"
proof (cases "ob_Offset (h_OutBuf s ob) < b_Offset (h_Buf s (ob_Buf (h_OutBuf s ob)))")
  case True
  then obtain s2 where "seal_packets ob (pw_RecentPackets (pw s)) s = Some s2"
    using assms by (cases "seal_packets ob (pw_RecentPackets (pw s)) s") (simp_all add: send_buffer_def Let_def)
  then show ?thesis
    using True assms seal_packets_more [of ob "pw_RecentPackets (pw s)" s s2]
    by (auto simp: send_buffer_def Let_def)
next
  case False
  then show ?thesis using assms by (simp add: send_buffer_def Let_def)
qed

lemma APB_WriteBuffer_more: "APB_WriteBuffer s = Some s1 \<Longrightarrow> writer_state.more s1 = writer_state.more s"
  by (auto simp: APB_WriteBuffer_def dest!: send_buffer_more split: list.splits option.splits if_splits)

lemma APB_ResendPacket_more [frame_simps, simp]:
  "writer_state.more (APB_ResendPacket k s) = writer_state.more s"
proof (cases "find_recent k (pw_RecentPackets (pw s)) s")
  case None
  then show ?thesis by (simp add: APB_ResendPacket_def)
next
  case (Some op)
  obtain b i where p: "op_Pac (h_OutPac s op) = (b, i)" by (cases "op_Pac (h_OutPac s op)")
  obtain r s1 where al: "APB_AllocPacketWithId (of_nat sizeof_Packet + get16 (buf_data s b) (i + 12)) k s = (r, s1)"
    by fastforce
  show ?thesis
    using Some p al APB_AllocPacketWithId_more [OF al]
    by (cases r) (simp_all add: APB_ResendPacket_def Let_def split: prod.split)
qed

section \<open>The reader\<close>

lemma APB_DequeueInPacket_more:
  "APB_DequeueInPacket s = (p, s1) \<Longrightarrow> reader_state.more s1 = reader_state.more s"
  by (auto simp: APB_DequeueInPacket_def split: if_splits prod.splits)

lemma APB_AppendBuffer_more:
  assumes "APB_AppendBuffer b s = Some (r, s1)"
  shows "reader_state.more s1 = reader_state.more s"
proof -
  obtain q s0 where al: "APB_AllocObject OT_IN_BUFFER s = (q, s0)" by fastforce
  note m = reader_fields_pool(4) [OF APB_AllocObject_more [OF al]]
  show ?thesis
    using assms al m
    by (cases q; cases "find_in_buf (h_InBuf s) b (pr_InBuf (pr s))")
      (auto simp: APB_AppendBuffer_def Let_def split: option.splits bool.splits)
qed

lemma queue_packet_more:
  shows "queue_packet ib p dp k s = Continue q s1 \<Longrightarrow> reader_state.more s1 = reader_state.more s"
    and "queue_packet ib p dp k s = Break s1 \<Longrightarrow> reader_state.more s1 = reader_state.more s"
proof -
  obtain r s0 where al: "APB_AllocObject OT_IN_PACKET s = (r, s0)" by fastforce
  note m = reader_fields_pool(4) [OF APB_AllocObject_more [OF al]]
  show "queue_packet ib p dp k s = Continue q s1 \<Longrightarrow> reader_state.more s1 = reader_state.more s"
    using al m by (cases r; cases "dp_Ib2 dp") (auto simp: queue_packet_def Let_def)
  show "queue_packet ib p dp k s = Break s1 \<Longrightarrow> reader_state.more s1 = reader_state.more s"
    using al m by (cases r; cases "dp_Ib2 dp") (auto simp: queue_packet_def Let_def)
qed

lemma bad_data_more:
  shows "bad_data ib ib2 s = Continue q s1 \<Longrightarrow> reader_state.more s1 = reader_state.more s"
    and "bad_data ib ib2 s = Break s1 \<Longrightarrow> reader_state.more s1 = reader_state.more s"
  by (auto simp: bad_data_def Let_def split: if_splits option.splits)

lemma process_step_cases:
  "process_step ib s = None \<or> process_step ib s = Some (Break s) \<or>
   (\<exists>ib2. process_step ib s = Some (bad_data ib ib2 s)) \<or>
   (\<exists>p dp k. process_step ib s = Some (queue_packet ib p dp k s))"
proof (cases "read_header ib s")
  case None
  then show ?thesis by (simp add: process_step_def)
next
  case (Some x)
  obtain hdr ib2 c where x: "x = (hdr, ib2, c)" by (cases x)
  define p where "p = packet_at hdr 0"
  define k where "k = (if pac_Length p > 0 \<and> pac_Flags p AND PF_PAD_BYTE \<noteq> 0 then 1 else 0 :: u16)"
  define dp where "dp = (if pac_Length p > 0 then locate_data ib ib2 c (pac_Length p) k s
    else Some \<lparr>dp_Ib2 = ib2, dp_Data1 = None, dp_Len1 = 0, dp_Data2 = None, dp_Len2 = 0, dp_Consumed = c\<rparr>)"
  have e: "process_step ib s = (if pac_Id p \<noteq> PACKET_ID then Some (bad_data ib ib2 s)
      else if unat (pac_Length p) > BUFFER_SIZE then Some (bad_data ib ib2 s)
      else case dp of None \<Rightarrow> Some (Break s)
        | Some dp \<Rightarrow> (case packet_sum hdr dp k s of None \<Rightarrow> None
            | Some acc \<Rightarrow> if APB_CompleteChecksum acc \<noteq> 0xFFFF then Some (bad_data ib (dp_Ib2 dp) s)
                else Some (queue_packet ib p dp k s)))"
    unfolding process_step_def Some x option.case prod.case Let_def p_def k_def dp_def ..
  show ?thesis
  proof (cases dp)
    case None
    then show ?thesis using e by auto
  next
    case (Some d)
    then show ?thesis using e by (cases "packet_sum hdr d k s") auto
  qed
qed

lemma process_step_more:
  shows "process_step ib s = Some (Continue q s1) \<Longrightarrow> reader_state.more s1 = reader_state.more s"
    and "process_step ib s = Some (Break s1) \<Longrightarrow> reader_state.more s1 = reader_state.more s"
  using process_step_cases [of ib s]
  by (auto dest: queue_packet_more [OF sym] bad_data_more [OF sym])

lemma process_loop_more:
  assumes "process_loop p s = Some s1"
  shows "reader_state.more s1 = reader_state.more s"
proof (rule process_loop.raw_induct [where P = "\<lambda>p s s1. reader_state.more s1 = reader_state.more s", OF _ assms])
  fix f and p :: "addr option" and s s1 :: "'a reader_state_scheme"
  assume IH: "\<And>p s s1. f p s = Some s1 \<Longrightarrow> reader_state.more s1 = reader_state.more s"
    and r: "(case p of None \<Rightarrow> Some s
      | Some ib1 \<Rightarrow> if ib_Offset (h_InBuf s ib1) \<le> BUF_BYTES s ib1
          then case process_step ib1 s of None \<Rightarrow> None
            | Some (Break s1) \<Rightarrow> Some s1 | Some (Continue q s1) \<Rightarrow> f q s1
          else Some s) = Some s1"
  show "reader_state.more s1 = reader_state.more s"
  proof (cases p)
    case None
    then show ?thesis using r by simp
  next
    case (Some ib)
    show ?thesis
    proof (cases "ib_Offset (h_InBuf s ib) \<le> BUF_BYTES s ib")
      case True
      have r1: "(case process_step ib s of None \<Rightarrow> None
          | Some (Break s1) \<Rightarrow> Some s1 | Some (Continue q s1) \<Rightarrow> f q s1) = Some s1"
        using r Some True by simp
      then obtain x where x: "process_step ib s = Some x" by (cases "process_step ib s") auto
      show ?thesis
      proof (cases x)
        case (Break s2)
        then show ?thesis using r1 x process_step_more(2) [of ib s s2] by simp
      next
        case (Continue q s2)
        then show ?thesis using r1 x process_step_more(1) [of ib s q s2] IH [of q s2 s1] by simp
      qed
    qed (use r Some in \<open>simp\<close>)
  qed
qed

lemma APB_ProcessBuffer_more:
  "APB_ProcessBuffer b s = Some s1 \<Longrightarrow> reader_state.more s1 = reader_state.more s"
  by (auto simp: APB_ProcessBuffer_def dest!: APB_AppendBuffer_more process_loop_more
      split: option.splits prod.splits bool.splits)

section \<open>Connections\<close>

lemma upd_cnn_frame [frame_simps, simp]:
  "op_Types (upd_cnn c f s) = op_Types s" "op_MemPool (upd_cnn c f s) = op_MemPool s" "op_Mem (upd_cnn c f s) = op_Mem s"
  "faults (upd_cnn c f s) = faults s" "h_Buf (upd_cnn c f s) = h_Buf s" "rem (upd_cnn c f s) = rem s"
  "ser_io (upd_cnn c f s) = ser_io s" "h_OutBuf (upd_cnn c f s) = h_OutBuf s" "h_OutPac (upd_cnn c f s) = h_OutPac s"
  "pw (upd_cnn c f s) = pw s" "h_InBuf (upd_cnn c f s) = h_InBuf s" "h_InPac (upd_cnn c f s) = h_InPac s"
  "pr (upd_cnn c f s) = pr s" "h_Cnn (upd_cnn c f s) = (h_Cnn s)(c := f (h_Cnn s c))" "h_Req (upd_cnn c f s) = h_Req s"
  "cnns (upd_cnn c f s) = cnns s" "replies (upd_cnn c f s) = replies s" "cnn_state.more (upd_cnn c f s) = cnn_state.more s"
  by (simp_all add: upd_cnn_def)

lemma upd_req_frame [frame_simps, simp]:
  "op_Types (upd_req r f s) = op_Types s" "op_MemPool (upd_req r f s) = op_MemPool s" "op_Mem (upd_req r f s) = op_Mem s"
  "faults (upd_req r f s) = faults s" "h_Buf (upd_req r f s) = h_Buf s" "rem (upd_req r f s) = rem s"
  "ser_io (upd_req r f s) = ser_io s" "h_OutBuf (upd_req r f s) = h_OutBuf s" "h_OutPac (upd_req r f s) = h_OutPac s"
  "pw (upd_req r f s) = pw s" "h_InBuf (upd_req r f s) = h_InBuf s" "h_InPac (upd_req r f s) = h_InPac s"
  "pr (upd_req r f s) = pr s" "h_Req (upd_req r f s) = (h_Req s)(r := f (h_Req s r))" "h_Cnn (upd_req r f s) = h_Cnn s"
  "cnns (upd_req r f s) = cnns s" "replies (upd_req r f s) = replies s" "cnn_state.more (upd_req r f s) = cnn_state.more s"
  by (simp_all add: upd_req_def)

lemma ReplyMsg_frame [frame_simps, simp]:
  "op_Types (ReplyMsg r s) = op_Types s" "op_MemPool (ReplyMsg r s) = op_MemPool s" "op_Mem (ReplyMsg r s) = op_Mem s"
  "faults (ReplyMsg r s) = faults s" "h_Buf (ReplyMsg r s) = h_Buf s" "rem (ReplyMsg r s) = rem s"
  "ser_io (ReplyMsg r s) = ser_io s" "h_OutBuf (ReplyMsg r s) = h_OutBuf s" "h_OutPac (ReplyMsg r s) = h_OutPac s"
  "pw (ReplyMsg r s) = pw s" "h_InBuf (ReplyMsg r s) = h_InBuf s" "h_InPac (ReplyMsg r s) = h_InPac s"
  "pr (ReplyMsg r s) = pr s" "h_Req (ReplyMsg r s) = h_Req s" "h_Cnn (ReplyMsg r s) = h_Cnn s"
  "cnns (ReplyMsg r s) = cnns s" "replies (ReplyMsg r s) = replies s @ [(r, h_Req s r)]" "cnn_state.more (ReplyMsg r s) = cnn_state.more s"
  by (simp_all add: ReplyMsg_def)

lemmas cnn_release_frame [frame_simps, simp] = cnn_fields [OF APB_ReleaseInPacket_frame(9)]

lemmas cnn_fill_frame [frame_simps, simp] = cnn_fields [OF reader_more_writer [OF fill_packet_more]]
  reader_fields_writer [OF fill_packet_more]

lemmas cnn_free_frame [frame_simps, simp] = cnn_fields [OF reader_more_pool [OF APB_FreeObject_more]]

lemmas cnn_fault_frame [frame_simps, simp] = cnn_fields [OF reader_more_pool [OF add_fault_more]]

lemmas alloc_packet_cnn = cnn_fields [OF reader_more_writer [OF APB_AllocPacket_more]]

lemma APB_CnnConnect_frame [frame_simps, simp]:
  "h_Req (APB_CnnConnect c s) = h_Req s" "cnns (APB_CnnConnect c s) = cnns s"
  "replies (APB_CnnConnect c s) = replies s" "cnn_state.more (APB_CnnConnect c s) = cnn_state.more s"
  "cnn_ReqQueue (h_Cnn (APB_CnnConnect c s) d) = cnn_ReqQueue (h_Cnn s d)"
  "cnn_PacketQueue (h_Cnn (APB_CnnConnect c s) d) = cnn_PacketQueue (h_Cnn s d)"
  "cnn_Id (h_Cnn (APB_CnnConnect c s) d) = cnn_Id (h_Cnn s d)"
proof -
  obtain p s1 where al: "APB_AllocPacket (of_nat sizeof_Packet + 2) s = (p, s1)" by fastforce
  then show "h_Req (APB_CnnConnect c s) = h_Req s" "cnns (APB_CnnConnect c s) = cnns s"
    "replies (APB_CnnConnect c s) = replies s" "cnn_state.more (APB_CnnConnect c s) = cnn_state.more s"
    "cnn_ReqQueue (h_Cnn (APB_CnnConnect c s) d) = cnn_ReqQueue (h_Cnn s d)"
    "cnn_PacketQueue (h_Cnn (APB_CnnConnect c s) d) = cnn_PacketQueue (h_Cnn s d)"
    "cnn_Id (h_Cnn (APB_CnnConnect c s) d) = cnn_Id (h_Cnn s d)"
    using alloc_packet_cnn [OF al] by (cases p; simp add: APB_CnnConnect_def)+
qed

lemma APB_CnnDisconnect_frame [frame_simps, simp]:
  "h_Req (APB_CnnDisconnect c s) = h_Req s" "cnns (APB_CnnDisconnect c s) = cnns s"
  "replies (APB_CnnDisconnect c s) = replies s" "cnn_state.more (APB_CnnDisconnect c s) = cnn_state.more s"
  "cnn_ReqQueue (h_Cnn (APB_CnnDisconnect c s) d) = cnn_ReqQueue (h_Cnn s d)"
  "cnn_PacketQueue (h_Cnn (APB_CnnDisconnect c s) d) = cnn_PacketQueue (h_Cnn s d)"
  "cnn_Id (h_Cnn (APB_CnnDisconnect c s) d) = cnn_Id (h_Cnn s d)"
proof -
  obtain p s1 where al: "APB_AllocPacket (of_nat sizeof_Packet) s = (p, s1)" by fastforce
  then show "h_Req (APB_CnnDisconnect c s) = h_Req s" "cnns (APB_CnnDisconnect c s) = cnns s"
    "replies (APB_CnnDisconnect c s) = replies s" "cnn_state.more (APB_CnnDisconnect c s) = cnn_state.more s"
    "cnn_ReqQueue (h_Cnn (APB_CnnDisconnect c s) d) = cnn_ReqQueue (h_Cnn s d)"
    "cnn_PacketQueue (h_Cnn (APB_CnnDisconnect c s) d) = cnn_PacketQueue (h_Cnn s d)"
    "cnn_Id (h_Cnn (APB_CnnDisconnect c s) d) = cnn_Id (h_Cnn s d)"
    using alloc_packet_cnn [OF al] by (cases p; simp add: APB_CnnDisconnect_def)+
qed

lemma APB_PushToRemote_frame [frame_simps, simp]:
  "h_Cnn (APB_PushToRemote c r s) = h_Cnn s" "cnns (APB_PushToRemote c r s) = cnns s"
  "replies (APB_PushToRemote c r s) = replies s"
  "cnn_state.more (APB_PushToRemote c r s) = cnn_state.more s"
proof -
  obtain p s1 where al: "APB_AllocPacket (of_nat sizeof_Packet + r_Length (h_Req s r)) s = (p, s1)"
    by fastforce
  then show "h_Cnn (APB_PushToRemote c r s) = h_Cnn s" "cnns (APB_PushToRemote c r s) = cnns s"
    "replies (APB_PushToRemote c r s) = replies s"
    "cnn_state.more (APB_PushToRemote c r s) = cnn_state.more s"
    using alloc_packet_cnn [OF al] by (cases p; simp add: APB_PushToRemote_def)+
qed

lemma release_in_packets_frame [frame_simps, simp]:
  "h_InPac (release_in_packets ips s) = h_InPac s" "pr (release_in_packets ips s) = pr s"
  "h_Buf (release_in_packets ips s) = h_Buf s" "h_OutBuf (release_in_packets ips s) = h_OutBuf s"
  "h_OutPac (release_in_packets ips s) = h_OutPac s" "pw (release_in_packets ips s) = pw s"
  "rem (release_in_packets ips s) = rem s" "ser_io (release_in_packets ips s) = ser_io s"
  "reader_state.more (release_in_packets ips s) = reader_state.more s"
  by (induction ips arbitrary: s) simp_all

lemmas release_all_cnn [frame_simps, simp] = cnn_fields [OF release_in_packets_frame(9)]

lemma APB_DestroyConnection_frame [frame_simps, simp]:
  "h_Req (APB_DestroyConnection c s) = h_Req s" "cnns (APB_DestroyConnection c s) = remove1 c (cnns s)"
  "replies (APB_DestroyConnection c s) = replies s"
  "cnn_state.more (APB_DestroyConnection c s) = cnn_state.more s"
  "cnn_ReqQueue (h_Cnn (APB_DestroyConnection c s) d) = cnn_ReqQueue (h_Cnn s d)"
  by (simp_all add: APB_DestroyConnection_def Let_def)

lemma push_one_more [frame_simps, simp]: "cnn_state.more (push_one c r ip s) = cnn_state.more s"
  "cnns (push_one c r ip s) = cnns s"
  by (simp_all add: push_one_def Let_def)

lemma push_loop_more [frame_simps, simp]: "cnn_state.more (push_loop c rs s) = cnn_state.more s"
  "cnns (push_loop c rs s) = cnns s"
  by (induction rs arbitrary: s) (simp_all split: list.split)

lemma APB_PushToClient_more [frame_simps, simp]:
  "cnn_state.more (APB_PushToClient c s) = cnn_state.more s" "cnns (APB_PushToClient c s) = cnns s"
  by (simp_all add: APB_PushToClient_def)

lemma reply_first_more [frame_simps, simp]:
  "cnn_state.more (reply_first c ty st s) = cnn_state.more s" "cnns (reply_first c ty st s) = cnns s"
  by (simp_all add: reply_first_def split: list.split)

lemma APB_HandleConnectionPacket_more [frame_simps, simp]:
  "cnn_state.more (APB_HandleConnectionPacket c ip s) = cnn_state.more s"
  by (simp add: APB_HandleConnectionPacket_def Let_def)

lemma check_timeouts_more [frame_simps, simp]:
  "cnn_state.more (check_timeouts c rs s) = cnn_state.more s" "cnns (check_timeouts c rs s) = cnns s"
  by (induction c rs s rule: check_timeouts.induct) (simp_all add: Let_def)

lemma check_all_timeouts_more [frame_simps, simp]:
  "cnn_state.more (check_all_timeouts cs s) = cnn_state.more s"
  "cnns (check_all_timeouts cs s) = cnns s"
  by (induction cs arbitrary: s) (simp_all add: APB_CnnCheckRequestTimeouts_def)

lemma cnn_ops_more [frame_simps, simp]:
  "cnn_state.more (queue_request c r s) = cnn_state.more s" "cnns (queue_request c r s) = cnns s"
  "cnn_state.more (reply_state r st s) = cnn_state.more s" "cnns (reply_state r st s) = cnns s"
  "cnn_state.more (APB_CheckRequestTimeouts s) = cnn_state.more s"
  "cnns (APB_CheckRequestTimeouts s) = cnns s"
  by (simp_all add: queue_request_def reply_state_def APB_CheckRequestTimeouts_def)

lemma APB_HandleClientRequest_more [frame_simps, simp]:
  "cnn_state.more (APB_HandleClientRequest c r s) = cnn_state.more s"
  "cnns (APB_HandleClientRequest c r s) = cnns s"
  by (simp_all add: APB_HandleClientRequest_def Let_def)

lemma APB_CreateConnection_more:
  assumes "APB_CreateConnection i s = (p, s1)"
  shows "cnn_state.more s1 = cnn_state.more s" "h_Req s1 = h_Req s" "replies s1 = replies s"
    "cnns s1 = cnns s @ (case p of None \<Rightarrow> [] | Some c \<Rightarrow> [c])"
proof -
  obtain q s0 where al: "APB_AllocObject OT_CONNECTION
      (register_missing OT_CONNECTION ''Connection'' sizeof_Connection 5 1000 s) = (q, s0)" by fastforce
  have "pool.more s0 = pool.more s" using APB_AllocObject_more [OF al] by (simp add: register_missing_def)
  note m = cnn_fields [OF reader_more_pool [OF this]]
  show "cnn_state.more s1 = cnn_state.more s" "h_Req s1 = h_Req s" "replies s1 = replies s"
    "cnns s1 = cnns s @ (case p of None \<Rightarrow> [] | Some c \<Rightarrow> [c])"
    using assms al m by (cases q; auto simp: APB_CreateConnection_def)+
qed

end
