(* ===== verification/Ledger.thy ===== *)
theory Ledger
  imports Frames "HOL-Library.Multiset"
begin

text \<open>
  The requests of clients: each one the server takes from its port is given back at most once.
  The account of a connection are the requests already answered and those in its queue; the
  operations of a connection keep it, a request adds itself, and only a connection that goes
  takes requests with it.
\<close>

section \<open>Accounts\<close>

definition answered :: "'a cnn_state_scheme \<Rightarrow> addr multiset" where
  "answered s = mset (map fst (replies s))"

definition queue_of :: "'a cnn_state_scheme \<Rightarrow> addr \<Rightarrow> addr list" where
  "queue_of s c = cnn_ReqQueue (h_Cnn s c)"

definition waiting :: "'a cnn_state_scheme \<Rightarrow> addr multiset" where
  "waiting s = (\<Sum>c \<in> set (cnns s). mset (queue_of s c))"

definition acct :: "addr \<Rightarrow> 'a cnn_state_scheme \<Rightarrow> addr multiset" where
  "acct c s = answered s + mset (queue_of s c)"

text \<open>An operation on connection \<open>c\<close> that adds \<open>X\<close> to the account and leaves the other queues.\<close>

definition books :: "addr \<Rightarrow> addr multiset \<Rightarrow> 'a cnn_state_scheme \<Rightarrow> 'a cnn_state_scheme \<Rightarrow> bool" where
  "books c X s s1 \<longleftrightarrow> acct c s1 = acct c s + X \<and> (\<forall>d. d \<noteq> c \<longrightarrow> queue_of s1 d = queue_of s d)"

named_theorems book_simps \<open>unfolding the account of a connection\<close>

lemmas book_defs [book_simps] = books_def acct_def answered_def queue_of_def

lemma books_trans: "books c X s s1 \<Longrightarrow> books c Y s1 s2 \<Longrightarrow> books c (X + Y) s s2"
  by (auto simp: books_def)

lemma books_same:
  assumes "\<And>d. queue_of s1 d = queue_of s d" and "replies s1 = replies s"
  shows "books c {#} s s1"
  using assms by (simp add: books_def acct_def answered_def)

lemma books_keep: "books c X s s1 \<Longrightarrow> books c {#} s1 s2 \<Longrightarrow> books c X s s2"
  using books_trans [of c X s s1 "{#}" s2] by simp

lemma books_first: "books c {#} s s1 \<Longrightarrow> books c X s1 s2 \<Longrightarrow> books c X s s2"
  using books_trans [of c "{#}" s s1 X s2] by simp

lemma books_total:
  assumes "books c X s s1" and "c \<in> set (cnns s)" and "set (cnns s1) = set (cnns s)"
  shows "answered s1 + waiting s1 = answered s + waiting s + X"
proof -
  let ?R = "\<lambda>t. \<Sum>d \<in> set (cnns s) - {c}. mset (queue_of t d)"
  have "waiting s1 = mset (queue_of s1 c) + ?R s1" "waiting s = mset (queue_of s c) + ?R s"
    using assms(2,3) by (simp_all add: waiting_def sum.remove)
  moreover have "?R s1 = ?R s" using assms(1) by (intro sum.cong) (simp_all add: books_def)
  ultimately show ?thesis using assms(1) by (simp add: books_def acct_def ac_simps)
qed

lemma sum_subset_mset:
  assumes "finite B" and "A \<subseteq> B"
  shows "sum f A \<subseteq># (sum f B :: 'b multiset)"
  using sum.subset_diff [OF assms(2,1), of f] by simp

section \<open>The operations of a connection\<close>

lemma reply_books: "books c {#r#} s (ReplyMsg r s)"
  by (simp add: book_simps)

lemma push_one_books:
  assumes "queue_of s c = r # rs"
  shows "books c {#} s (push_one c r ip s)"
  using assms by (auto simp: book_simps push_one_def Let_def)

lemma push_one_queue:
  assumes "queue_of s c = r # rs"
  shows "queue_of (push_one c r ip s) c = rs"
  using assms by (auto simp: queue_of_def push_one_def Let_def)

lemma push_loop_books: "queue_of s c = rs \<Longrightarrow> books c {#} s (push_loop c rs s)"
proof (induction rs arbitrary: s)
  case Nil
  show ?case by (rule books_same) simp_all
next
  case (Cons r rs)
  show ?case
  proof (cases "cnn_PacketQueue (h_Cnn s c)")
    case Nil
    then show ?thesis by (simp add: books_same)
  next
    case (Cons ip ips)
    note b = push_one_books [OF \<open>queue_of s c = r # rs\<close>, of ip]
    show ?thesis
      using books_keep [OF b Cons.IH [OF push_one_queue]] Cons.prems Cons by simp
  qed
qed

lemma push_client_books: "books c {#} s (APB_PushToClient c s)"
  by (auto simp: APB_PushToClient_def queue_of_def intro: push_loop_books books_same)

lemma reply_first_books: "books c {#} s (reply_first c ty st s)"
proof (cases "filter (\<lambda>r. r_Type (h_Req s r) = ty) (cnn_ReqQueue (h_Cnn s c))")
  case Nil
  then show ?thesis by (simp add: reply_first_def books_same)
next
  case (Cons r rs)
  then have "r \<in> set (filter (\<lambda>r. r_Type (h_Req s r) = ty) (cnn_ReqQueue (h_Cnn s c)))" by simp
  then have "r \<in> set (cnn_ReqQueue (h_Cnn s c))" by simp
  then show ?thesis using Cons by (simp add: reply_first_def book_simps)
qed

lemma check_timeouts_books:
  "mset rs \<subseteq># mset (queue_of s c) \<Longrightarrow> books c {#} s (check_timeouts c rs s)"
proof (induction rs arbitrary: s)
  case Nil
  show ?case by (rule books_same) simp_all
next
  case (Cons r rs)
  have r: "r \<in># mset (queue_of s c)" using Cons.prems by (simp add: insert_subset_eq_iff)
  show ?case
  proof (cases "ri_TimeoutTicks (h_Req s r) = 1")
    case True
    let ?s = "ReplyMsg r (upd_cnn c (\<lambda>x. x\<lparr>cnn_ReqQueue := remove1 r (cnn_ReqQueue x)\<rparr>)
                   (upd_req r (\<lambda>x. x\<lparr>r_State := APB_RS_TIMEOUT\<rparr>) s))"
    have b: "books c {#} s ?s" using r by (simp add: book_simps)
    have "mset rs \<subseteq># mset (queue_of ?s c)"
      using Cons.prems by (simp add: queue_of_def insert_subset_eq_iff)
    from books_keep [OF b Cons.IH [OF this]] b True show ?thesis by (simp add: Let_def)
  next
    case False
    let ?s = "if ri_TimeoutTicks (h_Req s r) > 1
        then upd_req r (\<lambda>x. x\<lparr>ri_TimeoutTicks := ri_TimeoutTicks x - 1\<rparr>) s else s"
    have b: "books c {#} s ?s" by (rule books_same) (simp_all add: queue_of_def)
    have "mset rs \<subseteq># mset (r # rs)" by simp
    then have "mset rs \<subseteq># mset (queue_of s c)" using Cons.prems by (rule subset_mset.order_trans)
    then have "mset rs \<subseteq># mset (queue_of ?s c)" by (simp add: queue_of_def)
    from books_keep [OF b Cons.IH [OF this]] False show ?thesis by (simp only: check_timeouts.simps if_False)
  qed
qed

lemma check_cnn_books: "books c {#} s (APB_CnnCheckRequestTimeouts c s)"
  unfolding APB_CnnCheckRequestTimeouts_def by (rule check_timeouts_books) (simp add: queue_of_def)

lemma client_request_books:
  fixes s :: "'a cnn_state_scheme"
  shows "books c {#r#} s (APB_HandleClientRequest c r s)"
proof -
  let ?s = "upd_req r (\<lambda>x. x\<lparr>r_State := APB_RS_OK, r_Actual := 0, r_ConnId := cnn_Id (h_Cnn s c),
                 ri_TimeoutTicks := (if r_Timeout x > 0 then r_Timeout x else ri_TimeoutTicks x)\<rparr>) s"
  have u: "books c {#} s ?s" by (rule books_same) (simp_all add: queue_of_def)
  have q: "books c {#r#} t (queue_request c r t)" for t :: "'a cnn_state_scheme" by (simp add: book_simps queue_request_def)
  have con: "books c {#r#} t (APB_CnnConnect c (queue_request c r (upd_cnn c (\<lambda>x. x\<lparr>cnn_HandlerId := h\<rparr>) t)))"
    for t :: "'a cnn_state_scheme" and h by (simp add: book_simps queue_request_def)
  have dis: "books c {#r#} t (ReplyMsg r (APB_CnnDisconnect c t))" for t :: "'a cnn_state_scheme" by (simp add: book_simps)
  have rst: "books c {#r#} t (reply_state r st t)" for t :: "'a cnn_state_scheme" and st by (simp add: book_simps reply_state_def)
  have rem: "books c {#r#} t (ReplyMsg r (APB_PushToRemote c r t))" for t :: "'a cnn_state_scheme" by (simp add: book_simps)
  have push: "books c {#r#} t (APB_PushToClient c (queue_request c r t))" for t :: "'a cnn_state_scheme"
    by (rule books_keep [OF q push_client_books])
  have "books c {#r#} ?s (APB_HandleClientRequest c r s)"
    by (simp add: APB_HandleClientRequest_def Let_def con dis rst rem push reply_books)
  then show ?thesis by (rule books_first [OF u])
qed

lemma connection_packet_books:
  fixes s :: "'a cnn_state_scheme"
  assumes "ip_Type (h_InPac s ip) \<noteq> pt_code PT_DISCONNECTED"
  shows "books c {#} s (APB_HandleConnectionPacket c ip s)"
    and "cnns (APB_HandleConnectionPacket c ip s) = cnns s"
proof -
  have u: "books c {#} t (APB_ReleaseInPacket ip t)" "books c {#} t (upd_cnn c (\<lambda>x. x\<lparr>cnn_State := st\<rparr>) t)"
    "books c {#} t (upd_cnn c (\<lambda>x. x\<lparr>cnn_PacketQueue := cnn_PacketQueue x @ [ip]\<rparr>) t)" for t :: "'a cnn_state_scheme" and st
    by (rule books_same; simp add: queue_of_def)+
  have con: "books c {#} s (reply_first c ty st (APB_ReleaseInPacket ip (upd_cnn c (\<lambda>x. x\<lparr>cnn_State := st2\<rparr>) s)))"
    for ty st st2
    by (rule books_first [OF u(2) books_first [OF u(1) reply_first_books]])
  have noh: "books c {#} s (reply_first c ty st (upd_cnn c (\<lambda>x. x\<lparr>cnn_State := st2\<rparr>) s))" for ty st st2
    by (rule books_first [OF u(2) reply_first_books])
  have push: "books c {#} s (APB_PushToClient c
      (upd_cnn c (\<lambda>x. x\<lparr>cnn_PacketQueue := cnn_PacketQueue x @ [ip]\<rparr>) s))"
    by (rule books_first [OF u(3) push_client_books])
  show "books c {#} s (APB_HandleConnectionPacket c ip s)"
    using assms con noh push u(1) by (simp add: APB_HandleConnectionPacket_def Let_def)
  show "cnns (APB_HandleConnectionPacket c ip s) = cnns s"
    using assms by (simp add: APB_HandleConnectionPacket_def Let_def)
qed

end
