(* ===== verification/ServerWalk.thy ===== *)
theory ServerWalk
  imports Ledger
begin

text \<open>
  The way through the server's handling of packets, once for every relation between the state
  before and after: what holds for the parts holds for the loop over the received packets.
\<close>

section \<open>Frames of the server\<close>

lemma upd_srv_fields [frame_simps, simp]:
  "h_Cnn (upd_srv f s) = h_Cnn s" "h_Req (upd_srv f s) = h_Req s" "cnns (upd_srv f s) = cnns s"
  "replies (upd_srv f s) = replies s" "client_msgs (upd_srv f s) = client_msgs s"
  "srv (upd_srv f s) = f (srv s)" "timer_io (upd_srv f s) = timer_io s" "h_InPac (upd_srv f s) = h_InPac s"
  "log_level (upd_srv f s) = log_level s" "rem (upd_srv f s) = rem s" "ser_io (upd_srv f s) = ser_io s"
  "pw (upd_srv f s) = pw s" "pr (upd_srv f s) = pr s" "faults (upd_srv f s) = faults s"
  by (simp_all add: upd_srv_def)

lemma set_state_fields [frame_simps, simp]:
  "h_Cnn (set_state st s) = h_Cnn s" "h_Req (set_state st s) = h_Req s" "cnns (set_state st s) = cnns s"
  "replies (set_state st s) = replies s" "client_msgs (set_state st s) = client_msgs s"
  "srv (set_state st s) = (srv s)\<lparr>srv_State := st\<rparr>" "timer_io (set_state st s) = timer_io s"
  "h_InPac (set_state st s) = h_InPac s" "log_level (set_state st s) = log_level s"
  "rem (set_state st s) = rem s" "ser_io (set_state st s) = ser_io s" "pw (set_state st s) = pw s"
  "pr (set_state st s) = pr s" "faults (set_state st s) = faults s"
  by (simp_all add: set_state_def)

lemma enable_timer_fields [frame_simps, simp]:
  "h_Cnn (APB_EnableTimer ms s) = h_Cnn s" "h_Req (APB_EnableTimer ms s) = h_Req s"
  "cnns (APB_EnableTimer ms s) = cnns s" "replies (APB_EnableTimer ms s) = replies s"
  "client_msgs (APB_EnableTimer ms s) = client_msgs s" "srv (APB_EnableTimer ms s) = srv s"
  "rem (APB_EnableTimer ms s) = rem s" "ser_io (APB_EnableTimer ms s) = ser_io s"
  "pw (APB_EnableTimer ms s) = pw s" "pr (APB_EnableTimer ms s) = pr s"
  "faults (APB_EnableTimer ms s) = faults s"
  by (simp_all add: APB_EnableTimer_def)

text \<open>The operations below the connections leave \<open>reader_state.more\<close> alone.\<close>

lemma send_to_remote_more: "APB_SrvSendToRemote s = Some s1 \<Longrightarrow> reader_state.more s1 = reader_state.more s"
  by (auto simp: APB_SrvSendToRemote_def dest: reader_more_writer [OF APB_WriteBuffer_more] split: if_splits)

lemma alloc_packet_more: "APB_AllocPacket n s = (p, s1) \<Longrightarrow> reader_state.more s1 = reader_state.more s"
  by (rule reader_more_writer [OF APB_AllocPacket_more])

lemma fill_more [simp]: "reader_state.more (fill_packet p ty cn xs s) = reader_state.more s"
  by (rule reader_more_writer [OF fill_packet_more])

lemma send_error_more:
  assumes "APB_SendError cid e s = Some s1"
  shows "reader_state.more s1 = reader_state.more s"
proof -
  obtain p s0 where al: "APB_AllocPacket (of_nat sizeof_Packet) s = (p, s0)" by fastforce
  then show ?thesis
    using assms alloc_packet_more [OF al]
    by (cases p) (auto simp: APB_SendError_def dest: send_to_remote_more)
qed

lemma resend_request_more [simp]: "reader_state.more (APB_HandleResendRequest ip s) = reader_state.more s"
  using reader_more_writer [OF APB_ResendPacket_more] reader_more_pool [OF add_fault_more]
  by (auto simp: APB_HandleResendRequest_def split: option.split)

lemma configure_more [simp]: "reader_state.more (APB_ConfigureServer ip s) = reader_state.more s"
proof -
  let ?n = "ucast (ip_Data1Length (h_InPac s ip) + ip_Data2Length (h_InPac s ip)) :: u32"
  obtain p s0 where al: "APB_AllocMem ?n s = (p, s0)" by fastforce
  have "reader_state.more (APB_FreeMem q n s0) = reader_state.more s0" for q n
    by (rule reader_more_pool) (simp add: APB_FreeMem_def)
  then show ?thesis
    using al reader_more_pool [OF APB_AllocMem_more [OF al]]
    by (cases p) (simp_all add: APB_ConfigureServer_def Let_def)
qed

lemma request_resends_more: "reader_state.more (request_resends k n s) = reader_state.more s"
proof (induction k n s rule: request_resends.induct)
  case (1 k n s)
  obtain p s0 where al: "APB_AllocPacket (of_nat sizeof_Packet + 2) s = (p, s0)" by fastforce
  show ?case
  proof (cases "k < n")
    case True
    then show ?thesis
      using "1.IH" [OF True al [symmetric]] alloc_packet_more [OF al] al
      by (cases p) (simp_all add: request_resends.simps [of k n s])
  qed (simp add: request_resends.simps [of k n s])
qed

section \<open>The steps of a wait\<close>

text \<open>What a tick does before the timer is set again.\<close>

definition tick :: "'a server_state_scheme \<Rightarrow> 'a server_state_scheme option" where
  "tick s = (case srv_State (srv s) of
      SS_WAIT_FOR_CONNECT \<Rightarrow> Some (set_state SS_CONNECT_FAILED s)
    | SS_CONNECTED \<Rightarrow> map_option APB_CheckRequestTimeouts (ping_send (upd_srv ping_timeout s))
    | SS_DISCONNECTING \<Rightarrow> Some (set_state SS_DISCONNECTED s)
    | _ \<Rightarrow> Some s)"

lemma timer_tick:
  "APB_HandleTimer s = map_option
     (\<lambda>s1. if srv_State (srv s1) \<noteq> SS_DISCONNECTED then APB_EnableTimer TICK_MILLIS s1 else s1) (tick s)"
  unfolding APB_HandleTimer_def tick_def ..

lemma timer_steps:
  assumes "APB_HandleTimer s = Some s1"
  obtains s2 where "tick s = Some s2" and "s1 = s2 \<or> s1 = APB_EnableTimer TICK_MILLIS s2"
    and "srv s1 = srv s2"
  using assms by (cases "tick s") (auto simp: timer_tick split: if_splits)

lemma srv_arrive [simp]: "srv (arrive reqs s) = srv s"
  by (simp add: arrive_def)

lemma wait_steps:
  fixes s :: "'a server_state_scheme"
  assumes "APB_WaitForMessage w s = Some s1"
  obtains b s2 s3 s4 s5 where
    "b = (if wi_Signals w AND wait_mask s AND SIGBREAKF_CTRL_C \<noteq> 0
          then set_state SS_DISCONNECTED (arrive (wi_Requests w) s) else arrive (wi_Requests w) s)"
    and "(if wi_Signals w AND wait_mask s AND port_bit (srv_TimerPort (srv s)) \<noteq> 0
          then APB_HandleTimer b else Some b) = Some s2"
    and "s3 = s2 \<or> s3 = APB_ReceiveFromClient s2"
    and "s4 = s3 \<or> s4 = REM_HandleSignal (wi_Signals w AND wait_mask s) (wi_Serial w) s3"
    and "APB_SrvReceiveFromRemote s4 = Some s5" and "APB_SrvSendToRemote s5 = Some s1"
proof -
  define sig where "sig = wi_Signals w AND wait_mask s"
  define a where "a = arrive (wi_Requests w) s"
  define b where "b = (if sig AND SIGBREAKF_CTRL_C \<noteq> 0 then set_state SS_DISCONNECTED a else a)"
  define t where "t = (if sig AND port_bit (srv_TimerPort (srv a)) \<noteq> 0 then APB_HandleTimer b else Some b)"
  define c where "c = (\<lambda>s2 :: 'a server_state_scheme. if sig AND port_bit (srv_ClientPort (srv a)) \<noteq> 0
                       then APB_ReceiveFromClient s2 else s2)"
  define d where "d = (\<lambda>s3 :: 'a server_state_scheme. if sig AND REM_GetSignalBits s \<noteq> 0
                       then REM_HandleSignal sig (wi_Serial w) s3 else s3)"
  have e: "APB_WaitForMessage w s = (case t of None \<Rightarrow> None | Some s2 \<Rightarrow>
      (case APB_SrvReceiveFromRemote (d (c s2)) of None \<Rightarrow> None | Some s5 \<Rightarrow> APB_SrvSendToRemote s5))"
    unfolding APB_WaitForMessage_def Let_def t_def b_def c_def d_def a_def sig_def ..
  then obtain s2 s5 where s2: "t = Some s2" and s5: "APB_SrvReceiveFromRemote (d (c s2)) = Some s5"
    and s1: "APB_SrvSendToRemote s5 = Some s1"
    using assms by (auto split: option.splits)
  show thesis
  proof (rule that [OF _ _ _ _ s5 s1])
    show "b = (if wi_Signals w AND wait_mask s AND SIGBREAKF_CTRL_C \<noteq> 0
          then set_state SS_DISCONNECTED (arrive (wi_Requests w) s) else arrive (wi_Requests w) s)"
      by (simp add: b_def a_def sig_def and.assoc)
    show "(if wi_Signals w AND wait_mask s AND port_bit (srv_TimerPort (srv s)) \<noteq> 0
          then APB_HandleTimer b else Some b) = Some s2"
      using s2 unfolding t_def a_def sig_def srv_arrive and.assoc .
    show "c s2 = s2 \<or> c s2 = APB_ReceiveFromClient s2" by (simp add: c_def)
    show "d (c s2) = c s2 \<or> d (c s2) = REM_HandleSignal (wi_Signals w AND wait_mask s) (wi_Serial w) (c s2)"
      by (simp add: d_def sig_def)
  qed
qed

section \<open>A relation along the handling of packets\<close>

locale packet_relation =
  fixes R :: "'a server_state_scheme \<Rightarrow> 'a server_state_scheme \<Rightarrow> bool"
  assumes refl: "R s s"
    and trans: "R s s1 \<Longrightarrow> R s1 s2 \<Longrightarrow> R s s2"
    and lower: "reader_state.more s1 = reader_state.more s \<Longrightarrow> R s s1"
    and counters: "srv_State (f (srv s)) = srv_State (srv s) \<Longrightarrow> R s (upd_srv f s)"
    and up: "R s (set_state SS_CONNECTED s)"
    and down: "R s (set_state SS_DISCONNECTED s)"
    and cnn_packet: "c \<in> set (cnns s) \<Longrightarrow> R s (APB_HandleConnectionPacket c ip s)"
begin

lemma send_ping:
  assumes "APB_SendPing s = Some s1"
  shows "R s s1"
proof -
  obtain p s0 where al: "APB_AllocPacket (of_nat sizeof_Packet) s = (p, s0)" by fastforce
  note r0 = lower [OF alloc_packet_more [OF al]]
  show ?thesis
  proof (cases p)
    case None
    then show ?thesis using assms al r0 by (simp add: APB_SendPing_def)
  next
    case (Some q)
    let ?t = "fill_packet q (pt_code PT_PING) DEFAULT_CONNECTION [] s0"
    obtain s2 where s2: "APB_SrvSendToRemote ?t = Some s2"
      and s1: "s1 = upd_srv (\<lambda>x. x\<lparr>srv_PingTimeoutTicks := PING_TICKS, srv_PingSendTicks := 0\<rparr>) s2"
      using assms al Some by (auto simp: APB_SendPing_def)
    have "R s0 s2" by (rule lower) (simp add: send_to_remote_more [OF s2])
    moreover have "R s2 s1" unfolding s1 by (rule counters) simp
    ultimately show ?thesis using trans [OF r0] trans by blast
  qed
qed

lemma control_packet:
  assumes "APB_HandleControlPacket ip s = Some s1"
  shows "R s s1"
proof -
  let ?ty = "ip_Type (h_InPac s ip)"
  let ?o = "if ?ty = pt_code PT_HELLO
           then APB_SendPing (APB_ConfigureServer ip (set_state SS_CONNECTED s))
           else if ?ty = pt_code PT_GOODBYE then Some (set_state SS_DISCONNECTED s)
           else if ?ty = pt_code PT_PONG then Some (upd_srv (\<lambda>x. x\<lparr>srv_MissedPingCount := 0\<rparr>) s)
           else if ?ty = pt_code PT_RESEND then Some (APB_HandleResendRequest ip s)
           else Some s"
  obtain s2 where s2: "?o = Some s2" and s1: "s1 = APB_ReleaseInPacket ip s2"
    using assms unfolding APB_HandleControlPacket_def Let_def by (cases ?o) auto
  have cfg: "R t (APB_ConfigureServer ip t)" for t by (rule lower) simp
  have rsd: "R s (APB_HandleResendRequest ip s)" by (rule lower) simp
  have hello: "R s t" if "APB_SendPing (APB_ConfigureServer ip (set_state SS_CONNECTED s)) = Some t" for t
    using trans [OF up trans [OF cfg send_ping [OF that]]] .
  have "R s s2"
    using s2 hello down [of s] counters [of "\<lambda>x. x\<lparr>srv_MissedPingCount := 0\<rparr>" s]
      rsd refl
    by (auto split: if_splits)
  moreover have "R s2 s1" unfolding s1 by (rule lower) simp
  ultimately show ?thesis by (rule trans)
qed

lemma noted: "R s (note_packet ip s)"
proof -
  let ?x = "h_InPac s ip"
  let ?s1 = "upd_srv (\<lambda>v. v\<lparr>srv_PingSendTicks := PING_TICKS, srv_PingTimeoutTicks := 0\<rparr>) s"
  have r1: "R s ?s1" by (rule counters) simp
  have r2: "R ?s1 (APB_RequestResend n ?s1)" for n
    by (rule lower) (simp add: APB_RequestResend_def request_resends_more)
  have r3: "R t (upd_srv (\<lambda>v. v\<lparr>srv_LastInPackId := n\<rparr>) t)" for t n by (rule counters) simp
  show ?thesis
    using r1 trans [OF r1 r3] trans [OF r1 trans [OF r2 r3]] by (simp add: note_packet_def Let_def)
qed

lemma packet:
  assumes "APB_HandlePacket ip s = Some s1"
  shows "R s s1"
proof (cases "ip_ConnId (h_InPac s ip) = DEFAULT_CONNECTION")
  case True
  then show ?thesis using assms trans [OF noted control_packet] by (simp add: APB_HandlePacket_def Let_def)
next
  case False
  let ?t = "note_packet ip s" and ?cid = "ip_ConnId (h_InPac s ip)"
  show ?thesis
  proof (cases "APB_FindConnection ?cid ?t")
    case None
    then obtain s2 where s2: "APB_SendError ?cid (ucast (pt_code PT_NO_CONNECTION)) ?t = Some s2"
      and s1: "s1 = APB_ReleaseInPacket ip s2"
      using assms False by (auto simp: APB_HandlePacket_def Let_def)
    have "R ?t s1" by (rule lower) (simp add: s1 send_error_more [OF s2])
    then show ?thesis by (rule trans [OF noted])
  next
    case (Some c)
    then have "c \<in> set (cnns ?t)" by (auto simp: APB_FindConnection_def find_Some_iff)
    then have "R ?t (APB_HandleConnectionPacket c ip ?t)" by (rule cnn_packet)
    then show ?thesis using assms False Some trans [OF noted] by (simp add: APB_HandlePacket_def Let_def)
  qed
qed

lemma packets:
  assumes "handle_packets s = Some s1"
  shows "R s s1"
proof (rule handle_packets.raw_induct [where P = R, OF _ assms])
  fix f and s s1 :: "'a server_state_scheme"
  assume IH: "\<And>s s1. f s = Some s1 \<Longrightarrow> R s s1"
    and r: "(if APB_ReaderQueueSize s > 0
      then case APB_DequeueInPacket s of
             (None, s1) \<Rightarrow> f (add_fault NullDeref s1)
           | (Some ip, s1) \<Rightarrow> (case APB_HandlePacket ip s1 of None \<Rightarrow> None | Some s2 \<Rightarrow> f s2)
      else Some s) = Some s1"
  show "R s s1"
  proof (cases "APB_ReaderQueueSize s > 0")
    case True
    obtain p s0 where d: "APB_DequeueInPacket s = (p, s0)" by fastforce
    note r0 = lower [OF APB_DequeueInPacket_more [OF d]]
    show ?thesis
    proof (cases p)
      case None
      then have "R (add_fault NullDeref s0) s1" using r True d by (intro IH) simp
      moreover have "R s0 (add_fault NullDeref s0)" by (rule lower) simp
      ultimately show ?thesis using r0 trans by blast
    next
      case (Some ip)
      then obtain s2 where s2: "APB_HandlePacket ip s0 = Some s2" "f s2 = Some s1"
        using r True d by (auto split: option.splits)
      show ?thesis using trans [OF r0 trans [OF packet [OF s2(1)] IH [OF s2(2)]]] .
    qed
  qed (use r refl in \<open>simp\<close>)
qed

lemma begin_read: "R s (APB_SrvBeginRead s)"
proof -
  define s1 where "s1 = (if (case srv_ReadBuffer (srv s) of None \<Rightarrow> True | Some b \<Rightarrow> BUF_FULL s b)
      then case APB_AllocateBuffer s of (None, s1) \<Rightarrow> s1
        | (Some b, s1) \<Rightarrow> upd_srv (\<lambda>x. x\<lparr>srv_ReadBuffer := Some b\<rparr>) s1
      else s)"
  obtain p s0 where al: "APB_AllocateBuffer s = (p, s0)" by fastforce
  have r0: "R s s0" by (rule lower) (rule reader_more_buf [OF APB_AllocateBuffer_more [OF al]])
  have c: "R s0 (upd_srv (\<lambda>x. x\<lparr>srv_ReadBuffer := Some b\<rparr>) s0)" for b by (rule counters) simp
  have r1: "R s s1"
    using al r0 refl trans [OF r0 c] by (cases p) (simp_all add: s1_def split: option.split)
  have e: "APB_SrvBeginRead s = (if \<not> REM_CanRead s1 then s1
      else case srv_ReadBuffer (srv s1) of None \<Rightarrow> REM_Read None (of_nat BUFFER_SIZE) (add_fault NullDeref s1)
        | Some b \<Rightarrow> REM_Read (Some (BUF_CURR s1 b)) (word_of_int (BUF_AVAIL s1 b)) s1)"
    unfolding APB_SrvBeginRead_def Let_def s1_def ..
  have "R s1 (APB_SrvBeginRead s)" unfolding e by (rule lower) (simp split: option.split)
  then show ?thesis by (rule trans [OF r1])
qed

lemma receive:
  assumes "APB_SrvReceiveFromRemote s = Some s1"
  shows "R s s1"
proof (cases "\<not> REM_CanRead s \<or> REM_BytesRead s = 0")
  case True
  then show ?thesis using assms refl by (simp add: APB_SrvReceiveFromRemote_def)
next
  case False
  show ?thesis
  proof (cases "srv_ReadBuffer (srv s)")
    case None
    have "R s (add_fault NullDeref s)" by (rule lower) simp
    then show ?thesis using assms False None by (simp add: APB_SrvReceiveFromRemote_def)
  next
    case (Some b)
    let ?t = "upd_buf b (\<lambda>x. x\<lparr>b_Offset := b_Offset x + REM_BytesRead s\<rparr>) s"
    obtain s2 where s2: "APB_ProcessBuffer b ?t = Some s2" "handle_packets (APB_SrvBeginRead s2) = Some s1"
      using assms False Some by (auto simp: APB_SrvReceiveFromRemote_def split: option.splits)
    have "R s s2"
      by (rule lower) (simp add: APB_ProcessBuffer_more [OF s2(1)] reader_more_buf [OF buf_more_upd_buf])
    then show ?thesis by (rule trans [OF _ trans [OF begin_read packets [OF s2(2)]]])
  qed
qed

end

end
