(* ===== verification/ServerRuns.thy ===== *)
theory ServerRuns
  imports ServerWalk
begin

text \<open>
  Whole runs of the server: every request is answered at most once, and the state machine of
  the main loop.
\<close>

section \<open>The books over a run\<close>

definition owed :: "'a server_state_scheme \<Rightarrow> addr multiset" where
  "owed s = answered s + waiting s + mset (client_msgs s)"

lemma owed_cong:
  assumes "cnns s1 = cnns s" "h_Cnn s1 = h_Cnn s" "replies s1 = replies s" "client_msgs s1 = client_msgs s"
  shows "owed s1 = owed s"
  using assms by (simp add: owed_def answered_def waiting_def queue_of_def)

lemma owed_lower:
  assumes "reader_state.more s1 = reader_state.more s"
  shows "owed s1 = owed s"
  using cnn_fields [OF assms] srv_fields [OF cnn_fields(5) [OF assms]] by (intro owed_cong)

lemma owed_books:
  assumes "books c X s s1" and "c \<in> set (cnns s)" and "set (cnns s1) = set (cnns s)"
    and "cnn_state.more s1 = cnn_state.more s"
  shows "owed s1 = owed s + X"
  using books_total [OF assms(1-3)] srv_fields [OF assms(4)] by (simp add: owed_def ac_simps)

lemma disconnected_owed:
  assumes "ip_Type (h_InPac s ip) = pt_code PT_DISCONNECTED"
  shows "owed (APB_HandleConnectionPacket c ip s) \<subseteq># owed s"
proof -
  let ?s = "APB_HandleConnectionPacket c ip s"
  let ?t = "APB_ReleaseInPacket ip (upd_cnn c (\<lambda>x. x\<lparr>cnn_State := CS_DISCONNECTED\<rparr>) s)"
  have e: "?s = APB_DestroyConnection c ?t" using assms by (simp add: APB_HandleConnectionPacket_def Let_def)
  have q: "queue_of ?s d = queue_of s d" for d unfolding e by (simp add: queue_of_def)
  have "set (cnns ?s) \<subseteq> set (cnns s)" unfolding e using set_remove1_subset [of c "cnns s"] by simp
  then have "(\<Sum>c \<in> set (cnns ?s). mset (queue_of s c)) \<subseteq># (\<Sum>c \<in> set (cnns s). mset (queue_of s c))"
    by (intro sum_subset_mset) simp_all
  then have "waiting ?s \<subseteq># waiting s" by (simp add: waiting_def q)
  moreover have "replies ?s = replies s" "client_msgs ?s = client_msgs s"
    using srv_fields(2) [OF APB_HandleConnectionPacket_more, of c ip s] unfolding e by simp_all
  ultimately show ?thesis by (simp add: owed_def answered_def)
qed

lemma connection_packet_owed:
  assumes "c \<in> set (cnns s)"
  shows "owed (APB_HandleConnectionPacket c ip s) \<subseteq># owed s"
proof (cases "ip_Type (h_InPac s ip) = pt_code PT_DISCONNECTED")
  case True
  then show ?thesis by (rule disconnected_owed)
next
  case False
  from owed_books [OF connection_packet_books(1) [OF False] assms]
  show ?thesis by (simp add: connection_packet_books(2) [OF False])
qed

interpretation books: packet_relation "\<lambda>s s1. owed s1 \<subseteq># owed s"
proof unfold_locales
  fix s s1 s2 :: "'a server_state_scheme" and f c ip
  show "owed s \<subseteq># owed s" by simp
  show "owed s1 \<subseteq># owed s \<Longrightarrow> owed s2 \<subseteq># owed s1 \<Longrightarrow> owed s2 \<subseteq># owed s"
    by (rule subset_mset.order_trans)
  show "reader_state.more s1 = reader_state.more s \<Longrightarrow> owed s1 \<subseteq># owed s"
    using owed_lower [of s1 s] by simp
  have "owed (upd_srv f s) = owed s" "owed (set_state st s) = owed s" for st
    by (rule owed_cong; simp)+
  then show "owed (upd_srv f s) \<subseteq># owed s" "owed (set_state SS_CONNECTED s) \<subseteq># owed s"
    "owed (set_state SS_DISCONNECTED s) \<subseteq># owed s"
    by simp_all
  show "c \<in> set (cnns s) \<Longrightarrow> owed (APB_HandleConnectionPacket c ip s) \<subseteq># owed s"
    by (rule connection_packet_owed)
qed

text \<open>A request from the port adds itself, unless there is no memory for its connection.\<close>

lemma client_request_owed:
  assumes "c \<in> set (cnns s)"
  shows "owed (APB_HandleClientRequest c r s) = owed s + {#r#}"
  using owed_books [OF client_request_books assms] by simp

lemma create_connection_owed:
  assumes "APB_CreateConnection i s = (p, s1)"
  shows "owed s1 \<subseteq># owed s"
proof -
  obtain q s0 where al: "APB_AllocObject OT_CONNECTION
      (register_missing OT_CONNECTION ''Connection'' sizeof_Connection 5 1000 s) = (q, s0)" by fastforce
  have m: "reader_state.more s0 = reader_state.more s"
    using reader_more_pool [OF APB_AllocObject_more [OF al]]
    by (simp add: register_missing_def reader_more_pool [OF APB_RegisterObjectType_more])
  have o0: "owed s0 = owed s" by (rule owed_lower [OF m])
  show ?thesis
  proof (cases q)
    case None
    then show ?thesis using assms al o0 by (simp add: APB_CreateConnection_def)
  next
    case (Some c)
    let ?t = "upd_cnn c (\<lambda>x. x\<lparr>cnn_Id := i, cnn_HandlerId := 0, cnn_PacketQueue := [], cnn_ReqQueue := []\<rparr>) s0"
    have s1: "s1 = ?t\<lparr>cnns := cnns s0 @ [c]\<rparr>" using assms al Some by (simp add: APB_CreateConnection_def)
    have q: "queue_of s1 d = (if d = c then [] else queue_of s0 d)" for d by (simp add: s1 queue_of_def)
    have S: "set (cnns s1) = insert c (set (cnns s0))" by (simp add: s1)
    have "waiting s1 = (\<Sum>d \<in> set (cnns s0) - {c}. mset (queue_of s0 d))"
      unfolding waiting_def S by (subst sum.insert_remove) (simp_all add: q)
    also have "\<dots> \<subseteq># waiting s0"
      unfolding waiting_def by (rule sum_subset_mset) auto
    finally have "waiting s1 \<subseteq># waiting s0" .
    moreover have "replies s1 = replies s0" "client_msgs s1 = client_msgs s0" by (simp_all add: s1 upd_cnn_def)
    ultimately show ?thesis unfolding o0 [symmetric] by (simp add: owed_def answered_def)
  qed
qed

lemma receive_one_owed: "owed (receive_one r s) \<subseteq># owed s + {#r#}"
proof -
  have upd: "owed (upd_req r f t) = owed t" for f and t :: "'a server_state_scheme"
    by (rule owed_cong) (simp_all add: upd_req_def)
  have rep: "owed (ReplyMsg r t) = owed t + {#r#}" for t :: "'a server_state_scheme"
    using srv_fields(2) [OF ReplyMsg_frame(18), of r t]
    by (simp add: owed_def answered_def waiting_def queue_of_def ac_simps)
  have rst: "owed (reply_state r st t) = owed t + {#r#}" for st and t :: "'a server_state_scheme"
    by (simp add: reply_state_def rep upd)
  have srv: "owed (upd_srv f t) = owed t" "owed (set_state st t) = owed t"
    "owed (t\<lparr>log_level := l\<rparr>) = owed t" for f st l and t :: "'a server_state_scheme"
    by (rule owed_cong; simp)+
  have opened: "owed (case APB_CreateConnection i t of (None, s1) \<Rightarrow> add_fault NullDeref s1
      | (Some c, s1) \<Rightarrow> APB_HandleClientRequest c r s1) \<subseteq># owed t + {#r#}"
    for i and t :: "'a server_state_scheme"
  proof -
    obtain p s1 where c: "APB_CreateConnection i t = (p, s1)" by fastforce
    note o = create_connection_owed [OF c]
    show ?thesis
    proof (cases p)
      case None
      have "owed (add_fault NullDeref s1) = owed s1"
        by (rule owed_lower) (rule reader_more_pool [OF add_fault_more])
      moreover have "owed t \<subseteq># owed t + {#r#}" by simp
      ultimately show ?thesis using c None o subset_mset.order_trans by fastforce
    next
      case (Some d)
      then have "d \<in> set (cnns s1)" using APB_CreateConnection_more(4) [OF c] by simp
      from client_request_owed [OF this, of r] show ?thesis using c Some o by simp
    qed
  qed
  show ?thesis
  proof (cases "r_ConnId (h_Req s r) = DEFAULT_CONNECTION")
    case True
    let ?s = "upd_req r (\<lambda>x. x\<lparr>r_State := APB_RS_OK\<rparr>) s"
    have "owed (APB_HandleClientControlMessage r s) \<subseteq># owed ?s + {#r#}"
      using opened [of "srv_NextConnId (srv ?s)" "upd_srv (\<lambda>x. x\<lparr>srv_NextConnId := srv_NextConnId x + 1\<rparr>) ?s"]
      by (simp add: APB_HandleClientControlMessage_def Let_def rep rst srv)
    then show ?thesis using True by (simp add: receive_one_def upd)
  next
    case False
    show ?thesis
    proof (cases "APB_FindConnection (r_ConnId (h_Req s r)) s")
      case None
      then show ?thesis using False by (simp add: receive_one_def rst)
    next
      case (Some c)
      then have "c \<in> set (cnns s)" by (auto simp: APB_FindConnection_def find_Some_iff)
      then show ?thesis using False Some by (simp add: receive_one_def client_request_owed)
    qed
  qed
qed

lemma receive_all_owed: "owed (receive_all rs s) \<subseteq># owed s + mset rs"
proof (induction rs arbitrary: s)
  case (Cons r rs)
  have "owed (receive_all rs (receive_one r s)) \<subseteq># owed (receive_one r s) + mset rs" by (rule Cons.IH)
  also have "\<dots> \<subseteq># (owed s + {#r#}) + mset rs"
    by (rule subset_mset.add_right_mono [OF receive_one_owed])
  finally show ?case by simp
qed simp

lemma receive_from_client_owed: "owed (APB_ReceiveFromClient s) \<subseteq># owed s"
  using receive_all_owed [of "client_msgs s" "s\<lparr>client_msgs := []\<rparr>"]
  by (simp add: APB_ReceiveFromClient_def owed_def answered_def waiting_def queue_of_def)

lemma check_all_owed:
  assumes "set cs \<subseteq> set (cnns s)"
  shows "owed (check_all_timeouts cs s) = owed s"
  using assms
proof (induction cs arbitrary: s)
  case (Cons c cs)
  have "owed (APB_CnnCheckRequestTimeouts c s) = owed s"
    using owed_books [OF check_cnn_books, of c s] Cons.prems by (simp add: APB_CnnCheckRequestTimeouts_def)
  then show ?case using Cons by (simp add: APB_CnnCheckRequestTimeouts_def)
qed simp

lemma enable_owed: "owed (APB_EnableTimer ms s) = owed s"
  and upd_srv_owed: "owed (upd_srv f s) = owed s"
  and set_state_owed: "owed (set_state st s) = owed s"
  by (rule owed_cong; simp)+

lemma tick_owed:
  assumes "tick s = Some s1"
  shows "owed s1 \<subseteq># owed s"
proof (cases "srv_State (srv s) = SS_CONNECTED")
  case True
  then obtain s3 where s3: "ping_send (upd_srv ping_timeout s) = Some s3"
    and c: "s1 = APB_CheckRequestTimeouts s3"
    using assms by (auto simp: tick_def)
  have "owed s3 \<subseteq># owed (upd_srv ping_timeout s)"
    using s3 books.send_ping [of "upd_srv ping_timeout s" s3]
    by (auto simp: ping_send_def upd_srv_owed split: if_splits)
  then show ?thesis by (simp add: c APB_CheckRequestTimeouts_def check_all_owed upd_srv_owed)
next
  case False
  then show ?thesis
    using assms by (cases "srv_State (srv s)") (auto simp: tick_def set_state_owed)
qed

lemma timer_owed:
  assumes "APB_HandleTimer s = Some s1"
  shows "owed s1 \<subseteq># owed s"
  using assms tick_owed by (elim timer_steps) (auto simp: enable_owed)

text \<open>What came to the port while the server waited.\<close>

lemma arrive_owed: "owed (arrive reqs s) \<subseteq># owed s + mset (map fst reqs)"
  by (simp add: arrive_def owed_def answered_def waiting_def queue_of_def ac_simps)

lemma wait_owed:
  assumes "APB_WaitForMessage w s = Some s1"
  shows "owed s1 \<subseteq># owed s + mset (map fst (wi_Requests w))"
  using assms
proof (rule wait_steps)
  fix b s2 s3 s4 s5
  let ?a = "arrive (wi_Requests w) s"
  assume "b = (if wi_Signals w AND wait_mask s AND SIGBREAKF_CTRL_C \<noteq> 0 then set_state SS_DISCONNECTED ?a else ?a)"
    and t: "(if wi_Signals w AND wait_mask s AND port_bit (srv_TimerPort (srv s)) \<noteq> 0
      then APB_HandleTimer b else Some b) = Some s2"
    and c: "s3 = s2 \<or> s3 = APB_ReceiveFromClient s2"
    and d: "s4 = s3 \<or> s4 = REM_HandleSignal (wi_Signals w AND wait_mask s) (wi_Serial w) s3"
    and s5: "APB_SrvReceiveFromRemote s4 = Some s5" and s1: "APB_SrvSendToRemote s5 = Some s1"
  then have "owed b = owed ?a" by (simp add: set_state_owed)
  then have "owed s2 \<subseteq># owed ?a" using t timer_owed [of b s2] by (auto split: if_splits)
  moreover have "owed s3 \<subseteq># owed s2" using c receive_from_client_owed [of s2] by auto
  moreover have "owed s4 = owed s3" using d owed_lower [OF rem_ops_upper(8)] by auto
  moreover have "owed s1 \<subseteq># owed s4"
    using books.receive [OF s5] owed_lower [OF send_to_remote_more [OF s1]] by simp
  ultimately have "owed s1 \<subseteq># owed ?a" by (metis subset_mset.order_trans)
  then show ?thesis using arrive_owed subset_mset.order_trans by blast
qed

lemma send_init_more:
  assumes "APB_SendInit s = Some (r, s1)"
  shows "reader_state.more s1 = reader_state.more s \<or>
    reader_state.more s1 = reader_state.more (set_state SS_WAIT_FOR_CONNECT s)"
proof -
  obtain p s0 where al: "APB_AllocPacket (of_nat sizeof_Packet + 4) s = (p, s0)" by fastforce
  note m = alloc_packet_more [OF al]
  have "reader_state.more (set_state st s0) = reader_state.more (set_state st s)" for st
    using m by (cases s, cases s0) (simp add: set_state_def upd_srv_def)
  then show ?thesis
    using assms al m by (cases p) (auto simp: APB_SendInit_def dest: send_to_remote_more)
qed

lemma send_shutdown_more:
  assumes "APB_SendShutdown s = Some (r, s1)"
  shows "reader_state.more s1 = reader_state.more s"
proof -
  obtain p s0 where al: "APB_AllocPacket (of_nat sizeof_Packet) s = (p, s0)" by fastforce
  then show ?thesis
    using assms alloc_packet_more [OF al] by (cases p) (auto simp: APB_SendShutdown_def dest: send_to_remote_more)
qed

definition arrivals :: "run_input \<Rightarrow> addr multiset" where
  "arrivals i = mset (map fst (wi_Requests (ri_Wait i)))"

lemma delete_port_owed: "owed (APB_DeletePort p s) = owed s"
proof (cases p)
  case None
  then show ?thesis by (simp add: APB_DeletePort_def)
next
  case (Some i)
  have f: "replies (fold ReplyMsg ms t) = replies t @ map (\<lambda>r. (r, h_Req t r)) ms"
    "cnns (fold ReplyMsg ms t) = cnns t" "h_Cnn (fold ReplyMsg ms t) = h_Cnn t" for ms and t :: "'a server_state_scheme"
    by (induction ms arbitrary: t) simp_all
  have m: "map (fst \<circ> (\<lambda>r. (r, h_Req s r))) ms = ms" for ms by (induction ms) simp_all
  show ?thesis
    using Some by (simp add: APB_DeletePort_def owed_def answered_def waiting_def queue_of_def f m ac_simps)
qed

lemma run_step_owed:
  assumes st: "run_step i (k, s) = Some (k1, s1)"
  shows "owed s1 \<subseteq># owed s + arrivals i"
proof -
  have wait: "owed s1 \<subseteq># owed t + arrivals i"
    if "map_option (Pair k) (APB_WaitForMessage (ri_Wait i) t) = Some (k1, s1)" for t
    using that wait_owed [of "ri_Wait i" t s1] by (auto simp: arrivals_def)
  have up: "owed s1 \<subseteq># owed s + arrivals i" if "owed s1 \<subseteq># owed s"
    using subset_mset.order_trans [OF that] by simp
  show ?thesis
  proof (cases "srv_State (srv s)")
    case SS_OPENING_REMOTE
    obtain ok s0 where o: "REM_OpenRemote (ri_Open i) s = (ok, s0)" by fastforce
    have "reader_state.more s0 = reader_state.more s"
      using rem_ops_more(5) [of "ri_Open i" s] o by (intro reader_more_rem) simp
    then have "owed s0 = owed s" by (rule owed_lower)
    then have "owed s1 \<subseteq># owed s"
      using st SS_OPENING_REMOTE o books.begin_read [of s0]
      by (auto simp: run_step_def set_state_owed split: if_splits)
    then show ?thesis by (rule up)
  next
    case SS_CONNECTING
    obtain ok s0 where o: "APB_SendInit s = Some (ok, s0)"
      using st SS_CONNECTING by (cases "APB_SendInit s") (auto simp: run_step_def)
    have "owed s0 = owed s" using send_init_more [OF o] owed_lower set_state_owed by metis
    then show ?thesis
      using st SS_CONNECTING o wait [of s0] up by (cases ok) (auto simp: run_step_def set_state_owed)
  next
    case SS_DISCONNECTING
    obtain ok s0 where o: "APB_SendShutdown s = Some (ok, s0)"
      using st SS_DISCONNECTING by (cases "APB_SendShutdown s") (auto simp: run_step_def)
    have "owed s0 = owed s" using send_shutdown_more [OF o] owed_lower by metis
    then show ?thesis
      using st SS_DISCONNECTING o wait [of s0] up by (cases ok) (auto simp: run_step_def set_state_owed)
  next
    case SS_CLOSING_REMOTE
    have "owed (REM_CloseRemote s) = owed s"
      by (rule owed_lower) (simp add: reader_more_rem [OF rem_ops_more(4)])
    then show ?thesis using st SS_CLOSING_REMOTE up by (auto simp: run_step_def set_state_owed)
  qed (use st wait up in \<open>auto simp: run_step_def APB_OpenClient_def Let_def upd_srv_owed set_state_owed
      delete_port_owed\<close>)
qed

lemma run_rounds_owed:
  "run_rounds is (k, s) = Some (k1, s1) \<Longrightarrow> owed s1 \<subseteq># owed s + sum_list (map arrivals is)"
proof (induction "is" arbitrary: k s)
  case (Cons i "is")
  show ?case
  proof (cases "srv_State (srv s) = SS_STOPPED")
    case True
    then show ?thesis using Cons.prems by (simp add: subset_mset.add_increasing2)
  next
    case False
    then obtain k2 s2 where s2: "run_step i (k, s) = Some (k2, s2)" "run_rounds is (k2, s2) = Some (k1, s1)"
      using Cons.prems by (auto split: option.splits)
    have "owed s1 \<subseteq># owed s2 + sum_list (map arrivals is)" by (rule Cons.IH [OF s2(2)])
    also have "\<dots> \<subseteq># (owed s + arrivals i) + sum_list (map arrivals is)"
      by (rule subset_mset.add_right_mono [OF run_step_owed [OF s2(1)]])
    finally show ?thesis by (simp add: ac_simps)
  qed
qed simp

end
