(* ===== verification/ServerMachine.thy ===== *)
theory ServerMachine
  imports ServerRuns
begin

text \<open>
  The state machine of the main loop: an abstract machine over \<open>retryCount\<close> and \<open>srv_State\<close>
  alone, which every round of the loop follows whatever comes in.
\<close>

section \<open>The abstract machine\<close>

text \<open>What a wait can make of the state it begins with.\<close>

inductive wait_next :: "srv_state \<Rightarrow> srv_state \<Rightarrow> bool" where
  W_Same: "wait_next st st"
| W_Up: "wait_next st SS_CONNECTED"
| W_Down: "wait_next st SS_DISCONNECTED"
| W_Failed: "wait_next SS_WAIT_FOR_CONNECT SS_CONNECT_FAILED"
| W_Lost: "wait_next SS_CONNECTED SS_CONNECTION_LOST"

inductive machine :: "u16 \<times> srv_state \<Rightarrow> u16 \<times> srv_state \<Rightarrow> bool" where
  M_Start: "machine (k, SS_STARTING) (RETRIES, SS_OPENING_REMOTE)"
| M_Remote: "machine (k, SS_OPENING_REMOTE) (k, SS_OPENING_CLIENT)"
| M_No_Remote: "machine (k, SS_OPENING_REMOTE) (k, SS_STOPPING)"
| M_Client: "machine (k, SS_OPENING_CLIENT) (k, SS_CONNECTING)"
| M_No_Client: "machine (k, SS_OPENING_CLIENT) (k, SS_STOPPING)"
| M_Init: "wait_next SS_WAIT_FOR_CONNECT st \<Longrightarrow> machine (k, SS_CONNECTING) (k, st)"
| M_No_Init: "machine (k, SS_CONNECTING) (k, SS_STOPPING)"
| M_Wait: "wait_next SS_WAIT_FOR_CONNECT st \<Longrightarrow> machine (k, SS_WAIT_FOR_CONNECT) (k, st)"
| M_Retry: "k \<noteq> 1 \<Longrightarrow> machine (k, SS_CONNECT_FAILED) (k - 1, SS_CONNECTING)"
| M_Give_Up: "machine (1, SS_CONNECT_FAILED) (0, SS_STOPPING)"
| M_Connected: "wait_next SS_CONNECTED st \<Longrightarrow> machine (k, SS_CONNECTED) (k, st)"
| M_Lost: "machine (k, SS_CONNECTION_LOST) (k, SS_CONNECTING)"
| M_Disconnected: "machine (k, SS_DISCONNECTED) (k, SS_STOPPING)"
| M_Stopping: "machine (k, SS_STOPPING) (k, SS_CLOSING_CLIENT)"
| M_Closing_Client: "machine (k, SS_CLOSING_CLIENT) (k, SS_CLOSING_REMOTE)"
| M_Closing_Remote: "machine (k, SS_CLOSING_REMOTE) (k, SS_STOPPED)"

inductive_cases wait_next_from_wait: "wait_next SS_WAIT_FOR_CONNECT st"
inductive_cases wait_next_from_connected: "wait_next SS_CONNECTED st"
inductive_cases wait_next_from_disconnected: "wait_next SS_DISCONNECTED st"

text \<open>The states a run can be in, with the values \<open>retryCount\<close> has there.\<close>

definition machine_inv :: "u16 \<times> srv_state \<Rightarrow> bool" where
  "machine_inv x \<longleftrightarrow> (case x of (k, st) \<Rightarrow>
     st \<noteq> SS_DISCONNECTING \<and> st \<noteq> SS_WAIT_FOR_DISCONNECT \<and> k \<le> RETRIES \<and>
     (k = 0 \<longrightarrow> st \<in> {SS_STOPPING, SS_CLOSING_CLIENT, SS_CLOSING_REMOTE, SS_STOPPED}))"

lemma retry_less: "k \<le> RETRIES \<Longrightarrow> k \<noteq> 0 \<Longrightarrow> k - 1 \<le> RETRIES"
proof -
  assume k: "k \<le> RETRIES" "k \<noteq> 0"
  then have "unat (k - 1) = unat k - 1" by (intro unat_pred_u16) (simp add: unat_gt_0)
  then show ?thesis using k(1) by (simp add: word_le_nat_alt RETRIES_def)
qed

lemma machine_keeps: "machine x y \<Longrightarrow> machine_inv x \<Longrightarrow> machine_inv y"
proof (induction rule: machine.induct)
  case (M_Retry k)
  then show ?case using retry_less [of k] by (auto simp: machine_inv_def)
qed (auto simp: machine_inv_def RETRIES_def elim: wait_next_from_wait wait_next_from_connected)

lemma machine_reach: "machine\<^sup>*\<^sup>* x y \<Longrightarrow> machine_inv x \<Longrightarrow> machine_inv y"
  by (induction rule: rtranclp_induct) (auto intro: machine_keeps)

section \<open>The server follows it\<close>

definition steps_to :: "'a server_state_scheme \<Rightarrow> 'a server_state_scheme \<Rightarrow> bool" where
  "steps_to s s1 \<longleftrightarrow> srv_State (srv s1) = srv_State (srv s) \<or>
     srv_State (srv s1) = SS_CONNECTED \<or> srv_State (srv s1) = SS_DISCONNECTED"

lemma steps_lower:
  assumes "reader_state.more s1 = reader_state.more s"
  shows "srv s1 = srv s"
  using srv_fields(1) [OF cnn_fields(5) [OF assms]] .

lemma srv_fill [simp]: "srv (fill_packet p ty cn xs s) = srv s"
  by (rule steps_lower) simp

interpretation states: packet_relation steps_to
proof unfold_locales
  fix s s1 s2 :: "'a server_state_scheme" and f c ip
  show "reader_state.more s1 = reader_state.more s \<Longrightarrow> steps_to s s1"
    using steps_lower [of s1 s] by (simp add: steps_to_def)
  show "steps_to s (APB_HandleConnectionPacket c ip s)"
    using srv_fields(1) [OF APB_HandleConnectionPacket_more, of c ip s] by (simp add: steps_to_def)
qed (auto simp: steps_to_def)

lemma control_message_steps: "steps_to s (APB_HandleClientControlMessage r s)"
proof -
  have c: "srv (case APB_CreateConnection i t of (None, s1) \<Rightarrow> add_fault NullDeref s1
      | (Some c, s1) \<Rightarrow> APB_HandleClientRequest c r s1) = srv t" for i and t :: "'a server_state_scheme"
  proof -
    obtain p s1 where c: "APB_CreateConnection i t = (p, s1)" by fastforce
    note m = srv_fields(1) [OF APB_CreateConnection_more(1) [OF c]]
    show ?thesis
      using c m srv_fields(1) [OF APB_HandleClientRequest_more(1), of _ r s1]
        steps_lower [OF reader_more_pool [OF add_fault_more], of NullDeref s1]
      by (cases p) simp_all
  qed
  have u: "srv (upd_req r f t) = srv t" "srv (ReplyMsg r t) = srv t" "srv (reply_state r st t) = srv t"
    for f st and t :: "'a server_state_scheme"
    by (simp_all add: upd_req_def ReplyMsg_def reply_state_def)
  show ?thesis by (simp add: APB_HandleClientControlMessage_def Let_def steps_to_def c u)
qed

lemma receive_one_steps: "steps_to s (receive_one r s)"
  using control_message_steps [of s r] srv_fields(1) [OF APB_HandleClientRequest_more(1), of _ r s]
  by (auto simp: receive_one_def steps_to_def reply_state_def upd_req_def ReplyMsg_def split: option.split)

lemma receive_all_steps: "steps_to s (receive_all rs s)"
proof (induction rs arbitrary: s)
  case (Cons r rs)
  show ?case using states.trans [OF receive_one_steps Cons.IH] by simp
qed (simp add: states.refl)

lemma receive_from_client_steps: "steps_to s (APB_ReceiveFromClient s)"
  using receive_all_steps [of "s\<lparr>client_msgs := []\<rparr>" "client_msgs s"]
  by (simp add: APB_ReceiveFromClient_def steps_to_def)

lemma check_all_srv: "srv (APB_CheckRequestTimeouts s) = srv s"
  using srv_fields(1) [OF cnn_ops_more(5)] .

lemma tick_next:
  assumes "tick s = Some s1"
  shows "wait_next (srv_State (srv s)) (srv_State (srv s1)) \<or>
    srv_State (srv s) = SS_DISCONNECTING \<and> srv_State (srv s1) = SS_DISCONNECTED"
proof (cases "srv_State (srv s) = SS_CONNECTED")
  case True
  then obtain s3 where s3: "ping_send (upd_srv ping_timeout s) = Some s3"
    and c: "s1 = APB_CheckRequestTimeouts s3"
    using assms by (auto simp: tick_def)
  have "steps_to (upd_srv ping_timeout s) s3"
    using s3 states.send_ping [of "upd_srv ping_timeout s" s3]
    by (auto simp: ping_send_def steps_to_def split: if_splits)
  moreover have "srv_State (ping_timeout (srv s)) = SS_CONNECTED \<or>
      srv_State (ping_timeout (srv s)) = SS_CONNECTION_LOST"
    using True by (simp add: ping_timeout_def Let_def)
  ultimately show ?thesis
    using True by (auto simp: c check_all_srv steps_to_def intro: wait_next.intros)
next
  case False
  then show ?thesis
    using assms by (cases "srv_State (srv s)") (auto simp: tick_def intro: wait_next.intros)
qed

lemma wait_next_steps:
  "wait_next st (srv_State (srv s)) \<Longrightarrow> steps_to s s1 \<Longrightarrow> wait_next st (srv_State (srv s1))"
  by (auto simp: steps_to_def intro: wait_next.intros)

lemma wait_machine:
  assumes "APB_WaitForMessage w s = Some s1" and "srv_State (srv s) \<noteq> SS_DISCONNECTING"
  shows "wait_next (srv_State (srv s)) (srv_State (srv s1))"
  using assms(1)
proof (rule wait_steps)
  fix b s2 s3 s4 s5
  let ?a = "arrive (wi_Requests w) s"
  assume b: "b = (if wi_Signals w AND wait_mask s AND SIGBREAKF_CTRL_C \<noteq> 0 then set_state SS_DISCONNECTED ?a else ?a)"
    and t: "(if wi_Signals w AND wait_mask s AND port_bit (srv_TimerPort (srv s)) \<noteq> 0
      then APB_HandleTimer b else Some b) = Some s2"
    and c: "s3 = s2 \<or> s3 = APB_ReceiveFromClient s2"
    and d: "s4 = s3 \<or> s4 = REM_HandleSignal (wi_Signals w AND wait_mask s) (wi_Serial w) s3"
    and s5: "APB_SrvReceiveFromRemote s4 = Some s5" and s1: "APB_SrvSendToRemote s5 = Some s1"
  have b': "srv_State (srv b) = SS_DISCONNECTED \<or> srv_State (srv b) = srv_State (srv s)" by (simp add: b)
  have "wait_next (srv_State (srv s)) (srv_State (srv s2))"
  proof (cases "s2 = b")
    case True
    then show ?thesis using b' by (auto intro: wait_next.intros)
  next
    case False
    then have "APB_HandleTimer b = Some s2" using t by (auto split: if_splits)
    then obtain s0 where s0: "tick b = Some s0" "srv s2 = srv s0" by (rule timer_steps)
    have "srv_State (srv b) \<noteq> SS_DISCONNECTING" using b' assms(2) by auto
    then have "wait_next (srv_State (srv b)) (srv_State (srv s0))" using tick_next [OF s0(1)] by blast
    then show ?thesis
    proof (cases "srv_State (srv b) = srv_State (srv s)")
      case False
      then have "wait_next SS_DISCONNECTED (srv_State (srv s0))"
        using b' \<open>wait_next (srv_State (srv b)) (srv_State (srv s0))\<close> by simp
      then show ?thesis
        by (rule wait_next_from_disconnected) (simp_all add: s0(2) wait_next.intros)
    qed (simp add: s0(2))
  qed
  moreover have "steps_to s2 s3" using c receive_from_client_steps [of s2] states.refl by auto
  moreover have "steps_to s3 s4" using d states.refl states.lower [OF rem_ops_upper(8)] by auto
  moreover have "steps_to s5 s1" by (rule states.lower [OF send_to_remote_more [OF s1]])
  ultimately show ?thesis using states.receive [OF s5] wait_next_steps by blast
qed

lemma retry_one: "(k :: u16) - 1 = 0 \<longleftrightarrow> k = 1"
  by (metis diff_add_cancel add_0_left diff_self)

lemma run_step_machine:
  assumes st: "run_step i (k, s) = Some (k1, s1)"
    and "srv_State (srv s) \<notin> {SS_DISCONNECTING, SS_WAIT_FOR_DISCONNECT, SS_STOPPED}"
  shows "machine (k, srv_State (srv s)) (k1, srv_State (srv s1))"
proof (cases "srv_State (srv s)")
  case SS_OPENING_REMOTE
  then show ?thesis using st by (auto simp: run_step_def intro: machine.intros split: prod.splits if_splits)
next
  case SS_OPENING_CLIENT
  then show ?thesis
    using st by (auto simp: run_step_def APB_OpenClient_def Let_def intro: machine.intros split: if_splits)
next
  case SS_CONNECTING
  obtain ok s0 where o: "APB_SendInit s = Some (ok, s0)"
    using st SS_CONNECTING by (cases "APB_SendInit s") (auto simp: run_step_def)
  show ?thesis
  proof (cases ok)
    case False
    then show ?thesis using st SS_CONNECTING o by (auto simp: run_step_def intro: machine.intros)
  next
    case True
    obtain p t where al: "APB_AllocPacket (of_nat sizeof_Packet + 4) s = (p, t)" by fastforce
    then have "srv s0 = srv (set_state SS_WAIT_FOR_CONNECT t)"
      using o True
      by (cases p) (auto simp: APB_SendInit_def dest!: send_to_remote_more steps_lower)
    moreover have "APB_WaitForMessage (ri_Wait i) s0 = Some s1" "k1 = k"
      using st SS_CONNECTING o True by (auto simp: run_step_def)
    ultimately have "wait_next SS_WAIT_FOR_CONNECT (srv_State (srv s1))"
      using wait_machine [of "ri_Wait i" s0 s1] by simp
    then show ?thesis using SS_CONNECTING \<open>k1 = k\<close> by (auto intro: machine.intros)
  qed
next
  case SS_WAIT_FOR_CONNECT
  then show ?thesis
    using st wait_machine [of "ri_Wait i" s s1] by (auto simp: run_step_def intro: machine.intros)
next
  case SS_CONNECTED
  then show ?thesis
    using st wait_machine [of "ri_Wait i" s s1] by (auto simp: run_step_def intro: machine.intros)
next
  case SS_CONNECT_FAILED
  then show ?thesis
    using st retry_one [of k] by (auto simp: run_step_def intro: machine.intros)
qed (use assms in \<open>auto simp: run_step_def intro: machine.intros\<close>)

lemma run_rounds_machine:
  "run_rounds is (k, s) = Some (k1, s1) \<Longrightarrow> machine_inv (k, srv_State (srv s)) \<Longrightarrow>
     machine\<^sup>*\<^sup>* (k, srv_State (srv s)) (k1, srv_State (srv s1))"
proof (induction "is" arbitrary: k s)
  case (Cons i "is")
  show ?case
  proof (cases "srv_State (srv s) = SS_STOPPED")
    case True
    then show ?thesis using Cons.prems(1) by simp
  next
    case False
    then obtain k2 s2 where s2: "run_step i (k, s) = Some (k2, s2)" "run_rounds is (k2, s2) = Some (k1, s1)"
      using Cons.prems(1) by (auto split: option.splits)
    have m: "machine (k, srv_State (srv s)) (k2, srv_State (srv s2))"
      by (rule run_step_machine [OF s2(1)]) (use Cons.prems(2) False in \<open>auto simp: machine_inv_def\<close>)
    from Cons.IH [OF s2(2) machine_keeps [OF m Cons.prems(2)]] m show ?thesis
      by (rule converse_rtranclp_into_rtranclp [rotated])
  qed
qed simp

lemma run_init_machine: "machine_inv (fst (run_init s), srv_State (srv (snd (run_init s))))"
  by (simp add: run_init_def machine_inv_def RETRIES_def)

end
