(* ===== verification/ReaderCorrect.thy ===== *)
theory ReaderCorrect
  imports PacketReader
begin

text \<open>
  What \<open>APB_ProcessBuffer\<close> reads: the unread bytes of the chain are one stream, whatever buffer
  they lie in, and a round of the loop depends on that stream alone. The stream of the reader's
  first buffer continues in the next one when the first is full.
\<close>

section \<open>The unread bytes\<close>

definition left :: "'a reader_state_scheme \<Rightarrow> addr \<Rightarrow> nat" where
  "left s ib = unat (BUF_BYTES s ib) - unat (ib_Offset (h_InBuf s ib))"

definition vlen :: "'a reader_state_scheme \<Rightarrow> addr \<Rightarrow> nat" where
  "vlen s ib = left s ib +
     (case ib_Next (h_InBuf s ib) of None \<Rightarrow> 0 | Some ib2 \<Rightarrow> unat (BUF_BYTES s ib2))"

definition vmem :: "'a reader_state_scheme \<Rightarrow> addr \<Rightarrow> bytes" where
  "vmem s ib k =
     (if k < left s ib then ib_data s ib (unat (ib_Offset (h_InBuf s ib)) + k)
      else case ib_Next (h_InBuf s ib) of None \<Rightarrow> 0 | Some ib2 \<Rightarrow> ib_data s ib2 (k - left s ib))"

text \<open>A buffer the loop may stand at: only a full buffer has a successor, still untouched.\<close>

definition cur_ok :: "'a reader_state_scheme \<Rightarrow> addr \<Rightarrow> bool" where
  "cur_ok s ib \<longleftrightarrow> ib_Offset (h_InBuf s ib) \<le> BUF_BYTES s ib \<and>
     unat (BUF_BYTES s ib) \<le> BUFFER_SIZE \<and> even (unat (ib_Offset (h_InBuf s ib))) \<and>
     (case ib_Next (h_InBuf s ib) of
        None \<Rightarrow> True
      | Some ib2 \<Rightarrow> ib2 \<noteq> ib \<and> unat (BUF_BYTES s ib) = BUFFER_SIZE \<and>
          ib_Offset (h_InBuf s ib2) = 0 \<and> unat (BUF_BYTES s ib2) \<le> BUFFER_SIZE \<and>
          ib_Next (h_InBuf s ib2) = None)"

lemma cur_okD:
  assumes "cur_ok s ib"
  shows "unat (ib_Offset (h_InBuf s ib)) \<le> unat (BUF_BYTES s ib)" "unat (BUF_BYTES s ib) \<le> 4096"
    "even (unat (ib_Offset (h_InBuf s ib)))"
    "unat (BUF_BYTES s ib - ib_Offset (h_InBuf s ib)) = left s ib"
    "ib_Next (h_InBuf s ib) = Some ib2 \<Longrightarrow> ib2 \<noteq> ib \<and> unat (BUF_BYTES s ib) = 4096 \<and>
       ib_Offset (h_InBuf s ib2) = 0 \<and> unat (BUF_BYTES s ib2) \<le> 4096 \<and> ib_Next (h_InBuf s ib2) = None"
    "left s ib \<le> 4096"
  using assms by (auto simp: cur_ok_def word_le_nat_alt unat_sub_u16 left_def BUFFER_SIZE_def)

lemma left_even:
  assumes "cur_ok s ib" and "unat (BUF_BYTES s ib) = BUFFER_SIZE"
  shows "even (left s ib)"
  using cur_okD(1,3) [OF assms(1)] assms(2) by (simp add: left_def BUFFER_SIZE_def)

lemma read_header_ok:
  assumes ok: "cur_ok s ib"
  shows "(vlen s ib < sizeof_Packet \<longrightarrow> read_header ib s = None) \<and>
    (sizeof_Packet \<le> vlen s ib \<longrightarrow> (\<exists>hdr.
       read_header ib s = Some (hdr, if left s ib < sizeof_Packet then ib_Next (h_InBuf s ib) else None,
         of_nat (if left s ib < sizeof_Packet then sizeof_Packet - left s ib else sizeof_Packet)) \<and>
       (\<forall>k < sizeof_Packet. hdr k = vmem s ib k)))"
proof -
  note d = cur_okD [OF ok]
  show ?thesis
  proof (cases "left s ib < sizeof_Packet")
    case False
    have "\<forall>k < sizeof_Packet. copy_mem (ib_data s ib) (unat (ib_Offset (h_InBuf s ib))) (\<lambda>_. 0) 0 sizeof_Packet k =
        vmem s ib k" using False by (simp add: vmem_def copy_mem_def)
    then show ?thesis using False d(4) by (auto simp: read_header_def Let_def vlen_def)
  next
    case small: True
    show ?thesis
    proof (cases "ib_Next (h_InBuf s ib)")
      case None
      then show ?thesis using small d(4) by (auto simp: read_header_def Let_def vlen_def)
    next
      case (Some ib2)
      note n = d(5) [OF Some]
      let ?c = "of_nat sizeof_Packet - (BUF_BYTES s ib - ib_Offset (h_InBuf s ib)) :: u16"
      have c: "unat ?c = sizeof_Packet - left s ib"
        using small d(4) by (subst unat_sub_u16) simp_all
      then have c': "?c = of_nat (sizeof_Packet - left s ib)"
        by (simp add: word_unat_eq_iff unat_of_nat_u16)
      have lt: "BUF_BYTES s ib2 < ?c \<longleftrightarrow> vlen s ib < sizeof_Packet"
        unfolding word_less_nat_alt c vlen_def Some option.case using small by linarith
      let ?h = "copy_mem (ib_data s ib2) 0 (copy_mem (ib_data s ib) (unat (ib_Offset (h_InBuf s ib)))
          (\<lambda>_. 0) 0 (left s ib)) (left s ib) (sizeof_Packet - left s ib)"
      have "read_header ib s = (if BUF_BYTES s ib2 < ?c then None else Some (?h, Some ib2, ?c))"
        using small n c by (simp add: read_header_def Let_def d(4) Some BUFFER_SIZE_def)
      moreover have "\<forall>k < sizeof_Packet. ?h k = vmem s ib k"
        using small by (simp add: vmem_def copy_mem_def Some)
      ultimately show ?thesis using small lt c' Some by simp
    qed
  qed
qed

text \<open>The bytes at a pointer the reader made, and the data of an InPacket.\<close>

definition ptr_byte :: "'a buf_state_scheme \<Rightarrow> bptr option \<Rightarrow> nat \<Rightarrow> u8" where
  "ptr_byte s p k = (case p of None \<Rightarrow> 0 | Some (b, i) \<Rightarrow> buf_data s b (i + k))"

definition ptr_bytes :: "'a buf_state_scheme \<Rightarrow> bptr option \<Rightarrow> nat \<Rightarrow> u8 list" where
  "ptr_bytes s p n = map (ptr_byte s p) [0..<n]"

lemma ptr_byte_ib [simp]: "ptr_byte s (ib_ptr s ib i) k = ib_data s ib (i + k)"
  by (simp add: ptr_byte_def ib_ptr_def ib_data_def)

definition ptr_in :: "'a buf_state_scheme \<Rightarrow> bptr option \<Rightarrow> nat \<Rightarrow> bool" where
  "ptr_in s p n \<longleftrightarrow> (case p of None \<Rightarrow> n = 0 | Some (b, i) \<Rightarrow> i + n \<le> buf_offset s b)"

lemma ptr_in_ib [simp]: "ptr_in s (ib_ptr s ib i) n \<longleftrightarrow> i + n \<le> unat (BUF_BYTES s ib)"
  by (simp add: ptr_in_def ib_ptr_def BUF_BYTES_def)

lemma ptr_in_None [simp]: "ptr_in s None n \<longleftrightarrow> n = 0"
  by (simp add: ptr_in_def)

text \<open>Where the reader finds \<open>len\<close> bytes of data and a pad byte behind the header.\<close>

definition dp_ok :: "'a reader_state_scheme \<Rightarrow> addr \<Rightarrow> nat \<Rightarrow> nat \<Rightarrow> data_pos \<Rightarrow> bool" where
  "dp_ok s ib len pad dp \<longleftrightarrow>
     ptr_in s (dp_Data1 dp) (unat (dp_Len1 dp)) \<and> ptr_in s (dp_Data2 dp) (unat (dp_Len2 dp)) \<and>
     unat (dp_Len1 dp) + unat (dp_Len2 dp) = len \<and>
     (0 < len \<longrightarrow> 0 < unat (dp_Len1 dp)) \<and>
     (0 < unat (dp_Len2 dp) \<longrightarrow> even (unat (dp_Len1 dp))) \<and>
     (even (len + pad) \<longrightarrow>
       (\<forall>k < unat (dp_Len1 dp) + (if unat (dp_Len2 dp) = 0 then pad else 0).
          ptr_byte s (dp_Data1 dp) k = vmem s ib (sizeof_Packet + k)) \<and>
       (0 < unat (dp_Len2 dp) \<longrightarrow> (\<forall>k < unat (dp_Len2 dp) + pad.
          ptr_byte s (dp_Data2 dp) k = vmem s ib (sizeof_Packet + unat (dp_Len1 dp) + k)))) \<and>
     (case dp_Ib2 dp of
        None \<Rightarrow> unat (dp_Consumed dp) = sizeof_Packet + len \<and> sizeof_Packet + len + pad \<le> left s ib
      | Some ib2 \<Rightarrow> ib_Next (h_InBuf s ib) = Some ib2 \<and>
          unat (dp_Consumed dp) + left s ib = sizeof_Packet + len \<and>
          left s ib \<le> sizeof_Packet + len)"

lemma locate_data_ok:
  assumes ok: "cur_ok s ib" and len: "0 < unat len" "unat len \<le> 4096" and odd: "unat oddSize \<le> 1"
    and hd: "sizeof_Packet \<le> vlen s ib"
  defines "h \<equiv> (if left s ib < sizeof_Packet then ib_Next (h_InBuf s ib) else None)"
    and "c \<equiv> of_nat (if left s ib < sizeof_Packet then sizeof_Packet - left s ib else sizeof_Packet) :: u16"
  shows "(vlen s ib < sizeof_Packet + unat len + unat oddSize \<longrightarrow> locate_data ib h c len oddSize s = None) \<and>
    (sizeof_Packet + unat len + unat oddSize \<le> vlen s ib \<longrightarrow>
       (\<exists>dp. locate_data ib h c len oddSize s = Some dp \<and> dp_ok s ib (unat len) (unat oddSize) dp))"
proof -
  note d = cur_okD [OF ok]
  have dl: "unat (len + oddSize) = unat len + unat oddSize"
    using len odd by (intro unat_add_u16_small) simp
  show ?thesis
  proof (cases "left s ib < sizeof_Packet")
    case small: True
    then obtain ib2 where n: "ib_Next (h_InBuf s ib) = Some ib2"
      using hd by (cases "ib_Next (h_InBuf s ib)") (auto simp: vlen_def)
    have c: "unat c = sizeof_Packet - left s ib" 
      unfolding c_def if_P [OF small] by (rule unat_of_nat_u16) simp
    have cl: "unat (c + len) = sizeof_Packet - left s ib + unat len"
      using c len small by (subst unat_add_u16_small) simp_all
    have v: "vlen s ib = left s ib + unat (BUF_BYTES s ib2)" by (simp add: vlen_def n)
    let ?dp = "\<lparr>dp_Ib2 = Some ib2, dp_Data1 = ib_ptr s ib2 (sizeof_Packet - left s ib), dp_Len1 = len,
        dp_Data2 = None, dp_Len2 = 0, dp_Consumed = c + len\<rparr>"
    have "locate_data ib h c len oddSize s =
        (if unat (BUF_BYTES s ib2) < unat (len + oddSize) + unat c then None else Some ?dp)"
      using small n d(4) by (simp add: locate_data_def h_def Let_def)
    moreover have "unat (BUF_BYTES s ib2) < unat (len + oddSize) + unat c \<longleftrightarrow>
        vlen s ib < sizeof_Packet + unat len + unat oddSize"
      using small by (auto simp: v dl c)
    moreover have "dp_ok s ib (unat len) (unat oddSize) ?dp"
      if "\<not> unat (BUF_BYTES s ib2) < unat (len + oddSize) + unat c"
      using that small len by (simp add: dp_ok_def n cl vmem_def c dl)
    ultimately show ?thesis by simp
  next
    case big: False
    then have h: "h = None" and c: "unat c = sizeof_Packet" by (simp_all add: h_def c_def)
    show ?thesis
    proof (cases "left s ib = sizeof_Packet \<and> unat (BUF_BYTES s ib) = BUFFER_SIZE")
      case True
      show ?thesis
      proof (cases "ib_Next (h_InBuf s ib)")
        case None
        then show ?thesis using True len(1) d(4) h by (simp add: locate_data_def Let_def vlen_def)
      next
        case (Some ib2)
        let ?dp = "\<lparr>dp_Ib2 = Some ib2, dp_Data1 = ib_ptr s ib2 0, dp_Len1 = len,
            dp_Data2 = None, dp_Len2 = 0, dp_Consumed = len\<rparr>"
        have "locate_data ib h c len oddSize s =
            (if BUF_BYTES s ib2 < len + oddSize then None else Some ?dp)"
          using True Some d(4) h by (simp add: locate_data_def Let_def)
        moreover have "BUF_BYTES s ib2 < len + oddSize \<longleftrightarrow>
            vlen s ib < sizeof_Packet + unat len + unat oddSize"
          using True by (auto simp: vlen_def Some word_less_nat_alt dl)
        moreover have "dp_ok s ib (unat len) (unat oddSize) ?dp" if "\<not> BUF_BYTES s ib2 < len + oddSize"
          using that True len by (simp add: dp_ok_def Some vmem_def word_less_nat_alt dl)
        ultimately show ?thesis by simp
      qed
    next
      case notbound: False
      show ?thesis
      proof (cases "left s ib - sizeof_Packet < unat (len + oddSize)")
        case fits: False
        let ?dp = "\<lparr>dp_Ib2 = None, dp_Data1 = ib_ptr s ib (unat (ib_Offset (h_InBuf s ib)) + sizeof_Packet),
            dp_Len1 = len, dp_Data2 = None, dp_Len2 = 0, dp_Consumed = c + len\<rparr>"
        have "locate_data ib h c len oddSize s = Some ?dp"
          using fits notbound d(4) h by (auto simp: locate_data_def Let_def)
        moreover have "unat (c + len) = sizeof_Packet + unat len"
          using c len by (subst unat_add_u16_small) simp_all
        moreover have le: "sizeof_Packet + unat len + unat oddSize \<le> left s ib"
          using fits big dl by simp
        ultimately have "dp_ok s ib (unat len) (unat oddSize) ?dp"
          using len d(1) by (simp add: dp_ok_def vmem_def ac_simps left_def)
        then show ?thesis using \<open>locate_data ib h c len oddSize s = Some ?dp\<close> le
          by (auto simp: vlen_def)
      next
        case split: True
        show ?thesis
        proof (cases "ib_Next (h_InBuf s ib)")
          case None
          then have "locate_data ib h c len oddSize s = None"
            using split notbound d(4) h by (auto simp: locate_data_def Let_def)
          moreover have "vlen s ib < sizeof_Packet + unat len + unat oddSize"
            using None split big dl by (simp add: vlen_def)
          ultimately show ?thesis by simp
        next
          case (Some ib2)
          note n = d(5) [OF Some]
          have full: "unat (BUF_BYTES s ib) = BUFFER_SIZE" using n by (simp add: BUFFER_SIZE_def)
          define l1 where "l1 = BUF_BYTES s ib - ib_Offset (h_InBuf s ib) - of_nat sizeof_Packet"
          have l1: "unat l1 = left s ib - sizeof_Packet"
            using big d(4) by (simp add: l1_def unat_sub_u16)
          have ev: "even (left s ib)" by (rule left_even [OF ok full])
          have "left s ib > sizeof_Packet" using big notbound full by simp
          have le: "unat l1 \<le> unat len" using split dl odd l1 by linarith
          have e1: "even (unat l1)" using l1 ev big by simp
          have "even (n + p) \<Longrightarrow> l \<le> n \<Longrightarrow> even l \<Longrightarrow> l < n + p \<Longrightarrow> p \<le> 1 \<Longrightarrow> l < n" for l n p :: nat
            by presburger
          from this [OF _ le e1 _ odd] have lt: "even (unat len + unat oddSize) \<Longrightarrow> unat l1 < unat len"
            using split dl l1 by simp
          have l2: "unat (len - l1) = unat len - unat l1" by (rule unat_sub_u16 [OF le])
          let ?dp = "\<lparr>dp_Ib2 = Some ib2,
              dp_Data1 = ib_ptr s ib (unat (ib_Offset (h_InBuf s ib)) + sizeof_Packet), dp_Len1 = l1,
              dp_Data2 = ib_ptr s ib2 0, dp_Len2 = len - l1, dp_Consumed = len - l1\<rparr>"
          have "locate_data ib h c len oddSize s =
              (if unat (BUF_BYTES s ib2) < unat (len - l1) + unat oddSize then None else Some ?dp)"
            using split notbound full d(4) h Some by (auto simp: locate_data_def Let_def l1_def)
          moreover have "unat (BUF_BYTES s ib2) < unat (len - l1) + unat oddSize \<longleftrightarrow>
              vlen s ib < sizeof_Packet + unat len + unat oddSize"
            using l1 l2 le big by (auto simp: vlen_def Some)
          moreover have "unat (ib_Offset (h_InBuf s ib)) + sizeof_Packet + unat l1 \<le> unat (BUF_BYTES s ib)"
            using l1 big d(1) by (simp add: left_def)
          moreover have "dp_ok s ib (unat len) (unat oddSize) ?dp"
            if "unat (ib_Offset (h_InBuf s ib)) + sizeof_Packet + unat l1 \<le> unat (BUF_BYTES s ib)"
              "\<not> unat (BUF_BYTES s ib2) < unat (len - l1) + unat oddSize"
            using that l1 l2 lt le big e1 \<open>left s ib > sizeof_Packet\<close>
            by (auto simp: dp_ok_def Some vmem_def ac_simps)
          ultimately show ?thesis by simp
        qed
      qed
    qed
  qed
qed

section \<open>The checksum over the pieces\<close>

lemma add_data_even:
  assumes "unat len = 2 * n"
  shows "add_data acc p len s = Some (acc + of_nat (word_sum (ptr_byte s p) 0 n))"
proof (cases p)
  case None
  then show ?thesis
    using APB_AddToChecksum_even [OF assms, of acc "\<lambda>_. 0" 0]
    by (simp add: add_data_def ptr_byte_def [abs_def])
next
  case (Some q)
  obtain b i where q: "q = (b, i)" by fastforce
  have "word_sum (buf_data s b) i n = word_sum (ptr_byte s p) 0 n"
    using word_sum_shift [of "buf_data s b" i 0 n] by (simp add: Some q ptr_byte_def [abs_def])
  then show ?thesis
    using APB_AddToChecksum_even [OF assms, of acc "buf_data s b" i] by (simp add: add_data_def Some q)
qed

lemma add_data_odd: "odd (unat len) \<Longrightarrow> add_data acc p len s = None"
  by (auto simp: add_data_def APB_AddToChecksum_odd split: option.split)

lemma word_sum_ptr:
  assumes "\<And>k. k < 2 * n \<Longrightarrow> ptr_byte s p k = m (j + k)"
  shows "word_sum (ptr_byte s p) 0 n = word_sum m j n"
proof -
  have "word_sum (ptr_byte s p) 0 n = word_sum (\<lambda>k. m (j + k)) 0 n"
    by (rule word_sum_cong) (simp add: assms)
  also have "\<dots> = word_sum m j n" using word_sum_shift [of m j 0 n] by simp
  finally show ?thesis .
qed

lemma packet_sum_ok:
  assumes dp: "dp_ok s ib len (unat oddSize) dp" and hd: "\<forall>k < sizeof_Packet. hdr k = vmem s ib k"
    and z: "len = 0 \<Longrightarrow> oddSize = 0" and le: "len \<le> 4096" "unat oddSize \<le> 1"
  shows "(even (len + unat oddSize) \<longrightarrow> packet_sum hdr dp oddSize s =
      Some (of_nat (word_sum (vmem s ib) 0 ((sizeof_Packet + len + unat oddSize) div 2)))) \<and>
    (odd (len + unat oddSize) \<longrightarrow> packet_sum hdr dp oddSize s = None)"
proof -
  let ?m = "vmem s ib" and ?l1 = "unat (dp_Len1 dp)" and ?l2 = "unat (dp_Len2 dp)" and ?p = "unat oddSize"
  note d = dp [unfolded dp_ok_def]
  have len: "?l1 + ?l2 = len" and l1: "0 < len \<Longrightarrow> 0 < ?l1" and ev: "0 < ?l2 \<Longrightarrow> even ?l1"
    using d by simp_all
  have "word_sum hdr 0 7 = word_sum ?m 0 7" by (rule word_sum_cong) (simp add: hd)
  then have h: "APB_AddToChecksum 0 hdr 0 (of_nat sizeof_Packet) = Some (of_nat (word_sum ?m 0 7))"
    using APB_AddToChecksum_even [of 14 7 0 hdr 0] by simp
  have s1: "unat (dp_Len1 dp + oddSize) = ?l1 + ?p" and s2: "unat (dp_Len2 dp + oddSize) = ?l2 + ?p"
    using len le by (intro unat_add_u16_small, simp)+
  have pos1: "dp_Len1 dp > 0 \<longleftrightarrow> 0 < len" and pos2: "dp_Len2 dp > 0 \<longleftrightarrow> 0 < ?l2"
    using l1 len by (auto simp: u16_gt_0)
  show ?thesis
  proof (cases "len = 0")
    case True
    then show ?thesis using h z pos1 by (simp add: packet_sum_def)
  next
    case nz: False
    show ?thesis
    proof (cases "0 < ?l2")
      case False
      then have l: "?l1 = len" using len by simp
      have ps: "packet_sum hdr dp oddSize s =
          add_data (of_nat (word_sum ?m 0 7)) (dp_Data1 dp) (dp_Len1 dp + oddSize) s"
        using h nz False pos1 pos2 by (simp add: packet_sum_def)
      show ?thesis
      proof (cases "even (len + ?p)")
        case True
        then obtain n where n: "len + ?p = 2 * n" by (elim evenE)
        have w: "word_sum (ptr_byte s (dp_Data1 dp)) 0 n = word_sum ?m sizeof_Packet n"
          using d True False l n by (intro word_sum_ptr) simp
        have u: "unat (dp_Len1 dp + oddSize) = 2 * n" using s1 l n by simp
        have "packet_sum hdr dp oddSize s =
            Some (of_nat (word_sum ?m 0 7) + of_nat (word_sum ?m (0 + 2 * 7) n))"
          unfolding ps add_data_even [OF u] w by simp
        moreover have "(sizeof_Packet + len + ?p) div 2 = 7 + n" using n by simp
        ultimately show ?thesis using True by (simp add: word_sum_add)
      next
        case False
        then show ?thesis using ps s1 l by (simp add: add_data_odd)
      qed
    next
      case two: True
      have "even ?l1" using ev two by simp
      then obtain n1 where n1: "?l1 = 2 * n1" by (elim evenE)
      show ?thesis
      proof (cases "even (len + ?p)")
        case True
        then have "even (?l2 + ?p)" unfolding len [symmetric] n1 by simp
        then obtain n2 where n2: "?l2 + ?p = 2 * n2" by (elim evenE)
        have a1: "add_data acc (dp_Data1 dp) (dp_Len1 dp) s =
            Some (acc + of_nat (word_sum ?m sizeof_Packet n1))" for acc
        proof -
          have "word_sum (ptr_byte s (dp_Data1 dp)) 0 n1 = word_sum ?m sizeof_Packet n1"
            using d True two n1 by (intro word_sum_ptr) simp
          then show ?thesis unfolding add_data_even [OF n1] by simp
        qed
        have a2: "add_data acc (dp_Data2 dp) (dp_Len2 dp + oddSize) s =
            Some (acc + of_nat (word_sum ?m (sizeof_Packet + 2 * n1) n2))" for acc
        proof -
          have w: "word_sum (ptr_byte s (dp_Data2 dp)) 0 n2 = word_sum ?m (sizeof_Packet + 2 * n1) n2"
            using d True two n1 n2 by (intro word_sum_ptr) simp
          have u: "unat (dp_Len2 dp + oddSize) = 2 * n2" using s2 n2 by simp
          show ?thesis unfolding add_data_even [OF u] w ..
        qed
        have "packet_sum hdr dp oddSize s = Some (of_nat (word_sum ?m 0 7) +
            of_nat (word_sum ?m (0 + 2 * 7) n1) + of_nat (word_sum ?m (0 + 2 * (7 + n1)) n2))"
          using h nz two pos1 pos2 a1 a2 by (simp add: packet_sum_def)
        also have "\<dots> = Some (of_nat (word_sum ?m 0 ((7 + n1) + n2)))"
          unfolding word_sum_add [of ?m 0 "7 + n1" n2] word_sum_add [of ?m 0 7 n1] by simp
        finally have "packet_sum hdr dp oddSize s = Some (of_nat (word_sum ?m 0 (7 + n1 + n2)))" .
        moreover have "(sizeof_Packet + len + ?p) div 2 = 7 + n1 + n2" using n1 n2 len by linarith
        ultimately show ?thesis using True by simp
      next
        case False
        then have "odd (?l2 + ?p)" unfolding len [symmetric] n1 by simp
        then have "add_data acc (dp_Data2 dp) (dp_Len2 dp + oddSize) s = None" for acc
          using s2 by (simp add: add_data_odd)
        moreover have "add_data acc (dp_Data1 dp) (dp_Len1 dp) s \<noteq> None" for acc
          by (simp add: add_data_even [OF n1])
        ultimately show ?thesis
          using False h nz two pos1 pos2 by (auto simp: packet_sum_def split: option.split)
      qed
    qed
  qed
qed

section \<open>A round depends on the stream alone\<close>

text \<open>The header's pad byte counts only with data.\<close>

definition data_len :: "bytes \<Rightarrow> nat" where
  "data_len m = unat (get16 m 12)"

definition pad_of :: "bytes \<Rightarrow> nat" where
  "pad_of m = (if 0 < data_len m \<and> bit (m 5) 0 then 1 else 0)"

definition total :: "bytes \<Rightarrow> nat" where
  "total m = sizeof_Packet + data_len m + pad_of m"

lemma pad_bit: "(f AND PF_PAD_BYTE \<noteq> 0) = bit (f :: u8) 0"
  by (simp add: PF_PAD_BYTE_def and_one_eq mod_2_eq_odd bit_0)

datatype verdict = Wait | Bad | Hang | Accept

definition verdict :: "bytes \<Rightarrow> nat \<Rightarrow> verdict" where
  "verdict m n =
     (if n < sizeof_Packet then Wait
      else if get32 m 0 \<noteq> PACKET_ID \<or> data_len m > BUFFER_SIZE then Bad
      else if n < total m then Wait
      else if odd (total m) then Hang
      else if word_sum m 0 (total m div 2) mod 65535 = 1 then Accept else Bad)"

lemma checksum_total:
  assumes "n \<le> 8192"
  shows "APB_CompleteChecksum (of_nat (word_sum m 0 (n div 2))) = 0xFFFF \<longleftrightarrow>
    word_sum m 0 (n div 2) mod 65535 = 1"
proof -
  have "word_sum m 0 (n div 2) \<le> n div 2 * 65535" by (rule word_sum_bound)
  also have "\<dots> \<le> 4096 * 65535" using assms by (intro mult_right_mono) simp_all
  finally have "unat (of_nat (word_sum m 0 (n div 2)) :: u32) = word_sum m 0 (n div 2)"
    by (simp add: unat_of_nat)
  then show ?thesis by (simp add: APB_CompleteChecksum_accepts)
qed

lemma process_step_verdict:
  assumes ok: "cur_ok s ib"
  shows "case verdict (vmem s ib) (vlen s ib) of
      Wait \<Rightarrow> process_step ib s = Some (Break s)
    | Hang \<Rightarrow> process_step ib s = None
    | Bad \<Rightarrow> (\<exists>ib2 \<in> {None, ib_Next (h_InBuf s ib)}. process_step ib s = Some (bad_data ib ib2 s))
    | Accept \<Rightarrow> (\<exists>dp. process_step ib s =
          Some (queue_packet ib (packet_at (vmem s ib) 0) dp (of_nat (pad_of (vmem s ib))) s) \<and>
        dp_ok s ib (data_len (vmem s ib)) (pad_of (vmem s ib)) dp)"
proof -
  let ?m = "vmem s ib" and ?n = "vlen s ib"
  note rh = read_header_ok [OF ok]
  show ?thesis
  proof (cases "?n < sizeof_Packet")
    case True
    then show ?thesis using rh by (simp add: verdict_def process_step_def)
  next
    case False
    define h where "h = (if left s ib < sizeof_Packet then ib_Next (h_InBuf s ib) else None)"
    define c where "c = (of_nat (if left s ib < sizeof_Packet then sizeof_Packet - left s ib
      else sizeof_Packet) :: u16)"
    from rh False obtain hdr where r: "read_header ib s = Some (hdr, h, c)"
      and hd: "\<forall>k < sizeof_Packet. hdr k = ?m k"
      unfolding h_def c_def by (auto simp del: of_nat_diff)
    have hn: "h \<in> {None, ib_Next (h_InBuf s ib)}" by (simp add: h_def)
    define p where "p = packet_at ?m 0"
    have p: "packet_at hdr 0 = p" unfolding p_def by (rule packet_at_cong) (simp add: hd)
    have f: "pac_Id p = get32 ?m 0" "pac_Length p = get16 ?m 12" "unat (pac_Length p) = data_len ?m"
      "pac_Flags p = ?m 5"
      by (simp_all add: p_def packet_at_def data_len_def)
    show ?thesis
    proof (cases "get32 ?m 0 \<noteq> PACKET_ID \<or> data_len ?m > BUFFER_SIZE")
      case True
      then have "process_step ib s = Some (bad_data ib h s)"
        using f by (auto simp: process_step_def r p Let_def)
      then show ?thesis using False True hn by (auto simp: verdict_def)
    next
      case good: False
      define odd where "odd = (if pac_Length p > 0 \<and> pac_Flags p AND PF_PAD_BYTE \<noteq> 0 then 1 else 0 :: u16)"
      have o: "unat odd = pad_of ?m" "odd = of_nat (pad_of ?m)"
        by (simp_all add: odd_def pad_of_def f pad_bit u16_gt_0 data_len_def)
      have o1: "unat odd \<le> 1" by (simp add: odd_def)
      have le: "data_len ?m \<le> 4096" using good by (simp add: BUFFER_SIZE_def)
      let ?dp0 = "\<lparr>dp_Ib2 = h, dp_Data1 = None, dp_Len1 = 0, dp_Data2 = None, dp_Len2 = 0, dp_Consumed = c\<rparr>"
      define ld where "ld = (if pac_Length p > 0 then locate_data ib h c (pac_Length p) odd s else Some ?dp0)"
      have ps: "process_step ib s = (case ld of
            None \<Rightarrow> Some (Break s)
          | Some dp \<Rightarrow> (case packet_sum hdr dp odd s of
               None \<Rightarrow> None
             | Some acc \<Rightarrow> if APB_CompleteChecksum acc \<noteq> 0xFFFF then Some (bad_data ib (dp_Ib2 dp) s)
                 else Some (queue_packet ib p dp odd s)))"
        unfolding process_step_def r option.case prod.case Let_def p odd_def [symmetric] ld_def [symmetric]
        using good f by simp
      have ld: "(?n < total ?m \<longrightarrow> ld = None) \<and>
          (total ?m \<le> ?n \<longrightarrow> (\<exists>dp. ld = Some dp \<and> dp_ok s ib (data_len ?m) (pad_of ?m) dp))"
      proof (cases "pac_Length p > 0")
        case True
        then have pos: "0 < unat (pac_Length p)" by (simp add: u16_gt_0)
        have len: "unat (pac_Length p) \<le> 4096" using le f by simp
        have hd14: "sizeof_Packet \<le> ?n" using False by simp
        from locate_data_ok [OF ok pos len o1 hd14] show ?thesis
          unfolding ld_def if_P [OF True] h_def [symmetric] c_def [symmetric] total_def f(3) o(1) .
      next
        case z: False
        then have l0: "data_len ?m = 0" using f by (simp add: u16_gt_0)
        then have "total ?m = sizeof_Packet" by (simp add: total_def pad_of_def)
        moreover have "dp_ok s ib (data_len ?m) (pad_of ?m) ?dp0"
        proof (cases "left s ib < sizeof_Packet")
          case True
          then obtain ib2 where "ib_Next (h_InBuf s ib) = Some ib2"
            using False by (cases "ib_Next (h_InBuf s ib)") (auto simp: vlen_def)
          moreover have "unat c = sizeof_Packet - left s ib"
            unfolding c_def if_P [OF True] by (rule unat_of_nat_u16) simp
          ultimately show ?thesis using True l0 by (simp add: dp_ok_def pad_of_def h_def)
        next
          case False
          then have "unat c = sizeof_Packet" "h = None" by (simp_all add: c_def h_def)
          then show ?thesis using False l0 by (simp add: dp_ok_def pad_of_def)
        qed
        ultimately show ?thesis using z False by (simp add: ld_def)
      qed
      show ?thesis
      proof (cases "?n < total ?m")
        case True
        then show ?thesis using ld ps good False by (simp add: verdict_def)
      next
        case full: False
        then obtain dp where dp: "ld = Some dp" "dp_ok s ib (data_len ?m) (pad_of ?m) dp"
          using ld by auto
        have ib2: "dp_Ib2 dp \<in> {None, ib_Next (h_InBuf s ib)}"
          using dp(2) by (cases "dp_Ib2 dp") (auto simp: dp_ok_def)
        have z: "odd = 0" if "data_len ?m = 0" using that f by (simp add: odd_def u16_gt_0)
        have sm: "(even (total ?m) \<longrightarrow> packet_sum hdr dp odd s = Some (of_nat (word_sum ?m 0 (total ?m div 2)))) \<and>
            (\<not> even (total ?m) \<longrightarrow> packet_sum hdr dp odd s = None)"
          using packet_sum_ok [OF dp(2) [folded o(1)] hd z le o1] by (simp add: total_def o(1))
        have t: "total ?m \<le> 8192" using le o1 o(1) by (simp add: total_def)
        show ?thesis
        proof (cases "even (total ?m)")
          case False
          then show ?thesis using sm ps dp good full \<open>\<not> ?n < sizeof_Packet\<close> by (simp add: verdict_def)
        next
          case True
          with sm ps dp(1) have ps': "process_step ib s =
              (if word_sum ?m 0 (total ?m div 2) mod 65535 \<noteq> 1 then Some (bad_data ib (dp_Ib2 dp) s)
               else Some (queue_packet ib p dp odd s))"
            by (simp add: checksum_total [OF t])
          then show ?thesis
            using True dp good full ib2 \<open>\<not> ?n < sizeof_Packet\<close> o(2)
            by (auto simp: verdict_def p_def)
        qed
      qed
    qed
  qed
qed

section \<open>Queueing a packet\<close>

definition new_in_packet :: "addr \<Rightarrow> packet \<Rightarrow> data_pos \<Rightarrow> in_packet" where
  "new_in_packet ib p dp = \<lparr>ip_InBuf = ib, ip_Type = pac_Type p, ip_Flags = pac_Flags p,
     ip_ConnId = pac_ConnId p, ip_PackId = pac_PackId p, ip_Offset = 0,
     ip_Data1Length = dp_Len1 dp, ip_Data2Length = dp_Len2 dp,
     ip_Data1 = dp_Data1 dp, ip_Data2 = dp_Data2 dp\<rparr>"

definition dp_buf :: "addr \<Rightarrow> data_pos \<Rightarrow> addr" where
  "dp_buf ib dp = (case dp_Ib2 dp of None \<Rightarrow> ib | Some ib2 \<Rightarrow> ib2)"

text \<open>What a queued packet changes, and what it leaves alone.\<close>

definition queued :: "addr \<Rightarrow> addr \<Rightarrow> packet \<Rightarrow> data_pos \<Rightarrow> u16 \<Rightarrow>
    'a reader_state_scheme \<Rightarrow> 'a reader_state_scheme \<Rightarrow> bool" where
  "queued ip ib p dp pb s s2 \<longleftrightarrow>
     h_InPac s2 = (h_InPac s)(ip := new_in_packet ib p dp) \<and>
     pr_Queue (pr s2) = pr_Queue (pr s) @ [ip] \<and> pr_QueueSize (pr s2) = pr_QueueSize (pr s) + 1 \<and>
     pr_InBuf (pr s2) = Some (dp_buf ib dp) \<and> pr_Addr (pr s2) = pr_Addr (pr s) \<and>
     (\<forall>c. ib_Buf (h_InBuf s2 c) = ib_Buf (h_InBuf s c) \<and> ib_Next (h_InBuf s2 c) = ib_Next (h_InBuf s c) \<and>
        ib_CanRelease (h_InBuf s2 c) = ib_CanRelease (h_InBuf s c) \<and>
        ib_PacketCount (h_InBuf s2 c) = ib_PacketCount (h_InBuf s c) +
          (if c = ib then 1 else 0) + (if dp_Ib2 dp = Some c then 1 else 0) \<and>
        ib_Offset (h_InBuf s2 c) = (if c = dp_buf ib dp
          then ib_Offset (h_InBuf s c) + (dp_Consumed dp + pb) else ib_Offset (h_InBuf s c))) \<and>
     h_Buf s2 = h_Buf s \<and> rem s2 = rem s \<and> ser_io s2 = ser_io s \<and> h_OutBuf s2 = h_OutBuf s \<and>
     h_OutPac s2 = h_OutPac s \<and> pw s2 = pw s \<and> reader_state.more s2 = reader_state.more s"

lemma alloc_in_packet_frame:
  assumes "APB_AllocObject i s = (p, s1)"
  shows "h_Buf s1 = h_Buf s" "h_OutBuf s1 = h_OutBuf s" "h_OutPac s1 = h_OutPac s" "pw s1 = pw s"
    "rem s1 = rem s" "ser_io s1 = ser_io s" "h_InBuf s1 = h_InBuf s" "h_InPac s1 = h_InPac s"
    "pr s1 = pr s" "reader_state.more s1 = reader_state.more s"
  using h_Buf_more [OF APB_AllocObject_more [OF assms]]
    writer_fields_pool [OF APB_AllocObject_more [OF assms]]
    reader_fields_pool [OF APB_AllocObject_more [OF assms]] by simp_all

lemma queue_packet_queued:
  assumes al: "APB_AllocObject OT_IN_PACKET s = (Some ip, s1)"
    and nx: "\<And>ib2. dp_Ib2 dp = Some ib2 \<Longrightarrow> ib2 \<noteq> ib"
  shows "\<exists>s2. queue_packet ib p dp pb s =
      Continue (if unat (ib_Offset (h_InBuf s2 (dp_buf ib dp))) = BUFFER_SIZE
                then ib_Next (h_InBuf s (dp_buf ib dp)) else Some (dp_buf ib dp)) s2 \<and>
    queued ip ib p dp pb s s2 \<and> op_Types s2 = op_Types s1 \<and> op_MemPool s2 = op_MemPool s1 \<and>
    op_Mem s2 = op_Mem s1 \<and> faults s2 = faults s1"
proof -
  note f = alloc_in_packet_frame [OF al]
  show ?thesis
  proof (cases "dp_Ib2 dp")
    case None
    then show ?thesis
      by (simp add: queue_packet_def al Let_def queued_def dp_buf_def new_in_packet_def f)
  next
    case (Some ib2)
    then have "ib2 \<noteq> ib" by (rule nx)
    then show ?thesis
      by (simp add: queue_packet_def al Let_def queued_def dp_buf_def new_in_packet_def f Some)
  qed
qed

section \<open>The stream across the chain\<close>

definition unread :: "'a reader_state_scheme \<Rightarrow> addr \<Rightarrow> u8 list" where
  "unread s ib = bytes_of (vmem s ib) 0 (vlen s ib)"

text \<open>The loop stands at the reader's first buffer, or behind it when that is used up.\<close>

definition at_cursor :: "addr option \<Rightarrow> 'a reader_state_scheme \<Rightarrow> bool" where
  "at_cursor q s \<longleftrightarrow> (\<exists>ib. pr_InBuf (pr s) = Some ib \<and> cur_ok s ib \<and>
     (q = Some ib \<or> unat (ib_Offset (h_InBuf s ib)) = BUFFER_SIZE \<and> q = ib_Next (h_InBuf s ib)))"

definition pending :: "'a reader_state_scheme \<Rightarrow> u8 list" where
  "pending s = (case pr_InBuf (pr s) of None \<Rightarrow> [] | Some ib \<Rightarrow> unread s ib)"

lemma length_unread [simp]: "length (unread s ib) = vlen s ib"
  by (simp add: unread_def)

lemma at_cursor_None: "at_cursor None s \<Longrightarrow> pending s = []"
  by (auto simp: at_cursor_def pending_def unread_def bytes_of_def vlen_def left_def cur_ok_def
      word_le_nat_alt)

lemma at_cursor_Some:
  assumes "at_cursor (Some c) s"
  shows "cur_ok s c" and "pending s = unread s c"
proof -
  from assms obtain ib where ib: "pr_InBuf (pr s) = Some ib" "cur_ok s ib"
    "c = ib \<or> unat (ib_Offset (h_InBuf s ib)) = BUFFER_SIZE \<and> Some c = ib_Next (h_InBuf s ib)"
    by (auto simp: at_cursor_def)
  have "cur_ok s c \<and> unread s ib = unread s c"
  proof (cases "c = ib")
    case True
    then show ?thesis using ib by simp
  next
    case False
    then have n: "ib_Next (h_InBuf s ib) = Some c" and o: "unat (ib_Offset (h_InBuf s ib)) = 4096"
      using ib(3) by (auto simp: BUFFER_SIZE_def)
    note d = cur_okD [OF ib(2)] cur_okD(5) [OF ib(2) n]
    have l: "left s ib = 0" using o d(2) by (simp add: left_def)
    have c: "left s c = unat (BUF_BYTES s c)" using d(7) by (simp add: left_def)
    have "cur_ok s c" using d(7) by (simp add: cur_ok_def BUFFER_SIZE_def)
    moreover have "vlen s ib = vlen s c" using d(7) by (simp add: vlen_def n l c)
    moreover have "\<forall>k < vlen s c. vmem s ib k = vmem s c k"
      using d(7) by (simp add: vmem_def n l c vlen_def)
    ultimately show ?thesis by (auto simp: unread_def intro: bytes_of_cong)
  qed
  then show "cur_ok s c" "pending s = unread s c" using ib(1) by (simp_all add: pending_def)
qed

lemma BUF_BYTES_queued: "queued ip ib p dp pb s s2 \<Longrightarrow> BUF_BYTES s2 c = BUF_BYTES s c"
  by (simp add: queued_def BUF_BYTES_def)

lemma ib_data_queued: "queued ip ib p dp pb s s2 \<Longrightarrow> ib_data s2 c = ib_data s c"
  by (simp add: queued_def ib_data_def)

lemma queued_stream:
  assumes ok: "cur_ok s ib" and dp: "dp_ok s ib len pad dp"
    and n: "n = sizeof_Packet + len + pad" "n \<le> vlen s ib" "even n" and pad: "unat pb = pad"
    and len: "len \<le> 4096" "pad \<le> 1" and q: "queued ip ib p dp pb s s2"
  shows "at_cursor (if unat (ib_Offset (h_InBuf s2 (dp_buf ib dp))) = BUFFER_SIZE
      then ib_Next (h_InBuf s (dp_buf ib dp)) else Some (dp_buf ib dp)) s2"
    and "pending s2 = drop n (unread s ib)"
proof -
  let ?c = "dp_buf ib dp"
  note d = cur_okD [OF ok]
  have f: "ib_Next (h_InBuf s2 c) = ib_Next (h_InBuf s c)" "pr_InBuf (pr s2) = Some ?c"
    "ib_Offset (h_InBuf s2 c) = (if c = ?c then ib_Offset (h_InBuf s c) + (dp_Consumed dp + pb)
       else ib_Offset (h_InBuf s c))" for c
    using q by (simp_all add: queued_def)
  note b = BUF_BYTES_queued [OF q] ib_data_queued [OF q]
  have goal: "cur_ok s2 ?c \<and> unread s2 ?c = drop n (unread s ib)"
  proof (cases "dp_Ib2 dp")
    case None
    then have c: "?c = ib" by (simp add: dp_buf_def)
    have con: "unat (dp_Consumed dp) = sizeof_Packet + len" "n \<le> left s ib"
      using dp n by (simp_all add: dp_ok_def None)
    then have "unat (dp_Consumed dp + pb) = n"
      using n pad len by (subst unat_add_u16_small) simp_all
    then have o: "unat (ib_Offset (h_InBuf s2 ib)) = unat (ib_Offset (h_InBuf s ib)) + n"
      using con(2) d(1,2) by (simp add: f c, subst unat_add_u16_small) (simp_all add: left_def)
    then have l: "left s2 ib = left s ib - n" by (simp add: left_def b)
    have le: "ib_Offset (h_InBuf s2 ib) \<le> BUF_BYTES s2 ib"
      using o con(2) d(1) by (simp add: word_le_nat_alt b left_def)
    have "cur_ok s2 ib"
      using ok le o n(3) f(3) c
      by (cases "ib_Next (h_InBuf s ib)") (auto simp: cur_ok_def b f(1))
    moreover have v: "vlen s2 ib = vlen s ib - n" using con(2) by (simp add: vlen_def l b f(1) split: option.split)
    moreover have "vmem s2 ib k = vmem s ib (n + k)" for k
      using con(2) l o by (auto simp: vmem_def b f(1) ac_simps split: option.split)
    ultimately show ?thesis
      by (auto simp: c unread_def bytes_of_def intro!: nth_equalityI)
  next
    case (Some ib2)
    then have c: "?c = ib2" by (simp add: dp_buf_def)
    have nx: "ib_Next (h_InBuf s ib) = Some ib2"
      and con: "unat (dp_Consumed dp) + left s ib = sizeof_Packet + len" "left s ib \<le> sizeof_Packet + len"
      using dp by (simp_all add: dp_ok_def Some)
    note n2 = cur_okD(5) [OF ok nx]
    have "unat (dp_Consumed dp + pb) = n - left s ib"
      using n con pad len by (subst unat_add_u16_small) simp_all
    then have o: "unat (ib_Offset (h_InBuf s2 ib2)) = n - left s ib"
      using n2 by (simp add: f c)
    have le: "n - left s ib \<le> unat (BUF_BYTES s ib2)" using n(2) by (simp add: vlen_def nx)
    have full: "unat (BUF_BYTES s ib) = BUFFER_SIZE" using n2 by (simp add: BUFFER_SIZE_def)
    have "even (n - left s ib)" using n(3) left_even [OF ok full] by simp
    then have "cur_ok s2 ib2"
      using n2 o le by (simp add: cur_ok_def f(1) b word_le_nat_alt BUFFER_SIZE_def)
    moreover have l: "left s2 ib2 = unat (BUF_BYTES s ib2) - (n - left s ib)"
      by (simp add: left_def o b)
    moreover have v: "vlen s2 ib2 = vlen s ib - n"
      using n2 l le con n(1) by (simp add: vlen_def f(1) nx)
    moreover have "vmem s2 ib2 k = vmem s ib (n + k)" if "k < vlen s ib - n" for k
    proof -
      have ge: "left s ib \<le> n" using con n(1) by simp
      moreover have "k < left s2 ib2"
        using that le ge unfolding l vlen_def nx option.case by linarith
      ultimately show ?thesis by (simp add: vmem_def b(2) nx o)
    qed
    ultimately show ?thesis
      by (auto simp: c unread_def bytes_of_def intro!: nth_equalityI)
  qed
  then show "pending s2 = drop n (unread s ib)" by (simp add: pending_def f)
  show "at_cursor (if unat (ib_Offset (h_InBuf s2 ?c)) = BUFFER_SIZE
      then ib_Next (h_InBuf s ?c) else Some ?c) s2"
    using goal by (auto simp: at_cursor_def f(1,2))
qed

section \<open>Packets as values\<close>

definition decode :: "u8 list \<Rightarrow> wire_packet" where
  "decode xs = (let m = mem_of xs in
     \<lparr>wp_Type = m 4, wp_Flags = m 5, wp_ConnId = get16 m 6, wp_PackId = get16 m 8,
      wp_Data = bytes_of m sizeof_Packet (data_len m)\<rparr>)"

definition packet_of :: "'a reader_state_scheme \<Rightarrow> addr \<Rightarrow> wire_packet" where
  "packet_of s ip = (let x = h_InPac s ip in
     \<lparr>wp_Type = ip_Type x, wp_Flags = ip_Flags x, wp_ConnId = ip_ConnId x, wp_PackId = ip_PackId x,
      wp_Data = ptr_bytes s (ip_Data1 x) (unat (ip_Data1Length x)) @
        ptr_bytes s (ip_Data2 x) (unat (ip_Data2Length x))\<rparr>)"

definition stream_verdict :: "u8 list \<Rightarrow> verdict" where
  "stream_verdict xs = verdict (mem_of xs) (length xs)"

lemma get16_cong14: "\<forall>k < sizeof_Packet. m k = m' k \<Longrightarrow> i < 13 \<Longrightarrow> get16 m i = get16 m' i"
  by (simp add: get16_def)

lemma data_len_cong: "\<forall>k < sizeof_Packet. m k = m' k \<Longrightarrow> data_len m = data_len m'"
  by (simp add: data_len_def get16_def)

lemma total_cong: "\<forall>k < sizeof_Packet. m k = m' k \<Longrightarrow> total m = total m'"
  using data_len_cong [of m m'] by (simp add: total_def pad_of_def)

lemma verdict_cong:
  assumes "\<forall>k < n. m k = m' k"
  shows "verdict m n = verdict m' n"
proof (cases "n < sizeof_Packet")
  case False
  then have h: "\<forall>k < sizeof_Packet. m k = m' k" using assms by simp
  have id: "get32 m 0 = get32 m' 0" using h by (simp add: get32_def get16_def)
  have "word_sum m 0 (total m div 2) = word_sum m' 0 (total m div 2)" if "\<not> n < total m"
    using assms that by (intro word_sum_cong) simp
  then show ?thesis using id data_len_cong [OF h] total_cong [OF h] by (auto simp: verdict_def)
qed (simp add: verdict_def)

lemma vmem_unread: "k < vlen s ib \<Longrightarrow> mem_of (unread s ib) k = vmem s ib k"
  by (simp add: mem_of_def unread_def)

lemma stream_verdict_unread: "verdict (vmem s ib) (vlen s ib) = stream_verdict (unread s ib)"
  unfolding stream_verdict_def length_unread by (rule verdict_cong) (simp add: vmem_unread)

lemma mem_of_append: "k < length xs \<Longrightarrow> mem_of (xs @ ys) k = mem_of xs k"
  by (simp add: mem_of_def nth_append)

lemma wire_total:
  assumes "wire_ok p"
  shows "total (mem_of p) = length p" "sizeof_Packet \<le> length p" "even (length p)"
    "data_len (mem_of p) \<le> 4082" "stream_verdict p = Accept"
proof -
  have w: "header_ok (mem_of p) 0" "word_sum (mem_of p) 0 (pack_len (mem_of p) 0 div 2) mod 65535 = 1"
    "length p = pack_len (mem_of p) 0"
    using assms by (simp_all add: wire_ok_def wire_at_def)
  then have h: "bit (mem_of p 5) 0 = odd (data_len (mem_of p))" "get32 (mem_of p) 0 = PACKET_ID"
    and le: "data_len (mem_of p) \<le> 4082"
    by (simp_all add: header_ok_def data_len_def)
  have "pad_of (mem_of p) = data_len (mem_of p) mod 2"
    by (auto simp: pad_of_def h odd_iff_mod_2_eq_one)
  then have t: "total (mem_of p) = pack_len (mem_of p) 0"
    by (simp add: total_def pack_len_def data_len_def)
  then show "total (mem_of p) = length p" using w by simp
  show "sizeof_Packet \<le> length p" "even (length p)"
    using w pack_len_ge pack_len_even by simp_all
  show "data_len (mem_of p) \<le> 4082" by (rule le)
  then show "stream_verdict p = Accept"
    using w t h le pack_len_ge [of "mem_of p" 0] pack_len_even [of "mem_of p" 0]
    by (simp add: stream_verdict_def verdict_def BUFFER_SIZE_def)
qed

lemma stream_verdict_wire:
  assumes "wire_ok p"
  shows "stream_verdict (p @ rest) = Accept" "total (mem_of (p @ rest)) = length p"
    "decode (p @ rest) = decode p" "data_len (mem_of (p @ rest)) = data_len (mem_of p)"
proof -
  note w = wire_total [OF assms]
  have a: "\<forall>k < length p. mem_of (p @ rest) k = mem_of p k" by (simp add: mem_of_append)
  then have h: "\<forall>k < sizeof_Packet. mem_of (p @ rest) k = mem_of p k" using w(2) by simp
  note d = data_len_cong [OF h]
  show t: "total (mem_of (p @ rest)) = length p" using total_cong [OF h] w(1) by simp
  have "verdict (mem_of (p @ rest)) (length p) = Accept"
    using verdict_cong [OF a] w(5) by (simp add: stream_verdict_def)
  then show "stream_verdict (p @ rest) = Accept"
    using t by (simp add: stream_verdict_def verdict_def split: if_splits)
  show "data_len (mem_of (p @ rest)) = data_len (mem_of p)" by (rule d)
  have le: "sizeof_Packet + data_len (mem_of p) \<le> length p" using w(1) by (simp add: total_def)
  have "bytes_of (mem_of (p @ rest)) sizeof_Packet (data_len (mem_of p)) =
      bytes_of (mem_of p) sizeof_Packet (data_len (mem_of p))"
    using le by (intro bytes_of_cong) (simp add: mem_of_append)
  then show "decode (p @ rest) = decode p"
    using h by (simp add: decode_def Let_def d get16_def)
qed

lemma received_new:
  assumes dp: "dp_ok s ib len pad dp" and ev: "even (len + pad)"
    and m: "\<forall>k < sizeof_Packet + len. mem_of xs k = vmem s ib k" "data_len (vmem s ib) = len"
    and x: "h_InPac s2 ip = new_in_packet ib (packet_at (vmem s ib) 0) dp" and hb: "h_Buf s2 = h_Buf s"
  shows "packet_of s2 ip = decode xs"
proof -
  have h: "\<forall>k < sizeof_Packet. mem_of xs k = vmem s ib k" using m(1) by simp
  have dl: "data_len (mem_of xs) = len" using data_len_cong [OF h] m(2) by simp
  have pb: "ptr_bytes s2 p n = ptr_bytes s p n" for p n
    by (simp add: ptr_bytes_def ptr_byte_def hb split: option.split)
  let ?l1 = "unat (dp_Len1 dp)" and ?l2 = "unat (dp_Len2 dp)"
  have l: "?l1 + ?l2 = len" using dp by (simp add: dp_ok_def)
  have "ptr_bytes s (dp_Data1 dp) ?l1 = bytes_of (vmem s ib) sizeof_Packet ?l1"
    using dp ev by (auto simp: dp_ok_def ptr_bytes_def intro!: nth_equalityI)
  moreover have "ptr_bytes s (dp_Data2 dp) ?l2 = bytes_of (vmem s ib) (sizeof_Packet + ?l1) ?l2"
    using dp ev by (cases "0 < ?l2") (auto simp: dp_ok_def ptr_bytes_def intro!: nth_equalityI)
  ultimately have "ptr_bytes s (dp_Data1 dp) ?l1 @ ptr_bytes s (dp_Data2 dp) ?l2 =
      bytes_of (vmem s ib) sizeof_Packet len"
    using bytes_of_append [of "vmem s ib" sizeof_Packet ?l1 ?l2] l by simp
  also have "\<dots> = bytes_of (mem_of xs) sizeof_Packet len" using m(1) by (intro bytes_of_cong) simp
  finally show ?thesis
    using h by (simp add: packet_of_def decode_def Let_def x new_in_packet_def packet_at_def dl pb get16_def)
qed

section \<open>Reading a stream of packets\<close>

definition pac_in :: "'a reader_state_scheme \<Rightarrow> addr \<Rightarrow> bool" where
  "pac_in s ip \<longleftrightarrow> (let x = h_InPac s ip in
     ptr_in s (ip_Data1 x) (unat (ip_Data1Length x)) \<and> ptr_in s (ip_Data2 x) (unat (ip_Data2Length x)))"

lemma pac_in_cong:
  assumes "h_Buf s1 = h_Buf s" and "h_InPac s1 ip = h_InPac s ip"
  shows "pac_in s1 ip = pac_in s ip"
proof -
  have "ptr_in s1 p n = ptr_in s p n" for p n
    by (cases p) (auto simp: ptr_in_def assms)
  then show ?thesis by (simp add: pac_in_def assms)
qed

definition reader_inv :: "(u16 \<Rightarrow> addr set) \<Rightarrow> 'a reader_state_scheme \<Rightarrow> bool" where
  "reader_inv H s \<longleftrightarrow> pool_holds H s \<and> distinct (pr_Queue (pr s)) \<and>
     set (pr_Queue (pr s)) \<subseteq> H OT_IN_PACKET \<and>
     unat (pr_QueueSize (pr s)) = length (pr_Queue (pr s)) \<and>
     (\<forall>ip \<in> set (pr_Queue (pr s)). pac_in s ip)"

definition with_packets :: "addr list \<Rightarrow> (u16 \<Rightarrow> addr set) \<Rightarrow> u16 \<Rightarrow> addr set" where
  "with_packets ips H = H(OT_IN_PACKET := set ips \<union> H OT_IN_PACKET)"

lemma with_packets_Nil [simp]: "with_packets [] H = H"
  by (simp add: with_packets_def fun_upd_idem)

text \<open>The buffers of the chain that the loop can reach: with packets of at most a buffer's size, two.\<close>

definition chain :: "'a reader_state_scheme \<Rightarrow> addr list" where
  "chain s = (case pr_InBuf (pr s) of
       None \<Rightarrow> []
     | Some ib \<Rightarrow> ib # (case ib_Next (h_InBuf s ib) of None \<Rightarrow> [] | Some ib2 \<Rightarrow> [ib2]))"

text \<open>What reading leaves alone: everything but the chain, the queue and the new packets.\<close>

definition read_frame :: "(u16 \<Rightarrow> addr set) \<Rightarrow> 'a reader_state_scheme \<Rightarrow> 'a reader_state_scheme \<Rightarrow> bool" where
  "read_frame H s s1 \<longleftrightarrow> (\<forall>a \<in> H OT_IN_PACKET. h_InPac s1 a = h_InPac s a) \<and>
     (\<exists>xs. chain s = xs @ chain s1) \<and>
     (\<forall>c. ib_Buf (h_InBuf s1 c) = ib_Buf (h_InBuf s c) \<and> ib_Next (h_InBuf s1 c) = ib_Next (h_InBuf s c) \<and>
        ib_CanRelease (h_InBuf s1 c) = ib_CanRelease (h_InBuf s c)) \<and>
     h_Buf s1 = h_Buf s \<and> rem s1 = rem s \<and> ser_io s1 = ser_io s \<and> h_OutBuf s1 = h_OutBuf s \<and>
     h_OutPac s1 = h_OutPac s \<and> pw s1 = pw s \<and> faults s1 = faults s \<and>
     reader_state.more s1 = reader_state.more s"

lemma read_frame_trans:
  "read_frame H s s1 \<Longrightarrow> read_frame H1 s1 s2 \<Longrightarrow> H OT_IN_PACKET \<subseteq> H1 OT_IN_PACKET \<Longrightarrow> read_frame H s s2"
  unfolding read_frame_def by (auto simp: subset_iff)

lemma process_loop_Some:
  assumes "cur_ok s c"
  shows "process_loop (Some c) s =
     (case process_step c s of
        None \<Rightarrow> None
      | Some (Break s1) \<Rightarrow> Some s1
      | Some (Continue q s1) \<Rightarrow> process_loop q s1)"
  using assms by (subst process_loop.simps) (simp add: cur_ok_def)

lemma process_loop_None: "process_loop None s = Some s"
  by (subst process_loop.simps) simp

lemma queued_chain:
  assumes cur: "at_cursor (Some c) s" and q: "queued ip c p dp pb s s1"
    and dp: "\<And>ib2. dp_Ib2 dp = Some ib2 \<Longrightarrow> ib_Next (h_InBuf s c) = Some ib2"
  shows "\<exists>xs. chain s = xs @ chain s1"
proof -
  from cur obtain ib where ib: "pr_InBuf (pr s) = Some ib" "cur_ok s ib"
    "c = ib \<or> ib_Next (h_InBuf s ib) = Some c" by (auto simp: at_cursor_def)
  have f: "pr_InBuf (pr s1) = Some (dp_buf c dp)" "ib_Next (h_InBuf s1 a) = ib_Next (h_InBuf s a)" for a
    using q by (simp_all add: queued_def)
  have tl: "ib_Next (h_InBuf s ib) = Some d \<Longrightarrow> ib_Next (h_InBuf s d) = None" for d
    using cur_okD(5) [OF ib(2)] by blast
  have "dp_buf c dp = c \<or> ib_Next (h_InBuf s c) = Some (dp_buf c dp)"
    using dp by (auto simp: dp_buf_def split: option.split)
  then consider "dp_buf c dp = ib" | "ib_Next (h_InBuf s ib) = Some (dp_buf c dp)"
    using ib(3) tl by auto
  then show ?thesis
  proof cases
    case 1
    then show ?thesis by (intro exI [of _ "[]"]) (simp add: chain_def ib f)
  next
    case 2
    then show ?thesis by (intro exI [of _ "[ib]"]) (simp add: chain_def ib f tl)
  qed
qed

text \<open>One packet off the stream.\<close>

lemma read_one:
  assumes inv: "reader_inv H s" and cur: "at_cursor (Some c) s"
    and v: "stream_verdict (pending s) = Accept"
    and al: "APB_AllocObject OT_IN_PACKET s = (Some ip, s')"
    and len: "data_len (mem_of (pending s)) \<le> 4096"
  shows "\<exists>q s1. process_step c s = Some (Continue q s1) \<and> at_cursor q s1 \<and>
    pending s1 = drop (total (mem_of (pending s))) (pending s) \<and>
    pr_Queue (pr s1) = pr_Queue (pr s) @ [ip] \<and> packet_of s1 ip = decode (pending s) \<and>
    ip \<notin> H OT_IN_PACKET \<and> reader_inv (with_packets [ip] H) s1 \<and> read_frame H s s1"
proof -
  note c = at_cursor_Some [OF cur]
  let ?m = "vmem s c"
  have v': "verdict ?m (vlen s c) = Accept" using v by (simp add: stream_verdict_unread c)
  from process_step_verdict [OF c(1)] v' obtain dp where
    st: "process_step c s = Some (queue_packet c (packet_at ?m 0) dp (of_nat (pad_of ?m)) s)"
    and dp: "dp_ok s c (data_len ?m) (pad_of ?m) dp" by auto
  have big: "sizeof_Packet \<le> vlen s c" "total ?m \<le> vlen s c" "even (total ?m)"
    using v' by (simp_all add: verdict_def split: if_splits)
  have xs: "\<forall>k < vlen s c. mem_of (pending s) k = ?m k" by (simp add: c vmem_unread)
  have h: "\<forall>k < sizeof_Packet. mem_of (pending s) k = ?m k" using xs big by simp
  have t: "total (mem_of (pending s)) = total ?m" and dl: "data_len (mem_of (pending s)) = data_len ?m"
    using total_cong [OF h] data_len_cong [OF h] by simp_all
  have p1: "pad_of ?m \<le> 1" by (simp add: pad_of_def)
  then have pu: "unat (of_nat (pad_of ?m) :: u16) = pad_of ?m" by (intro unat_of_nat_u16) simp
  have nx: "dp_Ib2 dp = Some ib2 \<Longrightarrow> ib2 \<noteq> c" for ib2
    using dp cur_okD(5) [OF c(1)] by (auto simp: dp_ok_def)
  from queue_packet_queued [OF al nx] obtain s1 where
    s1: "queue_packet c (packet_at ?m 0) dp (of_nat (pad_of ?m)) s =
      Continue (if unat (ib_Offset (h_InBuf s1 (dp_buf c dp))) = BUFFER_SIZE
                then ib_Next (h_InBuf s (dp_buf c dp)) else Some (dp_buf c dp)) s1"
    and q: "queued ip c (packet_at ?m 0) dp (of_nat (pad_of ?m)) s s1"
    and pool: "op_Types s1 = op_Types s'" "op_MemPool s1 = op_MemPool s'" "op_Mem s1 = op_Mem s'"
      "faults s1 = faults s'" by blast
  note str = queued_stream [OF c(1) dp refl _ _ pu _ p1 q]
  have hold: "pool_holds H s" and Q: "distinct (pr_Queue (pr s))" "set (pr_Queue (pr s)) \<subseteq> H OT_IN_PACKET"
      "unat (pr_QueueSize (pr s)) = length (pr_Queue (pr s))" "\<forall>a \<in> set (pr_Queue (pr s)). pac_in s a"
    using inv by (simp_all add: reader_inv_def)
  from pool_laws(1) [OF hold] al have new: "ip \<notin> H OT_IN_PACKET"
    and ph: "pool_holds (H(OT_IN_PACKET := insert ip (H OT_IN_PACKET))) s'" and ft: "faults s' = faults s"
    by blast+
  have ph1: "pool_holds (with_packets [ip] H) s1"
    using ph pool_holds_cong [of s1 s' "with_packets [ip] H"] pool by (simp add: with_packets_def)
  have dis: "distinct (pr_Queue (pr s) @ [ip])" and sub: "set (pr_Queue (pr s) @ [ip]) \<subseteq> with_packets [ip] H OT_IN_PACKET"
    using Q new by (auto simp: with_packets_def)
  have "length (pr_Queue (pr s) @ [ip]) < 65536" using pool_holds_length [OF ph1 dis sub] .
  then have "unat (pr_QueueSize (pr s) + 1) = Suc (length (pr_Queue (pr s)))"
    using Q(3) by (subst unat_Suc_u16) simp_all
  moreover have "\<forall>a \<in> set (pr_Queue (pr s) @ [ip]). pac_in s1 a"
  proof
    fix a assume a: "a \<in> set (pr_Queue (pr s) @ [ip])"
    have hb: "h_Buf s1 = h_Buf s" using q by (simp add: queued_def)
    show "pac_in s1 a"
    proof (cases "a = ip")
      case True
      have "ptr_in s1 p n = ptr_in s p n" for p n by (cases p) (auto simp: ptr_in_def hb)
      then show ?thesis using True q dp by (simp add: pac_in_def queued_def new_in_packet_def dp_ok_def)
    next
      case False
      then have "a \<in> set (pr_Queue (pr s))" "h_InPac s1 a = h_InPac s a"
        using a q by (simp_all add: queued_def)
      then show ?thesis using Q(4) pac_in_cong [OF hb] by blast
    qed
  qed
  ultimately have "reader_inv (with_packets [ip] H) s1"
    using ph1 dis sub q by (simp add: reader_inv_def queued_def)
  moreover have "\<exists>xs. chain s = xs @ chain s1"
    using queued_chain [OF cur q] dp by (cases "dp_Ib2 dp") (simp_all add: dp_ok_def)
  then have "read_frame H s s1"
    using q new pool(4) ft by (auto simp: read_frame_def queued_def)
  moreover have "packet_of s1 ip = decode (pending s)"
  proof (rule received_new [OF dp])
    show "even (data_len ?m + pad_of ?m)" using big(3) by (simp add: total_def)
    show "\<forall>k < sizeof_Packet + data_len ?m. mem_of (pending s) k = ?m k"
      using xs big(2) by (simp add: total_def)
  qed (use q in \<open>simp_all add: queued_def\<close>)
  ultimately show ?thesis
    using st s1 str new q big len t dl c(2)
    by (intro exI [of _ "if unat (ib_Offset (h_InBuf s1 (dp_buf c dp))) = BUFFER_SIZE
        then ib_Next (h_InBuf s (dp_buf c dp)) else Some (dp_buf c dp)"] exI [of _ s1])
      (simp add: queued_def total_def)
qed

lemma stream_cong:
  assumes "h_InBuf s1 = h_InBuf s" "h_Buf s1 = h_Buf s" "pr s1 = pr s"
  shows "pending s1 = pending s" "at_cursor q s1 = at_cursor q s" "stream_verdict (pending s1) = stream_verdict (pending s)"
proof -
  have b: "BUF_BYTES s1 = BUF_BYTES s" "ib_data s1 = ib_data s"
    by (simp_all add: BUF_BYTES_def ib_data_def assms fun_eq_iff)
  have l: "left s1 = left s" by (simp add: left_def assms b fun_eq_iff)
  have u: "unread s1 c = unread s c" for c
    unfolding unread_def vlen_def vmem_def [abs_def] l b assms ..
  have "cur_ok s1 c = cur_ok s c" for c unfolding cur_ok_def assms b ..
  then show "at_cursor q s1 = at_cursor q s" by (simp add: at_cursor_def assms)
  show p: "pending s1 = pending s" unfolding pending_def assms u ..
  show "stream_verdict (pending s1) = stream_verdict (pending s)" by (simp add: p)
qed

lemma ptr_bytes_cong: "h_Buf s1 = h_Buf s \<Longrightarrow> ptr_bytes s1 p n = ptr_bytes s p n"
  by (simp add: ptr_bytes_def ptr_byte_def split: option.split)

lemma received_frame:
  assumes "read_frame H s s1" and "ip \<in> H OT_IN_PACKET"
  shows "packet_of s1 ip = packet_of s ip"
proof -
  have "h_Buf s1 = h_Buf s" "h_InPac s1 ip = h_InPac s ip" using assms by (simp_all add: read_frame_def)
  then show ?thesis using ptr_bytes_cong [of s1 s] by (simp add: packet_of_def Let_def)
qed

lemma read_frame_refl: "read_frame H s s"
  by (simp add: read_frame_def)

text \<open>The loop stopped because no InPacket could be had.\<close>

definition no_in_packet :: "'a reader_state_scheme \<Rightarrow> bool" where
  "no_in_packet s \<longleftrightarrow> (\<exists>s0. APB_AllocObject OT_IN_PACKET s0 = (None, s))"

lemma read_stream:
  assumes "reader_inv H s" and "at_cursor q s" and "pending s = concat pkts @ rest"
    and "\<forall>p \<in> set pkts. wire_ok p" and "stream_verdict rest = Wait"
  shows "\<exists>s1 ips. process_loop q s = Some s1 \<and> (\<exists>q1. at_cursor q1 s1) \<and>
    reader_inv (with_packets ips H) s1 \<and> read_frame H s s1 \<and> set ips \<inter> H OT_IN_PACKET = {} \<and>
    pr_Queue (pr s1) = pr_Queue (pr s) @ ips \<and> length ips \<le> length pkts \<and>
    map (packet_of s1) ips = map decode (take (length ips) pkts) \<and>
    pending s1 = concat (drop (length ips) pkts) @ rest \<and>
    (length ips < length pkts \<longrightarrow> no_in_packet s1)"
  using assms
proof (induction pkts arbitrary: q s H)
  case Nil
  have "process_loop q s = Some s"
  proof (cases q)
    case (Some c)
    note c = at_cursor_Some [OF Nil.prems(2) [unfolded Some]]
    have "verdict (vmem s c) (vlen s c) = Wait"
      using Nil.prems(3,5) by (simp add: stream_verdict_unread c(2) [symmetric])
    then have "process_step c s = Some (Break s)" using process_step_verdict [OF c(1)] by simp
    then show ?thesis using c(1) by (simp add: Some process_loop_Some)
  qed (simp add: process_loop_None)
  then show ?case
    using Nil.prems read_frame_refl [of H s]
    by (intro exI [of _ s] exI [of _ "[]"]) auto
next
  case (Cons p ps)
  have wp: "wire_ok p" using Cons.prems(4) by simp
  note wt = wire_total [OF wp]
  have pe: "pending s = p @ (concat ps @ rest)" using Cons.prems(3) by simp
  note sv = stream_verdict_wire [OF wp, of "concat ps @ rest", folded pe]
  have "p \<noteq> []" using wt(2) by auto
  then have "\<not> at_cursor None s" using at_cursor_None [of s] pe by auto
  then have "q \<noteq> None" using Cons.prems(2) by metis
  then obtain c where q: "q = Some c" by auto
  note c = at_cursor_Some [OF Cons.prems(2) [unfolded q]]
  obtain r s' where al: "APB_AllocObject OT_IN_PACKET s = (r, s')" by fastforce
  have hold: "pool_holds H s" using Cons.prems(1) by (simp add: reader_inv_def)
  show ?case
  proof (cases r)
    case None
    note f = alloc_in_packet_frame [OF al]
    from pool_laws(2) [OF hold] al None have h': "pool_holds H s'" "faults s' = faults s" by blast+
    have "verdict (vmem s c) (vlen s c) = Accept" using sv(1) by (simp add: stream_verdict_unread c(2))
    with process_step_verdict [OF c(1)] obtain dp where
      "process_step c s = Some (queue_packet c (packet_at (vmem s c) 0) dp (of_nat (pad_of (vmem s c))) s)"
      by auto
    then have "process_step c s = Some (Break s')" using al None by (simp add: queue_packet_def)
    then have "process_loop q s = Some s'" by (simp add: q process_loop_Some [OF c(1)])
    moreover have "reader_inv H s'"
      using Cons.prems(1) h' pac_in_cong [of s' s] by (simp add: reader_inv_def f)
    moreover have "chain s' = chain s" unfolding chain_def f ..
    then have "read_frame H s s'" using f h' by (simp add: read_frame_def)
    moreover have "at_cursor q s'" "pending s' = pending s"
      using stream_cong [of s' s] f Cons.prems(2) by simp_all
    ultimately show ?thesis
      using al None Cons.prems(3) f unfolding no_in_packet_def
      by (intro exI [of _ s'] exI [of _ "[]"]) auto
  next
    case (Some ip)
    have le: "data_len (mem_of (pending s)) \<le> 4096" using sv(4) wt(4) by simp
    from read_one [OF Cons.prems(1) Cons.prems(2) [unfolded q] sv(1) al [unfolded Some] le]
    obtain q1 s1 where s1: "process_step c s = Some (Continue q1 s1)" "at_cursor q1 s1"
        "pending s1 = drop (length p) (pending s)" "pr_Queue (pr s1) = pr_Queue (pr s) @ [ip]"
        "packet_of s1 ip = decode p" "ip \<notin> H OT_IN_PACKET" "reader_inv (with_packets [ip] H) s1"
        "read_frame H s s1"
      using sv(2,3) by auto
    have "pending s1 = concat ps @ rest" by (simp add: s1(3) pe)
    from Cons.IH [OF s1(7,2) this] Cons.prems(4,5) obtain s2 ips where
      s2: "process_loop q1 s1 = Some s2" "\<exists>q1. at_cursor q1 s2"
        "reader_inv (with_packets ips (with_packets [ip] H)) s2" "read_frame (with_packets [ip] H) s1 s2"
        "set ips \<inter> with_packets [ip] H OT_IN_PACKET = {}"
        "pr_Queue (pr s2) = pr_Queue (pr s1) @ ips" "length ips \<le> length ps"
        "map (packet_of s2) ips = map decode (take (length ips) ps)"
        "pending s2 = concat (drop (length ips) ps) @ rest"
        "length ips < length ps \<longrightarrow> no_in_packet s2" by auto
    have w: "with_packets ips (with_packets [ip] H) = with_packets (ip # ips) H"
      by (auto simp: with_packets_def fun_eq_iff)
    have ri: "packet_of s2 ip = decode p"
      using received_frame [OF s2(4), of ip] s1(5) by (simp add: with_packets_def)
    show ?thesis
    proof (intro exI [of _ s2] exI [of _ "ip # ips"] conjI)
      show "process_loop q s = Some s2" using s1(1) s2(1) by (simp add: q process_loop_Some [OF c(1)])
      show "\<exists>q1. at_cursor q1 s2" by (rule s2(2))
      show "reader_inv (with_packets (ip # ips) H) s2" using s2(3) unfolding w .
      show "read_frame H s s2"
        using s1(8) s2(4) by (rule read_frame_trans) (auto simp: with_packets_def)
      show "set (ip # ips) \<inter> H OT_IN_PACKET = {}" using s2(5) s1(6) by (auto simp: with_packets_def)
      show "pr_Queue (pr s2) = pr_Queue (pr s) @ ip # ips" using s2(6) s1(4) by simp
      show "length (ip # ips) \<le> length (p # ps)" using s2(7) by simp
      show "map (packet_of s2) (ip # ips) = map decode (take (length (ip # ips)) (p # ps))"
        using s2(8) ri by simp
      show "pending s2 = concat (drop (length (ip # ips)) (p # ps)) @ rest" using s2(9) by simp
      show "length (ip # ips) < length (p # ps) \<longrightarrow>
          no_in_packet s2" using s2(10) by simp
    qed
  qed
qed

end
