(* ===== verification/ReaderStream.thy ===== *)
theory ReaderStream
  imports ReaderCorrect WriterCorrect
begin

text \<open>
  The reader fed with the bytes of a stream: however the reads cut it up, and wherever the
  buffers end, the packets of the stream come out, in order and with their contents. What a
  decoder of packets owes its caller is the locale \<open>packet_decoder\<close>; the reader is one.
\<close>

section \<open>Prefixes of a packet stream\<close>

lemma verdict_Wait_prefix:
  assumes "verdict m n = Wait" and "k \<le> n"
  shows "verdict m k = Wait"
  using assms by (auto simp: verdict_def split: if_splits)

lemma stream_Wait_prefix:
  assumes "stream_verdict (xs @ ys) = Wait"
  shows "stream_verdict xs = Wait"
proof -
  have "verdict (mem_of (xs @ ys)) (length xs) = Wait"
    using assms by (auto simp: stream_verdict_def intro: verdict_Wait_prefix)
  moreover have "verdict (mem_of (xs @ ys)) (length xs) = verdict (mem_of xs) (length xs)"
    by (rule verdict_cong) (simp add: mem_of_append)
  ultimately show ?thesis by (simp add: stream_verdict_def)
qed

lemma wire_prefix_Wait:
  assumes w: "wire_ok (xs @ ys)" and ys: "ys \<noteq> []"
  shows "stream_verdict xs = Wait"
proof -
  note t = wire_total [OF w]
  have "verdict (mem_of (xs @ ys)) (length xs) = Wait"
    using t ys by (auto simp: stream_verdict_def verdict_def split: if_splits)
  moreover have "verdict (mem_of (xs @ ys)) (length xs) = verdict (mem_of xs) (length xs)"
    by (rule verdict_cong) (simp add: mem_of_append)
  ultimately show ?thesis by (simp add: stream_verdict_def)
qed

lemma prefix_packets:
  assumes "xs @ ys = concat pkts @ rest" and "\<forall>p \<in> set pkts. wire_ok p" and "stream_verdict rest = Wait"
  shows "\<exists>j rest'. xs = concat (take j pkts) @ rest' \<and> stream_verdict rest' = Wait \<and>
    rest' @ ys = concat (drop j pkts) @ rest \<and> j \<le> length pkts"
  using assms
proof (induction pkts arbitrary: xs)
  case Nil
  then show ?case using stream_Wait_prefix [of xs ys] by (intro exI [of _ 0] exI [of _ xs]) simp
next
  case (Cons p ps)
  show ?case
  proof (cases "length p \<le> length xs")
    case True
    have "xs = p @ drop (length p) xs"
    proof -
      have "take (length p) (xs @ ys) = p" using Cons.prems(1) by simp
      then have "take (length p) xs = p" using True by simp
      then show ?thesis by (metis append_take_drop_id)
    qed
    then obtain xs' where xs: "xs = p @ xs'" by blast
    then have "xs' @ ys = concat ps @ rest" using Cons.prems(1) by simp
    from Cons.IH [OF this] Cons.prems(2,3) obtain j rest' where
      "xs' = concat (take j ps) @ rest'" "stream_verdict rest' = Wait"
      "rest' @ ys = concat (drop j ps) @ rest" "j \<le> length ps" by auto
    then show ?thesis using xs by (intro exI [of _ "Suc j"] exI [of _ rest']) simp
  next
    case False
    have "take (length xs) p = xs"
    proof -
      have "take (length xs) (xs @ ys) = take (length xs) (p @ concat ps @ rest)"
        using Cons.prems(1) by simp
      then show ?thesis using False by simp
    qed
    then have "p = xs @ drop (length xs) p" by (metis append_take_drop_id)
    moreover have "drop (length xs) p \<noteq> []" using False by simp
    ultimately have "stream_verdict xs = Wait"
      using wire_prefix_Wait [of xs "drop (length xs) p"] Cons.prems(2) by auto
    then show ?thesis using Cons.prems(1) by (intro exI [of _ 0] exI [of _ xs]) simp
  qed
qed

section \<open>The contract of a packet decoder\<close>

text \<open>
  What the server relies on: \<open>feed\<close> takes bytes of the stream, \<open>out\<close> are the packets found so
  far and \<open>held\<close> the bytes kept back. A law for one read gives the law for all of them.
\<close>

locale packet_decoder =
  fixes inv :: "'s \<Rightarrow> bool"
    and can :: "'c \<Rightarrow> 's \<Rightarrow> bool"
    and feed :: "'c \<Rightarrow> 's \<Rightarrow> 's option"
    and data :: "'c \<Rightarrow> u8 list"
    and held :: "'s \<Rightarrow> u8 list"
    and out :: "'s \<Rightarrow> wire_packet list"
    and starved :: "'s \<Rightarrow> bool"
  assumes feed_law: "inv s \<Longrightarrow> can c s \<Longrightarrow> held s @ data c = concat pkts @ rest \<Longrightarrow>
      \<forall>p \<in> set pkts. wire_ok p \<Longrightarrow> stream_verdict rest = Wait \<Longrightarrow>
      \<exists>s1 k. feed c s = Some s1 \<and> inv s1 \<and> k \<le> length pkts \<and>
        out s1 = out s @ map decode (take k pkts) \<and> held s1 = concat (drop k pkts) @ rest \<and>
        (k < length pkts \<longrightarrow> starved s1)"
begin

lemma feed_all:
  "inv s \<Longrightarrow> held s @ concat (map data cs) = concat pkts @ rest \<Longrightarrow>
     \<forall>p \<in> set pkts. wire_ok p \<Longrightarrow> stream_verdict rest = Wait \<Longrightarrow>
     \<forall>cs1 c cs2 s1. cs = cs1 @ c # cs2 \<longrightarrow> run_steps feed cs1 s = Some s1 \<longrightarrow> can c s1 \<Longrightarrow>
     \<exists>s1 k. run_steps feed cs s = Some s1 \<and> inv s1 \<and> k \<le> length pkts \<and>
       out s1 = out s @ map decode (take k pkts) \<and> held s1 = concat (drop k pkts) @ rest \<and>
       (k < length pkts \<longrightarrow> cs = [] \<or> starved s1)"
proof (induction cs arbitrary: s pkts)
  case Nil
  then show ?case by (intro exI [of _ s] exI [of _ 0]) simp
next
  case (Cons c cs)
  have c: "can c s" using Cons.prems(5) by (metis append_Nil run_steps.simps(1))
  have "(held s @ data c) @ concat (map data cs) = concat pkts @ rest" using Cons.prems(2) by simp
  from prefix_packets [OF this Cons.prems(3,4)] obtain j r where
    j: "held s @ data c = concat (take j pkts) @ r" "stream_verdict r = Wait"
      "r @ concat (map data cs) = concat (drop j pkts) @ rest" "j \<le> length pkts" by blast
  have "\<forall>p \<in> set (take j pkts). wire_ok p" using Cons.prems(3) by (auto dest: in_set_takeD)
  from feed_law [OF Cons.prems(1) c j(1) this j(2)] obtain s1 k where
    s1: "feed c s = Some s1" "inv s1" "k \<le> length (take j pkts)"
      "out s1 = out s @ map decode (take k (take j pkts))" "held s1 = concat (drop k (take j pkts)) @ r"
      "k < length (take j pkts) \<longrightarrow> starved s1"
    by blast
  have kj: "k \<le> j" using s1(3) j(4) by simp
  have dk: "drop k pkts = drop k (take j pkts) @ drop j pkts"
  proof -
    have "drop k pkts = drop k (take j pkts @ drop j pkts)" by simp
    also have "\<dots> = drop k (take j pkts) @ drop j pkts" unfolding drop_append using kj j(4) by simp
    finally show ?thesis .
  qed
  have "held s1 @ concat (map data cs) = concat (drop k pkts) @ rest"
    unfolding dk using s1(5) j(3) by simp
  moreover have "\<forall>p \<in> set (drop k pkts). wire_ok p" using Cons.prems(3) by (auto dest: in_set_dropD)
  moreover have "\<forall>cs1 c' cs2 s2. cs = cs1 @ c' # cs2 \<longrightarrow> run_steps feed cs1 s1 = Some s2 \<longrightarrow> can c' s2"
  proof (intro allI impI)
    fix cs1 c' cs2 s2
    assume "cs = cs1 @ c' # cs2" and "run_steps feed cs1 s1 = Some s2"
    then have "c # cs = (c # cs1) @ c' # cs2" and "run_steps feed (c # cs1) s = Some s2"
      using s1(1) by simp_all
    then show "can c' s2" using Cons.prems(5) by blast
  qed
  ultimately obtain s2 l where
    s2: "run_steps feed cs s1 = Some s2" "inv s2" "l \<le> length (drop k pkts)"
      "out s2 = out s1 @ map decode (take l (drop k pkts))" "held s2 = concat (drop l (drop k pkts)) @ rest"
      "l < length (drop k pkts) \<longrightarrow> cs = [] \<or> starved s2"
    using Cons.IH [OF s1(2), of "drop k pkts"] Cons.prems(4) by blast
  have "take (k + l) pkts = take k pkts @ take l (drop k pkts)" by (rule take_add)
  moreover have "take k (take j pkts) = take k pkts" using kj by (simp add: min_def)
  ultimately have "out s2 = out s @ map decode (take (k + l) pkts)" using s1(4) s2(4) by simp
  moreover have "held s2 = concat (drop (k + l) pkts) @ rest" using s2(5) by (simp add: add.commute)
  moreover have "k + l \<le> length pkts" using s2(3) kj j(4) by simp
  moreover have "starved s2" if "k + l < length pkts"
  proof (cases "cs = []")
    case True
    have "drop j pkts = []"
    proof (rule ccontr)
      assume "drop j pkts \<noteq> []"
      then obtain p ps where p: "drop j pkts = p # ps" by (cases "drop j pkts") auto
      then have "p \<in> set pkts" by (metis in_set_dropD list.set_intros(1))
      then have "stream_verdict (p @ (concat ps @ rest)) = Accept"
        using Cons.prems(3) stream_verdict_wire by blast
      moreover have "r = p @ (concat ps @ rest)" using j(3) True p by simp
      ultimately show False using j(2) by simp
    qed
    then have "j = length pkts" using j(4) by simp
    then have "k < length (take j pkts)" using that by simp
    moreover have "s2 = s1" using s2(1) True by simp
    ultimately show ?thesis using s1(6) by simp
  next
    case False
    then show ?thesis using s2(6) that by simp
  qed
  ultimately show ?case
    using s1(1) s2(1,2) by (intro exI [of _ s2] exI [of _ "k + l"]) simp
qed

end

section \<open>Bytes into buffers\<close>

definition fill_buffer :: "addr \<Rightarrow> u8 list \<Rightarrow> 'a buf_state_scheme \<Rightarrow> 'a buf_state_scheme" where
  "fill_buffer b xs s = upd_buf b (\<lambda>x. x\<lparr>b_Data := put_list (unat (b_Offset x)) xs (b_Data x),
     b_Offset := b_Offset x + of_nat (length xs)\<rparr>) s"

definition chain_bufs :: "'a reader_state_scheme \<Rightarrow> addr list" where
  "chain_bufs s = map (\<lambda>c. ib_Buf (h_InBuf s c)) (chain s)"

definition chain_ok :: "(u16 \<Rightarrow> addr set) \<Rightarrow> 'a reader_state_scheme \<Rightarrow> bool" where
  "chain_ok H s \<longleftrightarrow> (\<forall>ib. pr_InBuf (pr s) = Some ib \<longrightarrow> cur_ok s ib) \<and>
     set (chain s) \<subseteq> H OT_IN_BUFFER \<and> distinct (chain_bufs s)"

definition queue_packets :: "'a reader_state_scheme \<Rightarrow> wire_packet list" where
  "queue_packets s = map (packet_of s) (pr_Queue (pr s))"

lemma fill_buffer_frame:
  "op_Types (fill_buffer b xs s) = op_Types s" "op_MemPool (fill_buffer b xs s) = op_MemPool s"
  "op_Mem (fill_buffer b xs s) = op_Mem s" "faults (fill_buffer b xs s) = faults s"
  "buf_state.more (fill_buffer b xs s) = buf_state.more s"
  by (simp_all add: fill_buffer_def)

lemma fill_buffer_reader:
  fixes s :: "'a reader_state_scheme"
  shows "h_InBuf (fill_buffer b xs s) = h_InBuf s" "h_InPac (fill_buffer b xs s) = h_InPac s"
    "pr (fill_buffer b xs s) = pr s" "chain (fill_buffer b xs s) = chain s"
    "chain_bufs (fill_buffer b xs s) = chain_bufs s"
proof -
  show f: "h_InBuf (fill_buffer b xs s) = h_InBuf s" "h_InPac (fill_buffer b xs s) = h_InPac s"
    "pr (fill_buffer b xs s) = pr s"
    using reader_fields_buf [OF fill_buffer_frame(5)] by blast+
  show c: "chain (fill_buffer b xs s) = chain s" unfolding chain_def f ..
  show "chain_bufs (fill_buffer b xs s) = chain_bufs s" unfolding chain_bufs_def f c ..
qed

lemma fill_buffer_bufs:
  assumes "buf_offset s b + length xs \<le> BUFFER_SIZE"
  shows "c \<noteq> b \<Longrightarrow> h_Buf (fill_buffer b xs s) c = h_Buf s c"
    "buf_offset (fill_buffer b xs s) b = buf_offset s b + length xs"
    "buf_data (fill_buffer b xs s) b k = (if buf_offset s b \<le> k \<and> k < buf_offset s b + length xs
       then xs ! (k - buf_offset s b) else buf_data s b k)"
proof -
  show "c \<noteq> b \<Longrightarrow> h_Buf (fill_buffer b xs s) c = h_Buf s c" by (simp add: fill_buffer_def)
  have "unat (of_nat (length xs) :: u16) = length xs"
    using assms by (intro unat_of_nat_u16) (simp add: BUFFER_SIZE_def)
  then show "buf_offset (fill_buffer b xs s) b = buf_offset s b + length xs"
    using assms by (simp add: fill_buffer_def, subst unat_add_u16_small) (simp_all add: BUFFER_SIZE_def)
  show "buf_data (fill_buffer b xs s) b k = (if buf_offset s b \<le> k \<and> k < buf_offset s b + length xs
       then xs ! (k - buf_offset s b) else buf_data s b k)"
    by (simp add: fill_buffer_def put_list_def)
qed

text \<open>The packets in the queue do not change: their data lies below the offset.\<close>

lemma fill_buffer_packets:
  assumes room: "buf_offset s b + length xs \<le> BUFFER_SIZE" and inv: "reader_inv H s"
  shows "reader_inv H (fill_buffer b xs s)" "queue_packets (fill_buffer b xs s) = queue_packets s"
proof -
  let ?s = "fill_buffer b xs s"
  note f = fill_buffer_reader [of b xs s] fill_buffer_frame [of b xs s]
  note g = fill_buffer_bufs [OF room]
  have pin: "ptr_in ?s p n" if "ptr_in s p n" for p n
  proof (cases p)
    case (Some q)
    obtain c i where q: "q = (c, i)" by fastforce
    then have "i + n \<le> buf_offset s c" using that Some by (simp add: ptr_in_def)
    moreover have "buf_offset s c \<le> buf_offset ?s c" using g by (cases "c = b") simp_all
    ultimately show ?thesis by (simp add: ptr_in_def Some q)
  qed (use that in simp)
  have pb: "ptr_bytes ?s p n = ptr_bytes s p n" if "ptr_in s p n" for p n
  proof (cases p)
    case (Some q)
    obtain c i where q: "q = (c, i)" by fastforce
    then have "i + n \<le> buf_offset s c" using that Some by (simp add: ptr_in_def)
    then have "\<forall>k < n. buf_data ?s c (i + k) = buf_data s c (i + k)"
      using g by (cases "c = b") simp_all
    then show ?thesis by (simp add: ptr_bytes_def ptr_byte_def Some q)
  qed (simp add: ptr_bytes_def ptr_byte_def)
  have "pool_holds H ?s = pool_holds H s" by (rule pool_holds_cong) (simp_all add: f)
  then show "reader_inv H ?s"
    using inv pin by (simp add: reader_inv_def f pac_in_def Let_def)
  have "packet_of ?s ip = packet_of s ip" if "ip \<in> set (pr_Queue (pr s))" for ip
    using inv that pb by (simp add: reader_inv_def pac_in_def packet_of_def Let_def f)
  then show "queue_packets ?s = queue_packets s" by (simp add: queue_packets_def f)
qed

lemma BUF_BYTES_fill:
  assumes "buf_offset s b + length xs \<le> BUFFER_SIZE"
  shows "ib_Buf (h_InBuf s c) \<noteq> b \<Longrightarrow> BUF_BYTES (fill_buffer b xs s) c = BUF_BYTES s c"
    "ib_Buf (h_InBuf s c) \<noteq> b \<Longrightarrow> ib_data (fill_buffer b xs s) c = ib_data s c"
    "ib_Buf (h_InBuf s c) = b \<Longrightarrow> unat (BUF_BYTES (fill_buffer b xs s) c) = unat (BUF_BYTES s c) + length xs"
    "ib_Buf (h_InBuf s c) = b \<Longrightarrow> ib_data (fill_buffer b xs s) c k =
       (if unat (BUF_BYTES s c) \<le> k \<and> k < unat (BUF_BYTES s c) + length xs
        then xs ! (k - unat (BUF_BYTES s c)) else ib_data s c k)"
  using fill_buffer_bufs [OF assms] by (simp_all add: BUF_BYTES_def ib_data_def fill_buffer_reader)

lemma unread_append:
  assumes "vlen s1 c = vlen s c + length xs"
    and "\<And>k. k < vlen s c \<Longrightarrow> vmem s1 c k = vmem s c k"
    and "\<And>k. k < length xs \<Longrightarrow> vmem s1 c (vlen s c + k) = xs ! k"
  shows "unread s1 c = unread s c @ xs"
proof -
  have "unread s1 c = bytes_of (vmem s1 c) 0 (vlen s c) @ bytes_of (vmem s1 c) (vlen s c) (length xs)"
    unfolding unread_def assms(1) using bytes_of_append [of "vmem s1 c" 0] by simp
  moreover have "bytes_of (vmem s1 c) 0 (vlen s c) = unread s c"
    unfolding unread_def using assms(2) by (intro bytes_of_cong) simp
  moreover have "bytes_of (vmem s1 c) (vlen s c) (length xs) = xs"
    by (rule nth_equalityI) (simp_all add: assms(3))
  ultimately show ?thesis by simp
qed

lemma fill_attached:
  assumes ok: "chain_ok H s" and ne: "chain s \<noteq> []"
    and b: "ib_Buf (h_InBuf s (last (chain s))) = b"
    and room: "buf_offset s b + length xs \<le> BUFFER_SIZE"
  shows "chain_ok H (fill_buffer b xs s)" "pending (fill_buffer b xs s) = pending s @ xs"
proof -
  let ?s = "fill_buffer b xs s"
  note f = fill_buffer_reader [of b xs s]
  note g = BUF_BYTES_fill [OF room]
  from ne obtain ib where ib: "pr_InBuf (pr s) = Some ib"
    by (cases "pr_InBuf (pr s)") (auto simp: chain_def)
  have cur: "cur_ok s ib" using ok ib by (simp add: chain_ok_def)
  note d = cur_okD [OF cur]
  have goal: "cur_ok ?s ib \<and> unread ?s ib = unread s ib @ xs"
  proof (cases "ib_Next (h_InBuf s ib)")
    case None
    then have bb: "ib_Buf (h_InBuf s ib) = b" using b ib by (simp add: chain_def)
    have bo: "unat (BUF_BYTES s ib) = buf_offset s b" by (simp add: BUF_BYTES_def bb)
    have "cur_ok ?s ib"
      using cur room None g(3) [OF bb] bo by (simp add: cur_ok_def f word_le_nat_alt)
    moreover have l: "left ?s ib = left s ib + length xs"
      using g(3) [OF bb] d(1) by (simp add: left_def f)
    moreover have "unread ?s ib = unread s ib @ xs"
    proof (rule unread_append)
      show "vlen ?s ib = vlen s ib + length xs" by (simp add: vlen_def l f None)
      have lb: "unat (ib_Offset (h_InBuf s ib)) + left s ib = unat (BUF_BYTES s ib)"
        using d(1) by (simp add: left_def)
      show "vmem ?s ib k = vmem s ib k" if "k < vlen s ib" for k
        using that lb by (simp add: vmem_def l f None vlen_def g(4) [OF bb])
      show "vmem ?s ib (vlen s ib + k) = xs ! k" if "k < length xs" for k
        using that by (simp add: vmem_def l f None vlen_def g(4) [OF bb] lb [symmetric])
    qed
    ultimately show ?thesis by simp
  next
    case (Some ib2)
    note n2 = d(5) [OF Some]
    have b2: "ib_Buf (h_InBuf s ib2) = b" using b ib by (simp add: chain_def Some)
    have b1: "ib_Buf (h_InBuf s ib) \<noteq> b"
      using ok b2 by (auto simp: chain_ok_def chain_bufs_def chain_def ib Some)
    have bo: "unat (BUF_BYTES s ib2) = buf_offset s b" by (simp add: BUF_BYTES_def b2)
    have l: "left ?s ib = left s ib" by (simp add: left_def f g(1) [OF b1])
    have "cur_ok ?s ib"
      using cur room n2 g(3) [OF b2] bo by (simp add: cur_ok_def f Some g(1) [OF b1])
    moreover have "unread ?s ib = unread s ib @ xs"
    proof (rule unread_append)
      show "vlen ?s ib = vlen s ib + length xs" by (simp add: vlen_def l f Some g(3) [OF b2])
      show "vmem ?s ib k = vmem s ib k" if "k < vlen s ib" for k
        using that by (auto simp: vmem_def l f Some vlen_def g(4) [OF b2] g(2) [OF b1])
      show "vmem ?s ib (vlen s ib + k) = xs ! k" if "k < length xs" for k
        using that by (simp add: vmem_def l f Some vlen_def g(4) [OF b2])
    qed
    ultimately show ?thesis by simp
  qed
  then show "pending ?s = pending s @ xs" by (simp add: pending_def f ib)
  show "chain_ok H ?s" using ok goal ib by (simp add: chain_ok_def f)
qed

lemma fill_detached:
  assumes ok: "chain_ok H s" and b: "b \<notin> set (chain_bufs s)"
    and room: "buf_offset s b + length xs \<le> BUFFER_SIZE"
  shows "chain_ok H (fill_buffer b xs s)" "pending (fill_buffer b xs s) = pending s"
proof -
  let ?s = "fill_buffer b xs s"
  note f = fill_buffer_reader [of b xs s]
  note g = BUF_BYTES_fill [OF room]
  have goal: "cur_ok ?s ib = cur_ok s ib \<and> unread ?s ib = unread s ib" if ib: "pr_InBuf (pr s) = Some ib" for ib
  proof -
    have b1: "ib_Buf (h_InBuf s ib) \<noteq> b" using b ib by (auto simp: chain_bufs_def chain_def)
    note g1 = g(1) [OF b1] g(2) [OF b1]
    have l: "left ?s ib = left s ib" by (simp add: left_def f g1)
    show ?thesis
    proof (cases "ib_Next (h_InBuf s ib)")
      case None
      then have "vmem ?s ib k = vmem s ib k" for k by (simp add: vmem_def l f g1)
      then show ?thesis using None by (simp add: cur_ok_def unread_def bytes_of_def vlen_def l f g1)
    next
      case (Some ib2)
      then have b2: "ib_Buf (h_InBuf s ib2) \<noteq> b" using b ib by (auto simp: chain_bufs_def chain_def)
      note g2 = g(1) [OF b2] g(2) [OF b2]
      have "vmem ?s ib k = vmem s ib k" for k by (simp add: vmem_def l f g1 g2 Some)
      then show ?thesis by (simp add: cur_ok_def unread_def bytes_of_def vlen_def l f g1 g2 Some)
    qed
  qed
  then show "pending ?s = pending s" by (simp add: pending_def f split: option.split)
  show "chain_ok H ?s" using ok goal by (auto simp: chain_ok_def f)
qed

section \<open>Appending a buffer\<close>

lemma find_in_chain:
  assumes "chain_ok H s"
  shows "find_in_buf (h_InBuf s) b (pr_InBuf (pr s)) = Some (b \<in> set (chain_bufs s))"
proof (cases "pr_InBuf (pr s)")
  case None
  then show ?thesis by (subst find_in_buf.simps) (simp add: chain_bufs_def chain_def)
next
  case (Some ib)
  then have cur: "cur_ok s ib" using assms by (simp add: chain_ok_def)
  show ?thesis
  proof (cases "ib_Next (h_InBuf s ib)")
    case None
    then show ?thesis
      by (simp add: Some chain_bufs_def chain_def, subst find_in_buf.simps, simp,
          subst find_in_buf.simps, auto)
  next
    case n: (Some ib2)
    then have "ib_Next (h_InBuf s ib2) = None" using cur_okD(5) [OF cur n] by blast
    then show ?thesis
      by (simp add: Some n chain_bufs_def chain_def, subst find_in_buf.simps, simp add: n,
          subst find_in_buf.simps, simp, subst find_in_buf.simps, auto)
  qed
qed

text \<open>A new buffer becomes the end of the chain.\<close>

lemma append_new:
  assumes ok: "chain_ok H s" and inv: "reader_inv H s" and b: "b \<notin> set (chain_bufs s)"
    and full: "chain s = [] \<or> (\<exists>ib. chain s = [ib] \<and> unat (BUF_BYTES s ib) = BUFFER_SIZE)"
    and room: "buf_offset s b \<le> BUFFER_SIZE"
    and al: "APB_AllocObject OT_IN_BUFFER s = (Some c, s1)"
  shows "\<exists>s2 H2. APB_AppendBuffer b s = Some (True, s2) \<and> chain_ok H2 s2 \<and> reader_inv H2 s2 \<and>
    queue_packets s2 = queue_packets s \<and> pr_InBuf (pr s2) \<noteq> None \<and>
    pending s2 = pending s @ bytes_of (buf_data s b) 0 (buf_offset s b)"
proof -
  note f = alloc_in_packet_frame [OF al]
  have hold: "pool_holds H s" using inv by (simp add: reader_inv_def)
  define H2 where "H2 = H(OT_IN_BUFFER := insert c (H OT_IN_BUFFER))"
  from pool_laws(1) [OF hold] al have new: "c \<notin> H OT_IN_BUFFER"
    and ph: "pool_holds H2 s1" unfolding H2_def by blast+
  have types: "H2 OT_IN_PACKET = H OT_IN_PACKET" by (simp add: H2_def OT_defs)
  have fnd: "find_in_buf (h_InBuf s) b (pr_InBuf (pr s)) = Some False"
    using find_in_chain [OF ok] b by simp
  let ?s2 = "upd_ib c (\<lambda>_. new_in_buffer b) s1"
  have common: "reader_inv H2 s2 \<and> queue_packets s2 = queue_packets s"
    if "h_InPac s2 = h_InPac s" "h_Buf s2 = h_Buf s" "pr_Queue (pr s2) = pr_Queue (pr s)"
      "pr_QueueSize (pr s2) = pr_QueueSize (pr s)" "op_Types s2 = op_Types s1"
      "op_MemPool s2 = op_MemPool s1" "op_Mem s2 = op_Mem s1" for s2 :: "'a reader_state_scheme"
  proof -
    have "pool_holds H2 s2 = pool_holds H2 s1" by (rule pool_holds_cong) (use that in simp_all)
    moreover have "pac_in s2 ip = pac_in s ip" for ip by (rule pac_in_cong) (use that in simp_all)
    moreover have "packet_of s2 ip = packet_of s ip" for ip
      using ptr_bytes_cong [OF that(2)] that by (simp add: packet_of_def Let_def)
    ultimately show ?thesis
      using inv ph that types by (simp add: reader_inv_def queue_packets_def)
  qed
  show ?thesis
  proof (cases "pr_InBuf (pr s)")
    case None
    define s3 where "s3 = upd_pr (\<lambda>r. r\<lparr>pr_InBuf := Some c\<rparr>) ?s2"
    have ap: "APB_AppendBuffer b s = Some (True, s3)"
      unfolding APB_AppendBuffer_def fnd option.case bool.case al prod.case Let_def
      by (simp add: f None s3_def)
    have g: "h_InBuf s3 = (h_InBuf s)(c := new_in_buffer b)" "pr s3 = (pr s)\<lparr>pr_InBuf := Some c\<rparr>"
      "h_Buf s3 = h_Buf s" "h_InPac s3 = h_InPac s" by (simp_all add: s3_def f)
    have bb: "BUF_BYTES s3 c = b_Offset (h_Buf s b)" "ib_data s3 c = buf_data s b"
      by (simp_all add: BUF_BYTES_def ib_data_def g new_in_buffer_def)
    have ch: "chain s3 = [c]" by (simp add: chain_def g new_in_buffer_def)
    have "cur_ok s3 c" using room by (simp add: cur_ok_def bb g new_in_buffer_def)
    then have co: "chain_ok H2 s3" by (simp add: chain_ok_def g ch chain_bufs_def H2_def)
    have "unread s3 c = bytes_of (buf_data s b) 0 (buf_offset s b)"
      by (rule nth_equalityI) (simp_all add: unread_def vlen_def vmem_def left_def bb g new_in_buffer_def)
    then have "pending s3 = pending s @ bytes_of (buf_data s b) 0 (buf_offset s b)"
      by (simp add: pending_def g None)
    moreover have "op_Types s3 = op_Types s1" "op_MemPool s3 = op_MemPool s1" "op_Mem s3 = op_Mem s1"
      by (simp_all add: s3_def)
    ultimately show ?thesis using ap co common [of s3] g by auto
  next
    case (Some ib)
    then have cib: "chain s = [ib]" and fl: "unat (BUF_BYTES s ib) = BUFFER_SIZE"
      and nx: "ib_Next (h_InBuf s ib) = None"
      using full by (auto simp: chain_def split: option.splits)
    have cur: "cur_ok s ib" using ok Some by (simp add: chain_ok_def)
    note d = cur_okD [OF cur]
    have ne: "ib \<noteq> c" using ok cib new by (auto simp: chain_ok_def)
    have bne: "ib_Buf (h_InBuf s ib) \<noteq> b" using b by (simp add: chain_bufs_def cib)
    define h where "h = ((h_InBuf s)(c := new_in_buffer b))
        (ib := (h_InBuf s ib)\<lparr>ib_CanRelease := True, ib_Next := Some c\<rparr>)"
    have ll: "link_last c ib (h_InBuf ?s2) = Some h"
      using ne nx by (subst link_last.simps) (simp add: h_def f Let_def)
    define s3 where "s3 = ?s2\<lparr>h_InBuf := h\<rparr>"
    have ap: "APB_AppendBuffer b s = Some (True, s3)"
      unfolding APB_AppendBuffer_def fnd option.case bool.case al prod.case Let_def
      using ll by (simp add: f Some s3_def)
    have g: "h_InBuf s3 = h" "pr s3 = pr s" "h_Buf s3 = h_Buf s" "h_InPac s3 = h_InPac s"
      by (simp_all add: s3_def f)
    have bb: "BUF_BYTES s3 c = b_Offset (h_Buf s b)" "ib_data s3 c = buf_data s b"
      "BUF_BYTES s3 ib = BUF_BYTES s ib" "ib_data s3 ib = ib_data s ib"
      "ib_Next (h ib) = Some c" "ib_Next (h c) = None" "ib_Offset (h c) = 0"
      "ib_Offset (h ib) = ib_Offset (h_InBuf s ib)" "ib_Buf (h ib) = ib_Buf (h_InBuf s ib)" "ib_Buf (h c) = b"
      using ne by (simp_all add: BUF_BYTES_def ib_data_def g h_def new_in_buffer_def)
    have ch: "chain s3 = [ib, c]" by (simp add: chain_def g Some bb)
    have "cur_ok s3 ib" using cur room ne fl by (simp add: cur_ok_def bb g)
    then have co: "chain_ok H2 s3"
      using ok cib bne by (auto simp: chain_ok_def g ch chain_bufs_def H2_def Some bb)
    have l: "left s3 ib = left s ib" by (simp add: left_def bb g)
    have "unread s3 ib = unread s ib @ bytes_of (buf_data s b) 0 (buf_offset s b)"
      by (rule unread_append) (simp_all add: vlen_def vmem_def l bb g nx)
    then have "pending s3 = pending s @ bytes_of (buf_data s b) 0 (buf_offset s b)"
      by (simp add: pending_def g Some)
    moreover have "op_Types s3 = op_Types s1" "op_MemPool s3 = op_MemPool s1" "op_Mem s3 = op_Mem s1"
      by (simp_all add: s3_def)
    ultimately show ?thesis using ap co common [of s3] g Some by auto
  qed
qed

section \<open>Feeding the reader\<close>

definition feed :: "addr \<times> u8 list \<Rightarrow> 'a reader_state_scheme \<Rightarrow> 'a reader_state_scheme option" where
  "feed c s = APB_ProcessBuffer (fst c) (fill_buffer (fst c) (snd c) s)"

text \<open>
  Bytes go to the last buffer of the chain, or to an empty buffer when the chain is full and an
  InBuffer for it can be had.
\<close>

definition can_feed :: "addr \<times> u8 list \<Rightarrow> 'a reader_state_scheme \<Rightarrow> bool" where
  "can_feed c s \<longleftrightarrow> (case c of (b, xs) \<Rightarrow> buf_offset s b + length xs \<le> BUFFER_SIZE \<and>
     (if b \<in> set (chain_bufs s) then b = last (chain_bufs s)
      else buf_offset s b = 0 \<and>
        (chain s = [] \<or> (\<exists>ib. chain s = [ib] \<and> unat (BUF_BYTES s ib) = BUFFER_SIZE)) \<and>
        fst (APB_AllocObject OT_IN_BUFFER (fill_buffer b xs s)) \<noteq> None))"

definition decoder_inv :: "'a reader_state_scheme \<Rightarrow> bool" where
  "decoder_inv s \<longleftrightarrow> (\<exists>H. reader_inv H s \<and> chain_ok H s)"

lemma chain_bufs_last: "chain s \<noteq> [] \<Longrightarrow> last (chain_bufs s) = ib_Buf (h_InBuf s (last (chain s)))"
  by (simp add: chain_bufs_def last_map)

lemma append_fed:
  assumes inv: "decoder_inv s" and can: "can_feed (b, xs) s"
  shows "\<exists>s2 H. APB_AppendBuffer b (fill_buffer b xs s) = Some (True, s2) \<and> chain_ok H s2 \<and>
    reader_inv H s2 \<and> queue_packets s2 = queue_packets s \<and> pr_InBuf (pr s2) \<noteq> None \<and>
    pending s2 = pending s @ xs"
proof -
  let ?s = "fill_buffer b xs s"
  note f = fill_buffer_reader [of b xs s]
  from inv obtain H where H: "reader_inv H s" "chain_ok H s" by (auto simp: decoder_inv_def)
  have room: "buf_offset s b + length xs \<le> BUFFER_SIZE" using can by (simp add: can_feed_def)
  note p = fill_buffer_packets [OF room H(1)]
  show ?thesis
  proof (cases "b \<in> set (chain_bufs s)")
    case True
    then have ne: "chain s \<noteq> []" by (auto simp: chain_bufs_def)
    then have b: "ib_Buf (h_InBuf s (last (chain s))) = b"
      using can True chain_bufs_last [of s] by (simp add: can_feed_def)
    note a = fill_attached [OF H(2) ne b room]
    have "APB_AppendBuffer b ?s = Some (True, ?s)"
      using find_in_chain [OF a(1), of b] True by (simp add: APB_AppendBuffer_def f)
    moreover have "pr_InBuf (pr ?s) \<noteq> None" using ne by (auto simp: chain_def f split: option.splits)
    ultimately show ?thesis using a p by blast
  next
    case False
    then have b0: "buf_offset s b = 0"
      and full: "chain s = [] \<or> (\<exists>ib. chain s = [ib] \<and> unat (BUF_BYTES s ib) = BUFFER_SIZE)"
      and al: "fst (APB_AllocObject OT_IN_BUFFER ?s) \<noteq> None"
      using can by (simp_all add: can_feed_def)
    note a = fill_detached [OF H(2) False room]
    note g = fill_buffer_bufs [OF room]
    obtain c s1 where al1: "APB_AllocObject OT_IN_BUFFER ?s = (Some c, s1)"
      using al by (cases "APB_AllocObject OT_IN_BUFFER ?s") auto
    have full1: "chain ?s = [] \<or> (\<exists>ib. chain ?s = [ib] \<and> unat (BUF_BYTES ?s ib) = BUFFER_SIZE)"
    proof -
      have "BUF_BYTES ?s ib = BUF_BYTES s ib" if "chain s = [ib]" for ib
        using False that BUF_BYTES_fill(1) [OF room, of ib] by (simp add: chain_bufs_def)
      then show ?thesis using full by (auto simp: f)
    qed
    have room1: "buf_offset ?s b \<le> BUFFER_SIZE" using g(2) room by simp
    have nb: "b \<notin> set (chain_bufs ?s)" using False by (simp add: f)
    have "bytes_of (buf_data ?s b) 0 (buf_offset ?s b) = xs"
      using g b0 by (intro nth_equalityI) simp_all
    with append_new [OF a(1) p(1) nb full1 room1 al1] a(2) p(2) show ?thesis by metis
  qed
qed

lemma feed_ok:
  assumes inv: "decoder_inv s" and can: "can_feed c s"
    and str: "pending s @ snd c = concat pkts @ rest" and w: "\<forall>p \<in> set pkts. wire_ok p"
    and wt: "stream_verdict rest = Wait"
  shows "\<exists>s1 k. feed c s = Some s1 \<and> decoder_inv s1 \<and> k \<le> length pkts \<and>
    queue_packets s1 = queue_packets s @ map decode (take k pkts) \<and> pending s1 = concat (drop k pkts) @ rest \<and>
    (k < length pkts \<longrightarrow> no_in_packet s1)"
proof -
  obtain b xs where c: "c = (b, xs)" by fastforce
  from append_fed [OF inv can [unfolded c]] obtain s2 H where
    s2: "APB_AppendBuffer b (fill_buffer b xs s) = Some (True, s2)" "chain_ok H s2" "reader_inv H s2"
      "queue_packets s2 = queue_packets s" "pr_InBuf (pr s2) \<noteq> None" "pending s2 = pending s @ xs" by blast
  have ac: "at_cursor (pr_InBuf (pr s2)) s2"
    using s2(2,5) by (auto simp: at_cursor_def chain_ok_def)
  have pe: "pending s2 = concat pkts @ rest" using s2(6) str c by simp
  obtain s1 ips where
    s1: "process_loop (pr_InBuf (pr s2)) s2 = Some s1" "\<exists>q1. at_cursor q1 s1"
      "reader_inv (with_packets ips H) s1" "read_frame H s2 s1"
      "pr_Queue (pr s1) = pr_Queue (pr s2) @ ips" "length ips \<le> length pkts"
      "map (packet_of s1) ips = map decode (take (length ips) pkts)"
      "pending s1 = concat (drop (length ips) pkts) @ rest"
      "length ips < length pkts \<longrightarrow> no_in_packet s1"
    using read_stream [OF s2(3) ac pe w wt] by (elim exE conjE) (rule that, assumption, rule exI, assumption+)
  have "feed c s = Some s1" using s2(1) s1(1) by (simp add: feed_def c APB_ProcessBuffer_def)
  moreover have "decoder_inv s1"
  proof -
    from s1(4) obtain ys where ys: "chain s2 = ys @ chain s1" by (auto simp: read_frame_def)
    have bu: "chain_bufs s2 = map (\<lambda>c. ib_Buf (h_InBuf s2 c)) ys @ chain_bufs s1"
      using s1(4) by (simp add: chain_bufs_def ys read_frame_def)
    have "with_packets ips H OT_IN_BUFFER = H OT_IN_BUFFER" by (simp add: with_packets_def OT_defs)
    then have "chain_ok (with_packets ips H) s1"
      using s2(2) s1(2) bu ys by (auto simp: chain_ok_def at_cursor_def)
    then show ?thesis using s1(3) by (auto simp: decoder_inv_def)
  qed
  moreover have "queue_packets s1 = queue_packets s @ map decode (take (length ips) pkts)"
  proof -
    have "packet_of s1 ip = packet_of s2 ip" if "ip \<in> set (pr_Queue (pr s2))" for ip
      using that s2(3) by (intro received_frame [OF s1(4)]) (auto simp: reader_inv_def)
    then have "map (packet_of s1) (pr_Queue (pr s2)) = queue_packets s2" by (simp add: queue_packets_def)
    then show ?thesis
      unfolding s2(4) [symmetric] by (simp only: queue_packets_def s1(5,7) map_append)
  qed
  ultimately show ?thesis
    using s1(6,8,9) by (intro exI [of _ s1] exI [of _ "length ips"] conjI)
qed

interpretation dec: packet_decoder decoder_inv can_feed feed snd pending queue_packets no_in_packet
  by unfold_locales (rule feed_ok)

end
