(* ===== verification/ReaderProps.thy ===== *)
theory ReaderProps
  imports ReaderStream
begin

text \<open>
  The properties of the packet reader: what comes out for a stream of packets, what never
  gets in, how it finds its way back after garbage, when it does not come back, and what
  happens to the buffers when packets are given back.
\<close>

section \<open>A new reader\<close>

lemma create_reader_facts:
  assumes h: "pool_holds H s" and c: "APB_CreatePacketReader s = (True, s0)"
  shows "decoder_inv s0" "pending s0 = []" "queue_packets s0 = []" "chain s0 = []"
    "faults s0 = faults s" "h_Buf s0 = h_Buf s"
proof -
  from c obtain a s1 where al: "APB_AllocMem sizeof_PacketReader s = (Some a, s1)"
    and s0: "s0 = register_missing OT_IN_PACKET ''Incoming Packet'' sizeof_InPacket
        (MIN_BUFFERS * 10) (MAX_BUFFERS * 10)
      (register_missing OT_IN_BUFFER ''Incoming Buffer'' sizeof_InBuffer MIN_BUFFERS MAX_BUFFERS
        (upd_pr (\<lambda>_. \<lparr>pr_Addr = a, pr_InBuf = None, pr_Queue = [], pr_QueueSize = 0\<rparr>) s1))"
    by (auto simp: APB_CreatePacketReader_def Let_def split: prod.splits option.splits)
  let ?s2 = "upd_pr (\<lambda>_. \<lparr>pr_Addr = a, pr_InBuf = None, pr_Queue = [], pr_QueueSize = 0\<rparr>) s1"
  note h1 = pool_alloc_mem_holds [OF h al]
  have m1: "pool.more s1 = pool.more s" by (rule APB_AllocMem_more [OF al])
  have m0: "pool.more s0 = pool.more ?s2" by (simp add: s0)
  have "pool_holds H ?s2 = pool_holds H s1" by (rule pool_holds_cong) simp_all
  then have h2: "pool_holds H ?s2" and f2: "faults ?s2 = faults s" using h1 by simp_all
  have h0: "pool_holds H s0 \<and> faults s0 = faults ?s2"
    using register_missing_holds h2 unfolding s0 by metis
  have pr0: "pr s0 = \<lparr>pr_Addr = a, pr_InBuf = None, pr_Queue = [], pr_QueueSize = 0\<rparr>"
    using reader_fields_pool(3) [OF m0] by simp
  show "faults s0 = faults s" using h0 f2 by simp
  show "h_Buf s0 = h_Buf s" using h_Buf_more [OF m0] h_Buf_more [OF m1] by simp
  show ch: "chain s0 = []" by (simp add: chain_def pr0)
  show "pending s0 = []" by (simp add: pending_def pr0)
  show "queue_packets s0 = []" by (simp add: queue_packets_def pr0)
  have "reader_inv H s0 \<and> chain_ok H s0"
    using h0 by (simp add: reader_inv_def chain_ok_def ch chain_bufs_def pr0)
  then show "decoder_inv s0" by (auto simp: decoder_inv_def)
qed

lemma create_reader_bump:
  assumes b: "em_answer (op_Mem s) = bump" and h: "pool_holds (\<lambda>_. {}) s"
    and n: "\<not> APB_TypeRegistered OT_IN_BUFFER s" "\<not> APB_TypeRegistered OT_IN_PACKET s"
  shows "\<exists>s0. APB_CreatePacketReader s = (True, s0) \<and> em_answer (op_Mem s0) = bump \<and>
    registered OT_IN_BUFFER MAX_BUFFERS s0 \<and> registered OT_IN_PACKET (MAX_BUFFERS * 10) s0 \<and>
    pool_holds (\<lambda>_. {}) s0"
proof -
  obtain a s1 where al: "APB_AllocMem sizeof_PacketReader s = (Some a, s1)"
    using alloc_mem_bump [OF b, of sizeof_PacketReader]
    by (cases "APB_AllocMem sizeof_PacketReader s") auto
  define s2 where "s2 = upd_pr (\<lambda>_. \<lparr>pr_Addr = a, pr_InBuf = None, pr_Queue = [], pr_QueueSize = 0\<rparr>) s1"
  define s3 where "s3 = APB_RegisterObjectType OT_IN_BUFFER ''Incoming Buffer'' sizeof_InBuffer
    MIN_BUFFERS MAX_BUFFERS s2"
  define s4 where "s4 = APB_RegisterObjectType OT_IN_PACKET ''Incoming Packet'' sizeof_InPacket
    (MIN_BUFFERS * 10) (MAX_BUFFERS * 10) s3"
  have r2: "registered i k s2 = registered i k s" for i k
    using registered_pool_alloc [OF al [unfolded APB_AllocMem_def]] registered_cong [of s2 s1]
    by (simp add: s2_def)
  then have n2: "\<not> APB_TypeRegistered OT_IN_BUFFER s2" "\<not> APB_TypeRegistered OT_IN_PACKET s2"
    using n by (simp_all add: type_registered_iff)
  have b2: "em_answer (op_Mem s2) = bump"
    using pool_alloc_answer [OF al [unfolded APB_AllocMem_def]] b by (simp add: s2_def)
  then have b3: "em_answer (op_Mem s3) = bump" by (simp add: s3_def)
  have k3: "registered OT_IN_BUFFER MAX_BUFFERS s3" unfolding s3_def by (rule register_bump [OF b2 n2(1)])
  have n3: "\<not> APB_TypeRegistered OT_IN_PACKET s3"
    using register_only [of _ _ OT_IN_BUFFER _ _ _ _ s2] n2(2) b2
    by (fastforce simp: type_registered_iff s3_def)
  have c: "APB_CreatePacketReader s = (True, s4)"
    using al n2 n3 by (simp add: APB_CreatePacketReader_def register_missing_def s2_def s3_def s4_def)
  have "registered OT_IN_BUFFER MAX_BUFFERS s4" unfolding s4_def by (rule register_keeps [OF k3])
  moreover have "registered OT_IN_PACKET (MAX_BUFFERS * 10) s4"
    unfolding s4_def by (rule register_bump [OF b3 n3])
  moreover have "pool_holds (\<lambda>_. {}) s2"
    using pool_alloc_mem_holds [OF h al] pool_holds_cong [of s2 s1] by (simp add: s2_def)
  then have "pool_holds (\<lambda>_. {}) s4" unfolding s4_def s3_def by (simp add: pool_holds_register)
  ultimately show ?thesis using c b3 by (auto simp: s4_def)
qed

text \<open>A reader next to an idle writer, and a ping packet as bytes.\<close>

definition demo_reader :: reader_state where
  "demo_reader = writer_state.extend demo_writer
     \<lparr>h_InBuf = (\<lambda>_. new_in_buffer 0),
      h_InPac = (\<lambda>_. \<lparr>ip_InBuf = 0, ip_Type = 0, ip_Flags = 0, ip_ConnId = 0, ip_PackId = 0,
        ip_Offset = 0, ip_Data1Length = 0, ip_Data2Length = 0, ip_Data1 = None, ip_Data2 = None\<rparr>),
      pr = \<lparr>pr_Addr = 0, pr_InBuf = None, pr_Queue = [], pr_QueueSize = 0\<rparr>\<rparr>"

definition ping_bytes :: "u8 list" where
  "ping_bytes = [0x41, 0x6d, 0x50, 0x69, 0x24, 0, 0, 0, 0, 7, 0x4A, 0x23, 0, 0]"

lemma demo_reader_holds: "pool_holds (\<lambda>i. {}) demo_reader"
  using demo_writer_holds
    pool_holds_cong [of demo_reader demo_writer "\<lambda>i. {}"]
  by (simp add: demo_reader_def writer_state.defs)

text \<open>A reader that has just been made, with room for every kind of object it uses.\<close>

definition fresh_reader :: "reader_state \<Rightarrow> bool" where
  "fresh_reader s \<longleftrightarrow> APB_CreatePacketReader demo_reader = (True, s) \<and> em_answer (op_Mem s) = bump \<and>
     registered OT_IN_BUFFER MAX_BUFFERS s \<and> registered OT_IN_PACKET (MAX_BUFFERS * 10) s \<and>
     pool_holds (\<lambda>_. {}) s"

lemma demo_reader_start: "\<exists>s. fresh_reader s"
proof -
  have "em_answer (op_Mem demo_reader) = bump" "\<not> APB_TypeRegistered i demo_reader" for i
    by (simp_all add: demo_reader_def demo_writer_def writer_state.defs APB_TypeRegistered_def
        APB_TypeRegisteredInternal_def APB_GetObjectType_def)
  from create_reader_bump [OF this(1) demo_reader_holds this(2,2)] show ?thesis
    by (auto simp: fresh_reader_def)
qed

text \<open>One more object of a type that has room.\<close>

lemma alloc_held:
  assumes h: "pool_holds H s" and r: "registered i n s" and c: "card (H i) < unat n"
    and b: "em_answer (op_Mem s) = bump"
  shows "\<exists>p s1. APB_AllocObject i s = (Some p, s1) \<and> p \<notin> H i \<and>
    pool_holds (H(i := insert p (H i))) s1 \<and> em_answer (op_Mem s1) = bump \<and>
    (\<forall>j k. registered j k s1 = registered j k s)"
proof -
  obtain p s1 where al: "APB_AllocObject i s = (Some p, s1)" using alloc_object_bump [OF assms] by blast
  show ?thesis
    using al pool_laws(1) [OF h al] alloc_object_registered [OF al] b by auto
qed

lemma ping_words: "map (get16 (mem_of ping_bytes)) [0, 2, 4, 6, 8, 10, 12] =
    [0x416d, 0x5069, 0x2400, 0, 7, 0x4A23, 0]"
  by (simp add: ping_bytes_def get16_def mem_of_def be16_def)

lemma ping_wire: "wire_ok ping_bytes"
proof -
  let ?m = "mem_of ping_bytes"
  have g: "get16 ?m 0 = 0x416d" "get16 ?m 2 = 0x5069" "get16 ?m 4 = 0x2400" "get16 ?m 6 = 0"
    "get16 ?m 8 = 7" "get16 ?m 10 = 0x4A23" "get16 ?m 12 = 0"
    using ping_words by simp_all
  have l: "pack_len ?m 0 = 14" by (simp add: pack_len_def g)
  have g2: "get16 ?m (Suc (Suc 0)) = 0x5069" using g(2) by (simp add: numeral_2_eq_2)
  have fl: "?m 5 = 0" by (simp add: ping_bytes_def mem_of_def)
  have id: "get32 ?m 0 = PACKET_ID" by (simp add: get32_def g g2 be32_def PACKET_ID_def)
  have "header_ok ?m 0" by (simp add: header_ok_def g id fl)
  moreover have "word_sum ?m 0 7 = 65536"
  proof -
    have n: "(7 :: nat) = Suc (Suc (Suc (Suc (Suc (Suc (Suc 0))))))" by simp
    have e: "0 + 2 = (2 :: nat)" "2 + 2 = (4 :: nat)" "4 + 2 = (6 :: nat)" "6 + 2 = (8 :: nat)"
      "8 + 2 = (10 :: nat)" "10 + 2 = (12 :: nat)" by simp_all
    have "word_sum ?m 0 7 = unat (0x416d :: u16) + (unat (0x5069 :: u16) + (unat (0x2400 :: u16) +
        (unat (0 :: u16) + (unat (7 :: u16) + (unat (0x4A23 :: u16) + (unat (0 :: u16) + 0))))))"
      unfolding n word_sum.simps e g ..
    also have "\<dots> = 65536" by simp
    finally show ?thesis .
  qed
  ultimately show ?thesis by (simp add: wire_ok_def wire_at_def l) (simp add: ping_bytes_def)
qed

section \<open>After garbage\<close>



section \<open>The data of a packet\<close>

lemma in_packet_bytes:
  assumes "pac_in s ip"
  shows "bytes_of (fst (APB_InPacketToBuffer ip s m)) 0 (length (wp_Data (packet_of s ip))) =
      wp_Data (packet_of s ip)"
    and "snd (APB_InPacketToBuffer ip s m) = of_nat (length (wp_Data (packet_of s ip)))"
proof -
  let ?x = "h_InPac s ip" and ?m = "fst (APB_InPacketToBuffer ip s m)"
  let ?l1 = "unat (ip_Data1Length ?x)" and ?l2 = "unat (ip_Data2Length ?x)"
  have pin: "ptr_in s (ip_Data1 ?x) ?l1" "ptr_in s (ip_Data2 ?x) ?l2"
    using assms by (simp_all add: pac_in_def Let_def)
  have cp: "copy_ptr p w j s f k = (if j \<le> k \<and> k < j + unat w then ptr_byte s p (k - j) else f k)"
    if "ptr_in s p (unat w)" for p w j f k
    using that by (cases p) (auto simp: copy_ptr_def ptr_in_def ptr_byte_def copy_mem_def)
  have m: "?m k = (if k < ?l1 then ptr_byte s (ip_Data1 ?x) k
      else ptr_byte s (ip_Data2 ?x) (k - ?l1))" if "k < ?l1 + ?l2" for k
    using that cp [OF pin(1)] cp [OF pin(2)]
    by (simp add: APB_InPacketToBuffer_def Let_def u16_gt_0)
  have d: "wp_Data (packet_of s ip) = ptr_bytes s (ip_Data1 ?x) ?l1 @ ptr_bytes s (ip_Data2 ?x) ?l2"
    by (simp add: packet_of_def Let_def)
  then show "bytes_of ?m 0 (length (wp_Data (packet_of s ip))) = wp_Data (packet_of s ip)"
    using m by (intro nth_equalityI) (auto simp: ptr_bytes_def nth_append)
  show "snd (APB_InPacketToBuffer ip s m) = of_nat (length (wp_Data (packet_of s ip)))"
    by (simp add: APB_InPacketToBuffer_def d Let_def ptr_bytes_def)
qed

section \<open>Concrete readers\<close>

lemma fresh_facts:
  assumes "fresh_reader s"
  shows "decoder_inv s" "chain s = []" "pending s = []" "pr_Queue (pr s) = []" "buf_offset s b = 0"
proof -
  have "APB_CreatePacketReader demo_reader = (True, s)" using assms by (simp add: fresh_reader_def)
  note c = create_reader_facts [OF demo_reader_holds this]
  show "decoder_inv s" "chain s = []" "pending s = []" "pr_Queue (pr s) = []"
    using c by (simp_all add: queue_packets_def)
  show "buf_offset s b = 0" by (simp add: c(6)) (simp add: demo_reader_def demo_writer_def writer_state.defs)
qed

lemma fresh_can_feed:
  assumes f: "fresh_reader s" and n: "length xs \<le> BUFFER_SIZE"
  shows "can_feed (b, xs) s"
proof -
  have "pool_holds (\<lambda>_. {}) (fill_buffer b xs s)" "registered OT_IN_BUFFER MAX_BUFFERS (fill_buffer b xs s)"
    using f pool_holds_cong [of "fill_buffer b xs s" s] registered_cong [of "fill_buffer b xs s" s]
    by (simp_all add: fresh_reader_def fill_buffer_frame)
  moreover have "em_answer (op_Mem (fill_buffer b xs s)) = bump"
    using f by (simp add: fresh_reader_def fill_buffer_frame)
  ultimately obtain p s1 where "APB_AllocObject OT_IN_BUFFER (fill_buffer b xs s) = (Some p, s1)"
    using alloc_held [of "\<lambda>_. {}" "fill_buffer b xs s" OT_IN_BUFFER MAX_BUFFERS]
    by (auto simp: MAX_BUFFERS_def)
  then show ?thesis
    using fresh_facts [OF f] n by (simp add: can_feed_def chain_bufs_def)
qed

text \<open>A reader that has been given the bytes \<open>xs\<close> and has not looked at them yet.\<close>

lemma loaded_reader:
  assumes n: "length xs \<le> BUFFER_SIZE"
  shows "\<exists>(s :: reader_state) ib H. reader_inv H s \<and> chain_ok H s \<and> at_cursor (Some ib) s \<and> chain s = [ib] \<and>
    pending s = xs \<and> pr_Queue (pr s) = [] \<and> em_answer (op_Mem s) = bump \<and>
    registered OT_IN_PACKET (MAX_BUFFERS * 10) s \<and> H OT_IN_PACKET = {}"
proof -
  obtain s0 where f: "fresh_reader s0" using demo_reader_start by blast
  note f0 = f [unfolded fresh_reader_def] and ff = fresh_facts [OF f]
  obtain ib s1 where a: "APB_AllocObject OT_IN_BUFFER s0 = (Some ib, s1)"
    and h1: "pool_holds ((\<lambda>_. {})(OT_IN_BUFFER := {ib})) s1" and b1: "em_answer (op_Mem s1) = bump"
    and r1: "registered OT_IN_PACKET (MAX_BUFFERS * 10) s1"
    using alloc_held [of "\<lambda>_. {}" s0 OT_IN_BUFFER MAX_BUFFERS] f0 by (auto simp: MAX_BUFFERS_def)
  have more: "pool.more s1 = pool.more s0" by (rule APB_AllocObject_more [OF a])
  have B: "h_Buf s1 = h_Buf s0" by (rule h_Buf_more [OF more])
  have P: "pr s1 = pr s0" using reader_fields_pool(3) [OF more] .
  define s2 where "s2 = fill_buffer 7 xs s1"
  define s where "s = upd_pr (\<lambda>r. r\<lparr>pr_InBuf := Some ib\<rparr>) (upd_ib ib (\<lambda>_. new_in_buffer 7) s2)"
  have o1: "buf_offset s1 7 = 0" using ff(5) B by simp
  have g: "h_Buf s = h_Buf s2" "h_InBuf s ib = new_in_buffer 7" "pr_InBuf (pr s) = Some ib"
    "pr_Queue (pr s) = []" "pr_QueueSize (pr s) = pr_QueueSize (pr s0)"
    using ff(4) by (simp_all add: s_def s2_def fill_buffer_reader P)
  have le: "buf_offset s1 7 + length xs \<le> BUFFER_SIZE" using n o1 by simp
  note fb = fill_buffer_bufs [OF le]
  have bb: "unat (BUF_BYTES s ib) = length xs"
    using fb(2) o1 by (simp add: BUF_BYTES_def g new_in_buffer_def s2_def)
  have d: "ib_data s ib k = xs ! k" if "k < length xs" for k
    using that fb(3) [of k] o1 by (simp add: ib_data_def g new_in_buffer_def s2_def)
  have cur: "cur_ok s ib"
    using n bb by (simp add: cur_ok_def g new_in_buffer_def word_le_nat_alt)
  have l: "left s ib = length xs" "vlen s ib = length xs"
    using bb by (simp_all add: left_def vlen_def g new_in_buffer_def)
  have "unread s ib = xs"
    using d by (intro nth_equalityI) (simp_all add: unread_def l vmem_def g new_in_buffer_def)
  then have "pending s = xs" by (simp add: pending_def g)
  moreover have z: "pr_QueueSize (pr s0) = 0"
    using ff(1,4) by (auto simp: decoder_inv_def reader_inv_def unat_eq_0)
  have ph: "pool_holds ((\<lambda>_. {})(OT_IN_BUFFER := {ib})) s"
    using h1 pool_holds_cong [of s s1] by (simp add: s_def s2_def fill_buffer_frame)
  then have "reader_inv ((\<lambda>_. {})(OT_IN_BUFFER := {ib})) s" by (simp add: reader_inv_def g z)
  moreover have "chain s = [ib]" by (simp add: chain_def g new_in_buffer_def)
  moreover from this have "chain_ok ((\<lambda>_. {})(OT_IN_BUFFER := {ib})) s"
    using cur by (simp add: chain_ok_def chain_bufs_def g)
  moreover have "at_cursor (Some ib) s" using cur by (simp add: at_cursor_def g)
  moreover have "registered OT_IN_PACKET (MAX_BUFFERS * 10) s"
    using r1 registered_cong [of s s1] by (simp add: s_def s2_def fill_buffer_frame)
  moreover have "em_answer (op_Mem s) = bump" using b1 by (simp add: s_def s2_def fill_buffer_frame)
  ultimately show ?thesis
    using g(4) by - (intro exI conjI, assumption+, simp_all add: OT_defs)
qed

lemma ping_more: "stream_verdict (take 5 ping_bytes) = Wait" "stream_verdict ping_bytes = Accept"
proof -
  have "wire_ok (take 5 ping_bytes @ drop 5 ping_bytes)" using ping_wire by simp
  moreover have "drop 5 ping_bytes \<noteq> []" by (simp add: ping_bytes_def)
  ultimately show "stream_verdict (take 5 ping_bytes) = Wait" by (rule wire_prefix_Wait)
  show "stream_verdict ping_bytes = Accept" using stream_verdict_wire [OF ping_wire, of "[]"] by simp
qed


text \<open>A packet of one data byte whose sender left out the pad byte and its flag.\<close>

definition unpadded_bytes :: "u8 list" where
  "unpadded_bytes = [0x41, 0x6d, 0x50, 0x69, 0x20, 0, 0, 1, 0, 1, 0, 0, 0, 1, 0xFF]"

lemma unpadded_hang: "stream_verdict unpadded_bytes = Hang"
proof -
  let ?m = "mem_of unpadded_bytes"
  have g: "get16 ?m 0 = 0x416d" "get16 ?m 2 = 0x5069" "get16 ?m 12 = 1" "?m 5 = 0"
    by (simp_all add: get16_def mem_of_def be16_def unpadded_bytes_def)
  have g2: "get16 ?m (Suc (Suc 0)) = 0x5069" using g(2) by (simp add: numeral_2_eq_2)
  have "get32 ?m 0 = PACKET_ID" by (simp add: get32_def g g2 be32_def PACKET_ID_def)
  moreover have "data_len ?m = 1" "pad_of ?m = 0" by (simp_all add: data_len_def pad_of_def g PF_PAD_BYTE_def)
  moreover have "length unpadded_bytes = 15" by (simp add: unpadded_bytes_def)
  ultimately show ?thesis by (simp add: stream_verdict_def verdict_def total_def BUFFER_SIZE_def)
qed

text \<open>Objects of the three types a reader hands out, in use.\<close>

lemma demo_objects:
  "\<exists>(s :: reader_state) H ip ip2 ib b. pool_holds H s \<and> ip \<in> H OT_IN_PACKET \<and> ip2 \<in> H OT_IN_PACKET \<and>
     ip2 \<noteq> ip \<and> ib \<in> H OT_IN_BUFFER \<and> b \<in> H OT_BUFFER"
proof -
  define s1 where "s1 = APB_RegisterObjectType OT_BUFFER ''Buffer'' sizeof_Buffer 0 9 demo_reader"
  define s2 where "s2 = APB_RegisterObjectType OT_IN_BUFFER ''In'' sizeof_InBuffer 0 9 s1"
  define s3 where "s3 = APB_RegisterObjectType OT_IN_PACKET ''Pac'' sizeof_InPacket 0 9 s2"
  have b0: "em_answer (op_Mem demo_reader) = bump" "\<not> APB_TypeRegistered i demo_reader" for i
    by (simp_all add: demo_reader_def demo_writer_def writer_state.defs APB_TypeRegistered_def
        APB_TypeRegisteredInternal_def APB_GetObjectType_def)
  have b: "em_answer (op_Mem s1) = bump" "em_answer (op_Mem s2) = bump" "em_answer (op_Mem s3) = bump"
    by (simp_all add: s1_def s2_def s3_def b0)
  have n1: "\<not> APB_TypeRegistered OT_IN_BUFFER s1" "\<not> APB_TypeRegistered OT_IN_PACKET s1"
    using register_only [of _ _ OT_BUFFER _ _ _ _ demo_reader] b0
    by (fastforce simp: type_registered_iff s1_def)+
  have n2: "\<not> APB_TypeRegistered OT_IN_PACKET s2"
    using register_only [of _ _ OT_IN_BUFFER _ _ _ _ s1] b(1) n1
    by (fastforce simp: type_registered_iff s2_def)
  have "registered OT_BUFFER 9 s1" unfolding s1_def by (rule register_bump [OF b0])
  then have "registered OT_BUFFER 9 s2" unfolding s2_def by (rule register_keeps)
  then have r: "registered OT_BUFFER 9 s3" unfolding s3_def by (rule register_keeps)
  have "registered OT_IN_BUFFER 9 s2" unfolding s2_def by (rule register_bump [OF b(1) n1(1)])
  then have r2: "registered OT_IN_BUFFER 9 s3" unfolding s3_def by (rule register_keeps)
  have r3: "registered OT_IN_PACKET 9 s3" unfolding s3_def by (rule register_bump [OF b(2) n2])
  have h: "pool_holds (\<lambda>_. {}) s3"
    using demo_reader_holds by (simp add: s3_def s2_def s1_def pool_holds_register)
  have nine: "unat (9 :: u16) = 9" by simp
  obtain ip and s4 :: reader_state where 4: "pool_holds ((\<lambda>_. {})(OT_IN_PACKET := {ip})) s4" "em_answer (op_Mem s4) = bump"
      "\<forall>j k. registered j k s4 = registered j k s3"
    using alloc_held [OF h r3 _ b(3)] nine by auto
  obtain ip2 and s5 :: reader_state where 5: "ip2 \<noteq> ip" "pool_holds ((\<lambda>_. {})(OT_IN_PACKET := {ip2, ip})) s5"
      "em_answer (op_Mem s5) = bump" "\<forall>j k. registered j k s5 = registered j k s3"
    using alloc_held [OF 4(1) _ _ 4(2), of OT_IN_PACKET 9] r3 4(3) nine by auto
  obtain ib and s6 :: reader_state where 6: "pool_holds ((\<lambda>_. {})(OT_IN_PACKET := {ip2, ip}, OT_IN_BUFFER := {ib})) s6"
      "em_answer (op_Mem s6) = bump" "\<forall>j k. registered j k s6 = registered j k s3"
    using alloc_held [OF 5(2) _ _ 5(3), of OT_IN_BUFFER 9] r2 5(4) nine by (auto simp: OT_defs)
  obtain a and s7 :: reader_state where "pool_holds ((\<lambda>_. {})(OT_IN_PACKET := {ip2, ip}, OT_IN_BUFFER := {ib}, OT_BUFFER := {a})) s7"
    using alloc_held [OF 6(1) _ _ 6(2), of OT_BUFFER 9] r 6(3) nine by (auto simp: OT_defs)
  then show ?thesis
    using 5(1) by - (intro exI conjI, assumption, simp_all add: OT_defs)
qed

section \<open>Properties\<close>

lemma fed_reader:
  assumes "pool_holds H s" and "APB_CreatePacketReader s = (True, s0)"
    and "concat (map snd reads) = concat pkts @ rest" and "\<forall>p \<in> set pkts. wire_ok p"
    and "stream_verdict rest = Wait"
    and "\<forall>cs1 c cs2 s1. reads = cs1 @ c # cs2 \<longrightarrow> run_steps feed cs1 s0 = Some s1 \<longrightarrow> can_feed c s1"
  shows "\<exists>s1 k. run_steps feed reads s0 = Some s1 \<and> k \<le> length pkts \<and>
    queue_packets s1 = map decode (take k pkts) \<and> pending s1 = concat (drop k pkts) @ rest \<and>
    (k < length pkts \<longrightarrow> no_in_packet s1)"
proof -
  note c = create_reader_facts [OF assms(1,2)]
  have str: "pending s0 @ concat (map snd reads) = concat pkts @ rest" using c(2) assms(3) by simp
  from dec.feed_all [OF c(1) str assms(4,5,6)] obtain s1 k where
    s1: "run_steps feed reads s0 = Some s1" "k \<le> length pkts"
      "queue_packets s1 = queue_packets s0 @ map decode (take k pkts)"
      "pending s1 = concat (drop k pkts) @ rest" "k < length pkts \<longrightarrow> reads = [] \<or> no_in_packet s1"
    by blast
  have "reads \<noteq> []" if k: "k < length pkts"
  proof
    assume "reads = []"
    then have "concat pkts = []" using assms(3) by simp
    moreover obtain p ps where "pkts = p # ps" using k by (cases pkts) auto
    ultimately show False using assms(4) wire_total(2) [of p] by auto
  qed
  then show ?thesis using s1 c(3) by (intro exI [of _ s1] exI [of _ k]) auto
qed

text \<open>
  C3: a new reader that is fed, read by read and buffer by buffer, a stream made of packets
  returns from every \<open>APB_ProcessBuffer\<close>, and has then queued the packets of the stream, in
  order, each with its type, flags, connection, number and data, wherever reads and buffers
  cut them; what is left is the rest of the stream. It queues fewer only when the last call
  stopped for lack of an InPacket, and then the unqueued packets are still there to be read.
\<close>

theorem reader_finds_every_packet:
  assumes "pool_holds H s" and "APB_CreatePacketReader s = (True, s0)"
    and "concat (map snd reads) = concat pkts @ rest" and "\<forall>p \<in> set pkts. wire_ok p"
    and "stream_verdict rest = Wait"
    and "\<forall>cs1 c cs2 s1. reads = cs1 @ c # cs2 \<longrightarrow> run_steps feed cs1 s0 = Some s1 \<longrightarrow> can_feed c s1"
  shows "\<exists>s1 k. run_steps feed reads s0 = Some s1 \<and> k \<le> length pkts \<and>
    queue_packets s1 = map decode (take k pkts) \<and> pending s1 = concat (drop k pkts) @ rest \<and>
    (k < length pkts \<longrightarrow> no_in_packet s1)"
  using assms by (rule fed_reader)

theorem reader_finds_every_packet_witness:
  "\<exists>s0 s1 k. APB_CreatePacketReader demo_reader = (True, s0) \<and>
    run_steps feed [(7, ping_bytes @ take 5 ping_bytes)] s0 = Some s1 \<and> k \<le> 1 \<and>
    queue_packets s1 = map decode (take k [ping_bytes])"
proof -
  obtain s0 where f: "fresh_reader s0" using demo_reader_start by blast
  then have c: "APB_CreatePacketReader demo_reader = (True, s0)" by (simp add: fresh_reader_def)
  let ?reads = "[(7 :: addr, ping_bytes @ take 5 ping_bytes)]"
  have str: "concat (map snd ?reads) = concat [ping_bytes] @ take 5 ping_bytes" by simp
  have w: "\<forall>p \<in> set [ping_bytes]. wire_ok p" using ping_wire by simp
  have "can_feed (7, ping_bytes @ take 5 ping_bytes) s0"
    by (rule fresh_can_feed [OF f]) (simp add: ping_bytes_def BUFFER_SIZE_def)
  then have "\<forall>cs1 c cs2 s1. ?reads = cs1 @ c # cs2 \<longrightarrow> run_steps feed cs1 s0 = Some s1 \<longrightarrow> can_feed c s1"
    by (auto simp: Cons_eq_append_conv)
  from reader_finds_every_packet [OF demo_reader_holds c str w ping_more(1) this]
  obtain s1 k where "run_steps feed ?reads s0 = Some s1" "k \<le> length [ping_bytes]"
    "queue_packets s1 = map decode (take k [ping_bytes])" by blast
  moreover from this(2) have "k \<le> 1" by simp
  ultimately show ?thesis using c by blast
qed

text \<open>
  C28: a packet that claims a data length whose parity its pad flag does not match (odd without a
  pad byte, even with one) sends the checksum loop around for ever once it has come in:
  \<open>APB_ProcessBuffer\<close> does not return.
\<close>

theorem reader_hangs_on_bad_padding:
  assumes "decoder_inv s" and "can_feed (b, xs) s" and "stream_verdict (pending s @ xs) = Hang"
  shows "feed (b, xs) s = None"
proof -
  from append_fed [OF assms(1,2)] obtain s2 H where
    s2: "APB_AppendBuffer b (fill_buffer b xs s) = Some (True, s2)" "chain_ok H s2"
      "pr_InBuf (pr s2) \<noteq> None" "pending s2 = pending s @ xs" by blast
  then obtain c where c: "pr_InBuf (pr s2) = Some c" by auto
  then have cur: "cur_ok s2 c" using s2(2) by (simp add: chain_ok_def)
  have "verdict (vmem s2 c) (vlen s2 c) = Hang"
    using assms(3) s2(4) c by (simp add: stream_verdict_unread pending_def)
  then have "process_step c s2 = None" using process_step_verdict [OF cur] by simp
  then show ?thesis
    using s2(1) c by (simp add: feed_def APB_ProcessBuffer_def process_loop_Some [OF cur])
qed

theorem reader_hangs_on_bad_padding_witness:
  "\<exists>s0. APB_CreatePacketReader demo_reader = (True, s0) \<and> feed (7, unpadded_bytes) s0 = None"
proof -
  obtain s0 where f: "fresh_reader s0" using demo_reader_start by blast
  have "can_feed (7, unpadded_bytes) s0"
    by (rule fresh_can_feed [OF f]) (simp add: unpadded_bytes_def BUFFER_SIZE_def)
  moreover have "stream_verdict (pending s0 @ unpadded_bytes) = Hang"
    using fresh_facts(3) [OF f] unpadded_hang by simp
  ultimately have "feed (7, unpadded_bytes) s0 = None"
    by (rule reader_hangs_on_bad_padding [OF fresh_facts(1) [OF f]])
  then show ?thesis using f by (auto simp: fresh_reader_def)
qed

text \<open>
  C11: whatever bytes come in, a round of the loop queues a packet only for bytes that start with
  the magic number, announce at most 4096 bytes of data, are all there, and whose checksum
  completes to 0xFFFF; and the queued packet has the fields and the data of those bytes.
\<close>

theorem reader_accepts_only_valid:
  assumes ok: "cur_ok s c" and st: "process_step c s = Some (Continue q s1)"
    and new: "pr_Queue (pr s1) \<noteq> pr_Queue (pr s)"
  shows "\<exists>ip p rest. pr_Queue (pr s1) = pr_Queue (pr s) @ [ip] \<and> unread s c = p @ rest \<and>
    stream_verdict p = Accept \<and> length p = total (mem_of p) \<and> packet_of s1 ip = decode p"
proof -
  let ?m = "vmem s c" and ?n = "vlen s c"
  have v: "verdict ?m ?n = Accept"
  proof (cases "verdict ?m ?n")
    case Bad
    then obtain ib2 where "process_step c s = Some (bad_data c ib2 s)"
      using process_step_verdict [OF ok] by auto
    then have "pr_Queue (pr s1) = pr_Queue (pr s)"
      using st by (auto simp: bad_data_def Let_def split: if_splits option.splits)
    then show ?thesis using new by simp
  qed (use process_step_verdict [OF ok] st in \<open>simp_all\<close>)
  then obtain dp where qp: "process_step c s =
        Some (queue_packet c (packet_at ?m 0) dp (of_nat (pad_of ?m)) s)"
    and dp: "dp_ok s c (data_len ?m) (pad_of ?m) dp"
    using process_step_verdict [OF ok] by auto
  have big: "total ?m \<le> ?n" "even (total ?m)" using v by (simp_all add: verdict_def split: if_splits)
  obtain r s' where al: "APB_AllocObject OT_IN_PACKET s = (r, s')" by fastforce
  have "r \<noteq> None" using qp st al by (cases r) (simp_all add: queue_packet_def)
  then obtain ip where al: "APB_AllocObject OT_IN_PACKET s = (Some ip, s')" using al by auto
  have nx: "dp_Ib2 dp = Some ib2 \<Longrightarrow> ib2 \<noteq> c" for ib2
    using dp cur_okD(5) [OF ok] by (auto simp: dp_ok_def)
  from queue_packet_queued [OF al nx] obtain s2 q2 where
    "queue_packet c (packet_at ?m 0) dp (of_nat (pad_of ?m)) s = Continue q2 s2"
    and "queued ip c (packet_at ?m 0) dp (of_nat (pad_of ?m)) s s2" by blast
  then have qd: "queued ip c (packet_at ?m 0) dp (of_nat (pad_of ?m)) s s1" using qp st by simp
  define p where "p = take (total ?m) (unread s c)"
  have lp: "length p = total ?m" using big by (simp add: p_def)
  have mp: "\<forall>k < total ?m. mem_of p k = ?m k"
    using big(1) lp by (simp add: mem_of_def p_def unread_def)
  have ht: "sizeof_Packet \<le> total ?m" by (simp add: total_def)
  then have h: "\<forall>k < sizeof_Packet. ?m k = mem_of p k" using mp by simp
  have "verdict ?m (total ?m) = Accept" using v ht by (auto simp: verdict_def split: if_splits)
  then have "stream_verdict p = Accept"
    using verdict_cong [OF mp] by (simp add: stream_verdict_def lp)
  moreover have "packet_of s1 ip = decode p"
  proof (rule received_new [OF dp])
    show "even (data_len ?m + pad_of ?m)" using big(2) by (simp add: total_def)
    show "\<forall>k < sizeof_Packet + data_len ?m. mem_of p k = ?m k" using mp by (simp add: total_def)
  qed (use qd in \<open>simp_all add: queued_def\<close>)
  moreover have "unread s c = p @ drop (total ?m) (unread s c)" by (simp add: p_def)
  moreover have "length p = total (mem_of p)" using lp total_cong [OF h] by simp
  ultimately show ?thesis using qd by (auto simp: queued_def)
qed

theorem reader_accepts_only_valid_witness:
  "\<exists>(s :: reader_state) c q s1 ip p rest. process_step c s = Some (Continue q s1) \<and>
    pr_Queue (pr s1) = pr_Queue (pr s) @ [ip] \<and> unread s c = p @ rest \<and> packet_of s1 ip = decode p"
proof -
  have "length ping_bytes \<le> BUFFER_SIZE" by (simp add: ping_bytes_def BUFFER_SIZE_def)
  from loaded_reader [OF this] obtain s :: reader_state and c H where
    s: "reader_inv H s" "at_cursor (Some c) s" "pending s = ping_bytes" "em_answer (op_Mem s) = bump"
      "registered OT_IN_PACKET (MAX_BUFFERS * 10) s" "H OT_IN_PACKET = {}" by blast
  note cur = at_cursor_Some [OF s(2)]
  have "verdict (vmem s c) (vlen s c) = Accept"
    using ping_more(2) s(3) cur(2) by (simp add: stream_verdict_unread)
  then obtain dp where st: "process_step c s =
        Some (queue_packet c (packet_at (vmem s c) 0) dp (of_nat (pad_of (vmem s c))) s)"
    and dp: "dp_ok s c (data_len (vmem s c)) (pad_of (vmem s c)) dp"
    using process_step_verdict [OF cur(1)] by auto
  have "pool_holds H s" using s(1) by (simp add: reader_inv_def)
  then obtain ip s' where al: "APB_AllocObject OT_IN_PACKET s = (Some ip, s')"
    using alloc_held [of H s OT_IN_PACKET "MAX_BUFFERS * 10"] s by (auto simp: MAX_BUFFERS_def)
  have nx: "dp_Ib2 dp = Some ib2 \<Longrightarrow> ib2 \<noteq> c" for ib2
    using dp cur_okD(5) [OF cur(1)] by (auto simp: dp_ok_def)
  from queue_packet_queued [OF al nx] obtain s2 q2 where
    q: "queue_packet c (packet_at (vmem s c) 0) dp (of_nat (pad_of (vmem s c))) s = Continue q2 s2"
      "queued ip c (packet_at (vmem s c) 0) dp (of_nat (pad_of (vmem s c))) s s2" by blast
  have st2: "process_step c s = Some (Continue q2 s2)" using st q(1) by simp
  moreover have "pr_Queue (pr s2) \<noteq> pr_Queue (pr s)" using q(2) by (simp add: queued_def)
  ultimately show ?thesis using reader_accepts_only_valid [OF cur(1) st2] by blast
qed



text \<open>
  C30: packets leave the queue in the order they came in, each with the data it was queued
  with; \<open>APB_InPacketToBuffer\<close> copies that data, joining the two pieces, and returns its length.
\<close>

theorem dequeue_delivers:
  assumes inv: "reader_inv H s" and q: "pr_Queue (pr s) = ip # rest"
  shows "\<exists>s1. APB_DequeueInPacket s = (Some ip, s1) \<and> reader_inv H s1 \<and>
    queue_packets s = packet_of s ip # queue_packets s1 \<and>
    unat (APB_ReaderQueueSize s1) = length rest \<and>
    (let d = wp_Data (packet_of s ip) in
       bytes_of (fst (APB_InPacketToBuffer ip s1 m)) 0 (length d) = d \<and>
       snd (APB_InPacketToBuffer ip s1 m) = of_nat (length d))"
proof -
  have n: "unat (pr_QueueSize (pr s)) = Suc (length rest)" using inv q by (simp add: reader_inv_def)
  then have nz: "pr_QueueSize (pr s) \<noteq> 0" by (metis nat.distinct(1) unat_0)
  define s1 where "s1 = upd_pr (\<lambda>r. r\<lparr>pr_QueueSize := pr_QueueSize r - 1, pr_Queue := rest\<rparr>) s"
  have d: "APB_DequeueInPacket s = (Some ip, s1)"
    using nz q by (simp add: APB_DequeueInPacket_def s1_def RemHead_def)
  have sz: "unat (pr_QueueSize (pr s) - 1) = length rest" using n by (subst unat_pred_u16) simp_all
  have g: "h_Buf s1 = h_Buf s" "h_InPac s1 = h_InPac s" "pr_Queue (pr s1) = rest"
    "pr_QueueSize (pr s1) = pr_QueueSize (pr s) - 1" by (simp_all add: s1_def)
  have "reader_inv H s1"
    using inv q pool_holds_cong [of s1 s H] pac_in_cong [of s1 s]
    by (simp add: reader_inv_def g sz) (simp add: s1_def)
  moreover have "packet_of s1 a = packet_of s a" for a
    using ptr_bytes_cong [OF g(1)] by (simp add: packet_of_def g)
  then have "queue_packets s = packet_of s ip # queue_packets s1" by (simp add: queue_packets_def q g)
  moreover have "unat (APB_ReaderQueueSize s1) = length rest" by (simp add: APB_ReaderQueueSize_def g sz)
  moreover have "pac_in s1 ip" using inv q pac_in_cong [of s1 s ip] g by (simp add: reader_inv_def)
  then have "bytes_of (fst (APB_InPacketToBuffer ip s1 m)) 0 (length (wp_Data (packet_of s ip))) =
      wp_Data (packet_of s ip) \<and>
      snd (APB_InPacketToBuffer ip s1 m) = of_nat (length (wp_Data (packet_of s ip)))"
    using in_packet_bytes [of s1 ip m] \<open>\<And>a. packet_of s1 a = packet_of s a\<close> by simp
  ultimately show ?thesis using d by (auto simp: Let_def)
qed

theorem dequeue_delivers_witness:
  "\<exists>(s :: reader_state) ip (s1 :: reader_state). APB_DequeueInPacket s = (Some ip, s1) \<and>
    queue_packets s = [packet_of s ip] \<and> wp_Data (packet_of s ip) = [1, 2, 3] \<and>
    bytes_of (fst (APB_InPacketToBuffer ip s1 (\<lambda>_. 0))) 0 3 = [1, 2, 3]"
proof -
  obtain s0 :: reader_state and H ip where h: "pool_holds H s0" "ip \<in> H OT_IN_PACKET"
    using demo_objects by blast
  define x where "x = \<lparr>ip_InBuf = 0, ip_Type = 0, ip_Flags = 0, ip_ConnId = 0, ip_PackId = 0, ip_Offset = 0,
    ip_Data1Length = 2, ip_Data2Length = 1, ip_Data1 = Some (5, 0), ip_Data2 = Some (6, 0)\<rparr>"
  define s where "s = upd_pr (\<lambda>_. \<lparr>pr_Addr = 0, pr_InBuf = None, pr_Queue = [ip], pr_QueueSize = 1\<rparr>)
    (s0\<lparr>h_Buf := (\<lambda>b. if b = 5 then \<lparr>b_Offset = 2, b_Data = (\<lambda>k. if k = 0 then 1 else 2)\<rparr>
       else \<lparr>b_Offset = 1, b_Data = (\<lambda>_. 3)\<rparr>), h_InPac := (\<lambda>_. x)\<rparr>)"
  have g: "pr s = \<lparr>pr_Addr = 0, pr_InBuf = None, pr_Queue = [ip], pr_QueueSize = 1\<rparr>" "h_InPac s ip = x"
    "h_Buf s 5 = \<lparr>b_Offset = 2, b_Data = (\<lambda>k. if k = 0 then 1 else 2)\<rparr>"
    "h_Buf s 6 = \<lparr>b_Offset = 1, b_Data = (\<lambda>_. 3)\<rparr>"
    by (simp_all add: s_def)
  have "pool_holds H s" using h(1) pool_holds_cong [of s s0] by (simp add: s_def)
  then have inv: "reader_inv H s"
    using h(2) by (simp add: reader_inv_def pac_in_def ptr_in_def g x_def Let_def)
  have "pr_Queue (pr s) = [ip]" by (simp add: g)
  from dequeue_delivers [OF inv this, of "\<lambda>_. 0"] obtain s1 where
    s1: "APB_DequeueInPacket s = (Some ip, s1)" "queue_packets s = packet_of s ip # queue_packets s1"
      "bytes_of (fst (APB_InPacketToBuffer ip s1 (\<lambda>_. 0))) 0 (length (wp_Data (packet_of s ip))) =
        wp_Data (packet_of s ip)"
    by (auto simp: Let_def)
  have d: "wp_Data (packet_of s ip) = [1, 2, 3]"
    by (simp add: packet_of_def ptr_bytes_def ptr_byte_def g x_def Let_def upt_rec)
  have "length (queue_packets s) = 1" by (simp add: queue_packets_def g)
  then have "queue_packets s = [packet_of s ip]" using s1(2) by (cases "queue_packets s1") auto
  moreover have "length [1 :: u8, 2, 3] = 3" by simp
  from s1(3) [unfolded d this] have "bytes_of (fst (APB_InPacketToBuffer ip s1 (\<lambda>_. 0))) 0 3 = [1, 2, 3]" .
  ultimately show ?thesis using s1(1) d by blast
qed

text \<open>
  C31: giving back a packet that lies in one buffer counts the next buffer of the chain down
  too: when another packet, still in use, is the only one in that next buffer, and a third
  buffer follows it, the buffer goes back to the pool under the packet that points into it.
\<close>

theorem release_frees_next_buffer:
  assumes h: "pool_holds H s" and ip: "ip \<in> H OT_IN_PACKET" "ip_InBuf (h_InPac s ip) = ib"
    and ib: "ib_Next (h_InBuf s ib) = Some ib2" "ib2 \<noteq> ib" "ib_PacketCount (h_InBuf s ib) \<noteq> 1"
    and ib2: "ib2 \<in> H OT_IN_BUFFER" "ib_Buf (h_InBuf s ib2) \<in> H OT_BUFFER"
      "ib_PacketCount (h_InBuf s ib2) = 1" "ib_CanRelease (h_InBuf s ib2)"
    and other: "ip2 \<in> H OT_IN_PACKET" "ip2 \<noteq> ip" "ip_Data1 (h_InPac s ip2) = Some (ib_Buf (h_InBuf s ib2), i)"
  shows "\<exists>H1. pool_holds H1 (APB_ReleaseInPacket ip s) \<and> ip2 \<in> H1 OT_IN_PACKET \<and>
    ip_Data1 (h_InPac (APB_ReleaseInPacket ip s) ip2) = Some (ib_Buf (h_InBuf s ib2), i) \<and>
    ib_Buf (h_InBuf s ib2) \<notin> H1 OT_BUFFER \<and> ib2 \<notin> H1 OT_IN_BUFFER"
proof -
  let ?b = "ib_Buf (h_InBuf s ib2)"
  define s1 where "s1 = APB_FreeObject OT_IN_PACKET ip s"
  define H1 where "H1 = H(OT_IN_PACKET := H OT_IN_PACKET - {ip})"
  have h1: "pool_holds H1 s1" using pool_laws(3) [OF h ip(1)] by (simp add: s1_def H1_def)
  have g1: "h_InBuf s1 = h_InBuf s" by (simp add: s1_def)
  define s2 where "s2 = upd_ib ib (\<lambda>x. x\<lparr>ib_PacketCount := ib_PacketCount x - 1\<rparr>) s1"
  define s3 where "s3 = upd_ib ib2 (\<lambda>x. x\<lparr>ib_PacketCount := ib_PacketCount x - 1\<rparr>) s2"
  have d1: "drop_packet ib s1 = (False, s2)"
    using ib(3) by (simp add: drop_packet_def Let_def s2_def g1)
  have d2: "drop_packet ib2 s2 = (True, APB_ReleaseInBuffer ib2 s3)"
    using ib(2) ib2(3,4) by (simp add: drop_packet_def Let_def s3_def s2_def g1)
  have r: "APB_ReleaseInPacket ip s = APB_ReleaseInBuffer ib2 s3"
    using d1 d2 ib(1,2) ip(2) by (simp add: APB_ReleaseInPacket_def s1_def [symmetric] g1 s2_def [symmetric])
      (simp add: s2_def g1)
  have h3: "pool_holds H1 s3" using h1 pool_holds_cong [of s3 s1] by (simp add: s3_def s2_def)
  have b3: "ib_Buf (h_InBuf s3 ib2) = ?b" using ib(2) by (simp add: s3_def s2_def g1)
  have "?b \<in> H1 OT_BUFFER" using ib2(2) by (simp add: H1_def OT_defs)
  from APB_ReleaseBuffer_holds [OF h3 this]
  have h4: "pool_holds (H1(OT_BUFFER := H1 OT_BUFFER - {?b})) (APB_ReleaseBuffer ?b s3)" by blast
  have "ib2 \<in> (H1(OT_BUFFER := H1 OT_BUFFER - {?b})) OT_IN_BUFFER"
    using ib2(1) by (simp add: H1_def OT_defs)
  from pool_laws(3) [OF h4 this]
  have "pool_holds ((H1(OT_BUFFER := H1 OT_BUFFER - {?b}))
      (OT_IN_BUFFER := (H1(OT_BUFFER := H1 OT_BUFFER - {?b})) OT_IN_BUFFER - {ib2})) (APB_ReleaseInBuffer ib2 s3)"
    unfolding APB_ReleaseInBuffer_def b3 by (rule conjunct1)
  then have h5: "\<exists>H5. pool_holds H5 (APB_ReleaseInPacket ip s) \<and> H5 = (H1(OT_BUFFER := H1 OT_BUFFER - {?b}))
      (OT_IN_BUFFER := (H1(OT_BUFFER := H1 OT_BUFFER - {?b})) OT_IN_BUFFER - {ib2})"
    unfolding r by blast
  have "h_InPac (APB_ReleaseInPacket ip s) = h_InPac s"
    unfolding r by (simp add: s3_def s2_def s1_def)
  then have "ip_Data1 (h_InPac (APB_ReleaseInPacket ip s) ip2) = Some (?b, i)" using other(3) by simp
  then show ?thesis
    using h5 by (elim exE conjE) (rule exI, intro conjI, assumption, use other in \<open>simp_all add: H1_def OT_defs\<close>)
qed

theorem release_frees_next_buffer_witness:
  "\<exists>(s :: reader_state) H1 ip ip2 b. pool_holds H1 (APB_ReleaseInPacket ip s) \<and> ip2 \<in> H1 OT_IN_PACKET \<and>
    ip_Data1 (h_InPac (APB_ReleaseInPacket ip s) ip2) = Some (b, 14) \<and> b \<notin> H1 OT_BUFFER"
proof -
  obtain s0 :: reader_state and H ip ip2 ib2 b where
    h: "pool_holds H s0" "ip \<in> H OT_IN_PACKET" "ip2 \<in> H OT_IN_PACKET" "ip2 \<noteq> ip"
      "ib2 \<in> H OT_IN_BUFFER" "b \<in> H OT_BUFFER"
    using demo_objects by blast
  define x where "x = \<lparr>ip_InBuf = Suc ib2, ip_Type = 0, ip_Flags = 0, ip_ConnId = 0, ip_PackId = 0,
    ip_Offset = 0, ip_Data1Length = 2, ip_Data2Length = 0, ip_Data1 = Some (b, 14), ip_Data2 = None\<rparr>"
  define y where "y n k = \<lparr>ib_Buf = b, ib_Next = Some n, ib_Offset = 0, ib_PacketCount = k,
    ib_CanRelease = True\<rparr>" for n and k :: u16
  define s where "s = s0\<lparr>h_InPac := (\<lambda>_. x), h_InBuf := (\<lambda>a. if a = ib2 then y 99 1 else y ib2 2)\<rparr>"
  have g: "h_InPac s ip = x" "h_InPac s ip2 = x" "h_InBuf s ib2 = y 99 1" "h_InBuf s (Suc ib2) = y ib2 2"
    by (simp_all add: s_def)
  have ph: "pool_holds H s" using h(1) pool_holds_cong [of s s0] by (simp add: s_def)
  obtain H1 where "pool_holds H1 (APB_ReleaseInPacket ip s)" "ip2 \<in> H1 OT_IN_PACKET"
    "ip_Data1 (h_InPac (APB_ReleaseInPacket ip s) ip2) = Some (b, 14)" "b \<notin> H1 OT_BUFFER"
    using release_frees_next_buffer [OF ph h(2), of "Suc ib2" ib2 ip2 14] h(3-6) by (auto simp: g x_def y_def)
  then show ?thesis by blast
qed

text \<open>
  \<open>APB_DestroyPacketReader\<close> walks over its InBuffers without giving them back, so a server
  that has ever read a byte hands NULL back to Exec when its context's object pool is freed.
\<close>

theorem destroy_reader_keeps_buffers:
  assumes "reader_inv H s" and "chain_ok H s" and "pr_Queue (pr s) = []" and "chain s \<noteq> []"
  shows "op_Types (APB_DestroyPacketReader s) = op_Types s \<and>
    BadFree \<in> set (faults (APB_FreeObjectPool op (APB_DestroyPacketReader s)))"
proof -
  have z: "pr_QueueSize (pr s) = 0" using assms(1,3) by (simp add: reader_inv_def unat_eq_0)
  then have t: "op_Types (APB_DestroyPacketReader s) = op_Types s"
    by (simp add: APB_DestroyPacketReader_def release_queue.simps APB_FreeMem_def pool_free_def)
  obtain ib where "ib \<in> H OT_IN_BUFFER" using assms(2,4) by (cases "chain s") (auto simp: chain_ok_def)
  moreover have "pool_holds H s" using assms(1) by (simp add: reader_inv_def)
  ultimately show ?thesis using t free_pool_held_faults [OF _ t] by blast
qed

theorem destroy_reader_keeps_buffers_witness:
  "\<exists>(s :: reader_state). pr_Queue (pr s) = [] \<and> pending s = [1, 2] \<and>
    BadFree \<in> set (faults (APB_FreeObjectPool 4 (APB_DestroyPacketReader s)))"
proof -
  have "length [1 :: u8, 2] \<le> BUFFER_SIZE" by (simp add: BUFFER_SIZE_def)
  from loaded_reader [OF this] obtain s :: reader_state and c H where
    s: "reader_inv H s" "chain_ok H s" "chain s = [c]" "pending s = [1, 2]" "pr_Queue (pr s) = []" by blast
  from s(3) have "chain s \<noteq> []" by simp
  with destroy_reader_keeps_buffers [OF s(1,2,5) this] s(4,5) show ?thesis by blast
qed



end
