(* ===== verification/Delivery.thy ===== *)
theory Delivery
  imports ReaderProps
begin

text \<open>
  From one end of the line to the other: the packets a writer was given wait in its buffers in the
  order in which they were given, each write sends the oldest of them, and the reader at the other
  end queues them in that order with the contents they were given.
\<close>

section \<open>What waits in the writer\<close>

text \<open>The unsent packets, buffer by buffer.\<close>

definition outbox :: "addr list \<Rightarrow> 'a writer_state_scheme \<Rightarrow> addr list" where
  "outbox xs s = concat (map (\<lambda>ob. unsent_of ob (packs xs s) (h_OutPac s)) (pw_Queue (pw s)))"

definition mailbox :: "'a writer_state_scheme \<Rightarrow> wire_packet list" where
  "mailbox s = map (packet_value s) (outbox [] s)"

lemma outbox_cong:
  assumes "pw_Queue (pw s1) = pw_Queue (pw s)" and "packs xs1 s1 = packs xs s"
    and "\<forall>op \<in> set (packs xs s). h_OutPac s1 op = h_OutPac s op"
  shows "outbox xs1 s1 = outbox xs s"
proof -
  have "unsent_of ob (packs xs s) (h_OutPac s1) = unsent_of ob (packs xs s) (h_OutPac s)" for ob
    using assms(3) by (intro filter_cong) auto
  then show ?thesis by (simp add: outbox_def assms(1,2))
qed

lemma outbox_place:
  assumes inv: "writer_inv H xs s" and op: "op \<in> set (outbox xs s)"
  obtains ob k where "ob \<in> set (pw_Queue (pw s))" "op_OutBuf (h_OutPac s op) = ob" "op \<in> set (packs xs s)"
    "\<not> op_Sent (h_OutPac s op)" "op_Pac (h_OutPac s op) = (ob_Buf (h_OutBuf s ob), k)"
    "(ob_Buf (h_OutBuf s ob), k) \<in> set (map (op_Pac \<circ> h_OutPac s) (unsent_of ob (packs xs s) (h_OutPac s)))"
    "k + pack_len (buf_data s (ob_Buf (h_OutBuf s ob))) k \<le> buf_offset s (ob_Buf (h_OutBuf s ob))"
proof -
  from op obtain ob where q: "ob \<in> set (pw_Queue (pw s))" and u: "op \<in> set (unsent_of ob (packs xs s) (h_OutPac s))"
    by (auto simp: outbox_def)
  let ?b = "ob_Buf (h_OutBuf s ob)" and ?p = "op_Pac (h_OutPac s op)"
  have "buf_layout xs s ob" using inv q by (simp add: writer_inv_def w_layout_def)
  then have t: "tiles (buf_data s ?b) ?b (unat (ob_Offset (h_OutBuf s ob)))
      (map (op_Pac \<circ> h_OutPac s) (unsent_of ob (packs xs s) (h_OutPac s))) (buf_offset s ?b)"
    by (simp add: buf_layout_def Let_def)
  have "?p \<in> set (map (op_Pac \<circ> h_OutPac s) (unsent_of ob (packs xs s) (h_OutPac s)))"
    using u unfolding set_map comp_apply by (rule imageI)
  then have m: "(fst ?p, snd ?p) \<in> set (map (op_Pac \<circ> h_OutPac s) (unsent_of ob (packs xs s) (h_OutPac s)))"
    by (simp only: prod.collapse)
  note tm = tiles_member [OF t m]
  then have p: "?p = (?b, snd ?p)" by (simp add: prod_eq_iff)
  show ?thesis
    by (rule that [OF q _ _ _ p]) (use u tm m in simp_all)
qed

lemma writer_inv_bufs:
  "writer_inv H xs s \<Longrightarrow> inj_on (\<lambda>ob. ob_Buf (h_OutBuf s ob)) (out_refs xs s)"
  "writer_inv H xs s \<Longrightarrow> distinct (pw_Queue (pw s))"
  by (simp_all add: writer_inv_def w_heap_def)

text \<open>Another buffer of the queue is another piece of memory.\<close>

lemma queue_bufs_differ:
  assumes "writer_inv H xs s" and "ob \<in> set (pw_Queue (pw s))" and "ob1 \<in> set (pw_Queue (pw s))" and "ob1 \<noteq> ob"
  shows "ob_Buf (h_OutBuf s ob1) \<noteq> ob_Buf (h_OutBuf s ob)"
  using writer_inv_bufs(1) [OF assms(1)] assms(2-) by (auto simp: inj_on_def out_refs_def)

lemma packet_value_same:
  assumes inv: "writer_inv H xs s" and op: "op \<in> set (outbox xs s)" and hp: "h_OutPac s1 op = h_OutPac s op"
    and hb: "\<forall>b \<in> wbufs xs s. buf_data s1 b = buf_data s b"
  shows "packet_value s1 op = packet_value s op"
proof -
  from outbox_place [OF inv op] obtain ob k where
    ob: "ob \<in> set (pw_Queue (pw s))" "op_Pac (h_OutPac s op) = (ob_Buf (h_OutBuf s ob), k)" by metis
  then have "ob_Buf (h_OutBuf s ob) \<in> wbufs xs s" by (auto simp: wbufs_def out_refs_def)
  then show ?thesis using ob hp hb by (simp add: packet_value_def)
qed

definition same_mail :: "'a writer_state_scheme \<Rightarrow> 'a writer_state_scheme \<Rightarrow> bool" where
  "same_mail s s1 \<longleftrightarrow> outbox [] s1 = outbox [] s \<and>
     (\<forall>op \<in> set (outbox [] s). packet_value s1 op = packet_value s op \<and> h_OutPac s1 op = h_OutPac s op)"

lemma same_mail_trans: "same_mail s s1 \<Longrightarrow> same_mail s1 s2 \<Longrightarrow> same_mail s s2"
  by (simp add: same_mail_def)

lemma same_mail_refl: "same_mail s s"
  by (simp add: same_mail_def)

lemma same_mail_mailbox: "same_mail s s1 \<Longrightarrow> mailbox s1 = mailbox s"
  by (simp add: same_mail_def mailbox_def)

lemma same_mail_frame:
  assumes "writer_inv H [] s" and "pw s1 = pw s" and "h_OutPac s1 = h_OutPac s"
    and "\<forall>b \<in> wbufs [] s. buf_data s1 b = buf_data s b"
  shows "same_mail s s1"
  using outbox_cong [of s1 s "[]" "[]"] packet_value_same [OF assms(1) _ _ assms(4)] assms(2,3)
  by (simp add: same_mail_def packs_def)

section \<open>A new packet comes last\<close>

lemma get_out_buffer_mail:
  assumes inv: "writer_inv H [] s" and go: "get_out_buffer len s = (r, s1)"
  shows "same_mail s s1" and "r = Some ob \<Longrightarrow> \<exists>qs. pw_Queue (pw s1) = qs @ [ob]"
proof -
  have last: "pw_OutBuf (pw s) = (if pw_Queue (pw s) = [] then None else Some (last (pw_Queue (pw s))))"
    using inv by (simp add: writer_inv_def w_counts_def)
  let ?fits = "case pw_OutBuf (pw s) of None \<Rightarrow> False
    | Some ob \<Rightarrow> \<not> buf_offset s (ob_Buf (h_OutBuf s ob)) + unat len + 1 \<ge> BUFFER_SIZE"
  have "same_mail s s1 \<and> (\<forall>ob. r = Some ob \<longrightarrow> (\<exists>qs. pw_Queue (pw s1) = qs @ [ob]))"
  proof (cases ?fits)
    case True
    then have "s1 = s" "r = pw_OutBuf (pw s)" using go by (auto simp: get_out_buffer_def Let_def split: option.splits)
    then show ?thesis using last same_mail_refl by (auto split: if_splits intro: append_butlast_last_id [symmetric])
  next
    case new: False
    note go = go [unfolded get_out_buffer_def Let_def if_not_P [OF new]]
    obtain p s2 where al: "APB_AllocObject OT_OUT_BUFFER s = (p, s2)" by fastforce
    note a = alloc_object_writer [OF inv al, simplified] and fr = pool_step_frame [OF al]
    have m2: "same_mail s s2" by (rule same_mail_frame [OF inv]) (simp_all add: fr)
    show ?thesis
    proof (cases p)
      case None
      then show ?thesis using go al m2 by auto
    next
      case (Some ob)
      let ?H = "H(OT_OUT_BUFFER := insert ob (H OT_OUT_BUFFER))"
      have inv2: "writer_inv ?H [] s2" using a Some by simp
      obtain q s3 where bl: "APB_AllocateBuffer s2 = (q, s3)" by fastforce
      note b = alloc_buffer_writer [OF inv2 bl]
      have hb: "\<forall>b \<in> wbufs [] s2. h_Buf s3 b = h_Buf s2 b"
      proof -
        have h: "pool_holds ?H s2" "wbufs [] s2 \<subseteq> ?H OT_BUFFER"
          using inv2 unfolding writer_inv_def w_heap_def by blast+
        then show ?thesis using APB_AllocateBuffer_holds [OF h(1) bl] by (cases q) auto
      qed
      have m3: "same_mail s2 s3" by (rule same_mail_frame [OF inv2]) (use b hb in simp_all)
      show ?thesis
      proof (cases q)
        case None
        then show ?thesis using go al bl Some same_mail_trans [OF m2 m3] by auto
      next
        case q: (Some c)
        let ?s = "upd_pw (\<lambda>w. w\<lparr>pw_OutBuf := Some ob, pw_Queue := pw_Queue w @ [ob],
                   pw_BufCount := pw_BufCount w + 1\<rparr>)
                 (upd_ob ob (\<lambda>_. \<lparr>ob_Buf = c, ob_Offset = 0, ob_PacketCount = 0, ob_CanRelease = False\<rparr>) s3)"
        have r: "r = Some ob" "s1 = ?s" using go al Some bl q by auto
        have "out_refs [] s \<subseteq> H OT_OUT_BUFFER" using inv by (simp add: writer_inv_def w_heap_def)
        then have "ob \<notin> out_refs [] s3" using a(4) [of ob] Some b(5) a(6) by auto
        then have "unsent_of ob (packs [] s3) (h_OutPac s3) = []" by (auto simp: out_refs_def filter_empty_conv)
        then have "outbox [] ?s = outbox [] s3" by (simp add: outbox_def packs_def)
        then have "same_mail s3 ?s" by (simp add: same_mail_def packet_value_def)
        then have "same_mail s s1" using r(2) same_mail_trans [OF same_mail_trans [OF m2 m3]] by blast
        then show ?thesis using r by auto
      qed
    qed
  qed
  then show "same_mail s s1" and "r = Some ob \<Longrightarrow> \<exists>qs. pw_Queue (pw s1) = qs @ [ob]" by blast+
qed

text \<open>Only sent packets are dropped from the recent list.\<close>

lemma trim_recent_unsent:
  "unsent_of ob (pw_RecentPackets (pw (trim_recent s))) (h_OutPac s) = unsent_of ob (pw_RecentPackets (pw s)) (h_OutPac s)"
proof (induction s rule: trim_recent.induct)
  case (1 s)
  show ?case
  proof (cases "pw_RecentCount (pw s) > RECENT_PACKETS_TO_KEEP")
    case True
    show ?thesis
    proof (cases "pw_RecentPackets (pw s)")
      case (Cons op rest)
      show ?thesis
      proof (cases "op_Sent (h_OutPac s op)")
        case sent: True
        then have "\<not> \<not> op_Sent (h_OutPac s op)" by simp
        from "1.IH" [OF True Cons this] show ?thesis using True Cons sent by (simp add: trim_recent.simps [of s])
      next
        case False
        then show ?thesis using Cons by (simp add: trim_recent.simps [of s])
      qed
    qed (simp add: trim_recent.simps [of s] add_fault_def)
  qed (simp add: trim_recent.simps [of s])
qed

lemma trim_recent_mail:
  "outbox xs (trim_recent s) = outbox xs s" "packet_value (trim_recent s) = packet_value s"
  using trim_recent_frame [of s] by (simp_all add: outbox_def packs_def packet_value_def fun_eq_iff trim_recent_unsent)

lemma init_packet_mail:
  fixes packId len :: u16
  assumes inv: "writer_inv H [] s" and opn: "op \<notin> set (packs [] s)" and q: "pw_Queue (pw s) = qs @ [ob]"
    and len: "sizeof_Packet \<le> unat len" "unat len \<le> BUFFER_SIZE" and room: "has_room len ob s"
  defines "s1 \<equiv> init_out_packet op ob len packId s"
  defines "b \<equiv> ob_Buf (h_OutBuf s ob)"
  defines "i \<equiv> buf_offset s b"
  shows "outbox [op] s1 = outbox [] s @ [op]" and "op_Pac (h_OutPac s1 op) = (b, i)"
    and "y \<in> set (outbox [] s) \<Longrightarrow> packet_value s1 y = packet_value s y \<and> h_OutPac s1 y = h_OutPac s y \<and>
      op_Pac (h_OutPac s y) \<noteq> (b, i)"
    and "buf_data s1 b (i + 5) = (if unat len mod 2 = 1 then PF_PAD_BYTE else 0)"
proof -
  have obq: "ob \<in> set (pw_Queue (pw s))" by (simp add: q)
  have ev: "even (buf_offset s (ob_Buf (h_OutBuf s ob)))"
    using inv obq by (simp add: writer_inv_def w_layout_def buf_layout_def Let_def)
  have s1: "s1 = init_out_packet op ob len packId s" by (simp add: s1_def)
  note f = init_out_packet_fields [OF len room ev s1, folded b_def, folded i_def]
  have pk: "packs [op] s1 = packs [] s @ [op]" by (simp add: packs_def f)
  have un: "unsent_of c (packs [op] s1) (h_OutPac s1) =
      unsent_of c (packs [] s) (h_OutPac s) @ (if c = ob then [op] else [])" for c
  proof -
    have "unsent_of c (packs [] s) (h_OutPac s1) = unsent_of c (packs [] s) (h_OutPac s)"
      using opn by (intro filter_cong) (auto simp: f)
    then show ?thesis by (simp add: pk f)
  qed
  have "ob \<notin> set qs" using writer_inv_bufs(2) [OF inv] q by simp
  then have m: "map (\<lambda>c. unsent_of c (packs [op] s1) (h_OutPac s1)) qs = map (\<lambda>c. unsent_of c (packs [] s) (h_OutPac s)) qs"
    by (intro map_cong) (auto simp: un)
  show "outbox [op] s1 = outbox [] s @ [op]"
    unfolding outbox_def f(8) q map_append concat_append m by (simp add: un)
  show "op_Pac (h_OutPac s1 op) = (b, i)" by (simp add: f)
  show "packet_value s1 y = packet_value s y \<and> h_OutPac s1 y = h_OutPac s y \<and> op_Pac (h_OutPac s y) \<noteq> (b, i)"
    if y: "y \<in> set (outbox [] s)"
  proof -
    from outbox_place [OF inv y] obtain c k where c: "c \<in> set (pw_Queue (pw s))" "y \<in> set (packs [] s)"
      "op_Pac (h_OutPac s y) = (ob_Buf (h_OutBuf s c), k)"
      "k + pack_len (buf_data s (ob_Buf (h_OutBuf s c))) k \<le> buf_offset s (ob_Buf (h_OutBuf s c))" by metis
    have h: "h_OutPac s1 y = h_OutPac s y" using opn c(2) by (auto simp: f)
    show ?thesis
    proof (cases "c = ob")
      case True
      then have k: "op_Pac (h_OutPac s y) = (b, k)" "k + pack_len (buf_data s b) k \<le> i" using c by (simp_all add: b_def i_def)
      have "read_packet (buf_data s1 b) k = read_packet (buf_data s b) k"
        unfolding f(4) by (rule read_packet_same) (use k(2) new_packet_outside [OF _ len(1)] in auto)
      then show ?thesis using h k pack_len_ge [of "buf_data s b" k] by (auto simp: packet_value_def)
    next
      case False
      then have "ob_Buf (h_OutBuf s c) \<noteq> b" using queue_bufs_differ [OF inv obq c(1)] by (simp add: b_def)
      then show ?thesis using h c(3) f(3) by (simp add: packet_value_def)
    qed
  qed
  show "buf_data s1 b (i + 5) = (if unat len mod 2 = 1 then PF_PAD_BYTE else 0)"
    using len(1) init_packet_header(5) [of i packId len "buf_data s b"]
    by (auto simp: f(4) new_packet_mem_def put8_apply)
qed

text \<open>What an allocation comes to: nothing, or one more packet behind the others.\<close>

definition mail_added :: "u16 \<Rightarrow> bptr option \<Rightarrow> 'a writer_state_scheme \<Rightarrow> 'a writer_state_scheme \<Rightarrow> bool" where
  "mail_added len p s s1 \<longleftrightarrow> (case p of
     None \<Rightarrow> same_mail s s1
   | Some (b, i) \<Rightarrow> (\<exists>op. outbox [] s1 = outbox [] s @ [op] \<and> op_Pac (h_OutPac s1 op) = (b, i) \<and>
       (\<forall>y \<in> set (outbox [] s). packet_value s1 y = packet_value s y \<and> op_Pac (h_OutPac s1 y) \<noteq> (b, i)) \<and>
       buf_data s1 b (i + 5) = (if unat len mod 2 = 1 then PF_PAD_BYTE else 0)))"

lemma alloc_with_id_mail:
  assumes inv: "writer_inv H [] s" and al: "APB_AllocPacketWithId len packId s = (p, s1)"
  shows "mail_added len p s s1"
proof (cases "unat len > BUFFER_SIZE \<or> unat len < sizeof_Packet")
  case True
  then have "p = None" "s1 = s" using al by (auto simp: APB_AllocPacketWithId_def split: if_splits)
  then show ?thesis by (simp add: mail_added_def same_mail_refl)
next
  case False
  then have len: "sizeof_Packet \<le> unat len" "unat len \<le> BUFFER_SIZE" by auto
  obtain r s2 where go: "get_out_buffer len s = (r, s2)" by fastforce
  note g = get_out_buffer_mail [OF inv go]
  from get_out_buffer_inv [OF inv go] obtain H2 where i2: "writer_inv H2 [] s2"
    and room: "\<forall>ob. r = Some ob \<longrightarrow> has_room len ob s2" by blast
  show ?thesis
  proof (cases r)
    case None
    then show ?thesis using al len go g(1) by (simp add: APB_AllocPacketWithId_def mail_added_def)
  next
    case ob: (Some ob)
    obtain q s3 where ao: "APB_AllocObject OT_OUT_PACKET s2 = (q, s3)" by fastforce
    note a = alloc_object_writer [OF i2 ao, simplified] and fr = pool_step_frame [OF ao]
    have m3: "same_mail s s3"
      by (rule same_mail_trans [OF g(1)]) (rule same_mail_frame [OF i2], simp_all add: fr)
    show ?thesis
    proof (cases q)
      case None
      then show ?thesis using al len go ob ao m3 by (simp add: APB_AllocPacketWithId_def mail_added_def)
    next
      case (Some op)
      have i3: "writer_inv (H2(OT_OUT_PACKET := insert op (H2 OT_OUT_PACKET))) [] s3" using a Some by simp
      have opn: "op \<notin> set (packs [] s3)"
        using a(4) [of op] Some i2 fr by (auto simp: writer_inv_def w_heap_def packs_def)
      from g(2) [OF ob] fr obtain qs where q3: "pw_Queue (pw s3) = qs @ [ob]" by auto
      have room3: "has_room len ob s3" using room ob fr by (simp add: has_room_def)
      let ?s4 = "init_out_packet op ob len packId s3" and ?s5 = "trim_recent (init_out_packet op ob len packId s3)"
      note n = init_packet_mail [OF i3 opn q3 len room3, where packId = packId]
      have e: "p = Some (op_Pac (h_OutPac ?s5 op))"
        "s1 = upd_pw (\<lambda>w. w\<lparr>pw_RecentPackets := pw_RecentPackets w @ [op], pw_RecentCount := pw_RecentCount w + 1\<rparr>) ?s5"
        using al len go ob ao Some by (simp_all add: APB_AllocPacketWithId_def Let_def)
      have h: "h_OutPac s1 = h_OutPac ?s4" "h_Buf s1 = h_Buf ?s4" using trim_recent_frame [of ?s4] by (simp_all add: e(2))
      have "outbox [] s1 = outbox [op] ?s5" by (simp add: outbox_def packs_def e(2))
      then have out: "outbox [] s1 = outbox [op] ?s4" by (simp add: trim_recent_mail)
      have "packet_value s1 = packet_value ?s4" by (simp add: packet_value_def fun_eq_iff h)
      moreover have "p = Some (op_Pac (h_OutPac ?s4 op))" using e(1) trim_recent_frame [of ?s4] by simp
      ultimately show ?thesis
        using n m3 out by (auto simp: mail_added_def same_mail_def h)
    qed
  qed
qed

lemma alloc_mail:
  assumes inv: "writer_inv H [] s" and al: "APB_AllocPacket len s = (p, s1)"
  shows "mail_added len p s s1"
proof -
  let ?s = "upd_pw (\<lambda>w. w\<lparr>pw_NextPackId := pw_NextPackId (pw s) + 1\<rparr>) s"
  have f: "outbox [] ?s = outbox [] s" "packet_value ?s = packet_value s" "h_OutPac ?s = h_OutPac s"
    by (simp_all add: outbox_def packs_def packet_value_def fun_eq_iff)
  have "mail_added len p ?s s1"
    using alloc_with_id_mail [of H ?s] inv al by (simp add: writer_inv_next_id APB_AllocPacket_eq)
  then show ?thesis unfolding mail_added_def same_mail_def f .
qed

section \<open>Filling in the last packet\<close>

lemma fill_other:
  assumes inv: "writer_inv H [] s" and op: "op \<in> set (outbox [] s)" "op_Pac (h_OutPac s op) = (b, i)"
    and y: "y \<in> set (outbox [] s)" "op_Pac (h_OutPac s y) \<noteq> (b, i)"
    and p: "payload_only i (buf_data s b) (buf_data s1 b)" and hb: "\<forall>c. c \<noteq> b \<longrightarrow> h_Buf s1 c = h_Buf s c"
    and hp: "h_OutPac s1 = h_OutPac s"
  shows "packet_value s1 y = packet_value s y"
proof -
  obtain ob j where j: "ob \<in> set (pw_Queue (pw s))" "op_Pac (h_OutPac s op) = (ob_Buf (h_OutBuf s ob), j)"
    "(ob_Buf (h_OutBuf s ob), j) \<in> set (map (op_Pac \<circ> h_OutPac s) (unsent_of ob (packs [] s) (h_OutPac s)))"
    by (rule outbox_place [OF inv op(1)]) (rule that)
  then have ob: "ob \<in> set (pw_Queue (pw s))" "b = ob_Buf (h_OutBuf s ob)"
    "(b, i) \<in> set (map (op_Pac \<circ> h_OutPac s) (unsent_of ob (packs [] s) (h_OutPac s)))"
    using op(2) by simp_all
  obtain c k where c: "c \<in> set (pw_Queue (pw s))" "op_Pac (h_OutPac s y) = (ob_Buf (h_OutBuf s c), k)"
    "(ob_Buf (h_OutBuf s c), k) \<in> set (map (op_Pac \<circ> h_OutPac s) (unsent_of c (packs [] s) (h_OutPac s)))"
    by (rule outbox_place [OF inv y(1)]) (rule that)
  show ?thesis
  proof (cases "c = ob")
    case True
    have t: "tiles (buf_data s b) b (unat (ob_Offset (h_OutBuf s ob)))
        (map (op_Pac \<circ> h_OutPac s) (unsent_of ob (packs [] s) (h_OutPac s))) (buf_offset s b)"
      using inv ob(1,2) by (simp add: writer_inv_def w_layout_def buf_layout_def Let_def)
    have k: "op_Pac (h_OutPac s y) = (b, k)" "k \<noteq> i" using True c(2) y(2) ob(2) by auto
    have "(b, k) \<in> set (map (op_Pac \<circ> h_OutPac s) (unsent_of ob (packs [] s) (h_OutPac s)))"
      using c(3) True ob(2) by simp
    from tiles_disjoint [OF t this ob(3) k(2)]
    have "read_packet (buf_data s1 b) k = read_packet (buf_data s b) k"
      by (intro read_packet_same) (auto intro!: payload_outside [OF p])
    then show ?thesis by (simp add: packet_value_def hp k)
  next
    case False
    then have "ob_Buf (h_OutBuf s c) \<noteq> b" using queue_bufs_differ [OF inv ob(1) c(1)] ob(2) by simp
    then show ?thesis using c(2) hb by (simp add: packet_value_def hp)
  qed
qed

definition letter :: "u8 \<Rightarrow> u16 \<Rightarrow> u16 \<Rightarrow> u8 list \<Rightarrow> wire_packet" where
  "letter ty cn packId xs = \<lparr>wp_Type = ty, wp_Flags = (if odd (length xs) then PF_PAD_BYTE else 0),
     wp_ConnId = cn, wp_PackId = packId, wp_Data = xs\<rparr>"

lemma fill_last:
  fixes packId cn :: u16 and ty :: u8
  assumes inv: "writer_inv H [] s1" and out: "outbox [] s1 = ops @ [op]" "op_Pac (h_OutPac s1 op) = (b, i)"
    and oth: "\<forall>y \<in> set ops. op_Pac (h_OutPac s1 y) \<noteq> (b, i)"
    and hd: "packet_open (b, i) s1" "get16 (buf_data s1 b) (i + 8) = packId"
      "unat (get16 (buf_data s1 b) (i + 12)) = length xs"
      "buf_data s1 b (i + 5) = (if odd (length xs) then PF_PAD_BYTE else 0)"
  defines "s2 \<equiv> fill_packet (b, i) ty cn xs s1"
  shows "mailbox s2 = map (packet_value s1) ops @ [letter ty cn packId xs]"
proof -
  have pay: "payload_only i (buf_data s1 b) (buf_data s2 b)"
    using hd(3) by (auto simp: payload_only_def s2_def fill_packet_def put_list_def put16_apply put8_apply
        pack_len_def split: if_splits)
  have f: "h_OutPac s2 = h_OutPac s1" "pw s2 = pw s1" "\<forall>c. c \<noteq> b \<longrightarrow> h_Buf s2 c = h_Buf s1 c"
    by (simp_all add: s2_def fill_packet_def)
  have o: "outbox [] s2 = ops @ [op]" using out(1) by (simp add: outbox_def packs_def f)
  have "packet_value s2 y = packet_value s1 y" if "y \<in> set ops" for y
    by (rule fill_other [OF inv _ out(2) _ _ pay f(3,1)]) (use out(1) oth that in auto)
  moreover have "packet_value s2 op = letter ty cn packId xs"
  proof -
    let ?m = "put_list (i + sizeof_Packet) xs (put16 (i + 6) cn (put8 (i + 4) ty (buf_data s1 b)))"
    have d: "buf_data s2 b = ?m" by (simp add: s2_def fill_packet_def)
    have low: "?m (i + k) = put16 (i + 6) cn (put8 (i + 4) ty (buf_data s1 b)) (i + k)" if "k < 14" for k
      using that by (simp add: put_list_def)
    have "?m (i + 4) = ty" "?m (i + 5) = buf_data s1 b (i + 5)" using low [of 4] low [of 5] by (simp_all add: put16_apply put8_apply)
    moreover have "get16 ?m (i + 6) = cn" "get16 ?m (i + 8) = packId" "get16 ?m (i + 12) = get16 (buf_data s1 b) (i + 12)"
      using hd(2) by (simp_all add: get16_def put_list_def put16_apply put8_apply)
    moreover have "bytes_of ?m (i + sizeof_Packet) (length xs) = xs"
      by (rule nth_equalityI) (simp_all add: bytes_of_def put_list_def)
    ultimately show ?thesis
      using hd(3,4) by (simp add: packet_value_def f out(2) read_packet_def letter_def d)
  qed
  ultimately show ?thesis by (simp add: mailbox_def o)
qed

section \<open>A write sends the oldest\<close>

lemma decode_value: "decode = (\<lambda>p. read_packet (mem_of p) 0)"
  by (simp add: decode_def read_packet_def data_len_def Let_def fun_eq_iff)

definition writes_out :: "u8 list list \<Rightarrow> 'a writer_state_scheme \<Rightarrow> 'a writer_state_scheme \<Rightarrow> bool" where
  "writes_out pkts s s1 \<longleftrightarrow> (\<forall>p \<in> set pkts. wire_ok p) \<and> sent_bytes s1 = sent_bytes s @ concat pkts \<and>
     mailbox s = map decode pkts @ mailbox s1"

lemma send_head:
  assumes inv: "writer_inv H [] s" and wr: "r_WriteReq (rem s) \<noteq> None" and q: "pw_Queue (pw s) = ob # rest"
  shows "\<exists>s1 pkts. send_buffer ob s = Some s1 \<and> writer_inv H [] s1 \<and> r_WriteReq (rem s1) \<noteq> None \<and> pw s1 = pw s \<and>
    unsent_of ob (packs [] s1) (h_OutPac s1) = [] \<and> writes_out pkts s s1"
proof -
  have obq: "ob \<in> set (pw_Queue (pw s))" by (simp add: q)
  from send_buffer_ok [OF inv obq wr] obtain s1 pkts where
    s1: "send_buffer ob s = Some s1" "writer_inv H [] s1" "sent_only s s1" "pw s1 = pw s"
      "unsent_of ob (packs [] s1) (h_OutPac s1) = []" "\<forall>p \<in> set pkts. wire_ok p"
      "map decode pkts = map (packet_value s) (unsent_of ob (packs [] s) (h_OutPac s))"
      "\<forall>c. c \<noteq> ob_Buf (h_OutBuf s ob) \<longrightarrow> h_Buf s1 c = h_Buf s c"
      "h_OutPac s1 = mark_sent ob (packs [] s) (h_OutPac s)"
      "ser_io s1 = ser_io s @ (if pkts = [] then [] else [Ser_Write (concat pkts)])" unfolding decode_value by blast
  have sent: "sent_bytes s1 = sent_bytes s @ concat pkts" by (simp add: sent_bytes_def s1(10))
  have pk: "packs [] s1 = packs [] s" by (simp add: packs_def s1(4))
  have nin: "ob \<notin> set rest" using writer_inv_bufs(2) [OF inv] q by simp
  have un: "unsent_of c (packs [] s1) (h_OutPac s1) = unsent_of c (packs [] s) (h_OutPac s)" if "c \<noteq> ob" for c
    unfolding pk using that by (intro filter_cong) (auto simp: s1(9))
  have m: "map (\<lambda>c. unsent_of c (packs [] s1) (h_OutPac s1)) rest = map (\<lambda>c. unsent_of c (packs [] s) (h_OutPac s)) rest"
  proof (rule map_cong [OF refl])
    fix c assume "c \<in> set rest"
    then have "c \<noteq> ob" using nin by blast
    then show "unsent_of c (packs [] s1) (h_OutPac s1) = unsent_of c (packs [] s) (h_OutPac s)" by (rule un)
  qed
  have o0: "outbox [] s = unsent_of ob (packs [] s) (h_OutPac s) @ concat (map (\<lambda>c. unsent_of c (packs [] s) (h_OutPac s)) rest)"
    by (simp add: outbox_def q)
  have o1: "outbox [] s1 = concat (map (\<lambda>c. unsent_of c (packs [] s) (h_OutPac s)) rest)"
    unfolding outbox_def s1(4) q list.map concat.simps m s1(5) by simp
  have v: "packet_value s1 y = packet_value s y" if y: "y \<in> set (outbox [] s1)" for y
  proof -
    from y o1 nin have yo: "op_OutBuf (h_OutPac s y) \<noteq> ob" by auto
    have "y \<in> set (outbox [] s)" using y by (simp add: o0 o1)
    from outbox_place [OF inv this] obtain c k where c: "c \<in> set (pw_Queue (pw s))" "op_OutBuf (h_OutPac s y) = c"
      "op_Pac (h_OutPac s y) = (ob_Buf (h_OutBuf s c), k)" by metis
    then have "ob_Buf (h_OutBuf s c) \<noteq> ob_Buf (h_OutBuf s ob)" using queue_bufs_differ [OF inv obq c(1)] yo by simp
    then show ?thesis using c(3) s1(8) by (simp add: packet_value_def s1(9))
  qed
  have "mailbox s = map decode pkts @ mailbox s1" unfolding mailbox_def s1(7) using v by (simp add: o0 o1)
  then have "writes_out pkts s s1" using s1(6) sent by (simp add: writes_out_def)
  then show ?thesis using s1(1-5) by (auto simp: sent_only_def)
qed

lemma write_mail:
  assumes inv: "writer_inv H [] s" and wr: "r_WriteReq (rem s) \<noteq> None"
  shows "\<exists>s1 pkts. APB_WriteBuffer s = Some s1 \<and> writer_inv H [] s1 \<and> r_WriteReq (rem s1) \<noteq> None \<and>
    writes_out pkts s s1 \<and> length (pw_Queue (pw s1)) = (if length (pw_Queue (pw s)) > 1 then length (pw_Queue (pw s)) - 1
      else length (pw_Queue (pw s))) \<and> (length (pw_Queue (pw s)) \<le> 1 \<longrightarrow> mailbox s1 = [])"
proof (cases "pw_Queue (pw s)")
  case Nil
  then have "mailbox s = []" by (simp add: mailbox_def outbox_def)
  then show ?thesis
    using inv wr Nil by (intro exI [of _ s] exI [of _ "[]"]) (simp add: APB_WriteBuffer_def writes_out_def)
next
  case q: (Cons ob rest)
  from send_head [OF inv wr q] obtain s1 pkts where
    s1: "send_buffer ob s = Some s1" "writer_inv H [] s1" "r_WriteReq (rem s1) \<noteq> None" "pw s1 = pw s"
      "unsent_of ob (packs [] s1) (h_OutPac s1) = []" "writes_out pkts s s1" by blast
  have cnt: "pw_BufCount (pw s1) > 1 \<longleftrightarrow> rest \<noteq> []"
    using inv q by (auto simp: writer_inv_def w_counts_def word_less_nat_alt s1(4))
  show ?thesis
  proof (cases "rest = []")
    case True
    then have "APB_WriteBuffer s = Some s1" using q s1(1) cnt by (simp add: APB_WriteBuffer_def)
    moreover have "mailbox s1 = []" using True s1(5) by (simp add: mailbox_def outbox_def s1(4) q)
    ultimately show ?thesis using s1 q True by (intro exI [of _ s1] exI [of _ pkts]) simp
  next
    case False
    let ?s = "upd_pw (\<lambda>w. w\<lparr>pw_Queue := rest, pw_BufCount := pw_BufCount w - 1\<rparr>)
        (upd_ob ob (\<lambda>x. x\<lparr>ob_CanRelease := True\<rparr>) s1)"
    have w: "APB_WriteBuffer s = Some ?s" using q s1(1,4) cnt False by (simp add: APB_WriteBuffer_def)
    have q1: "pw_Queue (pw s1) = ob # rest" using q s1(4) by simp
    note d = dequeue_inv(1) [OF s1(2) q1 False s1(5) refl]
    have "outbox [] s1 = outbox [] ?s" unfolding outbox_def q1 using s1(5) by (simp add: packs_def)
    then have "mailbox ?s = mailbox s1" by (simp add: mailbox_def packet_value_def)
    moreover have "sent_bytes ?s = sent_bytes s1" by (rule sent_bytes_cong) simp
    ultimately have "writes_out pkts s ?s" using s1(6) by (simp add: writes_out_def)
    then show ?thesis using w d s1(3) q False by (intro exI [of _ ?s] exI [of _ pkts]) (cases rest; simp)
  qed
qed

section \<open>Sending\<close>

text \<open>The way the server and its connections send: a packet as long as its data needs, filled in.\<close>

lemma send_letter:
  fixes ty :: u8 and cn :: u16
  assumes inv: "writer_inv H [] s" and al: "APB_AllocPacket len s = (Some q, s1)"
    and n: "unat len = sizeof_Packet + length xs"
  defines "s2 \<equiv> fill_packet q ty cn xs s1"
  shows "\<exists>H1. writer_inv H1 [] s2" and "rem s2 = rem s" and "ser_io s2 = ser_io s"
    and "mailbox s2 = mailbox s @ [letter ty cn (pw_NextPackId (pw s)) xs]"
proof -
  from APB_AllocPacket_ok [OF inv al] obtain H1 where i1: "writer_inv H1 [] s1" and fr: "writer_frame H [] s H1 [] s1"
    and g: "packet_got len (pw_NextPackId (pw s)) (Some q) (faults s) s1" by blast
  obtain b i where q: "q = (b, i)" by fastforce
  from alloc_mail [OF inv al] obtain op where a: "outbox [] s1 = outbox [] s @ [op]" "op_Pac (h_OutPac s1 op) = (b, i)"
    "\<forall>y \<in> set (outbox [] s). packet_value s1 y = packet_value s y \<and> op_Pac (h_OutPac s1 y) \<noteq> (b, i)"
    "buf_data s1 b (i + 5) = (if unat len mod 2 = 1 then PF_PAD_BYTE else 0)"
    by (auto simp: mail_added_def q)
  have h: "packet_open (b, i) s1" "get16 (buf_data s1 b) (i + 8) = pw_NextPackId (pw s)"
    "get16 (buf_data s1 b) (i + 12) = len - of_nat sizeof_Packet" using g by (simp_all add: packet_got_def q)
  have l: "unat (get16 (buf_data s1 b) (i + 12)) = length xs"
    unfolding h(3) using n by (subst unat_sub_u16) simp_all
  have "(sizeof_Packet + length xs) mod 2 = 1 \<longleftrightarrow> odd (length xs)" by presburger
  then have fl: "buf_data s1 b (i + 5) = (if odd (length xs) then PF_PAD_BYTE else 0)" unfolding a(4) n by simp
  have may: "may_fill (b, i) xs s1" using h(1) l by (simp add: may_fill_def)
  note f = fill_packet_ok [OF i1 may, of ty cn]
  show "\<exists>H1. writer_inv H1 [] s2" using f(1) by (auto simp: s2_def q)
  show "rem s2 = rem s" "ser_io s2 = ser_io s" using f(2) fr by (simp_all add: s2_def q writer_frame_def)
  have "mailbox s2 = map (packet_value s1) (outbox [] s) @ [letter ty cn (pw_NextPackId (pw s)) xs]"
    unfolding s2_def q by (rule fill_last [OF i1 a(1,2) _ h(1,2) l fl]) (use a(3) in blast)
  then show "mailbox s2 = mailbox s @ [letter ty cn (pw_NextPackId (pw s)) xs]" using a(3) by (simp add: mailbox_def)
qed

lemma alloc_none_mailbox:
  "writer_inv H [] s \<Longrightarrow> APB_AllocPacket len s = (None, s1) \<Longrightarrow> mailbox s1 = mailbox s"
  using alloc_mail [of H s len None s1] by (simp add: mail_added_def same_mail_mailbox)

lemma alloc_mailbox:
  assumes "writer_inv H [] s" and "APB_AllocPacket len s = (p, s1)"
  shows "\<exists>new. mailbox s1 = mailbox s @ new"
proof (cases p)
  case None
  then show ?thesis using alloc_none_mailbox [of H s len s1] assms by simp
next
  case (Some q)
  obtain b i where "q = (b, i)" by fastforce
  with alloc_mail [OF assms] Some obtain op where "outbox [] s1 = outbox [] s @ [op]"
    "\<forall>y \<in> set (outbox [] s). packet_value s1 y = packet_value s y" by (auto simp: mail_added_def)
  then show ?thesis by (simp add: mailbox_def)
qed

text \<open>
  What holds of every user of the writer: nothing that waits is lost or overtaken. A letter channel
  is a packet channel with a box of letters: a step adds letters behind those in the box, and what
  it puts out, decoded, comes from the front of the box.
\<close>

locale letter_channel = packet_channel +
  fixes box :: "'s \<Rightarrow> wire_packet list"
  assumes step_mail: "inv s \<Longrightarrow> step x s = Some s1 \<Longrightarrow> \<exists>pkts new. out s1 = out s @ concat pkts \<and>
      (\<forall>p \<in> set pkts. wire_ok p) \<and> box s @ new = map decode pkts @ box s1"
begin

lemma run_mail:
  "inv s \<Longrightarrow> \<exists>s1 pkts new. run_steps step xs s = Some s1 \<and> inv s1 \<and> out s1 = out s @ concat pkts \<and>
     (\<forall>p \<in> set pkts. wire_ok p) \<and> box s @ new = map decode pkts @ box s1"
proof (induction xs arbitrary: s)
  case Nil
  then show ?case by (intro exI [of _ s] exI [of _ "[]"]) simp
next
  case (Cons x xs)
  from step_ok [OF Cons.prems, of x] obtain s1 where s1: "step x s = Some s1" "inv s1" by blast
  from step_mail [OF Cons.prems s1(1)] obtain p1 n1 where
    1: "out s1 = out s @ concat p1" "\<forall>p \<in> set p1. wire_ok p" "box s @ n1 = map decode p1 @ box s1" by blast
  from Cons.IH [OF s1(2)] obtain s2 p2 n2 where
    2: "run_steps step xs s1 = Some s2" "inv s2" "out s2 = out s1 @ concat p2" "\<forall>p \<in> set p2. wire_ok p"
      "box s1 @ n2 = map decode p2 @ box s2" by blast
  have "box s @ (n1 @ n2) = map decode (p1 @ p2) @ box s2"
    unfolding append_assoc [symmetric] 1(3) by (simp add: 2(5))
  then show ?case
    using s1(1) 1 2 by (intro exI [of _ s2] exI [of _ "p1 @ p2"] exI [of _ "n1 @ n2"]) auto
qed

end

section \<open>Letters and writes\<close>

text \<open>
  Any sequence of letters and writes. The log is what the writer has taken.
\<close>

datatype mail_op = Mail u8 u16 "u8 list" | Flush

fun mail_step ::
    "mail_op \<Rightarrow> wire_packet list \<times> 'a writer_state_scheme \<Rightarrow> (wire_packet list \<times> 'a writer_state_scheme) option" where
  "mail_step (Mail ty cn xs) (log, s) =
     (case APB_AllocPacket (of_nat (sizeof_Packet + length xs)) s of
        (None, s1) \<Rightarrow> Some (log, s1)
      | (Some p, s1) \<Rightarrow> Some (log @ [letter ty cn (pw_NextPackId (pw s)) xs], fill_packet p ty cn xs s1))"
| "mail_step Flush (log, s) = map_option (Pair log) (APB_WriteBuffer s)"

definition sane :: "mail_op \<Rightarrow> bool" where
  "sane x \<longleftrightarrow> (case x of Mail _ _ xs \<Rightarrow> sizeof_Packet + length xs < 65536 | Flush \<Rightarrow> True)"

lemma mail_step_ok:
  assumes ready: "writer_ready s" and sane: "sane x" and log: "log = ws @ mailbox s"
  shows "\<exists>s1 pkts. mail_step x (log, s) = Some (ws @ map decode pkts @ mailbox s1, s1) \<and> writer_ready s1 \<and>
    sent_bytes s1 = sent_bytes s @ concat pkts \<and> (\<forall>p \<in> set pkts. wire_ok p)"
proof -
  from ready obtain H where inv: "writer_inv H [] s" and wr: "r_WriteReq (rem s) \<noteq> None" by (auto simp: writer_ready_def)
  show ?thesis
  proof (cases x)
    case Flush
    from write_mail [OF inv wr] obtain s1 pkts where "APB_WriteBuffer s = Some s1" "writer_inv H [] s1"
      "r_WriteReq (rem s1) \<noteq> None" "writes_out pkts s s1" by blast
    then show ?thesis
      by (intro exI [of _ s1] exI [of _ pkts]) (auto simp: Flush log writes_out_def writer_ready_def)
  next
    case (Mail ty cn xs)
    let ?n = "of_nat (sizeof_Packet + length xs) :: u16"
    have "sizeof_Packet + length xs < 65536" using sane by (simp add: Mail sane_def)
    then have n: "unat ?n = sizeof_Packet + length xs" by (rule unat_of_nat_u16)
    obtain p s1 where al: "APB_AllocPacket ?n s = (p, s1)" by fastforce
    show ?thesis
    proof (cases p)
      case None
      from APB_AllocPacket_ok [OF inv al] obtain H1 where "writer_inv H1 [] s1" "rem s1 = rem s" "ser_io s1 = ser_io s"
        by (auto simp: writer_frame_def)
      then show ?thesis
        using None al alloc_none_mailbox [OF inv, of ?n s1] wr sent_bytes_cong [of s1 s]
        by (intro exI [of _ s1] exI [of _ "[]"]) (auto simp: Mail log writer_ready_def)
    next
      case (Some q)
      let ?s2 = "fill_packet q ty cn xs s1"
      note l = send_letter [OF inv al [unfolded Some] n, of ty cn]
      show ?thesis
        using al l wr sent_bytes_cong [of ?s2 s]
        by (intro exI [of _ ?s2] exI [of _ "[]"]) (auto simp: Mail Some log writer_ready_def)
    qed
  qed
qed

lemma mail_run:
  "writer_ready s \<Longrightarrow> \<forall>x \<in> set ops. sane x \<Longrightarrow>
     \<exists>s1 pkts. run_steps mail_step ops (ws @ mailbox s, s) = Some (ws @ map decode pkts @ mailbox s1, s1) \<and>
       writer_ready s1 \<and> sent_bytes s1 = sent_bytes s @ concat pkts \<and> (\<forall>p \<in> set pkts. wire_ok p)"
proof (induction ops arbitrary: s ws)
  case Nil
  then show ?case by (intro exI [of _ s] exI [of _ "[]"]) simp
next
  case (Cons x ops)
  from mail_step_ok [OF Cons.prems(1) _ refl, of x ws] Cons.prems(2) obtain s1 p1 where
    1: "mail_step x (ws @ mailbox s, s) = Some ((ws @ map decode p1) @ mailbox s1, s1)" "writer_ready s1"
      "sent_bytes s1 = sent_bytes s @ concat p1" "\<forall>p \<in> set p1. wire_ok p" by auto
  from Cons.IH [OF 1(2), of "ws @ map decode p1"] Cons.prems(2) obtain s2 p2 where
    2: "run_steps mail_step ops ((ws @ map decode p1) @ mailbox s1, s1) = Some ((ws @ map decode p1) @ map decode p2 @ mailbox s2, s2)"
      "writer_ready s2" "sent_bytes s2 = sent_bytes s1 @ concat p2" "\<forall>p \<in> set p2. wire_ok p" by auto
  show ?case using 1 2 by (intro exI [of _ s2] exI [of _ "p1 @ p2"]) auto
qed

lemma new_writer_empty:
  assumes "pool_holds H s" and "r_WriteReq (rem s) \<noteq> None" and "APB_CreatePacketWriter s = (True, s0)"
  shows "writer_ready s0" "mailbox s0 = []" "sent_bytes s0 = sent_bytes s"
  using create_writer_inv [OF assms(1,3)] assms(2) sent_bytes_cong [of s0 s]
  by (auto simp: writer_ready_def mailbox_def outbox_def)

lemma drain_writer:
  "writer_inv H [] s \<Longrightarrow> r_WriteReq (rem s) \<noteq> None \<Longrightarrow> length (pw_Queue (pw s)) \<le> Suc n \<Longrightarrow>
     \<exists>s1 pkts. run_steps writer_step (replicate (Suc n) W_Write) s = Some s1 \<and> mailbox s1 = [] \<and> writes_out pkts s s1"
proof (induction n arbitrary: s)
  case 0
  from write_mail [OF 0(1,2)] 0(3) obtain s1 pkts where "APB_WriteBuffer s = Some s1" "writes_out pkts s s1" "mailbox s1 = []"
    by auto
  then show ?case by (intro exI [of _ s1] exI [of _ pkts]) simp
next
  case (Suc n)
  from write_mail [OF Suc.prems(1,2)] obtain s1 p1 where
    1: "APB_WriteBuffer s = Some s1" "writer_inv H [] s1" "r_WriteReq (rem s1) \<noteq> None" "writes_out p1 s s1"
      "length (pw_Queue (pw s1)) = (if length (pw_Queue (pw s)) > 1 then length (pw_Queue (pw s)) - 1
        else length (pw_Queue (pw s)))" by blast
  have "length (pw_Queue (pw s1)) \<le> Suc n" using 1(5) Suc.prems(3) by (simp split: if_splits)
  from Suc.IH [OF 1(2,3) this] obtain s2 p2 where
    2: "run_steps writer_step (replicate (Suc n) W_Write) s1 = Some s2" "mailbox s2 = []" "writes_out p2 s1 s2" by blast
  have "writes_out (p1 @ p2) s s2" using 1(4) 2(3) by (auto simp: writes_out_def)
  then show ?case using 1(1) 2(1,2) by (intro exI [of _ s2] exI [of _ "p1 @ p2"]) simp
qed

section \<open>One letter\<close>

text \<open>A letter of three bytes in a new writer, before and after it is written.\<close>

abbreviation demo_mail :: wire_packet where
  "demo_mail \<equiv> letter 0x20 5 1 [1, 2, 3]"

lemma demo_letter:
  obtains H p and s0 s2 s3 :: writer_state where "APB_CreatePacketWriter demo_writer = (True, s0)"
    "mail_step (Mail 0x20 5 [1, 2, 3]) ([], s0) = Some ([demo_mail], s2)" "writer_inv H [] s2"
    "r_WriteReq (rem s2) \<noteq> None" "length (pw_Queue (pw s2)) = 1" "mailbox s2 = [demo_mail]"
    "APB_WriteBuffer s2 = Some s3" "mailbox s3 = []" "sent_bytes s3 = p" "length p \<le> BUFFER_SIZE"
proof -
  obtain s0 :: writer_state where c: "APB_CreatePacketWriter demo_writer = (True, s0)" and i: "idle_writer s0"
    using demo_writer_start by blast
  note s = idle_writer_facts [OF i]
  have n: "of_nat (sizeof_Packet + length [1, 2, 3 :: u8]) = (17 :: u16)" by simp
  have "sizeof_Packet \<le> unat (17 :: u16)" and "unat (17 :: u16) \<le> BUFFER_SIZE" by (simp_all add: BUFFER_SIZE_def)
  from alloc_packet_idle [OF s(1-5) this] obtain b k s1 where
    al: "APB_AllocPacket 17 s0 = (Some (b, k), s1)" and q: "length (pw_Queue (pw s1)) = 1" by blast
  define s2 where "s2 = fill_packet (b, k) 0x20 5 [1, 2, 3] s1"
  have st: "mail_step (Mail 0x20 5 [1, 2, 3]) ([], s0) = Some ([demo_mail], s2)"
    unfolding mail_step.simps n al by (simp add: s2_def s(9))
  have wr: "r_WriteReq (rem demo_writer) \<noteq> None" by (simp add: demo_writer_def demo_remote_def)
  note z = new_writer_empty [OF demo_writer_holds wr c]
  have "sane (Mail 0x20 5 [1, 2, 3])" by (simp add: sane_def)
  from mail_step_ok [OF z(1) this, of "[]" "[]"] z(2) st obtain p1 where
    p1: "[demo_mail] = map decode p1 @ mailbox s2" "writer_ready s2" "sent_bytes s2 = sent_bytes s0 @ concat p1"
      "\<forall>p \<in> set p1. wire_ok p" by auto
  have "ser_io s1 = ser_io s0" using APB_AllocPacket_ok [OF s(1) al] by (auto simp: writer_frame_def)
  then have "sent_bytes s2 = sent_bytes s0" by (intro sent_bytes_cong) (simp add: s2_def fill_packet_def)
  then have "p1 = []" using p1(3,4) wire_total(2) by (cases p1) force+
  then have w2: "mailbox s2 = [demo_mail]" using p1(1) by simp
  have q2: "length (pw_Queue (pw s2)) = 1" using q by (simp add: s2_def fill_packet_def)
  from p1(2) obtain H where h: "writer_inv H [] s2" "r_WriteReq (rem s2) \<noteq> None" by (auto simp: writer_ready_def)
  from write_mail [OF h] q2 obtain s3 p3 where s3: "APB_WriteBuffer s2 = Some s3" "writes_out p3 s2 s3" "mailbox s3 = []" by auto
  have "length p3 = 1" using s3(2,3) w2 by (simp add: writes_out_def) (metis length_map length_Cons list.size(3))
  then obtain p where p: "p3 = [p]" by (auto simp: length_Suc_conv)
  have "sent_bytes s0 = []" using s(8) by (simp add: sent_bytes_def)
  then have sent: "sent_bytes s3 = p" using s3(2) \<open>sent_bytes s2 = sent_bytes s0\<close> by (simp add: writes_out_def p)
  have "wire_ok p" using s3(2) by (simp add: writes_out_def p)
  then have "length p \<le> BUFFER_SIZE" using pack_len_le [of "mem_of p" 0] by (simp add: wire_ok_def wire_at_def)
  with c st h q2 w2 s3 sent show ?thesis using that by blast
qed

section \<open>Properties\<close>

text \<open>
  C9: a new writer is a queue of letters. Whatever is sent in whatever order of sending and writing,
  no operation hangs, and what the device has got, decoded, followed by what still waits, is exactly
  what the writer has taken, in order, each with its type, connection, number and data.
\<close>

theorem writer_keeps_order:
  assumes "pool_holds H s" and "r_WriteReq (rem s) \<noteq> None" and "APB_CreatePacketWriter s = (True, s0)"
    and "\<forall>x \<in> set ops. sane x"
  shows "\<exists>log s1 pkts. run_steps mail_step ops ([], s0) = Some (log, s1) \<and> log = map decode pkts @ mailbox s1 \<and>
    sent_bytes s1 = sent_bytes s @ concat pkts \<and> (\<forall>p \<in> set pkts. wire_ok p)"
proof -
  note n = new_writer_empty [OF assms(1-3)]
  from mail_run [OF n(1) assms(4), of "[]"] n(2,3) show ?thesis by auto
qed

theorem writer_keeps_order_witness:
  "\<exists>(s0 :: writer_state) s1 pkts. APB_CreatePacketWriter demo_writer = (True, s0) \<and>
     run_steps mail_step [Mail 0x20 5 [1, 2, 3], Flush] ([], s0) = Some ([demo_mail], s1) \<and>
     [demo_mail] = map decode pkts @ mailbox s1 \<and> sent_bytes s1 = concat pkts"
proof -
  obtain H p s0 s2 s3 where d: "APB_CreatePacketWriter demo_writer = (True, s0)"
    "mail_step (Mail 0x20 5 [1, 2, 3]) ([], s0) = Some ([demo_mail], s2)" "APB_WriteBuffer s2 = Some s3"
    by (rule demo_letter) blast
  have r: "run_steps mail_step [Mail 0x20 5 [1, 2, 3], Flush] ([], s0) = Some ([demo_mail], s3)" using d(2,3) by simp
  have wr: "r_WriteReq (rem demo_writer) \<noteq> None" and "sent_bytes demo_writer = []"
    by (simp_all add: demo_writer_def demo_remote_def sent_bytes_def)
  moreover have "\<forall>x \<in> set [Mail 0x20 5 [1, 2, 3], Flush]. sane x" by (simp add: sane_def)
  ultimately show ?thesis using writer_keeps_order [OF demo_writer_holds wr d(1)] d(1) r by fastforce
qed

text \<open>
  C10: what waits in a writer goes out: any number of writes that is at least one and at least the
  number of buffers in the queue sends all that waits, in order, and leaves nothing.
\<close>

theorem writer_drains:
  assumes "writer_inv H [] s" and "r_WriteReq (rem s) \<noteq> None" and "length (pw_Queue (pw s)) \<le> Suc n"
  shows "\<exists>s1 pkts. run_steps writer_step (replicate (Suc n) W_Write) s = Some s1 \<and>
    sent_bytes s1 = sent_bytes s @ concat pkts \<and> (\<forall>p \<in> set pkts. wire_ok p) \<and>
    map decode pkts = mailbox s \<and> mailbox s1 = []"
  using drain_writer [OF assms] by (auto simp: writes_out_def)

theorem writer_drains_witness:
  "\<exists>(s :: writer_state) s1 pkts. mailbox s = [demo_mail] \<and> run_steps writer_step [W_Write] s = Some s1 \<and>
     sent_bytes s1 = sent_bytes s @ concat pkts \<and> map decode pkts = [demo_mail] \<and> mailbox s1 = []"
proof -
  obtain H and s2 :: writer_state where d: "writer_inv H [] s2" "r_WriteReq (rem s2) \<noteq> None" "length (pw_Queue (pw s2)) = 1"
    "mailbox s2 = [demo_mail]"
    by (rule demo_letter) blast
  have "length (pw_Queue (pw s2)) \<le> Suc 0" using d(3) by simp
  moreover have "replicate (Suc 0) W_Write = [W_Write]" by simp
  ultimately show ?thesis using writer_drains [OF d(1,2)] d(4) by metis
qed

text \<open>
  C2: from one end to the other. The letters a writer has taken are, in order, those the reader at the
  other end has queued, those it could not queue for lack of memory, and those still waiting in
  the writer; whatever reads and buffers the bytes come in.
\<close>

theorem letters_arrive_in_order:
  assumes "pool_holds H s" and "r_WriteReq (rem s) \<noteq> None" and "APB_CreatePacketWriter s = (True, s0)"
    and "\<forall>x \<in> set ops. sane x" and "run_steps mail_step ops ([], s0) = Some (log, s1)"
    and "pool_holds H1 r" and "APB_CreatePacketReader r = (True, r0)"
    and "sent_bytes s1 = sent_bytes s @ concat (map snd reads)"
    and "\<forall>cs1 c cs2 r1. reads = cs1 @ c # cs2 \<longrightarrow> run_steps feed cs1 r0 = Some r1 \<longrightarrow> can_feed c r1"
  shows "\<exists>r1 unread. run_steps feed reads r0 = Some r1 \<and> log = queue_packets r1 @ unread @ mailbox s1 \<and>
    (unread \<noteq> [] \<longrightarrow> no_in_packet r1)"
proof -
  note n = new_writer_empty [OF assms(1-3)]
  from mail_run [OF n(1) assms(4), of "[]"] n(2,3) assms(5) obtain pkts where
    p: "log = map decode pkts @ mailbox s1" "sent_bytes s1 = sent_bytes s @ concat pkts" "\<forall>p \<in> set pkts. wire_ok p"
    by auto
  have str: "concat (map snd reads) = concat pkts @ []" using p(2) assms(8) by simp
  have "stream_verdict [] = Wait" by (simp add: stream_verdict_def verdict_def)
  from fed_reader [OF assms(6,7) str p(3) this assms(9)] obtain r1 k where
    r1: "run_steps feed reads r0 = Some r1" "k \<le> length pkts" "queue_packets r1 = map decode (take k pkts)"
      "k < length pkts \<longrightarrow> no_in_packet r1" by blast
  have "map decode pkts = queue_packets r1 @ map decode (drop k pkts)"
    unfolding r1(3) map_append [symmetric] append_take_drop_id ..
  then show ?thesis
    using r1 p(1) by (intro exI [of _ r1] exI [of _ "map decode (drop k pkts)"]) auto
qed

theorem letters_arrive_in_order_witness:
  "\<exists>(s0 :: writer_state) s1 (r0 :: reader_state) r1 unread. APB_CreatePacketWriter demo_writer = (True, s0) \<and>
     run_steps mail_step [Mail 0x20 5 [1, 2, 3], Flush] ([], s0) = Some ([demo_mail], s1) \<and>
     APB_CreatePacketReader demo_reader = (True, r0) \<and> run_steps feed [(7, sent_bytes s1)] r0 = Some r1 \<and>
     [demo_mail] = queue_packets r1 @ unread"
proof -
  obtain H p s0 s2 s3 where d: "APB_CreatePacketWriter demo_writer = (True, s0)"
    "mail_step (Mail 0x20 5 [1, 2, 3]) ([], s0) = Some ([demo_mail], s2)" "APB_WriteBuffer s2 = Some s3"
    "mailbox s3 = []" "sent_bytes s3 = p" "length p \<le> BUFFER_SIZE"
    by (rule demo_letter) blast
  have r: "run_steps mail_step [Mail 0x20 5 [1, 2, 3], Flush] ([], s0) = Some ([demo_mail], s3)" using d(2,3) by simp
  have wr: "r_WriteReq (rem demo_writer) \<noteq> None" and z: "sent_bytes demo_writer = []"
    by (simp_all add: demo_writer_def demo_remote_def sent_bytes_def)
  have sn: "\<forall>x \<in> set [Mail 0x20 5 [1, 2, 3], Flush]. sane x" by (simp add: sane_def)
  obtain r0 where f: "fresh_reader r0" using demo_reader_start by blast
  then have c: "APB_CreatePacketReader demo_reader = (True, r0)" by (simp add: fresh_reader_def)
  have str: "sent_bytes s3 = sent_bytes demo_writer @ concat (map snd [(7 :: addr, p)])" using d(5) z by simp
  have "can_feed (7, p) r0" by (rule fresh_can_feed [OF f d(6)])
  then have "\<forall>cs1 c cs2 r1. [(7, p)] = cs1 @ c # cs2 \<longrightarrow> run_steps feed cs1 r0 = Some r1 \<longrightarrow> can_feed c r1"
    by (auto simp: Cons_eq_append_conv)
  from letters_arrive_in_order [OF demo_writer_holds wr d(1) sn r demo_reader_holds c str this] obtain r1 unread where
    "run_steps feed [(7, p)] r0 = Some r1" "[demo_mail] = queue_packets r1 @ unread @ mailbox s3" by blast
  then show ?thesis using d(1,4,5) r c by (metis append_Nil2)
qed

end
