(* ===== verification/Sending.thy ===== *)
theory Sending
  imports ServerMachine Delivery
begin

text \<open>
  The packets the server and its connections send: a packet is allocated, filled in and perhaps
  written; the writer stays usable and what goes to the serial device stays a sequence of whole,
  valid packets.
\<close>

section \<open>The writer among the other users of the pool\<close>

lemma writer_inv_other:
  assumes inv: "writer_inv H [] s" and h: "pool_holds H1 s1"
    and sub: "H OT_OUT_PACKET \<subseteq> H1 OT_OUT_PACKET" "H OT_OUT_BUFFER \<subseteq> H1 OT_OUT_BUFFER" "H OT_BUFFER \<subseteq> H1 OT_BUFFER"
    and e: "h_Buf s1 = h_Buf s" "h_OutBuf s1 = h_OutBuf s" "h_OutPac s1 = h_OutPac s" "pw s1 = pw s"
  shows "writer_inv H1 [] s1"
proof -
  have f: "packs [] s1 = packs [] s" "out_refs [] s1 = out_refs [] s" "wbufs [] s1 = wbufs [] s"
    "\<And>ob. ob_count [] s1 ob = ob_count [] s ob"
    by (simp_all add: packs_def out_refs_def wbufs_def ob_count_def e)
  have "w_heap H1 [] s1" using inv h sub by (auto simp: writer_inv_def w_heap_def f e)
  moreover have "w_counts [] s1" using inv by (simp add: writer_inv_def w_counts_def f e)
  moreover have "w_layout [] s1"
    using inv by (simp add: writer_inv_def w_layout_def buf_layout_def pac_layout_def f e)
  ultimately show ?thesis by (simp add: writer_inv_def)
qed

text \<open>The fields a writer depends on.\<close>

definition same_writer :: "'a writer_state_scheme \<Rightarrow> 'a writer_state_scheme \<Rightarrow> bool" where
  "same_writer s s1 \<longleftrightarrow> op_Types s1 = op_Types s \<and> op_MemPool s1 = op_MemPool s \<and> op_Mem s1 = op_Mem s \<and>
     h_Buf s1 = h_Buf s \<and> h_OutBuf s1 = h_OutBuf s \<and> h_OutPac s1 = h_OutPac s \<and> pw s1 = pw s \<and>
     rem s1 = rem s \<and> ser_io s1 = ser_io s"

lemma same_writer_ready:
  assumes "same_writer s s1" and "writer_ready s"
  shows "writer_ready s1"
proof -
  from assms(2) obtain H where H: "writer_inv H [] s" and w: "r_WriteReq (rem s) \<noteq> None"
    by (auto simp: writer_ready_def)
  have "pool_holds H s1"
    using H assms(1) pool_holds_cong [of s1 s H] by (simp add: writer_inv_def w_heap_def same_writer_def)
  then have "writer_inv H [] s1"
    by (rule writer_inv_other [OF H]) (use assms(1) in \<open>simp_all add: same_writer_def\<close>)
  then show ?thesis using w assms(1) by (auto simp: writer_ready_def same_writer_def)
qed

lemma same_writer_refl [simp]: "same_writer s s"
  by (simp add: same_writer_def)

lemma same_writer_trans: "same_writer s s1 \<Longrightarrow> same_writer s1 s2 \<Longrightarrow> same_writer s s2"
  by (simp add: same_writer_def)

lemma same_writer_cnn [simp]:
  "same_writer s (upd_cnn c f s)" "same_writer s (upd_req r g s)" "same_writer s (ReplyMsg r s)"
  by (simp_all add: same_writer_def)

lemma same_writer_srv [simp]:
  "same_writer s (upd_srv h s)" "same_writer s (set_state st s)" "same_writer s (APB_EnableTimer ms s)"
  by (simp_all add: same_writer_def set_state_def upd_srv_def APB_EnableTimer_def)

section \<open>Sending\<close>

text \<open>What is sent on the way from one state to another, if the writer was usable before.\<close>

definition sends :: "'a writer_state_scheme \<Rightarrow> 'a writer_state_scheme \<Rightarrow> bool" where
  "sends s s1 \<longleftrightarrow> (writer_ready s \<longrightarrow> writer_ready s1 \<and>
     (\<exists>pkts new. sent_bytes s1 = sent_bytes s @ concat pkts \<and> (\<forall>p \<in> set pkts. wire_ok p) \<and>
       mailbox s @ new = map decode pkts @ mailbox s1))"

lemma sends_trans:
  assumes "sends s s1" and "sends s1 s2"
  shows "sends s s2"
proof -
  have "\<exists>pkts new. sent_bytes s2 = sent_bytes s @ concat pkts \<and> (\<forall>p \<in> set pkts. wire_ok p) \<and>
      mailbox s @ new = map decode pkts @ mailbox s2" if "writer_ready s"
  proof -
    from assms that obtain p1 n1 p2 n2 where
      1: "sent_bytes s1 = sent_bytes s @ concat p1" "\<forall>p \<in> set p1. wire_ok p" "mailbox s @ n1 = map decode p1 @ mailbox s1"
      and 2: "sent_bytes s2 = sent_bytes s1 @ concat p2" "\<forall>p \<in> set p2. wire_ok p"
        "mailbox s1 @ n2 = map decode p2 @ mailbox s2" unfolding sends_def by blast
    have "mailbox s @ (n1 @ n2) = map decode (p1 @ p2) @ mailbox s2"
      unfolding append_assoc [symmetric] 1(3) by (simp add: 2(3))
    then show ?thesis using 1 2 by (intro exI [of _ "p1 @ p2"] exI [of _ "n1 @ n2"]) auto
  qed
  then show ?thesis using assms by (simp add: sends_def)
qed

lemma sends_added:
  assumes "writer_ready s \<Longrightarrow> writer_ready s1 \<and> ser_io s1 = ser_io s \<and> (\<exists>new. mailbox s1 = mailbox s @ new)"
  shows "sends s s1"
proof -
  have "\<exists>pkts new. sent_bytes s1 = sent_bytes s @ concat pkts \<and> (\<forall>p \<in> set pkts. wire_ok p) \<and>
      mailbox s @ new = map decode pkts @ mailbox s1" if "writer_ready s"
  proof -
    from assms [OF that] obtain new where "mailbox s1 = mailbox s @ new" "ser_io s1 = ser_io s" by blast
    then show ?thesis using sent_bytes_cong [of s1 s] by (intro exI [of _ "[]"] exI [of _ new]) simp
  qed
  then show ?thesis using assms by (simp add: sends_def)
qed

lemma mailbox_cong:
  "pw s1 = pw s \<Longrightarrow> h_OutPac s1 = h_OutPac s \<Longrightarrow> h_Buf s1 = h_Buf s \<Longrightarrow> mailbox s1 = mailbox s"
  by (simp add: mailbox_def outbox_def packs_def packet_value_def fun_eq_iff cong: map_cong)

lemma sends_nothing:
  assumes "writer_ready s \<Longrightarrow> writer_ready s1" and "ser_io s1 = ser_io s"
    and "pw s1 = pw s" "h_OutPac s1 = h_OutPac s" "h_Buf s1 = h_Buf s"
  shows "sends s s1"
  by (rule sends_added) (use assms mailbox_cong [of s1 s] in simp)

lemma sends_same: "same_writer s s1 \<Longrightarrow> sends s s1"
  by (rule sends_nothing) (auto intro: same_writer_ready simp: same_writer_def)

lemma sends_refl: "sends s s"
  by (rule sends_same) simp

lemma alloc_packet_sends:
  assumes "APB_AllocPacket n s = (p, s1)"
  shows "sends s s1" "writer_ready s \<Longrightarrow> rem s1 = rem s"
proof -
  have k: "writer_ready s1 \<and> rem s1 = rem s \<and> ser_io s1 = ser_io s" if "writer_ready s"
    using that APB_AllocPacket_ok [OF _ assms] by (fastforce simp: writer_ready_def writer_frame_def)
  then show "writer_ready s \<Longrightarrow> rem s1 = rem s" by blast
  have "\<exists>new. mailbox s1 = mailbox s @ new" if "writer_ready s"
    using that alloc_mailbox [OF _ assms] by (auto simp: writer_ready_def)
  then show "sends s s1" using k by (intro sends_added) blast
qed

lemma fill_new_sends:
  assumes al: "APB_AllocPacket n s = (Some p, s1)" and len: "length xs + sizeof_Packet = unat n"
  shows "sends s (fill_packet p ty cn xs s1)" "writer_ready s \<Longrightarrow> rem (fill_packet p ty cn xs s1) = rem s"
proof -
  have n: "unat n = sizeof_Packet + length xs" using len by simp
  let ?s = "fill_packet p ty cn xs s1"
  have k: "writer_ready ?s \<and> rem ?s = rem s \<and> ser_io ?s = ser_io s \<and> (\<exists>new. mailbox ?s = mailbox s @ new)"
    if r: "writer_ready s"
  proof -
    from r obtain H where H: "writer_inv H [] s" and w: "r_WriteReq (rem s) \<noteq> None"
      by (auto simp: writer_ready_def)
    note l = send_letter [OF H al n, of ty cn]
    then show ?thesis using w by (auto simp: writer_ready_def)
  qed
  then show "writer_ready s \<Longrightarrow> rem ?s = rem s" by blast
  show "sends s ?s" by (rule sends_added) (use k in blast)
qed

lemma write_sends:
  assumes "APB_SrvSendToRemote s = Some s1"
  shows "sends s s1"
proof (cases "REM_CanWrite s")
  case True
  then have w: "APB_WriteBuffer s = Some s1" using assms by (simp add: APB_SrvSendToRemote_def)
  have "writer_ready s1 \<and> (\<exists>pkts. writes_out pkts s s1)" if "writer_ready s"
  proof -
    from that obtain H where "writer_inv H [] s" "r_WriteReq (rem s) \<noteq> None" by (auto simp: writer_ready_def)
    from write_mail [OF this] w show ?thesis by (auto simp: writer_ready_def)
  qed
  then show ?thesis unfolding sends_def writes_out_def by (metis append_Nil2)
next
  case False
  then show ?thesis using assms sends_refl by (simp add: APB_SrvSendToRemote_def)
qed

lemma write_returns: "writer_ready s \<Longrightarrow> \<exists>s1. APB_SrvSendToRemote s = Some s1"
  using writer_step_ok [of s W_Write] by (auto simp: APB_SrvSendToRemote_def)

text \<open>A write touches the write request of the remote only.\<close>

definition same_ports :: "remote \<Rightarrow> remote \<Rightarrow> bool" where
  "same_ports r r1 \<longleftrightarrow> r_ReadReady r1 = r_ReadReady r \<and> r_ReadPort r1 = r_ReadPort r \<and>
     r_WritePort r1 = r_WritePort r"

lemma seal_packet_rem: "seal_packet ob op s = Some s1 \<Longrightarrow> rem s1 = rem s"
  by (auto simp: seal_packet_def Let_def split: if_splits prod.splits option.splits)

lemma seal_packets_rem: "seal_packets ob ops s = Some s1 \<Longrightarrow> rem s1 = rem s"
  by (induction ops arbitrary: s) (auto dest: seal_packet_rem split: option.splits)

lemma rem_write_ports: "same_ports (rem s) (rem (REM_Write p n s))"
proof -
  have "rem (add_fault f s) = rem s" for f by (cases s) (simp add: add_fault_def)
  then show ?thesis by (auto simp: REM_Write_def same_ports_def split: option.split)
qed

lemma write_ports:
  assumes "APB_SrvSendToRemote s = Some s1"
  shows "same_ports (rem s) (rem s1)"
proof (cases "REM_CanWrite s")
  case True
  then have w: "APB_WriteBuffer s = Some s1" using assms by (simp add: APB_SrvSendToRemote_def)
  have kept: "same_ports (rem s) (rem s2)" if sb: "send_buffer ob s = Some s2" for ob s2
  proof (cases "ob_Offset (h_OutBuf s ob) < b_Offset (h_Buf s (ob_Buf (h_OutBuf s ob)))")
    case True
    then obtain t where t: "seal_packets ob (pw_RecentPackets (pw s)) s = Some t"
      using sb True by (cases "seal_packets ob (pw_RecentPackets (pw s)) s") (simp_all add: send_buffer_def Let_def)
    show ?thesis
      using True sb t rem_write_ports [of t] seal_packets_rem [OF t] by (auto simp: send_buffer_def Let_def)
  qed (use sb in \<open>simp add: send_buffer_def Let_def same_ports_def\<close>)
  then show ?thesis
    using w by (auto simp: APB_WriteBuffer_def same_ports_def dest!: kept split: list.splits option.splits if_splits)
qed (use assms in \<open>simp add: APB_SrvSendToRemote_def same_ports_def\<close>)

section \<open>The packets of the server\<close>

lemma same_ports_trans: "same_ports a b \<Longrightarrow> same_ports b c \<Longrightarrow> same_ports a c"
  by (simp add: same_ports_def)

lemma same_ports_refl [simp]: "same_ports a a"
  by (simp add: same_ports_def)

text \<open>Allocate, fill in, write: what \<open>APB_SendPing\<close>, \<open>APB_SendInit\<close> and the others do.\<close>

lemma send_new:
  assumes al: "APB_AllocPacket n s = (Some p, s1)" and len: "length xs + sizeof_Packet = unat n"
    and r: "writer_ready s"
  obtains s2 where "APB_SrvSendToRemote (fill_packet p ty cn xs s1) = Some s2" and "writer_ready s2"
    and "sends s s2" and "same_ports (rem s) (rem s2)"
proof -
  let ?t = "fill_packet p ty cn xs s1"
  note f = fill_new_sends [OF al len, of ty cn]
  have t: "writer_ready ?t" "rem ?t = rem s" using f r by (simp_all add: sends_def)
  obtain s2 where s2: "APB_SrvSendToRemote ?t = Some s2" using write_returns [OF t(1)] by blast
  show thesis
  proof (rule that [OF s2])
    show "sends s s2" by (rule sends_trans [OF f(1) write_sends [OF s2]])
    then show "writer_ready s2" using r by (simp add: sends_def)
    show "same_ports (rem s) (rem s2)" using write_ports [OF s2] t(2) by simp
  qed
qed

lemma send_ping_ok:
  assumes "writer_ready s"
  obtains s1 where "APB_SendPing s = Some s1" and "writer_ready s1" and "sends s s1"
    and "same_ports (rem s) (rem s1)"
    and "srv s1 = srv s \<or> srv s1 = (srv s)\<lparr>srv_PingTimeoutTicks := PING_TICKS, srv_PingSendTicks := 0\<rparr>"
proof -
  obtain p s0 where al: "APB_AllocPacket (of_nat sizeof_Packet) s = (p, s0)" by fastforce
  have v0: "srv s0 = srv s" by (rule steps_lower [OF alloc_packet_more [OF al]])
  show thesis
  proof (cases p)
    case None
    show ?thesis
    proof (rule that [of s0])
      show "APB_SendPing s = Some s0" using al None by (simp add: APB_SendPing_def)
      show "sends s s0" by (rule alloc_packet_sends(1) [OF al])
      then show "writer_ready s0" using assms by (simp add: sends_def)
    qed (simp_all add: v0 alloc_packet_sends(2) [OF al assms])
  next
    case (Some q)
    note al = al [unfolded Some]
    have len: "length ([] :: u8 list) + sizeof_Packet = unat (of_nat sizeof_Packet :: u16)" by simp
    from send_new [OF al len assms, of "pt_code PT_PING" DEFAULT_CONNECTION] obtain s2 where
      s2: "APB_SrvSendToRemote (fill_packet q (pt_code PT_PING) DEFAULT_CONNECTION [] s0) = Some s2"
        "writer_ready s2" "sends s s2" "same_ports (rem s) (rem s2)" .
    let ?u = "upd_srv (\<lambda>x. x\<lparr>srv_PingTimeoutTicks := PING_TICKS, srv_PingSendTicks := 0\<rparr>) s2"
    have v2: "srv s2 = srv s" using steps_lower [OF send_to_remote_more [OF s2(1)]] v0 by simp
    show ?thesis
    proof (rule that [of ?u])
      show "APB_SendPing s = Some ?u" using al s2(1) by (simp add: APB_SendPing_def)
      show "writer_ready ?u" by (rule same_writer_ready [OF same_writer_srv(1) s2(2)])
      show "sends s ?u" by (rule sends_trans [OF s2(3) sends_same]) simp
    qed (simp_all add: s2(4) v2)
  qed
qed

lemma send_init_ok:
  assumes "writer_ready s"
  obtains r s1 where "APB_SendInit s = Some (r, s1)" and "writer_ready s1" and "sends s s1"
    and "same_ports (rem s) (rem s1)"
    and "srv s1 = (if r then (srv s)\<lparr>srv_State := SS_WAIT_FOR_CONNECT\<rparr> else srv s)"
proof -
  obtain p s0 where al: "APB_AllocPacket (of_nat sizeof_Packet + 4) s = (p, s0)" by fastforce
  have v0: "srv s0 = srv s" by (rule steps_lower [OF alloc_packet_more [OF al]])
  note a = alloc_packet_sends [OF al]
  show thesis
  proof (cases p)
    case None
    show ?thesis
    proof (rule that [of False s0])
      show "APB_SendInit s = Some (False, s0)" using al None by (simp add: APB_SendInit_def)
      show "writer_ready s0" using a(1) assms by (simp add: sends_def)
    qed (simp_all add: v0 a assms)
  next
    case (Some q)
    let ?xs = "word_bytes AMIPIBORG_VERSION @ word_bytes (of_nat BUFFER_SIZE)"
    let ?t = "\<lambda>s. fill_packet q (pt_code PT_INIT) DEFAULT_CONNECTION ?xs (set_state SS_WAIT_FOR_CONNECT s)"
    have e: "?t s0 = set_state SS_WAIT_FOR_CONNECT (fill_packet q (pt_code PT_INIT) DEFAULT_CONNECTION ?xs s0)"
      by (cases q) (simp add: fill_packet_def set_state_def upd_srv_def write_buf_def upd_buf_def add_fault_def)
    have len: "length ?xs + sizeof_Packet = unat (of_nat sizeof_Packet + 4 :: u16)"
      by (simp add: word_bytes_def)
    note f = fill_new_sends [OF al [unfolded Some] len, of "pt_code PT_INIT" DEFAULT_CONNECTION]
    have snd: "sends s (?t s0)" unfolding e by (rule sends_trans [OF f(1) sends_same]) simp
    then have rd: "writer_ready (?t s0)" using assms by (simp add: sends_def)
    obtain s2 where s2: "APB_SrvSendToRemote (?t s0) = Some s2" using write_returns [OF rd] by blast
    show ?thesis
    proof (rule that [of True s2])
      show "APB_SendInit s = Some (True, s2)" using al Some s2 by (simp add: APB_SendInit_def)
      show "sends s s2" by (rule sends_trans [OF snd write_sends [OF s2]])
      then show "writer_ready s2" using assms by (simp add: sends_def)
      have "rem (?t s0) = rem s" unfolding e using f(2) [OF assms] by simp
      then show "same_ports (rem s) (rem s2)" using write_ports [OF s2] by simp
      show "srv s2 = (if True then (srv s)\<lparr>srv_State := SS_WAIT_FOR_CONNECT\<rparr> else srv s)"
        using steps_lower [OF send_to_remote_more [OF s2]] v0 by simp
    qed
  qed
qed

end
