(* ===== verification/Silence.thy ===== *)
theory Silence
  imports Sending
begin

text \<open>
  The server when the remote is silent: only its own timer wakes it. It gives up connecting
  after five attempts, but a connection that has gone silent is never noticed.
\<close>

section \<open>Ticks\<close>

lemma check_timeouts_same: "same_writer s (check_timeouts c rs s)"
proof (induction c rs s rule: check_timeouts.induct)
  case (2 c r rs s)
  let ?s1 = "ReplyMsg r (upd_cnn c (\<lambda>x. x\<lparr>cnn_ReqQueue := remove1 r (cnn_ReqQueue x)\<rparr>)
                   (upd_req r (\<lambda>x. x\<lparr>r_State := APB_RS_TIMEOUT\<rparr>) s))"
  let ?s2 = "if ri_TimeoutTicks (h_Req s r) > 1
        then upd_req r (\<lambda>x. x\<lparr>ri_TimeoutTicks := ri_TimeoutTicks x - 1\<rparr>) s else s"
  have a: "same_writer s ?s1" by (simp add: same_writer_def)
  have b: "same_writer s ?s2" by simp
  show ?case
  proof (cases "ri_TimeoutTicks (h_Req s r) = 1")
    case True
    then show ?thesis
      using a same_writer_trans [OF a "2.IH"(1) [OF True refl]] by (simp add: Let_def)
  next
    case False
    from same_writer_trans [OF b "2.IH"(2) [OF False]] show ?thesis
      unfolding check_timeouts.simps if_not_P [OF False] .
  qed
qed simp

lemma check_all_same: "same_writer s (check_all_timeouts cs s)"
proof (induction cs arbitrary: s)
  case (Cons c cs)
  show ?case
    using same_writer_trans [OF check_timeouts_same Cons.IH]
    by (simp add: APB_CnnCheckRequestTimeouts_def)
qed simp

text \<open>What a tick makes of the server's counters; an allocation may fail.\<close>

definition ping_next :: "server \<Rightarrow> server \<Rightarrow> bool" where
  "ping_next v w \<longleftrightarrow> (let u = ping_timeout v in
     if srv_PingSendTicks u = 1
     then w = u \<or> w = u\<lparr>srv_PingTimeoutTicks := PING_TICKS, srv_PingSendTicks := 0\<rparr>
     else if srv_PingSendTicks u > 1 then w = u\<lparr>srv_PingSendTicks := srv_PingSendTicks u - 1\<rparr>
     else w = u)"

lemma tick_connected:
  assumes r: "writer_ready s" and st: "srv_State (srv s) = SS_CONNECTED"
  shows "\<exists>s1. tick s = Some s1 \<and> writer_ready s1 \<and> same_ports (rem s) (rem s1) \<and>
    ping_next (srv s) (srv s1) \<and> sends s s1"
proof -
  let ?u = "upd_srv ping_timeout s"
  have u: "writer_ready ?u" by (rule same_writer_ready [OF same_writer_srv(1) r])
  have su: "sends s ?u" by (rule sends_same [OF same_writer_srv(1)])
  have "\<exists>t. ping_send ?u = Some t \<and> writer_ready t \<and> same_ports (rem s) (rem t) \<and>
      ping_next (srv s) (srv t) \<and> sends s t"
  proof (cases "srv_PingSendTicks (ping_timeout (srv s)) = 1")
    case True
    from send_ping_ok [OF u] obtain t where
      t: "APB_SendPing ?u = Some t" "writer_ready t" "sends ?u t" "same_ports (rem ?u) (rem t)"
        "srv t = srv ?u \<or> srv t = (srv ?u)\<lparr>srv_PingTimeoutTicks := PING_TICKS, srv_PingSendTicks := 0\<rparr>" .
    then show ?thesis using True sends_trans [OF su t(3)] by (simp add: ping_send_def ping_next_def Let_def)
  next
    case False
    let ?t = "upd_srv (\<lambda>v. v\<lparr>srv_PingSendTicks := srv_PingSendTicks v - 1\<rparr>) ?u"
    have "writer_ready ?t" by (rule same_writer_ready [OF same_writer_srv(1) u])
    moreover have "sends s ?t" by (rule sends_trans [OF su sends_same [OF same_writer_srv(1)]])
    ultimately show ?thesis using False u su by (auto simp: ping_send_def ping_next_def Let_def)
  qed
  then obtain t where t: "ping_send ?u = Some t" "writer_ready t" "same_ports (rem s) (rem t)"
    "ping_next (srv s) (srv t)" "sends s t" by blast
  have c: "same_writer t (APB_CheckRequestTimeouts t)"
    unfolding APB_CheckRequestTimeouts_def by (rule check_all_same)
  have "rem (APB_CheckRequestTimeouts t) = rem t" using c by (simp add: same_writer_def)
  then show ?thesis
    using st t same_writer_ready [OF c t(2)] sends_trans [OF t(5) sends_same [OF c]]
    by (simp add: tick_def check_all_srv)
qed

section \<open>Silent rounds\<close>

definition silent :: "wait_input \<Rightarrow> 'a server_state_scheme \<Rightarrow> bool" where
  "silent w s \<longleftrightarrow> wi_Signals w AND SIGBREAKF_CTRL_C = 0 \<and> wi_Signals w AND REM_GetSignalBits s = 0 \<and>
     wi_Signals w AND port_bit (srv_ClientPort (srv s)) = 0 \<and>
     wi_Signals w AND port_bit (srv_TimerPort (srv s)) \<noteq> 0"

text \<open>What stays as it is while the remote is silent: ports, and that no read has ended.\<close>

definition calm :: "'a server_state_scheme \<Rightarrow> 'a server_state_scheme \<Rightarrow> bool" where
  "calm s s1 \<longleftrightarrow> writer_ready s1 \<and> same_ports (rem s) (rem s1) \<and>
     srv_ClientPort (srv s1) = srv_ClientPort (srv s) \<and> srv_TimerPort (srv s1) = srv_TimerPort (srv s)"

lemma calm_trans: "calm s s1 \<Longrightarrow> calm s1 s2 \<Longrightarrow> calm s s2"
  by (simp add: calm_def same_ports_def)

lemma calm_silent: "calm s s1 \<Longrightarrow> silent w s1 = silent w s"
  by (simp add: calm_def silent_def same_ports_def REM_GetSignalBits_def)

lemma calm_read: "calm s s1 \<Longrightarrow> REM_CanRead s1 = REM_CanRead s"
  by (simp add: calm_def same_ports_def REM_CanRead_def)

lemma calm_state: "calm s s1 \<Longrightarrow> calm s (set_state st s1)"
  using same_writer_ready [OF same_writer_srv(2)] by (auto simp: calm_def)

lemma silent_signals:
  assumes "silent w s"
  shows "wi_Signals w AND wait_mask s AND SIGBREAKF_CTRL_C = 0"
    "wi_Signals w AND wait_mask s AND REM_GetSignalBits s = 0"
    "wi_Signals w AND wait_mask s AND port_bit (srv_ClientPort (srv s)) = 0"
    "wi_Signals w AND wait_mask s AND port_bit (srv_TimerPort (srv s)) \<noteq> 0"
proof -
  have a: "wi_Signals w AND wait_mask s AND x = wait_mask s AND (wi_Signals w AND x)" for x
    by (simp add: ac_simps)
  show "wi_Signals w AND wait_mask s AND SIGBREAKF_CTRL_C = 0"
    "wi_Signals w AND wait_mask s AND REM_GetSignalBits s = 0"
    "wi_Signals w AND wait_mask s AND port_bit (srv_ClientPort (srv s)) = 0"
    using assms unfolding a by (simp_all add: silent_def)
  have "wait_mask s AND port_bit (srv_TimerPort (srv s)) = port_bit (srv_TimerPort (srv s))"
    by (simp add: wait_mask_def bit_eq_iff bit_simps) blast
  then show "wi_Signals w AND wait_mask s AND port_bit (srv_TimerPort (srv s)) \<noteq> 0"
    using assms by (simp add: silent_def)
qed

lemma wait_silent:
  assumes si: "silent w s" and rd: "\<not> REM_CanRead s" and cl: "calm s s"
    and tk: "tick (arrive (wi_Requests w) s) = Some s1" "calm s s1"
  shows "\<exists>s2. APB_WaitForMessage w s = Some s2 \<and> calm s s2 \<and> srv s2 = srv s1"
proof -
  define t where "t = (if srv_State (srv s1) \<noteq> SS_DISCONNECTED then APB_EnableTimer TICK_MILLIS s1 else s1)"
  have ht: "APB_HandleTimer (arrive (wi_Requests w) s) = Some t" using tk(1) by (simp add: timer_tick t_def)
  have ct: "calm s t"
    using tk(2) same_writer_ready [OF same_writer_srv(3), of s1 TICK_MILLIS] by (auto simp: calm_def t_def)
  have vt: "srv t = srv s1" by (simp add: t_def)
  have "\<not> REM_CanRead t" using calm_read [OF ct] rd by blast
  then have rc: "APB_SrvReceiveFromRemote t = Some t" by (simp add: APB_SrvReceiveFromRemote_def)
  have rt: "writer_ready t" using ct by (simp add: calm_def)
  from write_returns [OF rt] obtain s2 where s2: "APB_SrvSendToRemote t = Some s2" by blast
  have "writer_ready s2" using write_sends [OF s2] rt by (simp add: sends_def)
  moreover have v2: "srv s2 = srv s1" using steps_lower [OF send_to_remote_more [OF s2]] vt by simp
  ultimately have "calm s s2"
    using ct write_ports [OF s2] vt by (simp add: calm_def same_ports_def)
  moreover have "APB_WaitForMessage w s = Some s2"
    using silent_signals [OF si] ht rc s2
    by (simp add: APB_WaitForMessage_def Let_def and.assoc)
  ultimately show ?thesis using v2 by blast
qed

lemma calm_arrive: "writer_ready s \<Longrightarrow> calm s (arrive reqs s)"
  using same_writer_ready [of s "arrive reqs s"]
  by (auto simp: calm_def arrive_def same_writer_def)

section \<open>Giving up\<close>

lemma round_connecting:
  assumes si: "silent (ri_Wait i) s" and rd: "\<not> REM_CanRead s" and cl: "calm s s"
    and st: "srv_State (srv s) = SS_CONNECTING"
  shows "\<exists>s1. run_step i (k, s) = Some (k, s1) \<and> calm s s1 \<and>
    (srv_State (srv s1) = SS_CONNECT_FAILED \<or> srv_State (srv s1) = SS_STOPPING)"
proof -
  have r: "writer_ready s" using cl by (simp add: calm_def)
  from send_init_ok [OF r] obtain q s0 where
    s0: "APB_SendInit s = Some (q, s0)" "writer_ready s0" "same_ports (rem s) (rem s0)"
      "srv s0 = (if q then (srv s)\<lparr>srv_State := SS_WAIT_FOR_CONNECT\<rparr> else srv s)" .
  have c0: "calm s s0" using s0 by (simp add: calm_def)
  show ?thesis
  proof (cases q)
    case False
    then show ?thesis using st s0(1) calm_state [OF c0] by (simp add: run_step_def)
  next
    case True
    let ?a = "arrive (wi_Requests (ri_Wait i)) s0"
    have a: "calm s0 ?a" by (rule calm_arrive [OF s0(2)])
    have v0: "srv_State (srv s0) = SS_WAIT_FOR_CONNECT" using s0(4) True by simp
    have tk: "tick ?a = Some (set_state SS_CONNECT_FAILED ?a)" by (simp add: tick_def v0)
    have "silent (ri_Wait i) s0" "\<not> REM_CanRead s0" using si rd calm_silent [OF c0] calm_read [OF c0] by simp_all
    moreover have "calm s0 s0" using s0(2) by (simp add: calm_def)
    ultimately obtain s2 where s2: "APB_WaitForMessage (ri_Wait i) s0 = Some s2" "calm s0 s2"
      "srv s2 = srv (set_state SS_CONNECT_FAILED ?a)"
      using wait_silent [OF _ _ _ tk calm_state [OF a]] by blast
    then show ?thesis using st s0(1) True calm_trans [OF c0 s2(2)] by (simp add: run_step_def)
  qed
qed

lemma stopping_stops:
  assumes "3 \<le> length is" and "srv_State (srv s) = SS_STOPPING"
  shows "\<exists>s1. run_rounds is (k, s) = Some (k, s1) \<and> srv_State (srv s1) = SS_STOPPED"
proof -
  from assms(1) obtain a b c js where "is": "is = a # b # c # js"
    by (metis One_nat_def Suc_le_length_iff numeral_3_eq_3)
  have stop: "run_rounds js (k, t) = Some (k, t)" if "srv_State (srv t) = SS_STOPPED"
    for t :: "'a server_state_scheme"
    using that by (cases js) simp_all
  show ?thesis using assms(2) by (simp add: "is" run_step_def stop)
qed

lemma connecting_stops:
  assumes "calm s s" and "\<not> REM_CanRead s" and "\<forall>i \<in> set is. silent (ri_Wait i) s"
    and "srv_State (srv s) = SS_CONNECTING" and "0 < unat k" and "2 * unat k + 3 \<le> length is"
  shows "\<exists>k1 s1. run_rounds is (k, s) = Some (k1, s1) \<and> srv_State (srv s1) = SS_STOPPED"
  using assms
proof (induction "unat k" arbitrary: k s "is")
  case (Suc n)
  from Suc.prems(6) obtain i1 i2 js where "is": "is = i1 # i2 # js"
    by (cases "is"; cases "tl is") auto
  have si: "silent (ri_Wait i1) s" using Suc.prems(3) by (simp add: "is")
  from round_connecting [OF si Suc.prems(2,1,4)] obtain s1 where
    s1: "run_step i1 (k, s) = Some (k, s1)" "calm s s1"
      "srv_State (srv s1) = SS_CONNECT_FAILED \<or> srv_State (srv s1) = SS_STOPPING" by blast
  have one: "run_rounds is (k, s) = run_rounds (i2 # js) (k, s1)"
    using s1(1) Suc.prems(4) by (simp add: "is")
  show ?case
  proof (cases "srv_State (srv s1) = SS_STOPPING")
    case True
    have "3 \<le> length (i2 # js)" using Suc.prems(5,6) by (simp add: "is")
    from stopping_stops [OF this True] show ?thesis unfolding one by blast
  next
    case False
    then have f: "srv_State (srv s1) = SS_CONNECT_FAILED" using s1(3) by simp
    let ?s2 = "set_state (if k - 1 = 0 then SS_STOPPING else SS_CONNECTING) s1"
    have two: "run_rounds is (k, s) = run_rounds js (k - 1, ?s2)"
      unfolding one using f by (simp add: run_step_def)
    have k1: "unat (k - 1) = unat k - 1" using Suc.prems(5) by (rule unat_pred_u16)
    show ?thesis
    proof (cases "k - 1 = 0")
      case True
      have "3 \<le> length js" using Suc.prems(5,6) by (simp add: "is")
      from stopping_stops [OF this, of ?s2 "k - 1"] show ?thesis unfolding two using True by auto
    next
      case False
      have c2: "calm s ?s2" by (rule calm_state [OF s1(2)])
      have "0 < unat (k - 1)" using False by (simp add: unat_gt_0)
      moreover have "n = unat (k - 1)" using Suc.hyps(2) k1 by simp
      moreover have "calm ?s2 ?s2" using c2 by (simp add: calm_def)
      moreover have "\<not> REM_CanRead ?s2" using calm_read [OF c2] Suc.prems(2) by simp
      moreover have "\<forall>i \<in> set js. silent (ri_Wait i) ?s2"
        using Suc.prems(3) calm_silent [OF c2] by (simp add: "is")
      moreover have "2 * unat (k - 1) + 3 \<le> length js" using Suc.prems(5,6) k1 by (simp add: "is")
      ultimately show ?thesis unfolding two using False by (intro Suc.hyps(1)) simp_all
    qed
  qed
qed simp

section \<open>A silent connection\<close>

definition quiet_inv :: "server \<Rightarrow> bool" where
  "quiet_inv v \<longleftrightarrow> srv_State v = SS_CONNECTED \<and> (srv_PingTimeoutTicks v = 0 \<or> srv_PingSendTicks v = 0) \<and>
     unat (srv_MissedPingCount v) +
       (if srv_PingTimeoutTicks v = 0 \<and> srv_PingSendTicks v = 0 then 0 else 1) \<le> 5"

lemma ping_timeout_quiet: "quiet_inv v \<Longrightarrow> quiet_inv (ping_timeout v)"
proof -
  assume q: "quiet_inv v"
  show ?thesis
  proof (cases "srv_PingTimeoutTicks v = 1")
    case True
    then have m: "unat (srv_MissedPingCount v) + 1 \<le> 5" "srv_PingSendTicks v = 0"
      using q by (auto simp: quiet_inv_def)
    then have "unat (srv_MissedPingCount v + 1) = unat (srv_MissedPingCount v) + 1"
      by (subst unat_Suc_u16) simp_all
    then show ?thesis
      using True q m by (simp add: ping_timeout_def quiet_inv_def Let_def MAX_MISSED_PINGS_def word_less_nat_alt)
  next
    case False
    then show ?thesis using q by (auto simp: ping_timeout_def quiet_inv_def split: if_splits)
  qed
qed

lemma ping_next_quiet:
  assumes "quiet_inv v" and "ping_next v w"
  shows "quiet_inv w"
  using ping_timeout_quiet [OF assms(1)] assms(2)
  by (auto simp: ping_next_def quiet_inv_def Let_def split: if_splits)

lemma round_quiet:
  assumes si: "silent (ri_Wait i) s" and rd: "\<not> REM_CanRead s" and cl: "calm s s" and q: "quiet_inv (srv s)"
  shows "\<exists>s1. run_step i (k, s) = Some (k, s1) \<and> calm s s1 \<and> quiet_inv (srv s1)"
proof -
  let ?a = "arrive (wi_Requests (ri_Wait i)) s"
  have st: "srv_State (srv s) = SS_CONNECTED" using q by (simp add: quiet_inv_def)
  have a: "calm s ?a" by (rule calm_arrive) (use cl in \<open>simp add: calm_def\<close>)
  have ra: "writer_ready ?a" "srv_State (srv ?a) = SS_CONNECTED" using a st by (simp_all add: calm_def)
  from tick_connected [OF this] obtain s1 where
    s1: "tick ?a = Some s1" "writer_ready s1" "same_ports (rem ?a) (rem s1)" "ping_next (srv ?a) (srv s1)"
    by blast
  have pn: "srv_ClientPort w = srv_ClientPort v \<and> srv_TimerPort w = srv_TimerPort v" if "ping_next v w" for v w
    using that by (auto simp: ping_next_def ping_timeout_def Let_def split: if_splits)
  have c1: "calm s s1" using s1 a pn [OF s1(4)] by (simp add: calm_def same_ports_def)
  from wait_silent [OF si rd cl s1(1) c1] obtain s2 where
    s2: "APB_WaitForMessage (ri_Wait i) s = Some s2" "calm s s2" "srv s2 = srv s1" by blast
  have "quiet_inv (srv s2)" using ping_next_quiet [of "srv s" "srv s1"] q s1(4) s2(3) by simp
  then show ?thesis using s2 st by (simp add: run_step_def)
qed

lemma rounds_quiet:
  assumes "calm s s" and "\<not> REM_CanRead s" and "\<forall>i \<in> set is. silent (ri_Wait i) s" and "quiet_inv (srv s)"
  shows "\<exists>s1. run_rounds is (k, s) = Some (k, s1) \<and> quiet_inv (srv s1)"
  using assms
proof (induction "is" arbitrary: s)
  case (Cons i "is")
  have si: "silent (ri_Wait i) s" using Cons.prems(3) by simp
  from round_quiet [OF si Cons.prems(2,1,4)] obtain s1 where
    s1: "run_step i (k, s) = Some (k, s1)" "calm s s1" "quiet_inv (srv s1)" by blast
  have "srv_State (srv s) \<noteq> SS_STOPPED" using Cons.prems(4) by (simp add: quiet_inv_def)
  then have "run_rounds (i # is) (k, s) = run_rounds is (k, s1)" using s1(1) by simp
  moreover have "calm s1 s1" "\<not> REM_CanRead s1" "\<forall>i \<in> set is. silent (ri_Wait i) s1"
    using s1(2) Cons.prems(2,3) calm_read [OF s1(2)] calm_silent [OF s1(2)] by (simp_all add: calm_def)
  ultimately show ?case using Cons.IH [of s1] s1(3) by simp
qed simp

end
