(* ===== verification/ConnectionProps.thy ===== *)
theory ConnectionProps
  imports Silence
begin

text \<open>
  What a connection promises its client: packets go to requests in order, requests time out,
  and what a client writes goes into a packet of its own or fails.
\<close>

section \<open>Delivery\<close>

text \<open>
  The specification: requests with the size of their buffers on one side, packets on the other.
  The oldest request gets the oldest packet; one that is too small is told the size and the
  packet waits for the next.
\<close>

datatype reply = Delivered "u8 list" | Too_Small nat

fun deliver :: "(addr \<times> nat) list \<Rightarrow> u8 list list \<Rightarrow>
    (addr \<times> reply) list \<times> (addr \<times> nat) list \<times> u8 list list" where
  "deliver [] ps = ([], [], ps)"
| "deliver (r # rs) [] = ([], r # rs, [])"
| "deliver ((r, n) # rs) (p # ps) =
     (if n < length p
      then let (out, rs1, ps1) = deliver rs (p # ps) in ((r, Too_Small (length p)) # out, rs1, ps1)
      else let (out, rs1, ps1) = deliver rs ps in ((r, Delivered p) # out, rs1, ps1))"

definition req_queue :: "addr \<Rightarrow> 'a cnn_state_scheme \<Rightarrow> (addr \<times> nat) list" where
  "req_queue c s = map (\<lambda>r. (r, unat (r_Length (h_Req s r)))) (cnn_ReqQueue (h_Cnn s c))"

definition pac_queue :: "addr \<Rightarrow> 'a cnn_state_scheme \<Rightarrow> u8 list list" where
  "pac_queue c s = map (\<lambda>ip. wp_Data (packet_of s ip)) (cnn_PacketQueue (h_Cnn s c))"

definition reply_of :: "request \<Rightarrow> reply" where
  "reply_of x = (if r_State x = APB_RS_BUFFER_TOO_SMALL then Too_Small (unat (r_Actual x))
     else Delivered (bytes_of (r_Data x) 0 (unat (r_Actual x))))"

text \<open>The packets a reader queues: their data is there and fits a buffer.\<close>

definition pacs_ok :: "addr \<Rightarrow> 'a cnn_state_scheme \<Rightarrow> bool" where
  "pacs_ok c s \<longleftrightarrow> (\<forall>ip \<in> set (cnn_PacketQueue (h_Cnn s c)). pac_in s ip \<and>
     unat (ip_Data1Length (h_InPac s ip)) + unat (ip_Data2Length (h_InPac s ip)) \<le> BUFFER_SIZE)"

lemma packet_of_cong: "h_InPac s1 = h_InPac s \<Longrightarrow> h_Buf s1 = h_Buf s \<Longrightarrow> packet_of s1 ip = packet_of s ip"
  using ptr_bytes_cong [of s1 s] by (simp add: packet_of_def)

lemma push_one_facts:
  assumes q: "cnn_ReqQueue (h_Cnn s c) = r # rs" and p: "cnn_PacketQueue (h_Cnn s c) = ip # ips"
    and ok: "pacs_ok c s"
  defines "d \<equiv> wp_Data (packet_of s ip)" and "n \<equiv> unat (r_Length (h_Req s r))"
  shows "h_InPac (push_one c r ip s) = h_InPac s" "h_Buf (push_one c r ip s) = h_Buf s"
    "cnn_State (h_Cnn (push_one c r ip s) c) = cnn_State (h_Cnn s c)"
    "cnn_ReqQueue (h_Cnn (push_one c r ip s) c) = rs"
    "cnn_PacketQueue (h_Cnn (push_one c r ip s) c) = (if n < length d then ip # ips else ips)"
    "r_Length (h_Req (push_one c r ip s) a) = r_Length (h_Req s a)"
    "\<exists>x. replies (push_one c r ip s) = replies s @ [(r, x)] \<and>
       reply_of x = (if n < length d then Too_Small (length d) else Delivered d)"
proof -
  let ?x = "h_InPac s ip"
  let ?len = "ip_Data1Length ?x + ip_Data2Length ?x"
  have pin: "pac_in s ip" and small: "unat (ip_Data1Length ?x) + unat (ip_Data2Length ?x) \<le> 4096"
    using ok p by (simp_all add: pacs_ok_def BUFFER_SIZE_def)
  have len: "unat ?len = length d"
    using small by (subst unat_add_u16_small) (simp_all add: d_def packet_of_def Let_def ptr_bytes_def)
  have lt: "r_Length (h_Req s r) < ?len \<longleftrightarrow> n < length d" by (simp add: word_less_nat_alt len n_def)
  show "h_InPac (push_one c r ip s) = h_InPac s" "h_Buf (push_one c r ip s) = h_Buf s"
    "cnn_State (h_Cnn (push_one c r ip s) c) = cnn_State (h_Cnn s c)"
    "cnn_ReqQueue (h_Cnn (push_one c r ip s) c) = rs"
    "cnn_PacketQueue (h_Cnn (push_one c r ip s) c) = (if n < length d then ip # ips else ips)"
    "r_Length (h_Req (push_one c r ip s) a) = r_Length (h_Req s a)"
    using q p lt by (simp_all add: push_one_def Let_def)
  show "\<exists>x. replies (push_one c r ip s) = replies s @ [(r, x)] \<and>
       reply_of x = (if n < length d then Too_Small (length d) else Delivered d)"
  proof (cases "n < length d")
    case True
    then show ?thesis using lt len by (simp add: push_one_def Let_def reply_of_def RS_defs)
  next
    case False
    define t where "t = upd_req r (\<lambda>x. x\<lparr>r_Actual := ?len\<rparr>) (upd_cnn c (\<lambda>x. x\<lparr>cnn_ReqQueue := tl (cnn_ReqQueue x),
      cnn_PacketQueue := tl (cnn_PacketQueue x)\<rparr>) s)"
    have e: "h_InPac t = h_InPac s" "h_Buf t = h_Buf s" by (simp_all add: t_def)
    have "pac_in t ip" using pin pac_in_cong [of t s ip] e by simp
    note b = in_packet_bytes(1) [OF this, of "r_Data (h_Req s r)"]
    have "bytes_of (fst (APB_InPacketToBuffer ip t (r_Data (h_Req s r)))) 0 (unat ?len) = d"
      using b len packet_of_cong [OF e, of ip] by (simp add: d_def)
    then show ?thesis
      using False lt unfolding t_def by (simp add: push_one_def Let_def reply_of_def RS_defs)
  qed
qed

lemma push_loop_delivers:
  assumes "cnn_ReqQueue (h_Cnn s c) = rs" and "pacs_ok c s" and "deliver (req_queue c s) (pac_queue c s) = (out, rq, pq)"
  shows "\<exists>new. replies (push_loop c rs s) = replies s @ new \<and> map (\<lambda>(r, x). (r, reply_of x)) new = out \<and>
    req_queue c (push_loop c rs s) = rq \<and> pac_queue c (push_loop c rs s) = pq"
  using assms
proof (induction rs arbitrary: s out)
  case Nil
  then show ?case by (simp add: req_queue_def)
next
  case (Cons r rs)
  show ?case
  proof (cases "cnn_PacketQueue (h_Cnn s c)")
    case Nil
    then have "pac_queue c s = []" by (simp add: pac_queue_def)
    then show ?thesis using Cons.prems Nil by (auto simp: req_queue_def)
  next
    case (Cons ip ips)
    let ?s = "push_one c r ip s" and ?d = "wp_Data (packet_of s ip)" and ?n = "unat (r_Length (h_Req s r))"
    note f = push_one_facts [OF Cons.prems(1) Cons Cons.prems(2)]
    have pk: "packet_of ?s a = packet_of s a" for a by (rule packet_of_cong [OF f(1,2)])
    have rq: "req_queue c ?s = map (\<lambda>r. (r, unat (r_Length (h_Req s r)))) rs"
      by (simp add: req_queue_def f(4,6))
    have pq: "pac_queue c ?s = (if ?n < length ?d then pac_queue c s else tl (pac_queue c s))"
      by (simp add: pac_queue_def f(5) pk Cons)
    have ok: "pacs_ok c ?s"
      using Cons.prems(2) Cons pac_in_cong [of ?s s] f(1,2) by (auto simp: pacs_ok_def f(5))
    obtain x where x: "replies ?s = replies s @ [(r, x)]"
      "reply_of x = (if ?n < length ?d then Too_Small (length ?d) else Delivered ?d)" using f(7) by blast
    have dl: "deliver ((r, ?n) # req_queue c ?s) (?d # tl (pac_queue c s)) = (out, rq, pq)"
      using Cons.prems(1,3) Cons by (simp add: req_queue_def pac_queue_def f(4,6))
    have pq': "pac_queue c ?s = (if ?n < length ?d then ?d # tl (pac_queue c s) else tl (pac_queue c s))"
      unfolding pq using Cons by (simp add: pac_queue_def)
    obtain out1 where o1: "deliver (req_queue c ?s) (pac_queue c ?s) = (out1, rq, pq)"
      and o: "out = (r, reply_of x) # out1"
    proof (cases "?n < length ?d")
      case True
      obtain o1 q1 p1 where "deliver (req_queue c ?s) (?d # tl (pac_queue c s)) = (o1, q1, p1)"
        by (cases "deliver (req_queue c ?s) (?d # tl (pac_queue c s))") auto
      then show ?thesis using True dl x(2) by (intro that [of o1]) (simp_all add: pq')
    next
      case False
      obtain o1 q1 p1 where "deliver (req_queue c ?s) (tl (pac_queue c s)) = (o1, q1, p1)"
        by (cases "deliver (req_queue c ?s) (tl (pac_queue c s))") auto
      then show ?thesis using False dl x(2) by (intro that [of o1]) (simp_all add: pq')
    qed
    from Cons.IH [OF f(4) ok o1] obtain new where
      n: "replies (push_loop c rs ?s) = replies ?s @ new" "map (\<lambda>(r, x). (r, reply_of x)) new = out1"
        "req_queue c (push_loop c rs ?s) = rq" "pac_queue c (push_loop c rs ?s) = pq" by blast
    have l: "push_loop c (r # rs) s = push_loop c rs ?s" using Cons by simp
    show ?thesis unfolding l using n x(1) o by (intro exI [of _ "(r, x) # new"]) simp
  qed
qed

section \<open>Timeouts\<close>

lemma check_timeouts_skip:
  assumes "\<forall>p \<in> set pre. ri_TimeoutTicks (h_Req s p) = 0"
  shows "check_timeouts c (pre @ rs) s = check_timeouts c rs s"
  using assms by (induction pre) simp_all

text \<open>A timeout pass changes requests of the list only, and only removes requests from the queue.\<close>

lemma check_timeouts_other:
  "r \<notin> set rs \<Longrightarrow> h_Req (check_timeouts c rs s) r = h_Req s r \<and>
     (r \<in> set (cnn_ReqQueue (h_Cnn s c)) \<longrightarrow> r \<in> set (cnn_ReqQueue (h_Cnn (check_timeouts c rs s) c)))"
proof (induction rs arbitrary: s)
  case (Cons p rs)
  let ?s1 = "ReplyMsg p (upd_cnn c (\<lambda>x. x\<lparr>cnn_ReqQueue := remove1 p (cnn_ReqQueue x)\<rparr>)
                   (upd_req p (\<lambda>x. x\<lparr>r_State := APB_RS_TIMEOUT\<rparr>) s))"
  let ?s2 = "if ri_TimeoutTicks (h_Req s p) > 1
        then upd_req p (\<lambda>x. x\<lparr>ri_TimeoutTicks := ri_TimeoutTicks x - 1\<rparr>) s else s"
  have a: "h_Req ?s1 r = h_Req s r" "r \<in> set (cnn_ReqQueue (h_Cnn s c)) \<longrightarrow> r \<in> set (cnn_ReqQueue (h_Cnn ?s1 c))"
    using Cons.prems by (simp_all add: in_set_remove1)
  have b: "h_Req ?s2 r = h_Req s r" "cnn_ReqQueue (h_Cnn ?s2 c) = cnn_ReqQueue (h_Cnn s c)"
    using Cons.prems by simp_all
  have r: "r \<notin> set rs" using Cons.prems by simp
  show ?case
  proof (cases "ri_TimeoutTicks (h_Req s p) = 1")
    case True
    then show ?thesis using a Cons.IH [OF r, of ?s1] by (simp add: Let_def)
  next
    case False
    then have e: "check_timeouts c (p # rs) s = check_timeouts c rs ?s2"
      unfolding check_timeouts.simps by (rule if_not_P)
    show ?thesis unfolding e using b Cons.IH [OF r, of ?s2] by auto
  qed
qed simp

lemma check_timeouts_replies: "\<exists>new. replies (check_timeouts c rs s) = replies s @ new"
proof (induction c rs s rule: check_timeouts.induct)
  case (2 c r rs s)
  show ?case
  proof (cases "ri_TimeoutTicks (h_Req s r) = 1")
    case True
    then show ?thesis using "2.IH"(1) [OF True refl] by (auto simp: Let_def)
  next
    case False
    then have e: "check_timeouts c (r # rs) s = check_timeouts c rs
        (if ri_TimeoutTicks (h_Req s r) > 1
         then upd_req r (\<lambda>x. x\<lparr>ri_TimeoutTicks := ri_TimeoutTicks x - 1\<rparr>) s else s)"
      unfolding check_timeouts.simps by (rule if_not_P)
    show ?thesis unfolding e using "2.IH"(2) [OF False] by (auto split: if_splits)
  qed
qed simp

text \<open>The next request of the queue with a timeout: those before it wait for ever.\<close>

definition next_timed :: "addr \<Rightarrow> addr \<Rightarrow> 'a cnn_state_scheme \<Rightarrow> bool" where
  "next_timed c r s \<longleftrightarrow> (\<exists>pre post. cnn_ReqQueue (h_Cnn s c) = pre @ r # post \<and> r \<notin> set pre \<and>
     r \<notin> set post \<and> (\<forall>p \<in> set pre. p \<notin> set post \<and> ri_TimeoutTicks (h_Req s p) = 0))"

lemma check_timeouts_queue:
  assumes "cnn_ReqQueue (h_Cnn s c) = front @ post" and "set rs \<inter> set front = {}"
  shows "\<exists>post1. cnn_ReqQueue (h_Cnn (check_timeouts c rs s) c) = front @ post1 \<and> set post1 \<subseteq> set post"
  using assms
proof (induction rs arbitrary: s post)
  case (Cons p rs)
  have p: "p \<notin> set front" and rs: "set rs \<inter> set front = {}" using Cons.prems(2) by auto
  show ?case
  proof (cases "ri_TimeoutTicks (h_Req s p) = 1")
    case True
    let ?s1 = "ReplyMsg p (upd_cnn c (\<lambda>x. x\<lparr>cnn_ReqQueue := remove1 p (cnn_ReqQueue x)\<rparr>)
                     (upd_req p (\<lambda>x. x\<lparr>r_State := APB_RS_TIMEOUT\<rparr>) s))"
    have q: "cnn_ReqQueue (h_Cnn ?s1 c) = front @ remove1 p post"
      using Cons.prems(1) p by (simp add: remove1_append)
    have sub: "set (remove1 p post) \<subseteq> set post" by (rule set_remove1_subset)
    from Cons.IH [OF q rs] q sub True show ?thesis by (auto simp: Let_def)
  next
    case False
    let ?s2 = "if ri_TimeoutTicks (h_Req s p) > 1
        then upd_req p (\<lambda>x. x\<lparr>ri_TimeoutTicks := ri_TimeoutTicks x - 1\<rparr>) s else s"
    from False have e: "check_timeouts c (p # rs) s = check_timeouts c rs ?s2"
      unfolding check_timeouts.simps by (rule if_not_P)
    have "cnn_ReqQueue (h_Cnn ?s2 c) = front @ post" using Cons.prems(1) by simp
    from Cons.IH [OF this rs] show ?thesis unfolding e .
  qed
qed simp

lemma pass_waits:
  assumes n: "next_timed c r s" and t: "ri_TimeoutTicks (h_Req s r) > 1"
  shows "next_timed c r (APB_CnnCheckRequestTimeouts c s)"
    and "unat (ri_TimeoutTicks (h_Req (APB_CnnCheckRequestTimeouts c s) r)) = unat (ri_TimeoutTicks (h_Req s r)) - 1"
proof -
  from n obtain pre post where q: "cnn_ReqQueue (h_Cnn s c) = pre @ r # post" and
    d: "r \<notin> set pre" "r \<notin> set post" "\<forall>p \<in> set pre. p \<notin> set post \<and> ri_TimeoutTicks (h_Req s p) = 0"
    by (auto simp: next_timed_def)
  let ?s2 = "upd_req r (\<lambda>x. x\<lparr>ri_TimeoutTicks := ri_TimeoutTicks x - 1\<rparr>) s"
  let ?f = "check_timeouts c post ?s2"
  have ne: "ri_TimeoutTicks (h_Req s r) \<noteq> 1" using t by auto
  have e: "APB_CnnCheckRequestTimeouts c s = ?f"
    unfolding APB_CnnCheckRequestTimeouts_def q
    using d(3) ne t by (subst check_timeouts_skip) simp_all
  have "cnn_ReqQueue (h_Cnn ?s2 c) = (pre @ [r]) @ post" using q by simp
  from check_timeouts_queue [OF this, of post] d obtain post1 where
    q1: "cnn_ReqQueue (h_Cnn ?f c) = pre @ r # post1" "set post1 \<subseteq> set post" by auto
  have o: "h_Req ?f a = h_Req ?s2 a" if "a = r \<or> a \<in> set pre" for a
    using that check_timeouts_other [of a post c ?s2] d by auto
  have "\<forall>p \<in> set pre. p \<notin> set post1 \<and> ri_TimeoutTicks (h_Req ?f p) = 0"
    using o d q1(2) by auto
  then show "next_timed c r (APB_CnnCheckRequestTimeouts c s)"
    unfolding e next_timed_def using q1 d by blast
  have "0 < unat (ri_TimeoutTicks (h_Req s r))" using t by (simp add: word_less_nat_alt)
  then show "unat (ri_TimeoutTicks (h_Req (APB_CnnCheckRequestTimeouts c s) r)) =
      unat (ri_TimeoutTicks (h_Req s r)) - 1"
    unfolding e using o [of r] unat_pred_u16 by simp
qed

lemma pass_answers:
  assumes n: "next_timed c r s" and t: "ri_TimeoutTicks (h_Req s r) = 1"
  shows "\<exists>x new. replies (APB_CnnCheckRequestTimeouts c s) = replies s @ (r, x) # new \<and>
    r_State x = APB_RS_TIMEOUT"
proof -
  from n obtain pre post where q: "cnn_ReqQueue (h_Cnn s c) = pre @ r # post" and
    d: "\<forall>p \<in> set pre. ri_TimeoutTicks (h_Req s p) = 0"
    by (auto simp: next_timed_def)
  let ?s1 = "ReplyMsg r (upd_cnn c (\<lambda>x. x\<lparr>cnn_ReqQueue := remove1 r (cnn_ReqQueue x)\<rparr>)
                   (upd_req r (\<lambda>x. x\<lparr>r_State := APB_RS_TIMEOUT\<rparr>) s))"
  have e: "APB_CnnCheckRequestTimeouts c s =
      (if r_ReplyPort (h_Req s r) then ?s1 else check_timeouts c post ?s1)"
    unfolding APB_CnnCheckRequestTimeouts_def q check_timeouts_skip [OF d] using t by (simp add: Let_def)
  have s1: "replies ?s1 = replies s @ [(r, (h_Req s r)\<lparr>r_State := APB_RS_TIMEOUT\<rparr>)]" by simp
  obtain new where "replies (check_timeouts c post ?s1) = replies ?s1 @ new"
    using check_timeouts_replies by blast
  then show ?thesis unfolding e s1 by (cases "r_ReplyPort (h_Req s r)") (auto simp: s1)
qed

lemma passes_wait:
  assumes "next_timed c r s" and "n < unat (ri_TimeoutTicks (h_Req s r))"
  shows "next_timed c r ((APB_CnnCheckRequestTimeouts c ^^ n) s)"
    and "unat (ri_TimeoutTicks (h_Req ((APB_CnnCheckRequestTimeouts c ^^ n) s) r)) =
      unat (ri_TimeoutTicks (h_Req s r)) - n"
proof -
  have "next_timed c r ((APB_CnnCheckRequestTimeouts c ^^ n) s) \<and>
    unat (ri_TimeoutTicks (h_Req ((APB_CnnCheckRequestTimeouts c ^^ n) s) r)) =
      unat (ri_TimeoutTicks (h_Req s r)) - n"
    using assms(2)
  proof (induction n)
    case (Suc n)
    let ?t = "(APB_CnnCheckRequestTimeouts c ^^ n) s"
    have i: "next_timed c r ?t" "unat (ri_TimeoutTicks (h_Req ?t r)) = unat (ri_TimeoutTicks (h_Req s r)) - n"
      using Suc by auto
    have "ri_TimeoutTicks (h_Req ?t r) > 1" using i(2) Suc.prems by (simp add: word_less_nat_alt)
    from pass_waits [OF i(1) this] i(2) show ?case by simp
  qed (simp add: assms(1))
  then show "next_timed c r ((APB_CnnCheckRequestTimeouts c ^^ n) s)"
    and "unat (ri_TimeoutTicks (h_Req ((APB_CnnCheckRequestTimeouts c ^^ n) s) r)) =
      unat (ri_TimeoutTicks (h_Req s r)) - n" by blast+
qed

lemma passes_replies:
  "\<exists>new. replies ((APB_CnnCheckRequestTimeouts c ^^ n) s) = replies s @ new"
proof (induction n)
  case (Suc n)
  let ?t = "(APB_CnnCheckRequestTimeouts c ^^ n) s"
  obtain new where "replies ?t = replies s @ new" using Suc by blast
  moreover obtain new2 where "replies (APB_CnnCheckRequestTimeouts c ?t) = replies ?t @ new2"
    using check_timeouts_replies unfolding APB_CnnCheckRequestTimeouts_def by blast
  ultimately show ?case by simp
qed simp

section \<open>Writing\<close>

lemma mailbox_upd_req [simp]: "mailbox (upd_req r f s) = mailbox s"
  by (simp add: mailbox_def outbox_def packs_def packet_value_def upd_req_def)

lemma push_to_remote_cases:
  fixes s :: "'a cnn_state_scheme" and c r :: addr
  assumes rd: "writer_ready s"
  defines "s1 \<equiv> APB_PushToRemote c r s" and "n \<equiv> unat (r_Length (h_Req s r))"
  shows "sends s s1"
    and "r_State (h_Req s1 r) = APB_RS_FAILED \<and> mailbox s1 = mailbox s \<or>
      r_State (h_Req s1 r) = APB_RS_OK \<and> r_Actual (h_Req s1 r) = r_Length (h_Req s r) \<and>
      n + sizeof_Packet \<le> BUFFER_SIZE \<and> mailbox s1 = mailbox s @ [letter (pt_code PT_DATA)
        (cnn_Id (h_Cnn s c)) (pw_NextPackId (pw s)) (bytes_of (r_Data (h_Req s r)) 0 n)]"
proof -
  let ?len = "of_nat sizeof_Packet + r_Length (h_Req s r) :: u16"
  obtain p s0 where al: "APB_AllocPacket ?len s = (p, s0)" by fastforce
  have m: "h_Req s0 = h_Req s" by (rule alloc_packet_cnn(2) [OF al])
  let ?done = "r_State (h_Req s1 r) = APB_RS_FAILED \<and> mailbox s1 = mailbox s \<or>
      r_State (h_Req s1 r) = APB_RS_OK \<and> r_Actual (h_Req s1 r) = r_Length (h_Req s r) \<and>
      n + sizeof_Packet \<le> BUFFER_SIZE \<and> mailbox s1 = mailbox s @ [letter (pt_code PT_DATA)
        (cnn_Id (h_Cnn s c)) (pw_NextPackId (pw s)) (bytes_of (r_Data (h_Req s r)) 0 n)]"
  from rd obtain H where inv: "writer_inv H [] s" by (auto simp: writer_ready_def)
  have both: "sends s s1 \<and> ?done"
  proof (cases p)
    case None
    have "s1 = upd_req r (\<lambda>x. x\<lparr>r_State := APB_RS_FAILED\<rparr>) s0"
      using al None by (simp add: s1_def APB_PushToRemote_def)
    then show ?thesis
      using sends_trans [OF alloc_packet_sends(1) [OF al] sends_same [OF same_writer_cnn(2)]]
        alloc_none_mailbox [OF inv al [unfolded None]] by simp
  next
    case (Some q)
    let ?t = "fill_packet q (pt_code PT_DATA) (cnn_Id (h_Cnn s0 c)) (bytes_of (r_Data (h_Req s r)) 0 n) s0"
    have e: "s1 = upd_req r (\<lambda>x. x\<lparr>r_State := APB_RS_OK, r_Actual := r_Length x\<rparr>) ?t"
      using al Some m by (simp add: s1_def APB_PushToRemote_def n_def)
    from APB_AllocPacket_ok [OF inv al] have "sizeof_Packet \<le> unat ?len \<and> unat ?len \<le> BUFFER_SIZE"
      unfolding Some by (cases q) (auto simp: packet_got_def)
    then have b: "sizeof_Packet \<le> unat ?len" "unat ?len \<le> BUFFER_SIZE" by blast+
    have "n + sizeof_Packet < 65536"
    proof (rule ccontr)
      assume "\<not> n + sizeof_Packet < 65536"
      then have ge: "65522 \<le> n" by linarith
      have lt: "n < 65536" unfolding n_def by (rule unat_u16_less)
      have "unat (of_nat sizeof_Packet :: u16) = 14" by simp
      then have "unat ?len = (n + 14) mod 65536" unfolding unat_add_u16 n_def by (simp only: add.commute)
      also have "\<dots> = (n + 14 - 65536) mod 65536" by (rule le_mod_geq) (use ge in linarith)
      also have "\<dots> = n + 14 - 65536" by (rule mod_less) (use lt in linarith)
      finally have "unat ?len < 14" using lt by linarith
      then show False using b(1) by simp
    qed
    then have len: "unat ?len = n + sizeof_Packet"
      by (subst unat_add_u16_small) (simp_all add: n_def)
    have "length (bytes_of (r_Data (h_Req s r)) 0 n) + sizeof_Packet = unat ?len" unfolding len by simp
    from fill_new_sends(1) [OF al [unfolded Some] this] have "sends s ?t" .
    then have "sends s s1" unfolding e by (rule sends_trans [OF _ sends_same [OF same_writer_cnn(2)]])
    moreover have "n + sizeof_Packet \<le> BUFFER_SIZE" using b(2) unfolding len .
    moreover have "unat ?len = sizeof_Packet + length (bytes_of (r_Data (h_Req s r)) 0 n)" using len by simp
    from send_letter(4) [OF inv al [unfolded Some] this]
    have "mailbox s1 = mailbox s @ [letter (pt_code PT_DATA) (cnn_Id (h_Cnn s c)) (pw_NextPackId (pw s))
        (bytes_of (r_Data (h_Req s r)) 0 n)]"
      using alloc_packet_cnn(1) [OF al] by (simp add: e)
    ultimately show ?thesis by (simp add: e m)
  qed
  then show "sends s s1" and ?done by blast+
qed

section \<open>Requests and the writer\<close>

text \<open>No packet waits for this connection, so no buffer of the reader is given back.\<close>

definition no_packets :: "'a cnn_state_scheme \<Rightarrow> bool" where
  "no_packets s \<longleftrightarrow> (\<forall>c \<in> set (cnns s). cnn_PacketQueue (h_Cnn s c) = [])"

lemma connect_sends: "sends s (APB_CnnConnect c s)"
proof -
  obtain p s0 where al: "APB_AllocPacket (of_nat sizeof_Packet + 2) s = (p, s0)" by fastforce
  show ?thesis
  proof (cases p)
    case None
    then show ?thesis using al alloc_packet_sends(1) [OF al] by (simp add: APB_CnnConnect_def)
  next
    case (Some q)
    let ?xs = "word_bytes (cnn_HandlerId (h_Cnn s0 c))"
    have "length ?xs + sizeof_Packet = unat (of_nat sizeof_Packet + 2 :: u16)" by (simp add: word_bytes_def)
    from fill_new_sends(1) [OF al [unfolded Some] this]
    have "sends s (fill_packet q (pt_code PT_CONNECT) (cnn_Id (h_Cnn s0 c)) ?xs s0)" .
    from sends_trans [OF this sends_same [OF same_writer_cnn(1)]] show ?thesis
      using al Some by (simp add: APB_CnnConnect_def)
  qed
qed

lemma disconnect_sends: "sends s (APB_CnnDisconnect c s)"
proof -
  obtain p s0 where al: "APB_AllocPacket (of_nat sizeof_Packet) s = (p, s0)" by fastforce
  show ?thesis
  proof (cases p)
    case None
    then show ?thesis using al alloc_packet_sends(1) [OF al] by (simp add: APB_CnnDisconnect_def)
  next
    case (Some q)
    have "length ([] :: u8 list) + sizeof_Packet = unat (of_nat sizeof_Packet :: u16)" by simp
    from fill_new_sends(1) [OF al [unfolded Some] this]
    have "sends s (fill_packet q (pt_code PT_DISCONNECT) (cnn_Id (h_Cnn s0 c)) [] s0)" .
    from sends_trans [OF this sends_same [OF same_writer_cnn(1)]] show ?thesis
      using al Some by (simp add: APB_CnnDisconnect_def)
  qed
qed

lemma push_to_remote_sends: "sends s (APB_PushToRemote c r s)"
  using push_to_remote_cases(1) [of s c r] by (auto simp: sends_def)

lemma push_client_none:
  assumes "cnn_PacketQueue (h_Cnn s c) = []"
  shows "APB_PushToClient c s = s"
  using assms by (cases "cnn_ReqQueue (h_Cnn s c)") (simp_all add: APB_PushToClient_def)

lemma client_request_sends:
  fixes s :: "'a cnn_state_scheme"
  assumes "cnn_PacketQueue (h_Cnn s c) = []"
  shows "sends s (APB_HandleClientRequest c r s)"
    and "cnn_PacketQueue (h_Cnn (APB_HandleClientRequest c r s) d) = cnn_PacketQueue (h_Cnn s d)"
proof -
  let ?f = "\<lambda>x. x\<lparr>r_State := APB_RS_OK, r_Actual := 0, r_ConnId := cnn_Id (h_Cnn s c),
                 ri_TimeoutTicks := (if r_Timeout x > 0 then r_Timeout x else ri_TimeoutTicks x)\<rparr>"
  let ?s = "upd_req r ?f s"
  have u: "sends s ?s" by (rule sends_same) simp
  have con: "sends t (APB_CnnConnect c (queue_request c r (upd_cnn c (\<lambda>x. x\<lparr>cnn_HandlerId := h\<rparr>) t)))"
    for t :: "'a cnn_state_scheme" and h
    unfolding queue_request_def
    by (rule sends_trans [OF sends_same [OF same_writer_cnn(1)]
          sends_trans [OF sends_same [OF same_writer_cnn(1)] connect_sends]])
  have dis: "sends t (ReplyMsg r (APB_CnnDisconnect c t))" for t :: "'a cnn_state_scheme"
    by (rule sends_trans [OF disconnect_sends sends_same [OF same_writer_cnn(3)]])
  have rep: "sends t (ReplyMsg r t)" for t :: "'a cnn_state_scheme" by (rule sends_same) simp
  have rst: "sends t (reply_state r st t)" for t :: "'a cnn_state_scheme" and st
    unfolding reply_state_def
    by (rule sends_trans [OF sends_same [OF same_writer_cnn(2)] sends_same [OF same_writer_cnn(3)]])
  have rem: "sends t (ReplyMsg r (APB_PushToRemote c r t))" for t :: "'a cnn_state_scheme"
    by (rule sends_trans [OF push_to_remote_sends sends_same [OF same_writer_cnn(3)]])
  have none: "APB_PushToClient c (queue_request c r ?s) = queue_request c r ?s"
    by (rule push_client_none) (simp add: queue_request_def assms)
  have psh: "sends ?s (APB_PushToClient c (queue_request c r ?s))"
    unfolding none by (rule sends_same) (simp add: queue_request_def)
  have "sends ?s (APB_HandleClientRequest c r s)"
    by (simp add: APB_HandleClientRequest_def Let_def con dis rep rst rem psh)
  then show "sends s (APB_HandleClientRequest c r s)" by (rule sends_trans [OF u])
  show "cnn_PacketQueue (h_Cnn (APB_HandleClientRequest c r s) d) = cnn_PacketQueue (h_Cnn s d)"
    by (simp add: APB_HandleClientRequest_def Let_def none [unfolded queue_request_def] reply_state_def queue_request_def)
qed

end
