(* ===== verification/ServerChannel.thy ===== *)
theory ServerChannel
  imports ConnectionProps
begin

text \<open>
  The server as a channel of packets: whatever its clients ask for and however time passes, what
  it hands to the serial device is a sequence of whole, valid packets. It is the contract of
  the writer once more, with the server's own operations as steps.
\<close>

section \<open>Steps\<close>

datatype quiet_op =
    Q_Requests "(addr \<times> request) list"
  | Q_Tick
  | Q_Write

text \<open>Requests come to the client port and are handled, the timer runs out, the buffer is written.\<close>

fun quiet_step :: "quiet_op \<Rightarrow> 'a server_state_scheme \<Rightarrow> 'a server_state_scheme option" where
  "quiet_step (Q_Requests reqs) s = Some (APB_ReceiveFromClient (arrive reqs s))"
| "quiet_step Q_Tick s = APB_HandleTimer s"
| "quiet_step Q_Write s = APB_SrvSendToRemote s"

definition quiet_ready :: "'a server_state_scheme \<Rightarrow> bool" where
  "quiet_ready s \<longleftrightarrow> writer_ready s \<and> no_packets s"

text \<open>A step that sends and puts no packet into a connection's queue.\<close>

definition quietly :: "'a server_state_scheme \<Rightarrow> 'a server_state_scheme \<Rightarrow> bool" where
  "quietly s s1 \<longleftrightarrow> (no_packets s \<longrightarrow> sends s s1 \<and> no_packets s1)"

lemma quietly_trans: "quietly s s1 \<Longrightarrow> quietly s1 s2 \<Longrightarrow> quietly s s2"
  using sends_trans by (auto simp: quietly_def)

lemma quietly_cnn:
  assumes "sends s s1" and "cnns s1 = cnns s" and "\<And>c. cnn_PacketQueue (h_Cnn s1 c) = cnn_PacketQueue (h_Cnn s c)"
  shows "quietly s s1"
  using assms by (simp add: quietly_def no_packets_def)

lemma quietly_same: "same_writer s s1 \<Longrightarrow> cnns s1 = cnns s \<Longrightarrow> h_Cnn s1 = h_Cnn s \<Longrightarrow> quietly s s1"
  by (rule quietly_cnn [OF sends_same]) simp_all

lemma quietly_lower:
  assumes "sends s s1" and "reader_state.more s1 = reader_state.more s"
  shows "quietly s s1"
  using cnn_fields [OF assms(2)] by (intro quietly_cnn [OF assms(1)]) simp_all

lemma quiet_client_request:
  assumes "c \<in> set (cnns s)"
  shows "quietly s (APB_HandleClientRequest c r s)"
proof -
  have "sends s (APB_HandleClientRequest c r s) \<and> no_packets (APB_HandleClientRequest c r s)"
    if n: "no_packets s"
  proof -
    have "cnn_PacketQueue (h_Cnn s c) = []" using n assms by (simp add: no_packets_def)
    note f = client_request_sends [OF this, of r]
    show ?thesis using f n by (simp add: no_packets_def)
  qed
  then show ?thesis by (simp add: quietly_def)
qed

lemma pool_sends:
  assumes h: "\<And>H. pool_holds H s \<Longrightarrow> \<exists>H1. pool_holds H1 s1 \<and> (\<forall>i. H i \<subseteq> H1 i)"
    and more: "pool.more s1 = pool.more s"
  shows "sends s s1"
proof (rule sends_nothing)
  note w = writer_fields_pool [OF more]
  show "ser_io s1 = ser_io s" "pw s1 = pw s" "h_OutPac s1 = h_OutPac s" by (rule w)+
  show "h_Buf s1 = h_Buf s" by (rule h_Buf_more [OF more])
  assume "writer_ready s"
  then obtain H where H: "writer_inv H [] s" and q: "r_WriteReq (rem s) \<noteq> None"
    by (auto simp: writer_ready_def)
  from H have "pool_holds H s" by (simp add: writer_inv_def w_heap_def)
  from h [OF this] obtain H1 where H1: "pool_holds H1 s1" "\<forall>i. H i \<subseteq> H1 i" by blast
  have "writer_inv H1 [] s1"
    by (rule writer_inv_other [OF H H1(1)]) (use H1(2) w h_Buf_more [OF more] in \<open>simp_all\<close>)
  then show "writer_ready s1" using q w(5) by (auto simp: writer_ready_def)
qed

lemma quiet_create:
  assumes c: "APB_CreateConnection i s = (p, s1)"
  shows "quietly s s1"
proof -
  let ?t = "register_missing OT_CONNECTION ''Connection'' sizeof_Connection 5 1000 s"
  obtain q s0 where al: "APB_AllocObject OT_CONNECTION ?t = (q, s0)" by fastforce
  have more: "pool.more s0 = pool.more s" using APB_AllocObject_more [OF al] by simp
  have hold: "\<exists>H1. pool_holds H1 s0 \<and> (\<forall>i. H i \<subseteq> H1 i)" if "pool_holds H s" for H
  proof -
    have t: "pool_holds H ?t" using register_missing_holds that by blast
    show ?thesis
    proof (cases q)
      case None
      then show ?thesis using pool_laws(2) [OF t] al by blast
    next
      case (Some a)
      then have "pool_holds (H(OT_CONNECTION := insert a (H OT_CONNECTION))) s0"
        using pool_laws(1) [OF t] al by blast
      then show ?thesis by (intro exI conjI, assumption) auto
    qed
  qed
  have s0: "sends s s0" by (rule pool_sends [OF hold more])
  have f0: "cnns s0 = cnns s" "h_Cnn s0 = h_Cnn s" using cnn_fields [OF reader_more_pool [OF more]] by simp_all
  show ?thesis
  proof (cases q)
    case None
    then show ?thesis using c al s0 f0 by (simp add: APB_CreateConnection_def quietly_def no_packets_def)
  next
    case (Some a)
    let ?u = "upd_cnn a (\<lambda>x. x\<lparr>cnn_Id := i, cnn_HandlerId := 0, cnn_PacketQueue := [], cnn_ReqQueue := []\<rparr>) s0"
    have s1: "s1 = ?u\<lparr>cnns := cnns s0 @ [a]\<rparr>" using c al Some by (simp add: APB_CreateConnection_def)
    have "same_writer s0 s1" by (simp add: s1 same_writer_def upd_cnn_def)
    then have "sends s s1" by (rule sends_trans [OF s0 sends_same])
    then show ?thesis by (auto simp: quietly_def no_packets_def s1 f0)
  qed
qed

lemma quiet_receive_one: "quietly s (receive_one r s)"
proof -
  have rst: "quietly t (reply_state r st t)" for t :: "'a server_state_scheme" and st
    by (rule quietly_same) (simp_all add: reply_state_def same_writer_def)
  have rep: "quietly t (ReplyMsg r t)" for t :: "'a server_state_scheme" by (rule quietly_same) simp_all
  let ?s = "upd_req r (\<lambda>x. x\<lparr>r_State := APB_RS_OK\<rparr>) s"
  have u: "quietly s ?s" by (rule quietly_same) simp_all
  have st: "quietly ?s (set_state x ?s)" for x by (rule quietly_same) simp_all
  have ll: "quietly ?s (?s\<lparr>log_level := l\<rparr>)" for l by (rule quietly_same) (simp_all add: same_writer_def)
  have opn: "quietly t (case APB_CreateConnection i t of (None, s1) \<Rightarrow> add_fault NullDeref s1
      | (Some c, s1) \<Rightarrow> APB_HandleClientRequest c r s1)" for i and t :: "'a server_state_scheme"
  proof -
    obtain p s1 where c: "APB_CreateConnection i t = (p, s1)" by fastforce
    show ?thesis
    proof (cases p)
      case None
      have "sends s1 (add_fault NullDeref s1)"
      proof (rule pool_sends)
        fix H assume "pool_holds H s1"
        then have "pool_holds H (add_fault NullDeref s1)"
          using pool_holds_cong [of "add_fault NullDeref s1" s1] by (simp add: add_fault_def)
        then show "\<exists>H1. pool_holds H1 (add_fault NullDeref s1) \<and> (\<forall>i. H i \<subseteq> H1 i)" by blast
      qed simp
      then have "quietly s1 (add_fault NullDeref s1)"
        by (rule quietly_lower) (rule reader_more_pool [OF add_fault_more])
      then show ?thesis using c None quietly_trans [OF quiet_create [OF c]] by simp
    next
      case (Some d)
      then have "d \<in> set (cnns s1)" using APB_CreateConnection_more(4) [OF c] by simp
      from quietly_trans [OF quiet_create [OF c] quiet_client_request [OF this]] show ?thesis
        using c Some by simp
    qed
  qed
  have nx: "quietly ?s (upd_srv f ?s)" for f by (rule quietly_same) simp_all
  show ?thesis
  proof (cases "r_ConnId (h_Req s r) = DEFAULT_CONNECTION")
    case True
    have "quietly ?s (APB_HandleClientControlMessage r s)"
      using quietly_trans [OF nx opn] quietly_trans [OF st rep] quietly_trans [OF ll rep] rst
      by (simp add: APB_HandleClientControlMessage_def Let_def)
    then show ?thesis using True quietly_trans [OF u] by (simp add: receive_one_def)
  next
    case False
    show ?thesis
    proof (cases "APB_FindConnection (r_ConnId (h_Req s r)) s")
      case None
      then show ?thesis using False by (simp add: receive_one_def rst)
    next
      case (Some c)
      then have "c \<in> set (cnns s)" by (auto simp: APB_FindConnection_def find_Some_iff)
      then show ?thesis using False Some by (simp add: receive_one_def quiet_client_request)
    qed
  qed
qed

lemma quiet_receive_all: "quietly s (receive_all rs s)"
proof (induction rs arbitrary: s)
  case (Cons r rs)
  show ?case using quietly_trans [OF quiet_receive_one Cons.IH] by simp
qed (simp add: quietly_def sends_refl)

lemma check_timeouts_packets:
  "cnn_PacketQueue (h_Cnn (check_timeouts c rs s) d) = cnn_PacketQueue (h_Cnn s d)"
  by (induction c rs s rule: check_timeouts.induct) (simp_all add: Let_def)

lemma check_all_packets:
  "cnn_PacketQueue (h_Cnn (check_all_timeouts cs s) d) = cnn_PacketQueue (h_Cnn s d)"
  by (induction cs arbitrary: s) (simp_all add: APB_CnnCheckRequestTimeouts_def check_timeouts_packets)

lemma ping_send_fields:
  assumes "APB_SendPing s = Some s1"
  shows "cnns s1 = cnns s" "h_Cnn s1 = h_Cnn s"
proof -
  obtain p s0 where al: "APB_AllocPacket (of_nat sizeof_Packet) s = (p, s0)" by fastforce
  have a: "cnns s0 = cnns s" "h_Cnn s0 = h_Cnn s" using cnn_fields [OF alloc_packet_more [OF al]] by simp_all
  have "cnns s1 = cnns s \<and> h_Cnn s1 = h_Cnn s"
  proof (cases p)
    case (Some q)
    then obtain s2 where s2: "APB_SrvSendToRemote (fill_packet q (pt_code PT_PING) DEFAULT_CONNECTION [] s0) = Some s2"
      and e: "s1 = upd_srv (\<lambda>x. x\<lparr>srv_PingTimeoutTicks := PING_TICKS, srv_PingSendTicks := 0\<rparr>) s2"
      using assms al by (auto simp: APB_SendPing_def)
    show ?thesis using cnn_fields [OF send_to_remote_more [OF s2]] a by (simp add: e)
  qed (use assms al a in \<open>simp add: APB_SendPing_def\<close>)
  then show "cnns s1 = cnns s" "h_Cnn s1 = h_Cnn s" by simp_all
qed

lemma tick_packets:
  assumes "tick s = Some s1"
  shows "cnns s1 = cnns s" and "cnn_PacketQueue (h_Cnn s1 d) = cnn_PacketQueue (h_Cnn s d)"
proof -
  have "cnns s1 = cnns s \<and> cnn_PacketQueue (h_Cnn s1 d) = cnn_PacketQueue (h_Cnn s d)"
  proof (cases "srv_State (srv s) = SS_CONNECTED")
    case True
    then obtain t where t: "ping_send (upd_srv ping_timeout s) = Some t" and e: "s1 = APB_CheckRequestTimeouts t"
      using assms by (auto simp: tick_def)
    have "cnns t = cnns s \<and> h_Cnn t = h_Cnn s"
      using t ping_send_fields [of "upd_srv ping_timeout s" t] by (auto simp: ping_send_def split: if_splits)
    then show ?thesis by (simp add: e APB_CheckRequestTimeouts_def check_all_packets)
  qed (use assms in \<open>auto simp: tick_def split: srv_state.splits\<close>)
  then show "cnns s1 = cnns s" "cnn_PacketQueue (h_Cnn s1 d) = cnn_PacketQueue (h_Cnn s d)" by simp_all
qed

lemma tick_sends:
  assumes "writer_ready s"
  shows "\<exists>s1. tick s = Some s1 \<and> sends s s1"
proof (cases "srv_State (srv s) = SS_CONNECTED")
  case True
  then show ?thesis using tick_connected [OF assms] by blast
next
  case False
  have "sends s (set_state st s)" for st by (rule sends_same [OF same_writer_srv(2)])
  then show ?thesis using False sends_refl by (cases "srv_State (srv s)") (auto simp: tick_def)
qed

lemma quiet_tick:
  assumes r: "writer_ready s" and n: "no_packets s"
  shows "\<exists>s1. APB_HandleTimer s = Some s1 \<and> sends s s1 \<and> no_packets s1"
proof -
  from tick_sends [OF r] obtain s2 where t: "tick s = Some s2" "sends s s2" by blast
  let ?s1 = "if srv_State (srv s2) \<noteq> SS_DISCONNECTED then APB_EnableTimer TICK_MILLIS s2 else s2"
  have "APB_HandleTimer s = Some ?s1" by (simp add: timer_tick t(1))
  moreover have "same_writer s2 ?s1" by simp
  then have "sends s ?s1" by (rule sends_trans [OF t(2) sends_same])
  moreover have "no_packets ?s1" using n tick_packets [OF t(1)] by (simp add: no_packets_def APB_EnableTimer_def)
  ultimately show ?thesis by blast
qed

text \<open>Every step returns, sends whole packets and leaves the server ready for the next one.\<close>

lemma quiet_step_ok:
  fixes s :: "'a server_state_scheme"
  assumes "quiet_ready s"
  shows "\<exists>s1 pkts new. quiet_step x s = Some s1 \<and> quiet_ready s1 \<and>
    sent_bytes s1 = sent_bytes s @ concat pkts \<and> (\<forall>p \<in> set pkts. wire_ok p) \<and>
    mailbox s @ new = map decode pkts @ mailbox s1"
proof -
  have r: "writer_ready s" and n: "no_packets s" using assms by (simp_all add: quiet_ready_def)
  have "\<exists>s1. quiet_step x s = Some s1 \<and> sends s s1 \<and> no_packets s1"
  proof (cases x)
    case (Q_Requests reqs)
    let ?a = "arrive reqs s"
    have a: "quietly s ?a" by (rule quietly_same) (simp_all add: arrive_def same_writer_def)
    have b: "quietly ?a (?a\<lparr>client_msgs := []\<rparr>)" by (rule quietly_same) (simp_all add: same_writer_def)
    have "quietly s (APB_ReceiveFromClient ?a)"
      unfolding APB_ReceiveFromClient_def
      by (rule quietly_trans [OF quietly_trans [OF a b] quiet_receive_all])
    then show ?thesis using n Q_Requests by (simp add: quietly_def)
  next
    case Q_Tick
    then show ?thesis using quiet_tick [OF r n] by simp
  next
    case Q_Write
    from write_returns [OF r] obtain s1 where w: "APB_SrvSendToRemote s = Some s1" by blast
    have "no_packets s1" using n cnn_fields [OF send_to_remote_more [OF w]] by (simp add: no_packets_def)
    then show ?thesis using Q_Write w write_sends [OF w] by simp
  qed
  then show ?thesis using r unfolding quiet_ready_def sends_def by blast
qed

interpretation server_chan: letter_channel quiet_ready quiet_step sent_bytes mailbox
proof unfold_locales
  fix s s1 :: "'a server_state_scheme" and x
  assume q: "quiet_ready s"
  show "\<exists>s1 pkts. quiet_step x s = Some s1 \<and> quiet_ready s1 \<and> sent_bytes s1 = sent_bytes s @ concat pkts \<and>
      (\<forall>p \<in> set pkts. wire_ok p)"
    using quiet_step_ok [OF q, of x] by blast
  assume "quiet_step x s = Some s1"
  then show "\<exists>pkts new. sent_bytes s1 = sent_bytes s @ concat pkts \<and> (\<forall>p \<in> set pkts. wire_ok p) \<and>
      mailbox s @ new = map decode pkts @ mailbox s1"
    using quiet_step_ok [OF q, of x] by (metis option.inject)
qed

end
