(* ===== verification/ServerProps.thy ===== *)
theory ServerProps
  imports ServerChannel
begin

text \<open>
  What the server promises as a whole: its clients, the remote side and whoever started it.
  Every property is applied to a concrete server at the end of its section.
\<close>

section \<open>A concrete server\<close>

text \<open>
  A server with an idle writer, a read under way, client port 20 and timer port 21, and no
  connection.
\<close>

definition server_on :: "srv_state \<Rightarrow> writer_state \<Rightarrow> server_state" where
  "server_on st w = \<lparr>op_Types = op_Types w, op_MemPool = op_MemPool w, op_Mem = op_Mem w,
     faults = faults w, h_Buf = h_Buf w, rem = demo_remote\<lparr>r_ReadReady := False\<rparr>, ser_io = ser_io w,
     h_OutBuf = h_OutBuf w, h_OutPac = h_OutPac w, pw = pw w,
     h_InBuf = (\<lambda>_. new_in_buffer 0),
     h_InPac = (\<lambda>_. \<lparr>ip_InBuf = 0, ip_Type = 0, ip_Flags = 0, ip_ConnId = 0, ip_PackId = 0,
        ip_Offset = 0, ip_Data1Length = 0, ip_Data2Length = 0, ip_Data1 = None, ip_Data2 = None\<rparr>),
     pr = \<lparr>pr_Addr = 0, pr_InBuf = None, pr_Queue = [], pr_QueueSize = 0\<rparr>,
     h_Cnn = (\<lambda>_. \<lparr>cnn_PacketQueue = [], cnn_ReqQueue = [], cnn_Id = 0, cnn_HandlerId = 0,
        cnn_State = 0\<rparr>),
     h_Req = (\<lambda>_. \<lparr>r_ReplyPort = True, r_Type = 0, r_ConnId = 0, r_HandlerId = 0, r_State = 0,
        r_Actual = 0, r_Length = 0, r_Timeout = 0, r_DataType = 0, r_Data = (\<lambda>_. 0),
        ri_TimeoutTicks = 0\<rparr>),
     cnns = [], replies = [],
     srv = \<lparr>srv_ReadBuffer = None, srv_ClientPort = Some 20, srv_TimerPort = Some 21, srv_State = st,
        srv_NextConnId = 1, srv_LastInPackId = 0, srv_PingSendTicks = 0, srv_MissedPingCount = 0,
        srv_PingTimeoutTicks = 0\<rparr>,
     client_msgs = [], timer_io = [], log_level = 0\<rparr>"

lemma server_on_fields [simp]:
  "srv (server_on st w) = \<lparr>srv_ReadBuffer = None, srv_ClientPort = Some 20, srv_TimerPort = Some 21,
     srv_State = st, srv_NextConnId = 1, srv_LastInPackId = 0, srv_PingSendTicks = 0,
     srv_MissedPingCount = 0, srv_PingTimeoutTicks = 0\<rparr>"
  "cnns (server_on st w) = []" "replies (server_on st w) = []" "client_msgs (server_on st w) = []"
  "ser_io (server_on st w) = ser_io w" "\<not> REM_CanRead (server_on st w)"
  "rem (server_on st w) = demo_remote\<lparr>r_ReadReady := False\<rparr>" "faults (server_on st w) = faults w"
  by (simp_all add: server_on_def REM_CanRead_def)

lemma server_on_ready:
  assumes "idle_writer w"
  shows "writer_ready (server_on st w)"
proof -
  note i = idle_writer_facts [OF assms]
  have "pool_holds (\<lambda>i. {}) w" using i(1) by (simp add: writer_inv_def w_heap_def)
  then have "pool_holds (\<lambda>i. {}) (server_on st w)"
    using pool_holds_cong [of "server_on st w" w] by (simp add: server_on_def)
  then have "writer_inv (\<lambda>i. {}) [] (server_on st w)"
    by (rule writer_inv_other [OF i(1)]) (simp_all add: server_on_def)
  then show ?thesis by (auto simp: writer_ready_def demo_remote_def)
qed

lemma server_on_calm:
  assumes "idle_writer w"
  shows "calm (server_on st w) (server_on st w)" and "sent_bytes (server_on st w) = []"
  using server_on_ready [OF assms] by (simp_all add: calm_def sent_bytes_def idle_writer_facts(8) [OF assms])

lemma idle_exists: "\<exists>w :: writer_state. idle_writer w"
  using demo_writer_start by blast

text \<open>A round in which only the timer runs out, and one in which a client asks the server to quit.\<close>

definition silent_input :: run_input where
  "silent_input = \<lparr>ri_Open = \<lparr>oa_ReadPort = None, oa_WritePort = None, oa_ReadReq = False,
     oa_WriteReq = False, oa_Device = False\<rparr>, ri_Port = None,
     ri_Wait = \<lparr>wi_Signals = 0x200000, wi_Requests = [],
        wi_Serial = \<lparr>sa_First = [], sa_Unread = 0, sa_Rest = []\<rparr>\<rparr>\<rparr>"

definition quit_request :: request where
  "quit_request = \<lparr>r_ReplyPort = True, r_Type = APB_RT_SRV_QUIT, r_ConnId = DEFAULT_CONNECTION,
     r_HandlerId = 0, r_State = 0, r_Actual = 0, r_Length = 0, r_Timeout = 0, r_DataType = 0,
     r_Data = (\<lambda>_. 0), ri_TimeoutTicks = 0\<rparr>"

definition quit_input :: run_input where
  "quit_input = silent_input\<lparr>ri_Wait := (ri_Wait silent_input)\<lparr>wi_Signals := 0x100000,
     wi_Requests := [(77, quit_request)]\<rparr>\<rparr>"

lemma silent_input_silent: "silent (ri_Wait silent_input) (server_on st w)"
  by (simp add: silent_def silent_input_def SIGBREAKF_CTRL_C_def REM_GetSignalBits_def port_bit_def
      demo_remote_def)

section \<open>Clients\<close>

lemma owed_start:
  "replies s = [] \<Longrightarrow> cnns s = [] \<Longrightarrow> client_msgs s = [] \<Longrightarrow> owed s = {#}"
  by (simp add: owed_def answered_def waiting_def)

text \<open>
  C4: over a whole run of the server, whatever signals, packets, requests and device answers come,
  every request a client put into the server's port is given back at most once for each time
  it was put there, and nothing else is ever replied: the replies are a sub-multiset of the
  requests that arrived.
\<close>

theorem requests_answered_once:
  assumes "replies s = []" and "cnns s = []" and "client_msgs s = []"
    and "run_rounds is (k, s) = Some (k1, s1)"
  shows "mset (map fst (replies s1)) \<subseteq># (\<Sum>i\<leftarrow>is. mset (map fst (wi_Requests (ri_Wait i))))"
proof -
  have "owed s1 \<subseteq># sum_list (map arrivals is)"
    using run_rounds_owed [OF assms(4)] owed_start [OF assms(1-3)] by simp
  moreover have "mset (map fst (replies s1)) \<subseteq># owed s1"
    using mset_subset_eq_add_left [of "answered s1" "waiting s1 + mset (client_msgs s1)"]
    by (simp add: owed_def answered_def add.assoc)
  ultimately show ?thesis by (simp add: arrivals_def [abs_def] subset_mset.order_trans)
qed

lemma quit_round:
  assumes "idle_writer w"
  shows "\<exists>s1. run_rounds [quit_input] (5, server_on SS_CONNECTED w) = Some (5, s1) \<and>
    map fst (replies s1) = [77] \<and> srv_State (srv s1) = SS_DISCONNECTED"
proof -
  let ?s = "server_on SS_CONNECTED w"
  let ?a = "arrive [(77, quit_request)] ?s"
  define t where "t = APB_ReceiveFromClient ?a"
  have a: "client_msgs ?a = [77]" "h_Req ?a 77 = quit_request" "srv ?a = srv ?s" "replies ?a = []"
    "rem ?a = rem ?s" by (simp_all add: arrive_def)
  have q: "r_ConnId quit_request = DEFAULT_CONNECTION" "r_Type quit_request = APB_RT_SRV_QUIT"
    by (simp_all add: quit_request_def)
  have t: "t = ReplyMsg 77 (set_state SS_DISCONNECTED
      (upd_req 77 (\<lambda>x. x\<lparr>r_State := APB_RS_OK\<rparr>) (?a\<lparr>client_msgs := []\<rparr>)))"
    using a by (simp add: t_def APB_ReceiveFromClient_def receive_one_def q RT_defs
        APB_HandleClientControlMessage_def Let_def upd_req_def)
  have st: "srv_State (srv t) = SS_DISCONNECTED" by (simp add: t ReplyMsg_def)
  have rd: "\<not> REM_CanRead t"
    by (simp add: t REM_CanRead_def ReplyMsg_def set_state_def upd_srv_def upd_req_def arrive_def)
  have re: "map fst (replies t) = [77]" by (simp add: t ReplyMsg_def upd_req_def arrive_def)
  have "same_writer ?s t"
    by (simp add: t same_writer_def ReplyMsg_def set_state_def upd_srv_def upd_req_def arrive_def)
  then have r: "writer_ready t" by (rule same_writer_ready [OF _ server_on_ready [OF assms]])
  from write_returns [OF r] obtain s1 where w: "APB_SrvSendToRemote t = Some s1" by blast
  note f = send_to_remote_more [OF w]
  have sig: "wi_Signals (ri_Wait quit_input) AND wait_mask ?s = 0x100000"
    by (simp add: quit_input_def silent_input_def wait_mask_def SIGBREAKF_CTRL_C_def
        REM_GetSignalBits_def port_bit_def demo_remote_def)
  have "APB_WaitForMessage (ri_Wait quit_input) ?s = Some s1"
    using w rd sig
    by (simp add: APB_WaitForMessage_def Let_def t_def port_bit_def SIGBREAKF_CTRL_C_def
        REM_GetSignalBits_def demo_remote_def quit_input_def silent_input_def APB_SrvReceiveFromRemote_def)
  then show ?thesis using cnn_fields [OF f] srv_fields [OF cnn_fields(5) [OF f]] re st by (simp add: run_step_def)
qed

theorem requests_answered_once_witness:
  "\<exists>w s1. run_rounds [quit_input] (5, server_on SS_CONNECTED w) = Some (5, s1) \<and>
     mset (map fst (replies s1)) = {#77#} \<and> mset (map fst (replies s1)) \<subseteq># {#77#}"
proof -
  obtain w :: writer_state where w: "idle_writer w" using idle_exists by (rule exE)
  obtain s1 where s1: "run_rounds [quit_input] (5, server_on SS_CONNECTED w) = Some (5, s1)"
    "map fst (replies s1) = [77]" using quit_round [OF w] by (elim exE conjE)
  have "mset (map fst (replies s1)) \<subseteq># {#77#}"
    using requests_answered_once [OF _ _ _ s1(1)] by (simp add: quit_input_def)
  with s1(1) show ?thesis by (intro exI [of _ w] exI [of _ s1] conjI) (simp_all only: s1(2), simp_all)
qed

section \<open>The state machine\<close>

text \<open>
  C6: every round of the main loop that returns is a step of the abstract machine over the retry
  count and the state: no input makes the server take any other transition.
\<close>

theorem run_refines_machine:
  assumes "run_step i (k, s) = Some (k1, s1)"
    and "srv_State (srv s) \<notin> {SS_DISCONNECTING, SS_WAIT_FOR_DISCONNECT, SS_STOPPED}"
  shows "machine (k, srv_State (srv s)) (k1, srv_State (srv s1))"
  using assms by (rule run_step_machine)

theorem run_refines_machine_witness:
  "\<exists>w s1. run_step quit_input (5, server_on SS_CONNECTED w) = Some (5, s1) \<and>
     machine (5, SS_CONNECTED) (5, srv_State (srv s1)) \<and> srv_State (srv s1) = SS_DISCONNECTED"
proof -
  obtain w :: writer_state where w: "idle_writer w" using idle_exists by (rule exE)
  obtain s1 where s1: "run_rounds [quit_input] (5, server_on SS_CONNECTED w) = Some (5, s1)"
    "srv_State (srv s1) = SS_DISCONNECTED" using quit_round [OF w] by blast
  then have r: "run_step quit_input (5, server_on SS_CONNECTED w) = Some (5, s1)"
    by (auto split: option.splits)
  from run_refines_machine [OF r] r s1(2) show ?thesis
    by (intro exI [of _ w] exI [of _ s1]) simp
qed

text \<open>
  C32: no run of the server ever reaches \<open>SS_DISCONNECTING\<close> or \<open>SS_WAIT_FOR_DISCONNECT\<close>, so that
  \<open>APB_SendShutdown\<close> is never called and the remote side is never told of a shutdown; and
  the retry count stays within its five attempts, being zero only on the way to the end.
\<close>

theorem run_never_says_goodbye:
  assumes "APB_Run is s = Some (k, s1)"
  shows "srv_State (srv s1) \<noteq> SS_DISCONNECTING \<and> srv_State (srv s1) \<noteq> SS_WAIT_FOR_DISCONNECT \<and>
    k \<le> RETRIES \<and>
    (k = 0 \<longrightarrow> srv_State (srv s1) \<in> {SS_STOPPING, SS_CLOSING_CLIENT, SS_CLOSING_REMOTE, SS_STOPPED})"
proof -
  obtain k0 s0 where i: "run_init s = (k0, s0)" by fastforce
  have m: "machine_inv (k0, srv_State (srv s0))" using run_init_machine [of s] by (simp add: i)
  have "machine\<^sup>*\<^sup>* (k0, srv_State (srv s0)) (k, srv_State (srv s1))"
    using assms run_rounds_machine [OF _ m] by (simp add: APB_Run_def i)
  from machine_reach [OF this m] show ?thesis by (auto simp: machine_inv_def)
qed

lemma run_no_remote:
  "\<exists>s1. APB_Run [silent_input, silent_input] s = Some (5, s1) \<and> srv_State (srv s1) = SS_STOPPING"
proof -
  have o: "\<exists>s1. REM_OpenRemote (ri_Open silent_input) t = (False, s1)" for t :: "'a server_state_scheme"
    by (simp add: REM_OpenRemote_def silent_input_def Let_def split: prod.split)
  define t where "t = set_state SS_OPENING_REMOTE (APB_EnableTimer TICK_MILLIS (set_state SS_STARTING s))"
  obtain s1 where "REM_OpenRemote (ri_Open silent_input) t = (False, s1)" using o by blast
  then show ?thesis
    by (simp add: APB_Run_def run_init_def run_step_def t_def RETRIES_def)
qed

theorem run_never_says_goodbye_witness:
  "\<exists>w s1. APB_Run [silent_input, silent_input] (server_on SS_STOPPED w) = Some (5, s1) \<and>
     srv_State (srv s1) \<noteq> SS_DISCONNECTING \<and> (5 :: u16) \<le> RETRIES"
proof -
  obtain w :: writer_state where w: "idle_writer w" using idle_exists by (rule exE)
  obtain s1 where "APB_Run [silent_input, silent_input] (server_on SS_STOPPED w) = Some (5, s1)"
    using run_no_remote by blast
  with run_never_says_goodbye [OF this] show ?thesis by blast
qed

section \<open>A remote side that does not answer\<close>

text \<open>
  C20: when nothing answers, the server does not wait for ever: connecting with \<open>k\<close> attempts left,
  after at most \<open>2 * k + 3\<close> rounds in which only the timer runs out, the run has ended.
\<close>

theorem connecting_gives_up:
  fixes s :: "'a server_state_scheme"
  assumes "writer_ready s" and "\<not> REM_CanRead s" and "srv_State (srv s) = SS_CONNECTING"
    and "\<forall>i \<in> set is. silent (ri_Wait i) s" and "0 < unat k" and "2 * unat k + 3 \<le> length is"
  shows "\<exists>k1 s1. run_rounds is (k, s) = Some (k1, s1) \<and> srv_State (srv s1) = SS_STOPPED"
proof -
  have "calm s s" using assms(1) by (simp add: calm_def)
  from connecting_stops [OF this assms(2,4,3,5,6)] show ?thesis .
qed

theorem connecting_gives_up_witness:
  "\<exists>w k1 s1. run_rounds (replicate 13 silent_input) (5, server_on SS_CONNECTING w) = Some (k1, s1) \<and>
     srv_State (srv s1) = SS_STOPPED"
proof -
  obtain w :: writer_state where w: "idle_writer w" using idle_exists by (rule exE)
  have "\<forall>i \<in> set (replicate 13 silent_input). silent (ri_Wait i) (server_on SS_CONNECTING w)"
    using silent_input_silent by simp
  from connecting_gives_up [OF server_on_ready [OF w] _ _ this, of 5]
  show ?thesis by (intro exI [of _ w]) simp
qed



section \<open>What the remote side gets\<close>

text \<open>
  C1: with no packets waiting in its connections, the server as a whole is a source of whole, valid
  packets: whatever its clients ask for (connections opened and closed, data of any length
  written, control messages, unknown requests) and however the timer and the writer are
  interleaved with that, every operation returns and the device receives well-formed packets
  one after the other. Nothing is lost or overtaken: what waited to be sent at the start, and
  behind it what the run has added, is what has been sent, followed by what still waits.
\<close>

theorem server_stream_wellformed:
  fixes s :: "'a server_state_scheme"
  assumes "writer_ready s" and "\<forall>c \<in> set (cnns s). cnn_PacketQueue (h_Cnn s c) = []"
  shows "\<exists>s1 pkts new. run_steps quiet_step ops s = Some s1 \<and> sent_bytes s1 = sent_bytes s @ concat pkts \<and>
    (\<forall>p \<in> set pkts. wire_ok p) \<and> mailbox s @ new = map decode pkts @ mailbox s1"
proof -
  have "quiet_ready s" using assms by (simp add: quiet_ready_def no_packets_def)
  from server_chan.run_mail [OF this, of ops] show ?thesis by blast
qed

theorem server_stream_wellformed_witness:
  "\<exists>w s1 pkts new. run_steps quiet_step [Q_Requests [(77, quit_request\<lparr>r_Type := APB_RT_OPEN\<rparr>)], Q_Write,
      Q_Requests [(78, quit_request\<lparr>r_Type := APB_RT_WRITE, r_ConnId := 1, r_Length := 7\<rparr>)], Q_Tick, Q_Write]
      (server_on SS_CONNECTED w) = Some s1 \<and> sent_bytes s1 = concat pkts \<and> (\<forall>p \<in> set pkts. wire_ok p) \<and>
      mailbox (server_on SS_CONNECTED w) @ new = map decode pkts @ mailbox s1"
proof -
  obtain w :: writer_state where w: "idle_writer w" using idle_exists by (rule exE)
  have "sent_bytes (server_on SS_CONNECTED w) = []" using server_on_calm(2) [OF w] by simp
  with server_stream_wellformed [OF server_on_ready [OF w, of SS_CONNECTED]] show ?thesis
    by (intro exI [of _ w]) (simp del: run_steps.simps)
qed

end
