(* ===== verification/ConnectionClaims.thy ===== *)
theory ConnectionClaims
  imports ServerProps
begin

text \<open>
  What a connection promises the clients that use it, as properties of its operations: delivery
  of packets to requests, timeouts, writing, and the end of a connection.
\<close>

section \<open>A concrete connection\<close>

text \<open>
  Connection 9 is open; two read requests wait, 70 for one byte and 71 for four; packet 30 holds
  three bytes.
\<close>

definition cnn_on :: "writer_state \<Rightarrow> server_state" where
  "cnn_on w = (let s = server_on SS_CONNECTED w in s\<lparr>
     h_Buf := (\<lambda>_. \<lparr>b_Offset = 100, b_Data = (\<lambda>i. of_nat i)\<rparr>),
     h_InPac := (h_InPac s)(30 := (h_InPac s 30)\<lparr>ip_Type := pt_code PT_DATA, ip_Data1Length := 3,
       ip_Data1 := Some (50, 14)\<rparr>),
     h_Cnn := (h_Cnn s)(9 := \<lparr>cnn_PacketQueue = [30], cnn_ReqQueue = [70, 71], cnn_Id = 1,
       cnn_HandlerId = 4, cnn_State = CS_CONNECTED\<rparr>),
     h_Req := (h_Req s)(70 := (h_Req s 70)\<lparr>r_Type := APB_RT_READ, r_Length := 1, ri_TimeoutTicks := 1\<rparr>,
       71 := (h_Req s 71)\<lparr>r_Type := APB_RT_READ, r_Length := 4, ri_TimeoutTicks := 1\<rparr>),
     cnns := [9]\<rparr>)"

lemma cnn_on_fields [simp]:
  "h_Buf (cnn_on w) = (\<lambda>_. \<lparr>b_Offset = 100, b_Data = (\<lambda>i. of_nat i)\<rparr>)"
  "h_Cnn (cnn_on w) 9 = \<lparr>cnn_PacketQueue = [30], cnn_ReqQueue = [70, 71], cnn_Id = 1,
     cnn_HandlerId = 4, cnn_State = CS_CONNECTED\<rparr>"
  "r_Length (h_Req (cnn_on w) 70) = 1" "r_Length (h_Req (cnn_on w) 71) = 4"
  "ri_TimeoutTicks (h_Req (cnn_on w) 70) = 1" "ri_TimeoutTicks (h_Req (cnn_on w) 71) = 1"
  "r_ReplyPort (h_Req (cnn_on w) 70)" "r_Type (h_Req (cnn_on w) 70) = APB_RT_READ"
  "cnns (cnn_on w) = [9]" "replies (cnn_on w) = []"
  "ip_Type (h_InPac (cnn_on w) 30) = pt_code PT_DATA" "ip_Data1Length (h_InPac (cnn_on w) 30) = 3"
  "ip_Data2Length (h_InPac (cnn_on w) 30) = 0" "ip_Data1 (h_InPac (cnn_on w) 30) = Some (50, 14)"
  "ip_Data2 (h_InPac (cnn_on w) 30) = None"
  by (simp_all add: cnn_on_def server_on_def Let_def)

section \<open>Delivery\<close>

text \<open>
  C7: \<open>APB_PushToClient\<close> refines the abstract delivery of \<open>deliver\<close>: packets go to requests in the
  order both came; a request gets the whole data of its packet, split buffers joined, or, when
  its buffer is too small, the size it needs, while the packet stays first for the next
  request; requests and packets that remain are those of the specification.
\<close>

theorem push_to_client_refines:
  fixes s :: "'a cnn_state_scheme"
  assumes "cnn_State (h_Cnn s c) = CS_CONNECTED" and "pacs_ok c s"
    and "deliver (req_queue c s) (pac_queue c s) = (out, rq, pq)"
  shows "\<exists>new. replies (APB_PushToClient c s) = replies s @ new \<and>
    map (\<lambda>(r, x). (r, reply_of x)) new = out \<and>
    req_queue c (APB_PushToClient c s) = rq \<and> pac_queue c (APB_PushToClient c s) = pq"
  using push_loop_delivers [OF refl assms(2,3)] assms(1) by (simp add: APB_PushToClient_def)

theorem push_to_client_refines_witness:
  "\<exists>(w :: writer_state) new. replies (APB_PushToClient 9 (cnn_on w)) = new \<and>
     map (\<lambda>(r, x). (r, reply_of x)) new = [(70, Too_Small 3), (71, Delivered [14, 15, 16])] \<and>
     req_queue 9 (APB_PushToClient 9 (cnn_on w)) = [] \<and> pac_queue 9 (APB_PushToClient 9 (cnn_on w)) = []"
proof -
  fix w :: writer_state
  have "[0..<3] = [0, 1, 2 :: nat]" by (simp add: upt_rec)
  then have p: "wp_Data (packet_of (cnn_on w) 30) = [14, 15, 16]"
    by (simp add: packet_of_def ptr_bytes_def ptr_byte_def Let_def)
  have ok: "pacs_ok 9 (cnn_on w)"
    by (simp add: pacs_ok_def pac_in_def ptr_in_def BUFFER_SIZE_def)
  have "deliver (req_queue 9 (cnn_on w)) (pac_queue 9 (cnn_on w)) =
      ([(70, Too_Small 3), (71, Delivered [14, 15, 16])], [], [])"
    by (simp add: req_queue_def pac_queue_def p)
  from push_to_client_refines [OF _ ok this] show ?thesis by (intro exI [of _ w]) simp
qed

section \<open>Timeouts\<close>

text \<open>
  C19: a request with a timeout of \<open>t\<close> seconds that no timed request stands before is given back with
  \<open>APB_RS_TIMEOUT\<close> by the \<open>t\<close>-th pass of the timer, and stays in the queue until then.
\<close>

theorem request_times_out:
  fixes s :: "'a cnn_state_scheme"
  assumes "next_timed c r s" and "0 < unat (ri_TimeoutTicks (h_Req s r))"
  defines "t \<equiv> unat (ri_TimeoutTicks (h_Req s r))"
  shows "(\<forall>n < t. r \<in> set (cnn_ReqQueue (h_Cnn ((APB_CnnCheckRequestTimeouts c ^^ n) s) c))) \<and>
    (\<exists>new x. replies ((APB_CnnCheckRequestTimeouts c ^^ t) s) = replies s @ new \<and>
       (r, x) \<in> set new \<and> r_State x = APB_RS_TIMEOUT)"
proof
  show "\<forall>n < t. r \<in> set (cnn_ReqQueue (h_Cnn ((APB_CnnCheckRequestTimeouts c ^^ n) s) c))"
    using passes_wait(1) [OF assms(1)] unfolding t_def by (fastforce simp: next_timed_def)
  let ?u = "(APB_CnnCheckRequestTimeouts c ^^ (t - 1)) s"
  have lt: "t - 1 < unat (ri_TimeoutTicks (h_Req s r))" using assms(2) by (simp add: t_def)
  have one: "ri_TimeoutTicks (h_Req ?u r) = 1"
    using passes_wait(2) [OF assms(1) lt] assms(2) by (intro word_unat_eq_iff [THEN iffD2]) (simp add: t_def)
  from pass_answers [OF passes_wait(1) [OF assms(1) lt] one] obtain x new where
    a: "replies (APB_CnnCheckRequestTimeouts c ?u) = replies ?u @ (r, x) # new" "r_State x = APB_RS_TIMEOUT"
    by blast
  obtain new0 where b: "replies ?u = replies s @ new0" using passes_replies by blast
  have "t = Suc (t - 1)" using assms(2) by (simp add: t_def)
  then have "(APB_CnnCheckRequestTimeouts c ^^ t) s = APB_CnnCheckRequestTimeouts c ?u"
    by (metis comp_apply funpow.simps(2))
  then show "\<exists>new x. replies ((APB_CnnCheckRequestTimeouts c ^^ t) s) = replies s @ new \<and>
       (r, x) \<in> set new \<and> r_State x = APB_RS_TIMEOUT"
    using a b by (intro exI [of _ "new0 @ (r, x) # new"] exI [of _ x]) simp
qed

theorem request_times_out_witness:
  "\<exists>(w :: writer_state) new x. replies ((APB_CnnCheckRequestTimeouts 9 ^^ 1) (cnn_on w)) = new \<and>
     (70, x) \<in> set new \<and> r_State x = APB_RS_TIMEOUT"
proof -
  fix w :: writer_state
  have n: "next_timed 9 70 (cnn_on w)"
    by (simp add: next_timed_def) (rule exI [of _ "[]"], simp)
  show ?thesis using request_times_out [OF n] by (intro exI [of _ w]) auto
qed

text \<open>
  The pass of the timer that times one request out stops there, since the loop follows the
  link of a message that \<open>ReplyMsg\<close> has moved to another list: the requests behind it are not
  counted down in that second.
\<close>

theorem timeout_shields_later_requests:
  fixes s :: "'a cnn_state_scheme"
  assumes "cnn_ReqQueue (h_Cnn s c) = pre @ r # post"
    and "\<forall>p \<in> set pre. ri_TimeoutTicks (h_Req s p) = 0"
    and "ri_TimeoutTicks (h_Req s r) = 1" and "r_ReplyPort (h_Req s r)" and "p \<noteq> r"
  shows "h_Req (APB_CnnCheckRequestTimeouts c s) p = h_Req s p"
  using assms
  by (simp add: APB_CnnCheckRequestTimeouts_def check_timeouts_skip Let_def)

theorem timeout_shields_later_requests_witness:
  "\<exists>w :: writer_state. ri_TimeoutTicks (h_Req (cnn_on w) 71) = 1 \<and>
     ri_TimeoutTicks (h_Req (APB_CnnCheckRequestTimeouts 9 (cnn_on w)) 71) = 1"
proof -
  fix w :: writer_state
  have "h_Req (APB_CnnCheckRequestTimeouts 9 (cnn_on w)) 71 = h_Req (cnn_on w) 71"
    by (rule timeout_shields_later_requests [of _ _ "[]" 70 "[71]"]) simp_all
  then show ?thesis by (intro exI [of _ w]) simp
qed

section \<open>Writing\<close>

text \<open>
  C34: a write request of any 16 bit length either fails and leaves nothing to be sent, or is accepted
  whole: then its data and the packet's header fit one buffer, although the length handed to
  \<open>APB_AllocPacket\<close> is a 16 bit sum that wraps around for the longest requests, and one data packet
  with the connection's number, the next packet number and the client's bytes waits behind the
  others. What the device gets meanwhile is a sequence of whole, valid packets.
\<close>

theorem write_request_all_or_nothing:
  fixes s :: "'a cnn_state_scheme"
  assumes "writer_ready s"
  shows "writer_ready (APB_PushToRemote c r s) \<and>
    (r_State (h_Req (APB_PushToRemote c r s) r) = APB_RS_FAILED \<and> mailbox (APB_PushToRemote c r s) = mailbox s \<or>
     r_State (h_Req (APB_PushToRemote c r s) r) = APB_RS_OK \<and>
     r_Actual (h_Req (APB_PushToRemote c r s) r) = r_Length (h_Req s r) \<and>
     unat (r_Length (h_Req s r)) + sizeof_Packet \<le> BUFFER_SIZE \<and>
     mailbox (APB_PushToRemote c r s) = mailbox s @ [letter (pt_code PT_DATA) (cnn_Id (h_Cnn s c))
       (pw_NextPackId (pw s)) (bytes_of (r_Data (h_Req s r)) 0 (unat (r_Length (h_Req s r))))]) \<and>
    (\<exists>pkts. sent_bytes (APB_PushToRemote c r s) = sent_bytes s @ concat pkts \<and>
       (\<forall>p \<in> set pkts. wire_ok p))"
  using push_to_remote_cases [OF assms, of c r] assms by (auto simp: sends_def)

theorem write_request_all_or_nothing_witness:
  "\<exists>w. r_State (h_Req (APB_PushToRemote 9 70
      (upd_req 70 (\<lambda>x. x\<lparr>r_Length := 65530\<rparr>) (server_on SS_CONNECTED w))) 70) = APB_RS_FAILED"
proof -
  obtain w :: writer_state where w: "idle_writer w" using idle_exists by (rule exE)
  let ?s = "upd_req 70 (\<lambda>x. x\<lparr>r_Length := 65530\<rparr>) (server_on SS_CONNECTED w)"
  have "writer_ready ?s" by (rule same_writer_ready [OF same_writer_cnn(2) server_on_ready [OF w]])
  moreover have "\<not> unat (r_Length (h_Req ?s 70)) + sizeof_Packet \<le> BUFFER_SIZE"
    by (simp add: upd_req_def BUFFER_SIZE_def)
  ultimately have "r_State (h_Req (APB_PushToRemote 9 70 ?s) 70) = APB_RS_FAILED"
    using write_request_all_or_nothing [of ?s 9 70] by blast
  then show ?thesis by (intro exI [of _ w])
qed

section \<open>The end of a connection\<close>

text \<open>
  C35: a \<open>PT_DISCONNECTED\<close> packet ends the connection without a word to its clients: the requests
  in its queue are not answered, the connection leaves the list, and with it every reference
  to them, so their senders wait for ever.
\<close>

theorem disconnected_forgets_requests:
  fixes s :: "'a cnn_state_scheme"
  assumes "ip_Type (h_InPac s ip) = pt_code PT_DISCONNECTED" and "distinct (cnns s)" and "c \<in> set (cnns s)"
  defines "s1 \<equiv> APB_HandleConnectionPacket c ip s"
  shows "replies s1 = replies s \<and> set (cnns s1) = set (cnns s) - {c} \<and>
    waiting s1 + mset (cnn_ReqQueue (h_Cnn s c)) = waiting s"
proof -
  have e: "s1 = APB_DestroyConnection c (APB_ReleaseInPacket ip
      (upd_cnn c (\<lambda>x. x\<lparr>cnn_State := CS_DISCONNECTED\<rparr>) s))"
    using assms(1) by (simp add: s1_def APB_HandleConnectionPacket_def)
  have q: "queue_of s1 d = queue_of s d" for d
    by (simp add: e queue_of_def)
  have l: "set (cnns s1) = set (cnns s) - {c}" using assms(2) by (simp add: e)
  have "waiting s = mset (queue_of s c) + (\<Sum>d \<in> set (cnns s) - {c}. mset (queue_of s d))"
    unfolding waiting_def by (rule sum.remove) (use assms(3) in simp_all)
  then have "waiting s1 + mset (cnn_ReqQueue (h_Cnn s c)) = waiting s"
    unfolding waiting_def l queue_of_def [symmetric] by (simp add: q)
  then show ?thesis using l by (simp add: e)
qed

theorem disconnected_forgets_requests_witness:
  "\<exists>w :: writer_state. let s = (cnn_on w)\<lparr>h_InPac := (h_InPac (cnn_on w))(31 :=
       (h_InPac (cnn_on w) 31)\<lparr>ip_Type := pt_code PT_DISCONNECTED\<rparr>)\<rparr> in
     cnn_ReqQueue (h_Cnn s 9) = [70, 71] \<and> replies (APB_HandleConnectionPacket 9 31 s) = [] \<and>
     cnns (APB_HandleConnectionPacket 9 31 s) = []"
proof -
  fix w :: writer_state
  let ?s = "(cnn_on w)\<lparr>h_InPac := (h_InPac (cnn_on w))(31 :=
       (h_InPac (cnn_on w) 31)\<lparr>ip_Type := pt_code PT_DISCONNECTED\<rparr>)\<rparr>"
  have "replies (APB_HandleConnectionPacket 9 31 ?s) = [] \<and> cnns (APB_HandleConnectionPacket 9 31 ?s) = []"
    using disconnected_forgets_requests [of ?s 31 9] by simp
  then show ?thesis by (intro exI [of _ w]) simp
qed

end
