(* ===== verification/Log.thy ===== *)
theory Log
  imports Memory
begin

text \<open>
  The log of the library (library/log.c): a line is put together in a buffer of 1024 bytes and
  handed to \<open>FPuts\<close>. Strings are lists of bytes without the final zero; the arguments of a
  format are the ULONGs on the caller's stack, \<open>strs\<close> reads the string a pointer points at.
  The counts of characters the functions add up are never used and only kept where they are
  returned.
\<close>

section \<open>State\<close>

definition PAD_ZERO :: u16 where "PAD_ZERO = 1"
definition PAD_RIGHT :: u16 where "PAD_RIGHT = 2"
definition SIGNED :: u16 where "SIGNED = 3"

definition LOG_BUF_LEN :: nat where "LOG_BUF_LEN = 1024"

definition LOG_ERROR :: u16 where "LOG_ERROR = 0"
definition LOG_INFO :: u16 where "LOG_INFO = 5"
definition LOG_DEBUG :: u16 where "LOG_DEBUG = 10"
definition LOG_TRACE :: u16 where "LOG_TRACE = 20"

text \<open>
  \<open>l_Buf\<close> is the address of the buffer, \<open>l_Text\<close> what it holds; \<open>l_Output\<close> tells whether there is an
  output file, \<open>l_Out\<close> are the strings written to it.
\<close>

record logger =
  l_MemPool :: "addr option"
  l_Output :: bool
  l_Level :: u16
  l_Buf :: "addr option"
  l_Text :: bytes
  l_End :: u16
  l_Out :: "u8 list list"
  l_Faults :: "fault list"

definition sizeof_Logger :: u32 where "sizeof_Logger = 80"

definition log_fault :: "fault \<Rightarrow> logger \<Rightarrow> logger" where
  "log_fault f l = l\<lparr>l_Faults := f # l_Faults l\<rparr>"

section \<open>Making and freeing\<close>

text \<open>The buffer is cleared through \<open>l->l_Buf\<close> whether or not the two allocations succeeded.\<close>

definition APB_CreateLogger ::
    "addr option \<Rightarrow> bool \<Rightarrow> u16 \<Rightarrow> bytes \<Rightarrow> exec_mem \<Rightarrow> (addr \<times> logger) option \<times> fault list \<times> exec_mem" where
  "APB_CreateLogger memPool outputFh level garbage m =
     (case APB_AllocMemInternal memPool sizeof_Logger m of
        (None, m1) \<Rightarrow> (None, [NullDeref], m1)
      | (Some a, m1) \<Rightarrow>
          (case APB_AllocMemInternal memPool (of_nat (LOG_BUF_LEN + 1)) m1 of
             (b, m2) \<Rightarrow>
               (Some (a, \<lparr>l_MemPool = memPool, l_Output = outputFh, l_Level = level, l_Buf = b,
                  l_Text = (\<lambda>i. if i \<le> LOG_BUF_LEN then 0 else garbage i), l_End = 0, l_Out = [],
                  l_Faults = []\<rparr>),
                if b = None then [NullDeref] else [], m2)))"

definition APB_FreeLogger :: "addr \<Rightarrow> logger \<Rightarrow> exec_mem \<Rightarrow> exec_mem" where
  "APB_FreeLogger a l m =
     APB_FreeMemInternal (l_MemPool l) (Some a) sizeof_Logger
       (if l_Buf l \<noteq> None
        then APB_FreeMemInternal (l_MemPool l) (l_Buf l) (of_nat (LOG_BUF_LEN + 1)) m else m)"

section \<open>Levels\<close>

definition APB_ShouldLogInternal :: "logger \<Rightarrow> u16 \<Rightarrow> bool" where
  "APB_ShouldLogInternal l level \<longleftrightarrow> level \<le> l_Level l \<and> l_Output l"

definition APB_SetLogLevel :: "u16 \<Rightarrow> logger \<Rightarrow> logger" where
  "APB_SetLogLevel level l = l\<lparr>l_Level := level\<rparr>"

text \<open>The first character of the name, zero for the empty one; -1 for no level.\<close>

definition APB_GetLogLevel :: "u8 list \<Rightarrow> int" where
  "APB_GetLogLevel levelName =
     (let c = (case levelName of [] \<Rightarrow> 0 | x # _ \<Rightarrow> x)
      in if c = 0x45 \<or> c = 0x65 then uint LOG_ERROR
         else if c = 0x49 \<or> c = 0x69 then uint LOG_INFO
         else if c = 0x44 \<or> c = 0x64 then uint LOG_DEBUG
         else if c = 0x54 \<or> c = 0x74 then uint LOG_TRACE
         else -1)"

section \<open>Characters, strings and numbers\<close>

definition APB_LogByte :: "u8 \<Rightarrow> logger \<Rightarrow> logger" where
  "APB_LogByte c l =
     (if unat (l_End l) \<ge> LOG_BUF_LEN then l
      else l\<lparr>l_Text := (l_Text l)(unat (l_End l) := c), l_End := l_End l + 1\<rparr>)"

primrec log_pad :: "nat \<Rightarrow> u8 \<Rightarrow> logger \<Rightarrow> logger" where
  "log_pad 0 pad l = l"
| "log_pad (Suc n) pad l = log_pad n pad (APB_LogByte pad l)"

primrec log_chars :: "u8 list \<Rightarrow> logger \<Rightarrow> logger" where
  "log_chars [] l = l"
| "log_chars (c # cs) l = log_chars cs (APB_LogByte c l)"

text \<open>What is left to pad: \<open>strlen\<close> goes into a UWORD.\<close>

definition pad_width :: "u8 list \<Rightarrow> u16 \<Rightarrow> u16" where
  "pad_width s width =
     (if width > 0
      then let len = of_nat (length s) in if len \<ge> width then 0 else width - len
      else 0)"

definition APB_LogString :: "u8 list \<Rightarrow> u16 \<Rightarrow> u16 \<Rightarrow> logger \<Rightarrow> u16 \<times> logger" where
  "APB_LogString s width flags l =
     (let pad = (if width > 0 \<and> flags AND PAD_ZERO \<noteq> 0 then 0x30 else 0x20);
          w = pad_width s width
      in (of_nat (length s) + w,
          if flags AND PAD_RIGHT = 0
          then log_chars s (log_pad (unat w) pad l)
          else log_pad (unat w) pad (log_chars s l)))"

text \<open>
  The digits are written from the end of \<open>l_NumBuf\<close> down, here a list growing at its front: at
  most 33 of its 63 places are used. The callers' bases are 10 and 16; base 0 divides by zero
  and base 1 does not end.
\<close>

definition digit_char :: "u16 \<Rightarrow> u8 \<Rightarrow> u32 \<Rightarrow> u8" where
  "digit_char base letBase u =
     (let d = ucast (u mod ucast base) :: u8
      in (if sint d \<ge> 10 then d + (letBase - 0x30 - 10) else d) + 0x30)"

function num_digits :: "u16 \<Rightarrow> u8 \<Rightarrow> u32 \<Rightarrow> u8 list \<Rightarrow> u8 list" where
  "num_digits base letBase u acc =
     (if u = 0 \<or> base < 2 then acc
      else num_digits base letBase (u div ucast base) (digit_char base letBase u # acc))"
  by pat_completeness auto
termination
proof (relation "measure (\<lambda>(b, l, u, acc). unat u)", simp)
  fix base :: u16 and letBase :: u8 and u :: u32 and acc :: "u8 list"
  assume a: "\<not> (u = 0 \<or> base < 2)"
  then have "1 < unat (ucast base :: u32)" by (simp add: word_less_nat_alt)
  moreover have "0 < unat u" using a by (simp add: unat_gt_0)
  ultimately show "((base, letBase, u div ucast base, digit_char base letBase u # acc), base, letBase, u, acc)
      \<in> measure (\<lambda>(b, l, u, acc). unat u)"
    by (simp add: unat_div)
qed

declare num_digits.simps [simp del]

definition number_text :: "u32 \<Rightarrow> u16 \<Rightarrow> u16 \<Rightarrow> u8 \<Rightarrow> u8 list" where
  "number_text v base flags letBase =
     (if v = 0 then [0x30]
      else let neg = flags AND SIGNED \<noteq> 0 \<and> base = 10 \<and> sint v < 0
           in (if neg then [0x2D] else []) @ num_digits base letBase (if neg then - v else v) [])"

definition APB_LogNumber :: "u32 \<Rightarrow> u16 \<Rightarrow> u16 \<Rightarrow> u16 \<Rightarrow> u8 \<Rightarrow> logger \<Rightarrow> u16 \<times> logger" where
  "APB_LogNumber v base width flags letBase l =
     APB_LogString (number_text v base flags letBase) width flags l"

definition level_name :: "u16 \<Rightarrow> u8 list" where
  "level_name level =
     (if level = LOG_ERROR then [0x45, 0x3A, 0x3A]
      else if level \<le> LOG_INFO then [0x49, 0x3A, 0x3A]
      else if level \<le> LOG_DEBUG then [0x44, 0x3A, 0x3A]
      else [0x54, 0x3A, 0x3A])"

definition APB_LogLevel :: "u16 \<Rightarrow> logger \<Rightarrow> u16 \<times> logger" where
  "APB_LogLevel level l = (3, snd (APB_LogString (level_name level) 0 0 l))"

section \<open>Formats\<close>

definition is_digit :: "u8 \<Rightarrow> bool" where
  "is_digit c \<longleftrightarrow> 0x30 \<le> c \<and> c \<le> 0x39"

text \<open>The width after the zeros, a UWORD.\<close>

definition dec_width :: "u8 list \<Rightarrow> u16" where
  "dec_width cs = foldl (\<lambda>w c. w * 10 + (ucast c - 0x30)) 0 cs"

definition takes_arg :: "u8 \<Rightarrow> bool" where
  "takes_arg c \<longleftrightarrow> c \<in> {0x64, 0x75, 0x78, 0x58, 0x63, 0x73}"

text \<open>One conversion: d, u, x, X, c, s; any other character is left out.\<close>

definition log_arg :: "(u32 \<Rightarrow> u8 list) \<Rightarrow> u8 \<Rightarrow> u32 \<Rightarrow> u16 \<Rightarrow> u16 \<Rightarrow> logger \<Rightarrow> logger" where
  "log_arg strs c v width flags l =
     (if c = 0x64 then snd (APB_LogNumber v 10 width (flags OR SIGNED) 0x61 l)
      else if c = 0x75 then snd (APB_LogNumber v 10 width flags 0x61 l)
      else if c = 0x78 then snd (APB_LogNumber v 16 width flags 0x61 l)
      else if c = 0x58 then snd (APB_LogNumber v 16 width flags 0x41 l)
      else if c = 0x63 then snd (APB_LogString [if (ucast v :: u8) < 0x20 then 0x2E else ucast v] width flags l)
      else if c = 0x73 then snd (APB_LogString (strs v) width flags l)
      else l)"

text \<open>
  The loop over the format. A format that ends within a conversion makes the loop step over the
  final zero and read on behind the string.
\<close>

function log_format ::
    "(u32 \<Rightarrow> u8 list) \<Rightarrow> u8 list \<Rightarrow> (nat \<Rightarrow> u32) \<Rightarrow> logger \<Rightarrow> logger" where
  "log_format strs fmt aa l =
     (case fmt of
        [] \<Rightarrow> l
      | ch # r \<Rightarrow>
          if ch \<noteq> 0x25 then log_format strs r aa (APB_LogByte ch l)
          else case r of
            [] \<Rightarrow> l
          | x # r1 \<Rightarrow>
              if x = 0x25 then log_format strs r1 aa (APB_LogByte 0x25 l)
              else let flags = (if x = 0x30 then PAD_ZERO else 0);
                       r2 = dropWhile (\<lambda>c. c = 0x30) r;
                       width = dec_width (takeWhile is_digit r2)
                   in case dropWhile is_digit r2 of
                        [] \<Rightarrow> log_fault OutOfBounds l
                      | c # r3 \<Rightarrow>
                          log_format strs r3 (if takes_arg c then (\<lambda>i. aa (Suc i)) else aa)
                            (log_arg strs c (aa 0) width flags l))"
  by pat_completeness auto
termination
proof (relation "measure (\<lambda>(strs, fmt, aa, l). length fmt)", simp_all)
  fix x :: u8 and r1 r3 :: "u8 list" and c
  assume "dropWhile is_digit (if x = 0x30 then dropWhile (\<lambda>c. c = 0x30) r1 else x # r1) = c # r3"
  moreover have "length (dropWhile is_digit (if x = 0x30 then dropWhile (\<lambda>c. c = 0x30) r1 else x # r1))
      \<le> length (x # r1)"
    using length_dropWhile_le [of is_digit "if x = 0x30 then dropWhile (\<lambda>c. c = 0x30) r1 else x # r1"]
      length_dropWhile_le [of "\<lambda>c. c = 0x30" r1] by (auto split: if_splits)
  ultimately show "length r3 < Suc (Suc (length r1))" by simp
qed

declare log_format.simps [simp del]

section \<open>Lines\<close>

definition FPuts :: "logger \<Rightarrow> logger" where
  "FPuts l =
     (let cs = bytes_of (l_Text l) 0 (LOG_BUF_LEN + 1)
      in if 0 \<in> set cs then l\<lparr>l_Out := l_Out l @ [takeWhile (\<lambda>c. c \<noteq> 0) cs]\<rparr>
         else log_fault OutOfBounds l)"

definition log_separator :: "u8 list" where "log_separator = [0x3A, 0x3A]"

definition APB_LogArgArrayInternal ::
    "(u32 \<Rightarrow> u8 list) \<Rightarrow> u8 list \<Rightarrow> u16 \<Rightarrow> u8 list \<Rightarrow> u16 \<Rightarrow> u8 list \<Rightarrow> (nat \<Rightarrow> u32) \<Rightarrow> logger \<Rightarrow> logger" where
  "APB_LogArgArrayInternal strs file line func level fmt args l =
     (if \<not> l_Output l then l
      else
        let l1 = snd (APB_LogLevel level (l\<lparr>l_End := 0\<rparr>));
            l2 = APB_LogByte 0x28 (snd (APB_LogString file 0 0 l1));
            l3 = APB_LogByte 0x29 (snd (APB_LogNumber (ucast line) 10 0 0 0x61 l2));
            l4 = snd (APB_LogString log_separator 0 0 l3);
            l5 = snd (APB_LogString log_separator 0 0 (snd (APB_LogString func 0 0 l4)));
            l6 = APB_LogByte 0 (APB_LogByte 0x0A (log_format strs fmt args l5))
        in FPuts l6)"

end
