(* ===== verification/LogProps.thy ===== *)
theory LogProps
  imports Log
begin

text \<open>
  What the log writes: numbers that read back as the value they stand for, lines that are the
  rendered format cut to the buffer, and the padded decimals that come out wrong.
\<close>

section \<open>Numbers\<close>

definition digit_value :: "u8 \<Rightarrow> nat" where
  "digit_value c = (if c \<le> 0x39 then unat c - 48 else if 0x61 \<le> c then unat c - 87 else unat c - 55)"

definition read_digits :: "nat \<Rightarrow> u8 list \<Rightarrow> nat" where
  "read_digits base cs = foldl (\<lambda>n c. n * base + digit_value c) 0 cs"

definition read_decimal :: "u8 list \<Rightarrow> int" where
  "read_decimal cs = (case cs of [] \<Rightarrow> 0
     | c # r \<Rightarrow> if c = 0x2D then - int (read_digits 10 r) else int (read_digits 10 cs))"

lemma small_u32_cases:
  assumes "unat (m :: u32) < 16"
  shows "m \<in> {0, 1, 2, 3, 4, 5, 6, 7, 8, 9, 10, 11, 12, 13, 14, 15}"
proof -
  have "unat m = 0 \<or> unat m = 1 \<or> unat m = 2 \<or> unat m = 3 \<or> unat m = 4 \<or> unat m = 5 \<or>
    unat m = 6 \<or> unat m = 7 \<or> unat m = 8 \<or> unat m = 9 \<or> unat m = 10 \<or> unat m = 11 \<or>
    unat m = 12 \<or> unat m = 13 \<or> unat m = 14 \<or> unat m = 15" using assms by presburger
  then show ?thesis by (simp add: word_unat_eq_iff)
qed

lemma digit_char_value:
  assumes "base = 10 \<or> base = 16" and "letBase = 0x61 \<or> letBase = 0x41"
  shows "digit_value (digit_char base letBase u) = unat u mod unat base"
    and "digit_char base letBase u \<notin> {0, 0x2D}"
proof -
  define m where "m = u mod ucast base"
  have b: "unat (ucast base :: u32) = unat base" by simp
  have v: "unat m = unat u mod unat base" by (simp add: m_def unat_mod b)
  also have "\<dots> < 16" using assms(1) by auto
  finally have m: "m \<in> {0, 1, 2, 3, 4, 5, 6, 7, 8, 9, 10, 11, 12, 13, 14, 15}" by (rule small_u32_cases)
  have d: "digit_char base letBase u = (let d = ucast m :: u8
      in (if sint d \<ge> 10 then d + (letBase - 0x30 - 10) else d) + 0x30)"
    by (simp add: digit_char_def m_def)
  have "digit_value (digit_char base letBase u) = unat m \<and> digit_char base letBase u \<notin> {0, 0x2D}"
    using m assms(2) unfolding d by (elim insertE disjE) (simp_all add: digit_value_def)
  then show "digit_value (digit_char base letBase u) = unat u mod unat base"
    "digit_char base letBase u \<notin> {0, 0x2D}" using v by simp_all
qed

lemma num_digits_append: "num_digits base letBase u (xs @ acc) = num_digits base letBase u xs @ acc"
proof (induction base letBase u xs rule: num_digits.induct)
  case (1 base letBase u xs)
  then show ?case
    by (cases "u = 0 \<or> base < 2")
      (auto simp: num_digits.simps [of base letBase u xs] num_digits.simps [of base letBase u "xs @ acc"])
qed

lemma num_digits_step:
  assumes "u \<noteq> 0" and "2 \<le> base"
  shows "num_digits base letBase u [] = num_digits base letBase (u div ucast base) [] @ [digit_char base letBase u]"
  using assms num_digits_append [of base letBase "u div ucast base" "[]" "[digit_char base letBase u]"]
  by (simp add: num_digits.simps [of base letBase u "[]"] not_less)

lemma num_digits_read:
  assumes "base = 10 \<or> base = 16" and "letBase = 0x61 \<or> letBase = 0x41"
  shows "read_digits (unat base) (num_digits base letBase u []) = unat u \<and>
    0 \<notin> set (num_digits base letBase u []) \<and> 0x2D \<notin> set (num_digits base letBase u [])"
proof (induction "unat u" arbitrary: u rule: less_induct)
  case less
  show ?case
  proof (cases "u = 0")
    case True
    then show ?thesis by (simp add: num_digits.simps [of base letBase 0 "[]"] read_digits_def)
  next
    case False
    have b: "2 \<le> base" "1 < unat base" using assms(1) by auto
    have q: "unat (u div ucast base) = unat u div unat base" by (simp add: unat_div)
    have "unat u div unat base < unat u" using False b(2) by (simp add: unat_gt_0)
    then have ih: "read_digits (unat base) (num_digits base letBase (u div ucast base) []) = unat u div unat base"
      "0 \<notin> set (num_digits base letBase (u div ucast base) [])"
      "0x2D \<notin> set (num_digits base letBase (u div ucast base) [])"
      using less [of "u div ucast base"] by (simp_all add: q)
    show ?thesis
      using ih digit_char_value [OF assms, of u]
      by (simp add: num_digits_step [OF False b(1)] read_digits_def del: mult.commute)
  qed
qed

lemma flags_signed: "(flags OR SIGNED) AND SIGNED \<noteq> (0 :: u16)"
  "(flags OR SIGNED) AND PAD_RIGHT \<noteq> (0 :: u16)" "(flags OR SIGNED) AND PAD_ZERO \<noteq> (0 :: u16)"
proof -
  have "bit ((flags OR SIGNED) AND SIGNED) 0" "bit ((flags OR SIGNED) AND PAD_RIGHT) 1"
    "bit ((flags OR SIGNED) AND PAD_ZERO) 0"
    by (simp_all add: SIGNED_def PAD_RIGHT_def PAD_ZERO_def bit_simps)
  then show "(flags OR SIGNED) AND SIGNED \<noteq> (0 :: u16)"
    "(flags OR SIGNED) AND PAD_RIGHT \<noteq> (0 :: u16)" "(flags OR SIGNED) AND PAD_ZERO \<noteq> (0 :: u16)"
    by auto
qed

section \<open>The buffer\<close>

definition line_of :: "logger \<Rightarrow> u8 list" where
  "line_of l = bytes_of (l_Text l) 0 (unat (l_End l))"

text \<open>Everything but the buffer's first 1024 bytes and the end mark.\<close>

definition same_logger :: "logger \<Rightarrow> logger \<Rightarrow> bool" where
  "same_logger l l1 \<longleftrightarrow> l_MemPool l1 = l_MemPool l \<and> l_Output l1 = l_Output l \<and> l_Level l1 = l_Level l \<and>
     l_Buf l1 = l_Buf l \<and> l_Out l1 = l_Out l \<and> l_Faults l1 = l_Faults l \<and>
     (\<forall>i \<ge> LOG_BUF_LEN. l_Text l1 i = l_Text l i)"

lemma same_logger_refl [simp]: "same_logger l l"
  by (simp add: same_logger_def)



lemma length_line [simp]: "length (line_of l) = unat (l_End l)"
  by (simp add: line_of_def)






text \<open>A string in its field.\<close>

definition padded :: "u8 list \<Rightarrow> u16 \<Rightarrow> u16 \<Rightarrow> u8 list" where
  "padded s width flags =
     (let fill = replicate (unat (pad_width s width)) (if flags AND PAD_ZERO \<noteq> 0 then 0x30 else 0x20)
      in if flags AND PAD_RIGHT = 0 then fill @ s else s @ fill)"



section \<open>Formats\<close>




definition conv_text :: "(u32 \<Rightarrow> u8 list) \<Rightarrow> u8 \<Rightarrow> u32 \<Rightarrow> u16 \<Rightarrow> u16 \<Rightarrow> u8 list" where
  "conv_text strs c v width flags =
     (if c = 0x64 then padded (number_text v 10 (flags OR SIGNED) 0x61) width (flags OR SIGNED)
      else if c = 0x75 then padded (number_text v 10 flags 0x61) width flags
      else if c = 0x78 then padded (number_text v 16 flags 0x61) width flags
      else if c = 0x58 then padded (number_text v 16 flags 0x41) width flags
      else if c = 0x63 then padded [if (ucast v :: u8) < 0x20 then 0x2E else ucast v] width flags
      else if c = 0x73 then padded (strs v) width flags
      else [])"




section \<open>No zero inside a line\<close>






section \<open>Lines\<close>





lemma sint_u32: "sint (v :: u32) = (if uint v < 2147483648 then uint v else uint v - 4294967296)"
proof -
  have b: "0 \<le> uint v" "uint v < 4294967296" using uint_lt2p [of v] by simp_all
  have s: "sint v = (uint v + 2147483648) mod 4294967296 - 2147483648"
    using int_word_sint [of "uint v", where 'a = 32] by simp
  show ?thesis
  proof (cases "uint v < 2147483648")
    case True
    then have "(uint v + 2147483648) mod 4294967296 = uint v + 2147483648"
      using b by (intro mod_pos_pos_trivial) linarith+
    then show ?thesis using True s by simp
  next
    case False
    have e: "uint v + 2147483648 = (uint v - 2147483648) + 4294967296" by simp
    have "(uint v + 2147483648) mod 4294967296 = ((uint v - 2147483648) + 4294967296) mod 4294967296"
      by (simp only: e)
    also have "\<dots> = (uint v - 2147483648) mod 4294967296" by (rule mod_add_self2)
    also have "\<dots> = uint v - 2147483648" using False b by (intro mod_pos_pos_trivial) linarith+
    finally show ?thesis using False s by simp
  qed
qed

section \<open>Properties\<close>




text \<open>
  C40: the numbers in a line are the numbers they stand for: read back as a decimal, what \<open>%d\<close>
  writes is the signed value of its 32 bit argument, down to the most negative one, and what
  \<open>%x\<close> and \<open>%X\<close> write reads back in base 16 as the unsigned value.
\<close>

theorem log_number_roundtrip:
  "read_decimal (number_text v 10 (flags OR SIGNED) 0x61) = sint v \<and>
   read_digits 16 (number_text v 16 flags 0x61) = unat v \<and>
   read_digits 16 (number_text v 16 flags 0x41) = unat v"
proof -
  have z: "read_digits b [0x30] = 0" for b by (simp add: read_digits_def digit_value_def)
  have pos: "read_decimal cs = int (read_digits 10 cs)" if "0x2D \<notin> set cs" for cs
    using that by (cases cs) (auto simp: read_decimal_def read_digits_def)
  note d = num_digits_read [of 10 "0x61"]
  have "read_decimal (number_text v 10 (flags OR SIGNED) 0x61) = sint v"
  proof (cases "sint v < 0")
    case True
    have i: "sint v = uint v - 4294967296" using True uint_ge_0 [of v] by (simp add: sint_u32 split: if_splits)
    have "v \<noteq> 0" using True by auto
    have b: "0 < uint v" "uint v < 4294967296"
      using \<open>v \<noteq> 0\<close> uint_lt2p [of v] by (simp_all add: order_less_le uint_0_iff)
    have "uint (- v) = - uint v mod 4294967296" by (simp add: uint_word_ariths)
    also have "\<dots> = (- uint v + 4294967296) mod 4294967296" by (rule mod_add_self2 [symmetric])
    also have "\<dots> = - uint v + 4294967296" using b by (intro mod_pos_pos_trivial) linarith+
    finally have u: "uint (- v) = - uint v + 4294967296" .
    have "int (unat (- v)) = uint (- v)" by (rule uint_nat [symmetric])
    then have "int (unat (- v)) = 4294967296 - uint v" using u by linarith
    have "SIGNED \<noteq> 0" by (simp add: SIGNED_def)
    then have t: "number_text v 10 (flags OR SIGNED) 0x61 = 0x2D # num_digits 10 0x61 (- v) []"
      using True \<open>v \<noteq> 0\<close> flags_signed(1) [of flags] by (simp add: number_text_def Let_def)
    have "read_digits 10 (num_digits 10 0x61 (- v) []) = unat (- v)" using d [of "- v"] by simp
    then have "read_decimal (number_text v 10 (flags OR SIGNED) 0x61) = - int (unat (- v))"
      unfolding t by (simp add: read_decimal_def)
    then show ?thesis using \<open>int (unat (- v)) = 4294967296 - uint v\<close> i by linarith
  next
    case False
    have i: "sint v = uint v" using False uint_lt2p [of v] by (simp add: sint_u32 split: if_splits)
    show ?thesis
    proof (cases "v = 0")
      case True
      then show ?thesis by (simp add: number_text_def read_decimal_def z)
    next
      case nz: False
      have t: "number_text v 10 (flags OR SIGNED) 0x61 = num_digits 10 0x61 v []"
        using False nz by (simp add: number_text_def Let_def)
      have "read_decimal (num_digits 10 0x61 v []) = int (unat v)"
        using d [of v] pos [of "num_digits 10 0x61 v []"] by simp
      then show ?thesis unfolding t i by (simp only: uint_nat)
    qed
  qed
  moreover have "read_digits 16 (number_text v 16 flags b) = unat v" if "b = 0x61 \<or> b = 0x41" for b
    using num_digits_read [of 16 b v] that by (simp add: number_text_def z)
  ultimately show ?thesis by simp
qed

text \<open>
  A field width makes \<open>%d\<close> write another number. \<open>SIGNED\<close> is 3, which holds the bits of
  \<open>PAD_ZERO\<close> and \<open>PAD_RIGHT\<close>, so the field is filled up with zeros on the right: a value that
  is \<open>k\<close> characters too short for its field reads as \<open>10 ^ k\<close> times the value.
\<close>

theorem padded_decimal_is_wrong:
  assumes "length (number_text v 10 (flags OR SIGNED) 0x61) + k = unat width" and "0 < unat width"
  shows "read_decimal (conv_text strs 0x64 v width flags) = read_decimal (number_text v 10 (flags OR SIGNED) 0x61) * 10 ^ k"
proof -
  let ?t = "number_text v 10 (flags OR SIGNED) 0x61"
  have len: "unat (of_nat (length ?t) :: u16) = length ?t"
    using assms(1) unat_u16_less [of width] by (intro unat_of_nat_u16) linarith
  have "unat (pad_width ?t width) = k"
  proof (cases "k = 0")
    case True
    then show ?thesis using assms len by (simp add: pad_width_def Let_def word_less_nat_alt word_le_nat_alt)
  next
    case False
    then have "unat (width - of_nat (length ?t)) = k" using assms len by (simp add: unat_sub_u16)
    then show ?thesis
      using False assms len by (simp add: pad_width_def Let_def word_less_nat_alt word_le_nat_alt)
  qed
  then have e: "conv_text strs 0x64 v width flags = ?t @ replicate k 0x30"
    by (simp add: conv_text_def padded_def flags_signed)
  have z: "read_digits 10 (cs @ replicate k 0x30) = read_digits 10 cs * 10 ^ k" for cs
  proof (induction k)
    case (Suc k)
    have "cs @ replicate (Suc k) 0x30 = (cs @ replicate k 0x30) @ [0x30]"
      by (simp add: replicate_append_same)
    then show ?case using Suc by (simp add: read_digits_def digit_value_def)
  qed simp
  have "?t \<noteq> []"
    using num_digits_step [of v 10 "0x61"] by (auto simp: number_text_def Let_def)
  then obtain c r where "?t = c # r" by (cases ?t) auto
  then show ?thesis using z [of r] z [of "c # r"] by (simp add: e read_decimal_def)
qed

theorem padded_decimal_is_wrong_witness:
  "number_text 12 10 (0 OR SIGNED) 0x61 = [0x31, 0x32] \<and> read_decimal (conv_text (\<lambda>_. []) 0x64 12 5 0) = 12000"
proof -
  have n: "number_text 12 10 (0 OR SIGNED) 0x61 = [0x31, 0x32]"
    by (simp add: number_text_def num_digits.simps digit_char_def SIGNED_def)
  have "read_decimal (conv_text (\<lambda>_. []) 0x64 12 5 0) = read_decimal (number_text 12 10 (0 OR SIGNED) 0x61) * 10 ^ 3"
    by (rule padded_decimal_is_wrong) (simp_all only: n, simp_all)
  moreover have "read_decimal [0x31, 0x32] = 12"
    by (simp add: read_decimal_def read_digits_def digit_value_def)
  ultimately show ?thesis by (simp only: n) simp
qed

end
