(* ===== verification/FsState.thy ===== *)
theory FsState
  imports ObjectPool
begin

text \<open>
  The file system client (clients/ApbFs): its data (apbfs.h), its requests to the remote side
  (request.c) and the two queues they go through (device.c). It is a process of its own, with
  its own object pool. What DOS owns (packets, file handles, info blocks) is in heaps by address;
  \<open>fs_mem\<close> is the memory user data and names are in. Addresses in packets are BPTRs or plain
  pointers in 32 bit words. DOS and Exec calls that only hand something over are traces.
  After an access through NULL an operation stops where it is: what follows is not the program's.
\<close>

section \<open>Data\<close>

definition MAX_NAME_LEN :: nat where "MAX_NAME_LEN = 31"
definition MAX_WRITE_LEN :: nat where "MAX_WRITE_LEN = 512"

definition OT_VOLUME :: u16 where "OT_VOLUME = 0x1122"
definition OT_REQUEST_MIN :: u16 where "OT_REQUEST_MIN = 0x1123"
definition OT_REQUEST_MAX :: u16 where "OT_REQUEST_MAX = 0x1124"
definition OT_LOCK :: u16 where "OT_LOCK = 0x1125"

datatype device_state = ST_STARTING | ST_MOUNTED | ST_NOT_CONNECTED | ST_CONNECTED | ST_STOPPING

definition MOUNT_VOLUME_KEY :: u32 where "MOUNT_VOLUME_KEY = 0xFFFFFFFF"
definition UNMOUNT_VOLUME_KEY :: u32 where "UNMOUNT_VOLUME_KEY = 0xFFFFFFFE"

text \<open>The packet types the handler tells apart.\<close>

datatype action =
    ACTION_LOCATE_OBJECT | ACTION_FREE_LOCK | ACTION_COPY_DIR | ACTION_SAME_LOCK
  | ACTION_IS_FILESYSTEM | ACTION_DISK_INFO | ACTION_INFO | ACTION_SET_PROTECT
  | ACTION_SET_COMMENT | ACTION_SET_DATE | ACTION_FINDINPUT | ACTION_FINDOUTPUT
  | ACTION_FINDUPDATE | ACTION_FLUSH | ACTION_END | ACTION_EXAMINE_OBJECT | ACTION_EXAMINE_NEXT
  | ACTION_EXAMINE_FH | ACTION_PARENT | ACTION_READ | ACTION_WRITE | ACTION_SEEK
  | ACTION_PARENT_FH | ACTION_FH_FROM_LOCK | ACTION_CREATE_DIR | ACTION_DELETE_OBJECT
  | ACTION_RENAME_OBJECT | ACTION_CURRENT_VOLUME | ACTION_OTHER u32

text \<open>Values of AmigaDOS.\<close>

definition DOSTRUE :: u32 where "DOSTRUE = 0xFFFFFFFF"
definition DOSFALSE :: u32 where "DOSFALSE = 0"
definition SHARED_LOCK :: u32 where "SHARED_LOCK = 0xFFFFFFFE"
definition ERROR_NO_FREE_STORE :: u32 where "ERROR_NO_FREE_STORE = 103"
definition ERROR_ACTION_NOT_KNOWN :: u32 where "ERROR_ACTION_NOT_KNOWN = 209"
definition ERROR_DEVICE_NOT_MOUNTED :: u32 where "ERROR_DEVICE_NOT_MOUNTED = 218"
definition ID_NO_DISK_PRESENT :: u32 where "ID_NO_DISK_PRESENT = 0xFFFFFFFF"
definition ID_VALIDATED :: u32 where "ID_VALIDATED = 82"

record dos_packet =
  dp_Type :: action
  dp_Arg1 :: u32
  dp_Arg2 :: u32
  dp_Arg3 :: u32
  dp_Arg4 :: u32
  dp_Res1 :: u32
  dp_Res2 :: u32

record info_data =
  id_NumSoftErrors :: u32
  id_UnitNumber :: u32
  id_DiskState :: u32
  id_NumBlocks :: u32
  id_NumBlocksUsed :: u32
  id_BytesPerBlock :: u32
  id_DiskType :: u32
  id_VolumeNode :: u32
  id_InUse :: u32

record volume =
  v_DevName :: "addr option"
  v_Name :: "u8 list"
  v_Port :: "nat option"
  v_Dev :: "addr option"
  v_Vol :: "addr option"
  v_Id :: u16
  v_LockCount :: u16
  v_Mounted :: bool

text \<open>\<open>fr_Data\<close> is the room behind the structure; \<open>r_Self\<close>, the request's own address, is left out.\<close>

record fs_request =
  fr_Volume :: addr
  fr_Pkt :: addr
  fr_Arg1 :: u32
  fr_Arg2 :: u32
  fr_Arg3 :: u32
  fr_Arg4 :: u32
  fr_VolId :: u16
  fr_Type :: action
  fr_Length :: u16
  fr_Data :: bytes

record fs_response =
  fs_Req :: u32
  fs_Res1 :: u32
  fs_Res2 :: u32
  fs_Data :: bytes

record file_lock =
  fl_Key :: u32
  fl_Access :: u32
  fl_Task :: "nat option"
  fl_Volume :: u32
  fl_Magic :: u16

text \<open>What goes to the server's port, and what the DOS library is asked to do with its list.\<close>

datatype fs_io = Fs_Read | Fs_Write addr u16

datatype dos_call = RemDosEntry addr | FreeDosEntry "addr option" | DeletePort "nat option"

record fs_state = pool +
  h_Vol :: "addr \<Rightarrow> volume"
  h_FsReq :: "addr \<Rightarrow> fs_request"
  h_Lock :: "addr \<Rightarrow> file_lock"
  h_Pkt :: "addr \<Rightarrow> dos_packet"
  h_FH :: "addr \<Rightarrow> u32"
  h_Fib :: "addr \<Rightarrow> bytes"
  h_Info :: "addr \<Rightarrow> info_data"
  fs_mem :: bytes
  fs_Vols :: "addr list"
  fs_Reqs :: "addr list"
  fs_SentReqs :: "addr list"
  fs_Status :: device_state
  fs_VolSigBits :: u32
  fs_WriteReady :: bool
  fs_io :: "fs_io list"
  dos_replies :: "(addr \<times> dos_packet) list"
  dos_calls :: "dos_call list"

section \<open>Pointers and updates\<close>

definition BADDR :: "u32 \<Rightarrow> addr option" where
  "BADDR p = (if push_bit 2 p = 0 then None else Some (unat (push_bit 2 p)))"

definition MKBADDR :: "addr option \<Rightarrow> u32" where
  "MKBADDR p = (case p of None \<Rightarrow> 0 | Some a \<Rightarrow> drop_bit 2 (of_nat a))"

definition upd_vol :: "addr \<Rightarrow> (volume \<Rightarrow> volume) \<Rightarrow> fs_state \<Rightarrow> fs_state" where
  "upd_vol v f s = s\<lparr>h_Vol := (h_Vol s)(v := f (h_Vol s v))\<rparr>"

definition upd_fr :: "addr \<Rightarrow> (fs_request \<Rightarrow> fs_request) \<Rightarrow> fs_state \<Rightarrow> fs_state" where
  "upd_fr r f s = s\<lparr>h_FsReq := (h_FsReq s)(r := f (h_FsReq s r))\<rparr>"

definition upd_lock :: "addr \<Rightarrow> (file_lock \<Rightarrow> file_lock) \<Rightarrow> fs_state \<Rightarrow> fs_state" where
  "upd_lock l f s = s\<lparr>h_Lock := (h_Lock s)(l := f (h_Lock s l))\<rparr>"

definition upd_pkt :: "addr \<Rightarrow> (dos_packet \<Rightarrow> dos_packet) \<Rightarrow> fs_state \<Rightarrow> fs_state" where
  "upd_pkt p f s = s\<lparr>h_Pkt := (h_Pkt s)(p := f (h_Pkt s p))\<rparr>"

definition dos_do :: "dos_call \<Rightarrow> fs_state \<Rightarrow> fs_state" where
  "dos_do c s = s\<lparr>dos_calls := dos_calls s @ [c]\<rparr>"

text \<open>The key of a lock, 0 for none.\<close>

definition LOCK_KEY :: "fs_state \<Rightarrow> u32 \<Rightarrow> u32" where
  "LOCK_KEY s p = (case BADDR p of None \<Rightarrow> 0 | Some l \<Rightarrow> fl_Key (h_Lock s l))"

text \<open>The length byte of a BSTR is read as a signed BYTE; one more, for itself, goes into a UWORD.\<close>

definition bstr_len :: "fs_state \<Rightarrow> u32 \<Rightarrow> u16" where
  "bstr_len s p = scast (fs_mem s (unat (push_bit 2 p))) + 1"

section \<open>Requests\<close>

definition FS_AllocRequest ::
    "addr \<Rightarrow> addr \<Rightarrow> action \<Rightarrow> u16 \<Rightarrow> fs_state \<Rightarrow> addr option \<times> fs_state" where
  "FS_AllocRequest vol pkt ty len s =
     (case APB_AllocObject (if len > 0 then OT_REQUEST_MAX else OT_REQUEST_MIN) s of
        (None, s1) \<Rightarrow> (None, s1)
      | (Some r, s1) \<Rightarrow>
          (Some r, upd_fr r (\<lambda>x. x\<lparr>fr_Volume := vol, fr_VolId := v_Id (h_Vol s1 vol), fr_Pkt := pkt,
             fr_Type := ty, fr_Length := 0, fr_Arg1 := 0, fr_Arg2 := 0, fr_Arg3 := 0, fr_Arg4 := 0\<rparr>) s1))"

text \<open>\<open>CopyMem\<close> from \<open>fs_mem\<close> at \<open>data\<close>; the room behind a request is \<open>MAX_WRITE_LEN\<close> bytes.\<close>

definition FS_AppendArg :: "addr \<Rightarrow> nat \<Rightarrow> u16 \<Rightarrow> addr \<Rightarrow> fs_state \<Rightarrow> fs_state" where
  "FS_AppendArg r arg len data s =
     (let x = h_FsReq s r; d = unat (fr_Length x);
          s1 = (if MAX_WRITE_LEN < d + unat len then add_fault OutOfBounds s else s);
          put = (\<lambda>y. if arg = 1 then y\<lparr>fr_Arg1 := ucast (fr_Length x)\<rparr>
                     else if arg = 2 then y\<lparr>fr_Arg2 := ucast (fr_Length x)\<rparr>
                     else if arg = 3 then y\<lparr>fr_Arg3 := ucast (fr_Length x)\<rparr>
                     else if arg = 4 then y\<lparr>fr_Arg4 := ucast (fr_Length x)\<rparr> else y)
      in upd_fr r (\<lambda>y. put (y\<lparr>fr_Data := copy_mem (fs_mem s) data (fr_Data y) d (unat len),
           fr_Length := fr_Length x + len\<rparr>)) s1)"

definition FS_FreeRequest :: "addr \<Rightarrow> fs_state \<Rightarrow> fs_state" where
  "FS_FreeRequest r s =
     APB_FreeObject (if fr_Length (h_FsReq s r) > 0 then OT_REQUEST_MAX else OT_REQUEST_MIN) r s"

section \<open>The way to the server\<close>

text \<open>A request is sent from \<open>r_Self\<close> on: 26 bytes of it and the data behind it.\<close>

definition FS_SendReq :: "fs_state \<Rightarrow> fs_state" where
  "FS_SendReq s =
     (case fs_Reqs s of
        [] \<Rightarrow> s
      | r # rs \<Rightarrow>
          s\<lparr>fs_Reqs := rs, fs_io := fs_io s @ [Fs_Write r (26 + fr_Length (h_FsReq s r))],
            fs_SentReqs := fs_SentReqs s @ [r], fs_WriteReady := False\<rparr>)"

definition FS_EnqueueRequest :: "addr \<Rightarrow> fs_state \<Rightarrow> fs_state" where
  "FS_EnqueueRequest r s =
     (let s1 = s\<lparr>fs_Reqs := fs_Reqs s @ [r]\<rparr> in if fs_WriteReady s1 then FS_SendReq s1 else s1)"

text \<open>
  What most actions do: a request is allocated, filled in and enqueued. It is filled in through
  NULL when there was none.
\<close>

definition ask_remote ::
    "addr \<Rightarrow> addr \<Rightarrow> action \<Rightarrow> u16 \<Rightarrow> (addr \<Rightarrow> fs_state \<Rightarrow> fs_state) \<Rightarrow> fs_state \<Rightarrow> fs_state" where
  "ask_remote vol pkt ty len fill s =
     (case FS_AllocRequest vol pkt ty len s of
        (None, s1) \<Rightarrow> add_fault NullDeref s1
      | (Some r, s1) \<Rightarrow> FS_EnqueueRequest r (fill r s1))"

end
