(* ===== verification/FsVolume.thy ===== *)
theory FsVolume
  imports FsState
begin

text \<open>
  Volumes of the file system client (clients/ApbFs/volume.c): mounting, locks, the packets DOS
  sends and the answers of the remote side. What DOS answers is an input of the operation that
  asks; a function that ends without \<open>return\<close> leaves in D0 whatever was there, \<open>junk\<close>.
\<close>

section \<open>Locks\<close>

definition FS_AllocLock :: "addr \<Rightarrow> fs_state \<Rightarrow> addr option \<times> fs_state" where
  "FS_AllocLock vol s =
     (case APB_AllocObject OT_LOCK s of
        (None, s1) \<Rightarrow> (None, s1)
      | (Some l, s1) \<Rightarrow>
          (Some l, upd_vol vol (\<lambda>v. v\<lparr>v_LockCount := v_LockCount v + 1\<rparr>)
             (upd_lock l (\<lambda>x. x\<lparr>fl_Magic := of_nat l\<rparr>) s1)))"

definition FS_FreeLock :: "addr \<Rightarrow> addr option \<Rightarrow> fs_state \<Rightarrow> fs_state" where
  "FS_FreeLock vol lock s =
     (case lock of
        None \<Rightarrow> s
      | Some l \<Rightarrow>
          if fl_Magic (h_Lock s l) \<noteq> of_nat l then s
          else upd_vol vol (\<lambda>v. v\<lparr>v_LockCount := v_LockCount v - 1\<rparr>) (APB_FreeObject OT_LOCK l s))"

section \<open>Mounting\<close>

text \<open>
  \<open>MakeDosEntry\<close> gave \<open>ea_Entry\<close>, \<open>AddDosEntry\<close> succeeded if \<open>ea_Added\<close>. \<open>found\<close> is what
  \<open>FindDosEntry\<close> finds under the name.
\<close>

record entry_answer =
  ea_Entry :: "addr option"
  ea_Added :: bool
  ea_Junk :: bool

definition FS_RemoveDosEntry :: "addr option \<Rightarrow> fs_state \<Rightarrow> fs_state" where
  "FS_RemoveDosEntry found s = (case found of None \<Rightarrow> s | Some e \<Rightarrow> dos_do (RemDosEntry e) s)"

definition FS_MountVolume :: "entry_answer \<Rightarrow> addr \<Rightarrow> fs_state \<Rightarrow> bool \<times> fs_state" where
  "FS_MountVolume ea vol s =
     (let s1 = upd_vol vol (\<lambda>v. v\<lparr>v_Vol := ea_Entry ea\<rparr>) s
      in if ea_Entry ea \<noteq> None \<and> ea_Added ea
         then (True, upd_vol vol (\<lambda>v. v\<lparr>v_LockCount := 0, v_Mounted := True\<rparr>) s1)
         else (ea_Junk ea, dos_do (FreeDosEntry (ea_Entry ea)) s1))"

definition FS_UnmountVolume :: "addr option \<Rightarrow> addr \<Rightarrow> fs_state \<Rightarrow> fs_state" where
  "FS_UnmountVolume found vol s =
     (if \<not> v_Mounted (h_Vol s vol) then s
      else upd_vol vol (\<lambda>v. v\<lparr>v_Mounted := False\<rparr>)
        (if v_Vol (h_Vol s vol) \<noteq> None
         then upd_vol vol (\<lambda>v. v\<lparr>v_Vol := None\<rparr>)
                (dos_do (FreeDosEntry (v_Vol (h_Vol s vol))) (FS_RemoveDosEntry found s))
         else s))"

definition DEV_NAME_SIZE :: u32 where "DEV_NAME_SIZE = 10"

text \<open>On failure it is the volume's entry that is freed, not the device's.\<close>

definition FS_CreateDosDevice :: "entry_answer \<Rightarrow> addr \<Rightarrow> fs_state \<Rightarrow> bool \<times> fs_state" where
  "FS_CreateDosDevice ea vol s =
     (case APB_AllocMem DEV_NAME_SIZE s of
        (None, s1) \<Rightarrow>
          (ea_Junk ea, APB_FreeMem None DEV_NAME_SIZE (upd_vol vol (\<lambda>v. v\<lparr>v_DevName := None\<rparr>) s1))
      | (Some a, s1) \<Rightarrow>
          (let s2 = upd_vol vol (\<lambda>v. v\<lparr>v_DevName := Some a, v_Dev := ea_Entry ea\<rparr>) s1
           in if ea_Entry ea \<noteq> None \<and> ea_Added ea then (True, s2)
              else (ea_Junk ea, APB_FreeMem (Some a) DEV_NAME_SIZE
                     (dos_do (FreeDosEntry (v_Vol (h_Vol s2 vol))) s2))))"

definition FS_FreeDosDevice :: "addr option \<Rightarrow> addr \<Rightarrow> fs_state \<Rightarrow> fs_state" where
  "FS_FreeDosDevice found vol s =
     (let s1 = (if v_Dev (h_Vol s vol) \<noteq> None
                then dos_do (FreeDosEntry (v_Dev (h_Vol s vol))) (FS_RemoveDosEntry found s) else s)
      in if v_DevName (h_Vol s1 vol) \<noteq> None
         then APB_FreeMem (v_DevName (h_Vol s1 vol)) DEV_NAME_SIZE s1 else s1)"

record volume_answer =
  va_Port :: "nat option"
  va_Dev :: entry_answer
  va_Vol :: entry_answer
  va_Found :: "addr option"

text \<open>A name of 31 characters or more is cut off without its final zero.\<close>

definition FS_CreateVolume ::
    "volume_answer \<Rightarrow> u16 \<Rightarrow> u8 list \<Rightarrow> fs_state \<Rightarrow> addr option \<times> fs_state" where
  "FS_CreateVolume va i name s =
     (case APB_AllocObject OT_VOLUME s of
        (None, s1) \<Rightarrow> (None, s1)
      | (Some vol, s1) \<Rightarrow>
          (let s2 = upd_vol vol (\<lambda>v. v\<lparr>v_Id := i, v_Name := take MAX_NAME_LEN name, v_Port := va_Port va\<rparr>) s1
           in if va_Port va = None then (None, APB_FreeObject OT_VOLUME vol s2)
              else case FS_CreateDosDevice (va_Dev va) vol s2 of
                (False, s3) \<Rightarrow> (None, APB_FreeObject OT_VOLUME vol (dos_do (DeletePort (va_Port va)) s3))
              | (True, s3) \<Rightarrow>
                  (case FS_MountVolume (va_Vol va) vol s3 of
                     (True, s4) \<Rightarrow> (Some vol, s4)
                   | (False, s4) \<Rightarrow>
                       (None, APB_FreeObject OT_VOLUME vol (dos_do (DeletePort (va_Port va))
                          (FS_FreeDosDevice (va_Found va) vol s4))))))"

definition FS_FreeVolume :: "addr option \<Rightarrow> addr option \<Rightarrow> addr \<Rightarrow> fs_state \<Rightarrow> fs_state" where
  "FS_FreeVolume foundVol foundDev vol s =
     (let s1 = (if v_Vol (h_Vol s vol) \<noteq> None
                then let t = FS_UnmountVolume foundVol vol s
                     in dos_do (FreeDosEntry (v_Vol (h_Vol t vol))) t
                else s);
          s2 = FS_FreeDosDevice foundDev vol s1;
          s3 = (if v_Port (h_Vol s2 vol) \<noteq> None then dos_do (DeletePort (v_Port (h_Vol s2 vol))) s2 else s2)
      in APB_FreeObject OT_VOLUME vol s3)"

section \<open>Packets of DOS\<close>

text \<open>The reply is the packet as it stands; the request of a response goes back to its pool.\<close>

definition FS_ReplyToDosPacket :: "addr option \<Rightarrow> addr \<Rightarrow> fs_state \<Rightarrow> fs_state" where
  "FS_ReplyToDosPacket req pkt s =
     (let s1 = s\<lparr>dos_replies := dos_replies s @ [(pkt, h_Pkt s pkt)]\<rparr>
      in case req of None \<Rightarrow> s1 | Some r \<Rightarrow> FS_FreeRequest r s1)"

definition FS_ActionLocateObject :: "addr \<Rightarrow> addr \<Rightarrow> fs_state \<Rightarrow> fs_state" where
  "FS_ActionLocateObject vol pkt s =
     (let p = h_Pkt s pkt; len = bstr_len s (dp_Arg2 p)
      in ask_remote vol pkt ACTION_LOCATE_OBJECT len
           (\<lambda>r t. upd_fr r (\<lambda>x. x\<lparr>fr_Arg1 := LOCK_KEY t (dp_Arg1 p), fr_Arg3 := dp_Arg3 p\<rparr>)
                    (FS_AppendArg r 2 len (unat (push_bit 2 (dp_Arg2 p))) t)) s)"

definition FS_ActionFreeLock :: "addr \<Rightarrow> addr \<Rightarrow> fs_state \<Rightarrow> fs_state" where
  "FS_ActionFreeLock vol pkt s =
     (let key = LOCK_KEY s (dp_Arg1 (h_Pkt s pkt))
      in if key = 0 then FS_ReplyToDosPacket None pkt (upd_pkt pkt (\<lambda>p. p\<lparr>dp_Res1 := DOSTRUE\<rparr>) s)
         else ask_remote vol pkt ACTION_FREE_LOCK 0 (\<lambda>r. upd_fr r (\<lambda>x. x\<lparr>fr_Arg1 := key\<rparr>)) s)"

definition FS_ActionSameLock :: "addr \<Rightarrow> addr \<Rightarrow> fs_state \<Rightarrow> fs_state" where
  "FS_ActionSameLock vol pkt s =
     (let key1 = LOCK_KEY s (dp_Arg1 (h_Pkt s pkt)); key2 = LOCK_KEY s (dp_Arg2 (h_Pkt s pkt))
      in if key1 = key2 then FS_ReplyToDosPacket None pkt (upd_pkt pkt (\<lambda>p. p\<lparr>dp_Res1 := DOSTRUE\<rparr>) s)
         else ask_remote vol pkt ACTION_SAME_LOCK 0
                (\<lambda>r. upd_fr r (\<lambda>x. x\<lparr>fr_Arg1 := key1, fr_Arg2 := key2\<rparr>)) s)"

definition FS_ActionCopyDir :: "addr \<Rightarrow> addr \<Rightarrow> fs_state \<Rightarrow> fs_state" where
  "FS_ActionCopyDir vol pkt s =
     (case FS_AllocLock vol s of
        (None, s1) \<Rightarrow> upd_pkt pkt (\<lambda>p. p\<lparr>dp_Res1 := DOSFALSE, dp_Res2 := ERROR_NO_FREE_STORE\<rparr>) s1
      | (Some c, s1) \<Rightarrow>
          upd_pkt pkt (\<lambda>p. p\<lparr>dp_Res1 := MKBADDR (Some c), dp_Res2 := 0\<rparr>)
            (case BADDR (dp_Arg1 (h_Pkt s pkt)) of
               Some l \<Rightarrow>
                 (if fl_Key (h_Lock s1 l) \<noteq> 0
                  then upd_lock c (\<lambda>x. x\<lparr>fl_Key := fl_Key (h_Lock s1 l), fl_Access := fl_Access (h_Lock s1 l),
                         fl_Task := fl_Task (h_Lock s1 l), fl_Volume := fl_Volume (h_Lock s1 l)\<rparr>) s1
                  else upd_lock c (\<lambda>x. x\<lparr>fl_Key := 0, fl_Access := SHARED_LOCK,
                         fl_Task := v_Port (h_Vol s1 vol), fl_Volume := MKBADDR (v_Vol (h_Vol s1 vol))\<rparr>) s1)
             | None \<Rightarrow>
                 upd_lock c (\<lambda>x. x\<lparr>fl_Key := 0, fl_Access := SHARED_LOCK,
                   fl_Task := v_Port (h_Vol s1 vol), fl_Volume := MKBADDR (v_Vol (h_Vol s1 vol))\<rparr>) s1))"

text \<open>Where the info goes: in the first argument for ACTION_DISK_INFO, else the second.\<close>

definition info_addr :: "dos_packet \<Rightarrow> addr" where
  "info_addr p = unat (push_bit 2 (if dp_Type p = ACTION_DISK_INFO then dp_Arg1 p else dp_Arg2 p))"

definition FS_ActionInfo :: "addr \<Rightarrow> addr \<Rightarrow> fs_state \<Rightarrow> fs_state" where
  "FS_ActionInfo vol pkt s =
     (if v_Mounted (h_Vol s vol) then ask_remote vol pkt ACTION_INFO 0 (\<lambda>r t. t) s
      else upd_pkt pkt (\<lambda>p. p\<lparr>dp_Res1 := DOSTRUE\<rparr>)
        (s\<lparr>h_Info := (h_Info s)(info_addr (h_Pkt s pkt) :=
           \<lparr>id_NumSoftErrors = 0, id_UnitNumber = ucast (v_Id (h_Vol s vol)),
            id_DiskState = ID_NO_DISK_PRESENT, id_NumBlocks = 0, id_NumBlocksUsed = 0,
            id_BytesPerBlock = 0, id_DiskType = ID_NO_DISK_PRESENT, id_VolumeNode = 0,
            id_InUse = DOSFALSE\<rparr>)\<rparr>))"

text \<open>The request's type is the packet's.\<close>

definition FS_ActionOpen :: "addr \<Rightarrow> addr \<Rightarrow> fs_state \<Rightarrow> fs_state" where
  "FS_ActionOpen vol pkt s =
     (let p = h_Pkt s pkt; len = bstr_len s (dp_Arg3 p)
      in ask_remote vol pkt (dp_Type p) len
           (\<lambda>r t. upd_fr r (\<lambda>x. x\<lparr>fr_Arg2 := LOCK_KEY t (dp_Arg2 p)\<rparr>)
                    (FS_AppendArg r 3 len (unat (push_bit 2 (dp_Arg3 p))) t)) s)"

definition FS_ActionEnd :: "addr \<Rightarrow> addr \<Rightarrow> fs_state \<Rightarrow> fs_state" where
  "FS_ActionEnd vol pkt s =
     ask_remote vol pkt ACTION_END 0 (\<lambda>r. upd_fr r (\<lambda>x. x\<lparr>fr_Arg1 := dp_Arg1 (h_Pkt s pkt)\<rparr>)) s"

text \<open>
  The root of a volume is examined here. Offsets in a FileInfoBlock: key 0, entry type 4, name 8,
  protection 116, entry type 120, size 124, blocks 128, date 132, comment 144. \<open>now\<close> is what
  \<open>DateStamp\<close> writes. \<open>dp_Res1\<close> is not set.
\<close>

definition root_fib :: "bytes \<Rightarrow> u8 list \<Rightarrow> bytes \<Rightarrow> bytes" where
  "root_fib now name m =
     (let len = of_nat (length name) :: u8;
          m1 = put32 4 2 (put32 0 0 m);
          m2 = copy_mem (\<lambda>i. if i < length name then name ! i else 0) 0 (m1(8 := len)) 9 (unat len);
          m3 = put32 128 0 (put32 124 0 (put32 120 2 (put32 116 0 m2)))
      in (copy_mem now 0 m3 132 12)(144 := 0, 145 := 0))"

definition FS_ActionExamine :: "bytes \<Rightarrow> addr \<Rightarrow> addr \<Rightarrow> fs_state \<Rightarrow> fs_state" where
  "FS_ActionExamine now vol pkt s =
     (let p = h_Pkt s pkt; key = LOCK_KEY s (dp_Arg1 p); f = unat (push_bit 2 (dp_Arg2 p))
      in if key = 0
         then FS_ReplyToDosPacket None pkt
                (s\<lparr>h_Fib := (h_Fib s)(f := root_fib now (v_Name (h_Vol s vol)) (h_Fib s f))\<rparr>)
         else ask_remote vol pkt ACTION_EXAMINE_OBJECT 0
                (\<lambda>r. upd_fr r (\<lambda>x. x\<lparr>fr_Arg1 := key, fr_Arg2 := 0\<rparr>)) s)"

definition FS_ActionExamineNext :: "addr \<Rightarrow> addr \<Rightarrow> fs_state \<Rightarrow> fs_state" where
  "FS_ActionExamineNext vol pkt s =
     (let p = h_Pkt s pkt; f = unat (push_bit 2 (dp_Arg2 p));
          s1 = (if sint (get32 (h_Fib s f) 0) < 0 then s\<lparr>h_Fib := (h_Fib s)(f := put32 0 0 (h_Fib s f))\<rparr> else s)
      in ask_remote vol pkt ACTION_EXAMINE_NEXT 0
           (\<lambda>r t. upd_fr r (\<lambda>x. x\<lparr>fr_Arg1 := LOCK_KEY t (dp_Arg1 p), fr_Arg2 := get32 (h_Fib t f) 0\<rparr>) t) s1)"

definition FS_ActionExamineFH :: "addr \<Rightarrow> addr \<Rightarrow> fs_state \<Rightarrow> fs_state" where
  "FS_ActionExamineFH vol pkt s =
     ask_remote vol pkt ACTION_EXAMINE_FH 0
       (\<lambda>r t. upd_fr r (\<lambda>x. x\<lparr>fr_Arg1 := h_FH t (unat (push_bit 2 (dp_Arg1 (h_Pkt s pkt))))\<rparr>) t) s"

text \<open>\<open>FS_ActionParent\<close> and \<open>FS_ActionParentFH\<close> both take the first argument for a lock.\<close>

definition ask_parent :: "action \<Rightarrow> addr \<Rightarrow> addr \<Rightarrow> fs_state \<Rightarrow> fs_state" where
  "ask_parent ty vol pkt s =
     (let key = LOCK_KEY s (dp_Arg1 (h_Pkt s pkt))
      in ask_remote vol pkt ty 0 (\<lambda>r. upd_fr r (\<lambda>x. x\<lparr>fr_Arg1 := key\<rparr>))
           (upd_pkt pkt (\<lambda>p. p\<lparr>dp_Arg3 := SHARED_LOCK\<rparr>) s))"

definition FS_ActionParent :: "addr \<Rightarrow> addr \<Rightarrow> fs_state \<Rightarrow> fs_state" where
  "FS_ActionParent = ask_parent ACTION_PARENT"

definition FS_ActionParentFH :: "addr \<Rightarrow> addr \<Rightarrow> fs_state \<Rightarrow> fs_state" where
  "FS_ActionParentFH = ask_parent ACTION_PARENT_FH"

definition FS_ActionRead :: "addr \<Rightarrow> addr \<Rightarrow> fs_state \<Rightarrow> fs_state" where
  "FS_ActionRead vol pkt s =
     (let p = h_Pkt s pkt
      in ask_remote vol pkt ACTION_READ 0
           (\<lambda>r t. upd_pkt pkt (\<lambda>p. p\<lparr>dp_Res1 := 0\<rparr>)
                    (upd_fr r (\<lambda>x. x\<lparr>fr_Arg1 := dp_Arg1 p, fr_Arg3 := dp_Arg3 p\<rparr>) t)) s)"

text \<open>The loop of \<open>FS_ActionWrite\<close>: a request for every 512 bytes; \<open>n\<close> are the bytes left.\<close>

function write_loop :: "addr \<Rightarrow> addr \<Rightarrow> addr \<Rightarrow> nat \<Rightarrow> fs_state \<Rightarrow> fs_state" where
  "write_loop vol pkt data n s =
     (if n = 0 then s
      else let k = min n MAX_WRITE_LEN
           in case FS_AllocRequest vol pkt ACTION_WRITE (of_nat k) s of
                (None, s1) \<Rightarrow> add_fault NullDeref s1
              | (Some r, s1) \<Rightarrow>
                  write_loop vol pkt (data + k) (n - k)
                    (FS_EnqueueRequest r
                      (upd_fr r (\<lambda>x. x\<lparr>fr_Arg3 := of_nat (n - k), fr_Arg4 := of_nat k\<rparr>)
                        (FS_AppendArg r 2 (of_nat k) data
                          (upd_fr r (\<lambda>x. x\<lparr>fr_Arg1 := dp_Arg1 (h_Pkt s pkt), fr_Arg3 := dp_Arg3 (h_Pkt s pkt)\<rparr>) s1)))))"
  by pat_completeness auto
termination by (relation "measure (\<lambda>(v, p, d, n, s). n)") (auto simp: MAX_WRITE_LEN_def)

declare write_loop.simps [simp del]

definition FS_ActionWrite :: "addr \<Rightarrow> addr \<Rightarrow> fs_state \<Rightarrow> fs_state" where
  "FS_ActionWrite vol pkt s =
     write_loop vol pkt (unat (dp_Arg2 (h_Pkt s pkt))) (nat (sint (dp_Arg3 (h_Pkt s pkt))))
       (upd_pkt pkt (\<lambda>p. p\<lparr>dp_Res1 := 0\<rparr>) s)"

definition FS_ActionSeek :: "addr \<Rightarrow> addr \<Rightarrow> fs_state \<Rightarrow> fs_state" where
  "FS_ActionSeek vol pkt s =
     (let p = h_Pkt s pkt
      in ask_remote vol pkt ACTION_SEEK 0
           (\<lambda>r. upd_fr r (\<lambda>x. x\<lparr>fr_Arg1 := dp_Arg1 p, fr_Arg2 := dp_Arg2 p, fr_Arg3 := dp_Arg3 p\<rparr>)) s)"

text \<open>\<open>FS_ActionCreateDir\<close> and \<open>FS_ActionDeleteObject\<close> send a lock and a name.\<close>

definition ask_on_name :: "action \<Rightarrow> addr \<Rightarrow> addr \<Rightarrow> fs_state \<Rightarrow> fs_state" where
  "ask_on_name ty vol pkt s =
     (let p = h_Pkt s pkt; len = bstr_len s (dp_Arg2 p)
      in ask_remote vol pkt ty len
           (\<lambda>r t. FS_AppendArg r 2 len (unat (push_bit 2 (dp_Arg2 p)))
                    (upd_fr r (\<lambda>x. x\<lparr>fr_Arg1 := LOCK_KEY t (dp_Arg1 p)\<rparr>) t)) s)"

definition FS_ActionCreateDir :: "addr \<Rightarrow> addr \<Rightarrow> fs_state \<Rightarrow> fs_state" where
  "FS_ActionCreateDir = ask_on_name ACTION_CREATE_DIR"

definition FS_ActionDeleteObject :: "addr \<Rightarrow> addr \<Rightarrow> fs_state \<Rightarrow> fs_state" where
  "FS_ActionDeleteObject = ask_on_name ACTION_DELETE_OBJECT"

definition FS_ActionRenameObject :: "addr \<Rightarrow> addr \<Rightarrow> fs_state \<Rightarrow> fs_state" where
  "FS_ActionRenameObject vol pkt s =
     (let p = h_Pkt s pkt; len1 = bstr_len s (dp_Arg2 p); len2 = bstr_len s (dp_Arg4 p)
      in ask_remote vol pkt ACTION_RENAME_OBJECT (len1 + len2)
           (\<lambda>r t. FS_AppendArg r 4 len2 (unat (push_bit 2 (dp_Arg4 p)))
                    (upd_fr r (\<lambda>x. x\<lparr>fr_Arg3 := LOCK_KEY t (dp_Arg3 p)\<rparr>)
                      (FS_AppendArg r 2 len1 (unat (push_bit 2 (dp_Arg2 p)))
                        (upd_fr r (\<lambda>x. x\<lparr>fr_Arg1 := LOCK_KEY t (dp_Arg1 p)\<rparr>) t)))) s)"

definition FS_ActionFHFromLock :: "addr \<Rightarrow> addr \<Rightarrow> fs_state \<Rightarrow> fs_state" where
  "FS_ActionFHFromLock vol pkt s =
     (let key = LOCK_KEY s (dp_Arg2 (h_Pkt s pkt))
      in ask_remote vol pkt ACTION_FH_FROM_LOCK 0 (\<lambda>r. upd_fr r (\<lambda>x. x\<lparr>fr_Arg2 := key\<rparr>)) s)"

end
