(* ===== verification/FsHandler.thy ===== *)
theory FsHandler
  imports FsVolume
begin

text \<open>
  The dispatch of DOS packets and of the remote side's responses (clients/ApbFs/volume.c,
  \<open>FS_HandlePacket\<close> to the end of the file).
\<close>

section \<open>Packets\<close>

text \<open>What a mounted volume does with a packet, and whether the packet is answered at once.\<close>

definition handle_mounted :: "bytes \<Rightarrow> addr \<Rightarrow> addr \<Rightarrow> fs_state \<Rightarrow> bool \<times> fs_state" where
  "handle_mounted now vol pkt s =
     (let ok = (\<lambda>res. upd_pkt pkt (\<lambda>p. p\<lparr>dp_Res1 := res, dp_Res2 := 0\<rparr>))
      in case dp_Type (h_Pkt s pkt) of
           ACTION_LOCATE_OBJECT \<Rightarrow> (False, FS_ActionLocateObject vol pkt s)
         | ACTION_FREE_LOCK \<Rightarrow> (False, FS_ActionFreeLock vol pkt s)
         | ACTION_COPY_DIR \<Rightarrow> (True, FS_ActionCopyDir vol pkt s)
         | ACTION_SAME_LOCK \<Rightarrow> (False, FS_ActionSameLock vol pkt s)
         | ACTION_IS_FILESYSTEM \<Rightarrow> (True, ok DOSTRUE s)
         | ACTION_DISK_INFO \<Rightarrow> (False, FS_ActionInfo vol pkt s)
         | ACTION_INFO \<Rightarrow> (False, FS_ActionInfo vol pkt s)
         | ACTION_SET_PROTECT \<Rightarrow> (True, ok DOSTRUE s)
         | ACTION_SET_COMMENT \<Rightarrow> (True, ok DOSTRUE s)
         | ACTION_SET_DATE \<Rightarrow> (True, ok DOSTRUE s)
         | ACTION_FINDINPUT \<Rightarrow> (False, FS_ActionOpen vol pkt s)
         | ACTION_FINDOUTPUT \<Rightarrow> (False, FS_ActionOpen vol pkt s)
         | ACTION_FINDUPDATE \<Rightarrow> (False, FS_ActionOpen vol pkt s)
         | ACTION_FLUSH \<Rightarrow> (False, FS_ActionOpen vol pkt s)
         | ACTION_END \<Rightarrow> (True, FS_ActionEnd vol pkt s)
         | ACTION_EXAMINE_OBJECT \<Rightarrow> (False, FS_ActionExamine now vol pkt s)
         | ACTION_EXAMINE_NEXT \<Rightarrow> (False, FS_ActionExamineNext vol pkt s)
         | ACTION_EXAMINE_FH \<Rightarrow> (False, FS_ActionExamineFH vol pkt s)
         | ACTION_PARENT \<Rightarrow> (False, FS_ActionParent vol pkt s)
         | ACTION_READ \<Rightarrow> (False, FS_ActionRead vol pkt s)
         | ACTION_WRITE \<Rightarrow> (False, FS_ActionWrite vol pkt s)
         | ACTION_SEEK \<Rightarrow> (False, FS_ActionSeek vol pkt s)
         | ACTION_PARENT_FH \<Rightarrow> (False, FS_ActionParentFH vol pkt s)
         | ACTION_FH_FROM_LOCK \<Rightarrow> (False, FS_ActionFHFromLock vol pkt s)
         | ACTION_CREATE_DIR \<Rightarrow> (False, FS_ActionCreateDir vol pkt s)
         | ACTION_DELETE_OBJECT \<Rightarrow> (False, FS_ActionDeleteObject vol pkt s)
         | ACTION_RENAME_OBJECT \<Rightarrow> (False, FS_ActionRenameObject vol pkt s)
         | ACTION_CURRENT_VOLUME \<Rightarrow> (True, ok (MKBADDR (v_Vol (h_Vol s vol))) s)
         | ACTION_OTHER n \<Rightarrow>
             (True, upd_pkt pkt (\<lambda>p. p\<lparr>dp_Res1 := DOSFALSE, dp_Res2 := ERROR_ACTION_NOT_KNOWN\<rparr>) s))"

definition handle_unmounted :: "addr \<Rightarrow> addr \<Rightarrow> fs_state \<Rightarrow> bool \<times> fs_state" where
  "handle_unmounted vol pkt s =
     (case dp_Type (h_Pkt s pkt) of
        ACTION_FREE_LOCK \<Rightarrow> (False, FS_ActionFreeLock vol pkt s)
      | ACTION_DISK_INFO \<Rightarrow> (True, FS_ActionInfo vol pkt s)
      | _ \<Rightarrow> (True, upd_pkt pkt (\<lambda>p. p\<lparr>dp_Res1 := DOSFALSE, dp_Res2 := ERROR_DEVICE_NOT_MOUNTED\<rparr>) s))"

definition FS_HandlePacket :: "bytes \<Rightarrow> addr \<Rightarrow> addr \<Rightarrow> fs_state \<Rightarrow> fs_state" where
  "FS_HandlePacket now vol pkt s =
     (let (reply, s1) = (if v_Mounted (h_Vol s vol) then handle_mounted now vol pkt s
                         else handle_unmounted vol pkt s)
      in if reply then FS_ReplyToDosPacket None pkt s1 else s1)"

text \<open>The packets waiting at the volume's port.\<close>

fun FS_ReceiveDosMessage :: "bytes \<Rightarrow> addr \<Rightarrow> addr list \<Rightarrow> fs_state \<Rightarrow> fs_state" where
  "FS_ReceiveDosMessage now vol [] s = s"
| "FS_ReceiveDosMessage now vol (pkt # pkts) s =
     FS_ReceiveDosMessage now vol pkts (FS_HandlePacket now vol pkt s)"

section \<open>Responses\<close>

definition FS_ActionLocateObjectReply :: "addr \<Rightarrow> fs_response \<Rightarrow> addr \<Rightarrow> fs_state \<Rightarrow> fs_state" where
  "FS_ActionLocateObjectReply vol res pkt s =
     (if fs_Res1 res = DOSFALSE
      then upd_pkt pkt (\<lambda>p. p\<lparr>dp_Res1 := fs_Res1 res, dp_Res2 := fs_Res2 res\<rparr>) s
      else case FS_AllocLock vol s of
        (None, s1) \<Rightarrow> upd_pkt pkt (\<lambda>p. p\<lparr>dp_Res1 := DOSFALSE, dp_Res2 := ERROR_NO_FREE_STORE\<rparr>) s1
      | (Some l, s1) \<Rightarrow>
          upd_pkt pkt (\<lambda>p. p\<lparr>dp_Res1 := MKBADDR (Some l), dp_Res2 := 0\<rparr>)
            (upd_lock l (\<lambda>x. x\<lparr>fl_Key := fs_Res1 res, fl_Access := dp_Arg3 (h_Pkt s pkt),
               fl_Task := v_Port (h_Vol s1 vol), fl_Volume := MKBADDR (v_Vol (h_Vol s1 vol))\<rparr>) s1))"

definition FS_ActionFreeLockReply :: "addr \<Rightarrow> fs_response \<Rightarrow> addr \<Rightarrow> fs_state \<Rightarrow> fs_state" where
  "FS_ActionFreeLockReply vol res pkt s =
     upd_pkt pkt (\<lambda>p. p\<lparr>dp_Res1 := DOSTRUE\<rparr>)
       (if dp_Arg1 (h_Pkt s pkt) \<noteq> 0 then FS_FreeLock vol (BADDR (dp_Arg1 (h_Pkt s pkt))) s else s)"

text \<open>'APB' and a zero for the disk type.\<close>

definition FS_ActionInfoReply :: "addr \<Rightarrow> fs_response \<Rightarrow> addr \<Rightarrow> fs_state \<Rightarrow> fs_state" where
  "FS_ActionInfoReply vol res pkt s =
     upd_pkt pkt (\<lambda>p. p\<lparr>dp_Res1 := DOSTRUE\<rparr>)
       (s\<lparr>h_Info := (h_Info s)(info_addr (h_Pkt s pkt) :=
          \<lparr>id_NumSoftErrors = 0, id_UnitNumber = ucast (v_Id (h_Vol s vol)), id_DiskState = ID_VALIDATED,
           id_NumBlocks = get32 (fs_Data res) 4, id_NumBlocksUsed = get32 (fs_Data res) 8,
           id_BytesPerBlock = get32 (fs_Data res) 0, id_DiskType = 0x41504200,
           id_VolumeNode = MKBADDR (v_Vol (h_Vol s vol)), id_InUse = DOSFALSE\<rparr>)\<rparr>)"

definition fh_addr :: "dos_packet \<Rightarrow> addr" where
  "fh_addr p = unat (push_bit 2 (dp_Arg1 p))"

definition FS_ActionOpenReply :: "addr \<Rightarrow> fs_response \<Rightarrow> addr \<Rightarrow> fs_state \<Rightarrow> fs_state" where
  "FS_ActionOpenReply vol res pkt s =
     (let s1 = upd_pkt pkt (\<lambda>p. p\<lparr>dp_Res1 := fs_Res1 res\<rparr>) s
      in if fs_Res1 res = DOSTRUE
         then s1\<lparr>h_FH := (h_FH s1)(fh_addr (h_Pkt s pkt) := fs_Res2 res)\<rparr>
         else upd_pkt pkt (\<lambda>p. p\<lparr>dp_Res2 := fs_Res2 res\<rparr>) s1)"

text \<open>The remote side fills in the first 224 bytes of the FileInfoBlock.\<close>

definition FS_ActionExamineReply :: "addr \<Rightarrow> fs_response \<Rightarrow> addr \<Rightarrow> fs_state \<Rightarrow> fs_state" where
  "FS_ActionExamineReply vol res pkt s =
     (let f = unat (push_bit 2 (dp_Arg2 (h_Pkt s pkt)));
          s1 = upd_pkt pkt (\<lambda>p. p\<lparr>dp_Res1 := fs_Res1 res\<rparr>) s
      in if fs_Res1 res = DOSTRUE
         then s1\<lparr>h_Fib := (h_Fib s1)(f := copy_mem (fs_Data res) 0 (h_Fib s1 f) 0 224)\<rparr>
         else upd_pkt pkt (\<lambda>p. p\<lparr>dp_Res2 := fs_Res2 res\<rparr>) s1)"

text \<open>
  A read goes on over several responses: \<open>dp_Res1\<close> is the number of bytes stored so far. Zero in
  \<open>r_Res2\<close> means more to come, -1 the end. \<open>r_Res1\<close> is unsigned, so every value but 0 is copied.
\<close>

definition FS_ActionReadReply :: "fs_response \<Rightarrow> addr \<Rightarrow> addr \<Rightarrow> fs_state \<Rightarrow> fs_state" where
  "FS_ActionReadReply res req pkt s =
     (let p = h_Pkt s pkt;
          s1 = (if fs_Res1 res > 0
                then upd_pkt pkt (\<lambda>p. p\<lparr>dp_Res1 := dp_Res1 p + fs_Res1 res, dp_Res2 := 0\<rparr>)
                       (s\<lparr>fs_mem := copy_mem (fs_Data res) 0 (fs_mem s) (unat (dp_Arg2 p + dp_Res1 p))
                          (unat (fs_Res1 res))\<rparr>)
                else s)
      in if fs_Res2 res = 0 then s1
         else if fs_Res2 res = 0xFFFFFFFF then FS_ReplyToDosPacket (Some req) pkt s1
         else FS_ReplyToDosPacket (Some req) pkt
                (upd_pkt pkt (\<lambda>p. p\<lparr>dp_Res1 := fs_Res1 res, dp_Res2 := fs_Res2 res\<rparr>) s1))"

definition FS_ActionWriteReply :: "fs_response \<Rightarrow> addr \<Rightarrow> addr \<Rightarrow> fs_state \<Rightarrow> fs_state" where
  "FS_ActionWriteReply res req pkt s =
     (let s1 = (if fs_Res1 res > 0
                then upd_pkt pkt (\<lambda>p. p\<lparr>dp_Res1 := dp_Res1 p + fs_Res1 res, dp_Res2 := 0\<rparr>) s else s)
      in if fs_Res2 res = 0 then s1
         else if fs_Res2 res = 0xFFFFFFFF then FS_ReplyToDosPacket (Some req) pkt s1
         else FS_ReplyToDosPacket (Some req) pkt
                (upd_pkt pkt (\<lambda>p. p\<lparr>dp_Res1 := fs_Res1 res, dp_Res2 := fs_Res2 res\<rparr>) s1))"

text \<open>What is given back as a lock is the first argument, the file handle.\<close>

definition FS_ActionFHFromLockReply :: "addr \<Rightarrow> fs_response \<Rightarrow> addr \<Rightarrow> fs_state \<Rightarrow> fs_state" where
  "FS_ActionFHFromLockReply vol res pkt s =
     (let s1 = upd_pkt pkt (\<lambda>p. p\<lparr>dp_Res1 := fs_Res1 res\<rparr>) s
      in if fs_Res1 res = DOSTRUE
         then upd_pkt pkt (\<lambda>p. p\<lparr>dp_Res2 := 0\<rparr>)
                (FS_FreeLock vol (BADDR (dp_Arg1 (h_Pkt s pkt)))
                  (s1\<lparr>h_FH := (h_FH s1)(fh_addr (h_Pkt s pkt) := fs_Res2 res)\<rparr>))
         else upd_pkt pkt (\<lambda>p. p\<lparr>dp_Res2 := fs_Res2 res\<rparr>) s1)"

text \<open>When there was no lock for the new directory, \<open>dp_Res1\<close> is 0 and the access is stored through it.\<close>

definition FS_ActionCreateDirReply :: "addr \<Rightarrow> fs_response \<Rightarrow> addr \<Rightarrow> fs_state \<Rightarrow> fs_state" where
  "FS_ActionCreateDirReply vol res pkt s =
     (let s1 = FS_ActionLocateObjectReply vol res pkt s
      in if fs_Res1 res \<noteq> DOSFALSE
         then case BADDR (dp_Res1 (h_Pkt s1 pkt)) of
                None \<Rightarrow> add_fault NullDeref s1
              | Some l \<Rightarrow> upd_lock l (\<lambda>x. x\<lparr>fl_Access := SHARED_LOCK\<rparr>) s1
         else s1)"

text \<open>\<open>req\<close> is \<open>res->r_Req\<close>, a pointer the remote side sends back.\<close>

definition FS_ReceiveRemoteMessage :: "addr \<Rightarrow> fs_response \<Rightarrow> addr \<Rightarrow> fs_state \<Rightarrow> fs_state" where
  "FS_ReceiveRemoteMessage vol res req s =
     (let pkt = fr_Pkt (h_FsReq s req); answer = FS_ReplyToDosPacket (Some req) pkt
      in case dp_Type (h_Pkt s pkt) of
           ACTION_LOCATE_OBJECT \<Rightarrow> answer (FS_ActionLocateObjectReply vol res pkt s)
         | ACTION_PARENT \<Rightarrow> answer (FS_ActionLocateObjectReply vol res pkt s)
         | ACTION_PARENT_FH \<Rightarrow> answer (FS_ActionLocateObjectReply vol res pkt s)
         | ACTION_FREE_LOCK \<Rightarrow> answer (FS_ActionFreeLockReply vol res pkt s)
         | ACTION_DISK_INFO \<Rightarrow> answer (FS_ActionInfoReply vol res pkt s)
         | ACTION_INFO \<Rightarrow> answer (FS_ActionInfoReply vol res pkt s)
         | ACTION_FINDINPUT \<Rightarrow> answer (FS_ActionOpenReply vol res pkt s)
         | ACTION_FINDOUTPUT \<Rightarrow> answer (FS_ActionOpenReply vol res pkt s)
         | ACTION_FINDUPDATE \<Rightarrow> answer (FS_ActionOpenReply vol res pkt s)
         | ACTION_EXAMINE_OBJECT \<Rightarrow> answer (FS_ActionExamineReply vol res pkt s)
         | ACTION_EXAMINE_NEXT \<Rightarrow> answer (FS_ActionExamineReply vol res pkt s)
         | ACTION_EXAMINE_FH \<Rightarrow> answer (FS_ActionExamineReply vol res pkt s)
         | ACTION_READ \<Rightarrow> FS_ActionReadReply res req pkt s
         | ACTION_WRITE \<Rightarrow> FS_ActionWriteReply res req pkt s
         | ACTION_FH_FROM_LOCK \<Rightarrow> answer (FS_ActionFHFromLockReply vol res pkt s)
         | ACTION_CREATE_DIR \<Rightarrow> answer (FS_ActionCreateDirReply vol res pkt s)
         | _ \<Rightarrow> answer (upd_pkt pkt (\<lambda>p. p\<lparr>dp_Res1 := fs_Res1 res, dp_Res2 := fs_Res2 res\<rparr>) s))"

end
