(* ===== verification/FsDevice.thy ===== *)
theory FsDevice
  imports FsHandler
begin

text \<open>
  The device of the file system client (clients/ApbFs/device.c): what the remote side sends, the
  two messages it exchanges with the server, and the main loop. A read always delivers into the
  one read buffer, whose contents are an input.
\<close>

section \<open>The remote side's messages\<close>

text \<open>A volume that is known is mounted again.\<close>

definition FS_HandleMountVolume :: "volume_answer \<Rightarrow> u16 \<Rightarrow> u8 list \<Rightarrow> fs_state \<Rightarrow> fs_state" where
  "FS_HandleMountVolume va i name s =
     (case find (\<lambda>v. v_Id (h_Vol s v) = i) (fs_Vols s) of
        Some vol \<Rightarrow> snd (FS_MountVolume (va_Vol va) vol s)
      | None \<Rightarrow>
          (case FS_CreateVolume va i name s of
             (None, s1) \<Rightarrow> s1
           | (Some vol, s1) \<Rightarrow>
               s1\<lparr>fs_Vols := fs_Vols s1 @ [vol],
                  fs_VolSigBits := fs_VolSigBits s1 OR
                    (case v_Port (h_Vol s1 vol) of None \<Rightarrow> 0 | Some b \<Rightarrow> push_bit b 1)\<rparr>))"

definition FS_HandleUnmountVolume :: "addr option \<Rightarrow> u16 \<Rightarrow> fs_state \<Rightarrow> fs_state" where
  "FS_HandleUnmountVolume found i s =
     (case find (\<lambda>v. v_Id (h_Vol s v) = i) (fs_Vols s) of
        None \<Rightarrow> s
      | Some vol \<Rightarrow> FS_UnmountVolume found vol s)"

text \<open>The C string at an address: up to the first zero of the 4096 bytes of the buffer.\<close>

definition c_string :: "bytes \<Rightarrow> nat \<Rightarrow> u8 list" where
  "c_string m i = takeWhile (\<lambda>c. c \<noteq> 0) (bytes_of m i (4096 - i))"

text \<open>
  An \<open>FsResponse\<close>: request 0, results 4 and 8, length 12, data from 14 on; a mount message: key 0,
  volume 4, name 6. The request is whatever pointer the message holds: one that is not among
  the sent ones is unlinked all the same, through links it no longer has.
\<close>

definition response_at :: "bytes \<Rightarrow> fs_response" where
  "response_at m = \<lparr>fs_Req = get32 m 0, fs_Res1 = get32 m 4, fs_Res2 = get32 m 8,
     fs_Data = (\<lambda>i. m (14 + i))\<rparr>"

definition FS_ReceiveResponse :: "volume_answer \<Rightarrow> bytes \<Rightarrow> fs_state \<Rightarrow> fs_state" where
  "FS_ReceiveResponse va buf s =
     (let res = response_at buf; req = unat (fs_Req res);
          s1 = (if fs_Req res = MOUNT_VOLUME_KEY then FS_HandleMountVolume va (get16 buf 4) (c_string buf 6) s
                else if fs_Req res = UNMOUNT_VOLUME_KEY then FS_HandleUnmountVolume (va_Found va) (get16 buf 4) s
                else FS_ReceiveRemoteMessage (fr_Volume (h_FsReq s req)) res req
                       (if req \<in> set (fs_SentReqs s) then s\<lparr>fs_SentReqs := remove1 req (fs_SentReqs s)\<rparr>
                        else add_fault UseAfterFree s))
      in s1\<lparr>fs_io := fs_io s1 @ [Fs_Read]\<rparr>)"

text \<open>A message at the remote port: the reader with its state, the writer, or any other.\<close>

datatype remote_msg = Reader_Msg bool bytes volume_answer | Writer_Msg | Other_Msg

fun remote_msg_step :: "remote_msg \<Rightarrow> fs_state \<Rightarrow> fs_state" where
  "remote_msg_step (Reader_Msg ok buf va) s = (if ok then FS_ReceiveResponse va buf s else s)"
| "remote_msg_step Writer_Msg s = FS_SendReq (s\<lparr>fs_WriteReady := True\<rparr>)"
| "remote_msg_step Other_Msg s = s"

fun FS_ReceiveFromRemote :: "remote_msg list \<Rightarrow> fs_state \<Rightarrow> fs_state" where
  "FS_ReceiveFromRemote [] s = s"
| "FS_ReceiveFromRemote (m # ms) s = FS_ReceiveFromRemote ms (remote_msg_step m s)"

section \<open>The main loop\<close>

definition FS_CanQuit :: "fs_state \<Rightarrow> bool" where
  "FS_CanQuit s \<longleftrightarrow> (\<forall>v \<in> set (fs_Vols s). \<not> 0 < sint (v_LockCount (h_Vol s v)))"

text \<open>
  What has happened when \<open>Wait\<close> returns: the signals, the packets at the volumes' ports, the
  messages at the remote port. Only the first volume with a signal is looked at.
\<close>

record fs_input =
  fi_Signals :: u32
  fi_RemotePort :: nat
  fi_Packets :: "addr \<Rightarrow> addr list"
  fi_Messages :: "remote_msg list"
  fi_Now :: bytes

definition port_signal :: "u32 \<Rightarrow> nat option \<Rightarrow> bool" where
  "port_signal sig p \<longleftrightarrow> (case p of None \<Rightarrow> False | Some b \<Rightarrow> sig AND push_bit b 1 \<noteq> 0)"

definition FS_run_step :: "fs_input \<Rightarrow> fs_state \<Rightarrow> fs_state" where
  "FS_run_step i s =
     (let sig = fi_Signals i;
          s1 = (case find (\<lambda>v. port_signal sig (v_Port (h_Vol s v))) (fs_Vols s) of
                  None \<Rightarrow> s
                | Some v \<Rightarrow> FS_ReceiveDosMessage (fi_Now i) v (fi_Packets i v) s);
          s2 = (if port_signal sig (Some (fi_RemotePort i)) then FS_ReceiveFromRemote (fi_Messages i) s1 else s1)
      in if sig AND 0x1000 \<noteq> 0 \<and> FS_CanQuit s2 then s2\<lparr>fs_Status := ST_STOPPING\<rparr> else s2)"

fun FS_Run :: "fs_input list \<Rightarrow> fs_state \<Rightarrow> fs_state" where
  "FS_Run [] s = s"
| "FS_Run (i # is) s = (if fs_Status s = ST_STOPPING then s else FS_Run is (FS_run_step i s))"

end
