(* ===== verification/Stats.thy ===== *)
theory Stats
  imports Memory
begin

text \<open>
  The counters of the library (library/stats.c): a list of nodes ordered by priority, which is
  the counter's number. \<open>Enqueue\<close> puts a node behind those of the same or a higher priority.
\<close>

record stat_node =
  sn_Addr :: addr
  sn_Pri :: u8
  sn_Value :: u32

record stat_collector =
  sc_Stats :: "stat_node list"
  sc_MemPool :: "addr option"
  sc_StatTypeSum :: u16
  sc_StatTypeCount :: u16
  sc_StatTypeMean :: u16
  sc_Faults :: "fault list"

definition sizeof_StatNode :: u32 where "sizeof_StatNode = 18"
definition sizeof_StatCollector :: u32 where "sizeof_StatCollector = 24"

definition APB_CreateStatCollector ::
    "addr option \<Rightarrow> exec_mem \<Rightarrow> (addr \<times> stat_collector) option \<times> exec_mem" where
  "APB_CreateStatCollector memPool m =
     (case APB_AllocMemInternal memPool sizeof_StatCollector m of
        (None, m1) \<Rightarrow> (None, m1)
      | (Some a, m1) \<Rightarrow>
          (Some (a, \<lparr>sc_Stats = [], sc_MemPool = memPool, sc_StatTypeSum = 0, sc_StatTypeCount = 0,
             sc_StatTypeMean = 0, sc_Faults = []\<rparr>), m1))"

fun free_stats :: "addr option \<Rightarrow> stat_node list \<Rightarrow> exec_mem \<Rightarrow> exec_mem" where
  "free_stats mp [] m = m"
| "free_stats mp (sn # sns) m =
     free_stats mp sns (APB_FreeMemInternal mp (Some (sn_Addr sn)) sizeof_StatNode m)"

definition APB_FreeStatCollector :: "addr \<Rightarrow> stat_collector \<Rightarrow> exec_mem \<Rightarrow> exec_mem" where
  "APB_FreeStatCollector a sc m =
     APB_FreeMemInternal (sc_MemPool sc) (Some a) sizeof_StatCollector
       (free_stats (sc_MemPool sc) (sc_Stats sc) m)"

text \<open>
  \<open>ln_Pri\<close> is a signed byte, compared with an UWORD. For a counter from the mean upwards the search
  starts at \<open>lh_Tail\<close>, which is NULL in every Exec list: it reads a node at address 0. None there
  stands for whatever it finds.
\<close>

definition pri_is :: "stat_node \<Rightarrow> u16 \<Rightarrow> bool" where
  "pri_is sn statType \<longleftrightarrow> sint (sn_Pri sn) = uint statType"

definition APB_FindStatNode :: "u16 \<Rightarrow> stat_collector \<Rightarrow> stat_node option \<times> stat_collector" where
  "APB_FindStatNode statType sc =
     (if statType \<ge> sc_StatTypeMean sc
      then (None, sc\<lparr>sc_Faults := NullDeref # sc_Faults sc\<rparr>)
      else (find (\<lambda>sn. pri_is sn statType) (sc_Stats sc), sc))"

fun Enqueue :: "stat_node \<Rightarrow> stat_node list \<Rightarrow> stat_node list" where
  "Enqueue sn [] = [sn]"
| "Enqueue sn (x # xs) = (if sint (sn_Pri x) < sint (sn_Pri sn) then sn # x # xs else x # Enqueue sn xs)"

text \<open>A count of 65536 counters wraps to a division by zero, which the 68000 traps; 0 here.\<close>

definition APB_RegisterStat :: "u16 \<Rightarrow> stat_collector \<Rightarrow> exec_mem \<Rightarrow> stat_collector \<times> exec_mem" where
  "APB_RegisterStat statType sc m =
     (case APB_AllocMemInternal (sc_MemPool sc) sizeof_StatNode m of
        (None, m1) \<Rightarrow> (sc, m1)
      | (Some a, m1) \<Rightarrow>
          (let sm = sc_StatTypeSum sc + statType; n = sc_StatTypeCount sc + 1
           in (sc\<lparr>sc_StatTypeSum := sm, sc_StatTypeCount := n, sc_StatTypeMean := sm div n,
                 sc_Stats := Enqueue \<lparr>sn_Addr = a, sn_Pri = ucast statType, sn_Value = 0\<rparr> (sc_Stats sc)\<rparr>, m1)))"

text \<open>The node found is the first one of its number.\<close>

fun add_to_stat :: "u16 \<Rightarrow> u32 \<Rightarrow> stat_node list \<Rightarrow> stat_node list" where
  "add_to_stat statType v [] = []"
| "add_to_stat statType v (sn # sns) =
     (if pri_is sn statType then sn\<lparr>sn_Value := sn_Value sn + v\<rparr> # sns
      else sn # add_to_stat statType v sns)"

definition APB_IncrementStat :: "u16 \<Rightarrow> u32 \<Rightarrow> stat_collector \<Rightarrow> stat_collector" where
  "APB_IncrementStat statType value sc =
     (case APB_FindStatNode statType sc of
        (None, sc1) \<Rightarrow> sc1
      | (Some _, sc1) \<Rightarrow> sc1\<lparr>sc_Stats := add_to_stat statType value (sc_Stats sc1)\<rparr>)"

definition APB_GetStat :: "u16 \<Rightarrow> stat_collector \<Rightarrow> u32 \<times> stat_collector" where
  "APB_GetStat statType sc =
     (case APB_FindStatNode statType sc of
        (None, sc1) \<Rightarrow> (0, sc1)
      | (Some sn, sc1) \<Rightarrow> (sn_Value sn, sc1))"

section \<open>Counting\<close>

text \<open>The list stays ordered by priority, highest first.\<close>

lemma Enqueue_set: "set (Enqueue sn xs) = insert sn (set xs)"
  by (induction xs) auto

lemma Enqueue_sorted:
  "sorted_wrt (\<lambda>x y. sint (sn_Pri y) \<le> sint (sn_Pri x)) xs \<Longrightarrow>
     sorted_wrt (\<lambda>x y. sint (sn_Pri y) \<le> sint (sn_Pri x)) (Enqueue sn xs)"
proof (induction xs)
  case (Cons x xs)
  then show ?case by (cases "sint (sn_Pri x) < sint (sn_Pri sn)") (auto simp: Enqueue_set)
qed simp

text \<open>Below the mean a counter counts.\<close>

lemma find_add:
  "find (\<lambda>sn. pri_is sn t) xs = Some sn \<Longrightarrow>
     find (\<lambda>sn. pri_is sn t) (add_to_stat t v xs) = Some (sn\<lparr>sn_Value := sn_Value sn + v\<rparr>)"
  by (induction xs) (auto simp: pri_is_def split: if_splits)

lemma increment_counts:
  assumes "statType < sc_StatTypeMean sc" and "find (\<lambda>sn. pri_is sn statType) (sc_Stats sc) \<noteq> None"
  shows "fst (APB_GetStat statType (APB_IncrementStat statType v sc)) = fst (APB_GetStat statType sc) + v"
proof -
  obtain sn where f: "find (\<lambda>sn. pri_is sn statType) (sc_Stats sc) = Some sn" using assms(2) by blast
  have "\<not> statType \<ge> sc_StatTypeMean sc" using assms(1) by simp
  then show ?thesis
    using f find_add [OF f, of v] by (simp add: APB_GetStat_def APB_IncrementStat_def APB_FindStatNode_def)
qed

text \<open>From the mean upwards nothing is counted, and memory at address 0 is read.\<close>

lemma increment_lost:
  assumes "sc_StatTypeMean sc \<le> statType"
  shows "sc_Stats (APB_IncrementStat statType v sc) = sc_Stats sc"
    and "NullDeref \<in> set (sc_Faults (APB_IncrementStat statType v sc))"
    and "fst (APB_GetStat statType sc) = 0"
  using assms by (simp_all add: APB_GetStat_def APB_IncrementStat_def APB_FindStatNode_def)

text \<open>So the first counter registered never counts.\<close>

lemma first_counter_lost:
  assumes "APB_CreateStatCollector mp m = (Some (a, sc), m1)" and "APB_RegisterStat t sc m1 = (sc1, m2)"
    and "sc_Stats sc1 \<noteq> []"
  shows "fst (APB_GetStat t (APB_IncrementStat t v sc1)) = 0"
proof -
  have "sc_StatTypeMean sc1 = t"
    using assms by (auto simp: APB_CreateStatCollector_def APB_RegisterStat_def Let_def split: prod.splits option.splits)
  then show ?thesis by (simp add: APB_GetStat_def APB_IncrementStat_def APB_FindStatNode_def)
qed

end
