(* ===== verification/Client.thy ===== *)
theory Client
  imports AmiPiBorg ObjectPool Log Stats
begin

text \<open>
  The library's side of a client (library/context.c, connection.c, request.c, io.c, control.c): a
  context, connections and requests out of its object pool, and what is posted to the server's
  port. What the server does with a message is an input of the operation that waits for it. The
  operations work on any record that extends the pool.
\<close>

section \<open>Contexts\<close>

record apb_context =
  ctx_Addr :: addr
  ctx_MemPool :: "addr option"
  ctx_Logger :: "(addr \<times> logger) option"
  ctx_StatColl :: "(addr \<times> stat_collector) option"
  ctx_ObjPool :: "(addr \<times> pool) option"

definition sizeof_ApbContext :: u32 where "sizeof_ApbContext = 16"

text \<open>The object pool works on the memory as it is when the context is freed.\<close>

definition APB_FreeContext :: "apb_context \<Rightarrow> exec_mem \<Rightarrow> fault list \<times> exec_mem" where
  "APB_FreeContext ctx m =
     (let m1 = (case ctx_StatColl ctx of None \<Rightarrow> m | Some (a, sc) \<Rightarrow> APB_FreeStatCollector a sc m);
          (fs, m2) = (case ctx_ObjPool ctx of
                        None \<Rightarrow> ([], m1)
                      | Some (a, p) \<Rightarrow> let q = APB_FreeObjectPool a (p\<lparr>op_Mem := m1\<rparr>) in (faults q, op_Mem q));
          m3 = (case ctx_Logger ctx of None \<Rightarrow> m2 | Some (a, l) \<Rightarrow> APB_FreeLogger a l m2)
      in (fs, APB_FreeMemInternal (ctx_MemPool ctx) (Some (ctx_Addr ctx)) sizeof_ApbContext m3))"

text \<open>
  \<open>junk\<close> is what the structure's \<open>ctx_StatColl\<close> and \<open>ctx_ObjPool\<close> held before: nothing in cleared
  memory, anything in memory from a pool. A context that was not allocated is freed through NULL.
\<close>

definition APB_CreateContext ::
    "addr option \<Rightarrow> bool \<Rightarrow> u16 \<Rightarrow> bytes \<Rightarrow> apb_context \<Rightarrow> exec_mem \<Rightarrow> apb_context option \<times> fault list \<times> exec_mem" where
  "APB_CreateContext memPool logFh logLevel garbage junk m =
     (case APB_AllocMemInternal memPool sizeof_ApbContext m of
        (None, m1) \<Rightarrow> (None, [NullDeref], m1)
      | (Some a, m1) \<Rightarrow>
          (let ctx0 = (if memPool = None then junk\<lparr>ctx_StatColl := None, ctx_ObjPool := None\<rparr> else junk)
                        \<lparr>ctx_Addr := a, ctx_MemPool := memPool\<rparr>;
               (lg, fs, m2) = APB_CreateLogger memPool logFh logLevel garbage m1;
               ctx1 = ctx0\<lparr>ctx_Logger := lg\<rparr>
           in if lg = None then (None, fs, m2)
              else case APB_CreateObjectPool memPool m2 of
                (None, m3) \<Rightarrow>
                  (let (gs, m4) = APB_FreeContext (ctx1\<lparr>ctx_ObjPool := None\<rparr>) m3 in (None, gs @ fs, m4))
              | (Some op, m3) \<Rightarrow>
                  (case APB_CreateStatCollector memPool m3 of
                     (None, m4) \<Rightarrow>
                       (let (gs, m5) = APB_FreeContext (ctx1\<lparr>ctx_ObjPool := Some op, ctx_StatColl := None\<rparr>) m4
                        in (None, gs @ fs, m5))
                   | (Some sc, m4) \<Rightarrow> (Some (ctx1\<lparr>ctx_ObjPool := Some op, ctx_StatColl := Some sc\<rparr>), fs, m4))))"

section \<open>Connections and requests\<close>

definition CNN_MSG_TIMEOUT :: u16 where "CNN_MSG_TIMEOUT = 5"
definition LIB_OT_CONNECTION :: u16 where "LIB_OT_CONNECTION = 0xFFFF"
definition OT_REQUEST :: u16 where "OT_REQUEST = 0xFFFE"
definition sizeof_LibConnection :: u16 where "sizeof_LibConnection = 14"
definition sizeof_RequestInt :: u16 where "sizeof_RequestInt = 46"

record client_conn =
  c_Addr :: addr
  c_MsgPort :: nat
  c_Status :: u16
  c_HandlerId :: u16
  c_ConnId :: u16

record client_request =
  rq_Addr :: addr
  rq_Conn :: addr
  rq_ReplyPort :: nat
  rq_Type :: u16
  rq_ConnId :: u16
  rq_HandlerId :: u16
  rq_State :: u16
  rq_Actual :: u16
  rq_Length :: u16
  rq_Timeout :: u16
  rq_Data :: "addr option"

text \<open>What becomes of a message: there is no server, the user breaks the wait, or it comes back.\<close>

datatype server_answer = No_Server | Break | Reply u16 u16

definition APB_AllocConnection ::
    "nat \<Rightarrow> u16 \<Rightarrow> 'a pool_scheme \<Rightarrow> client_conn option \<times> 'a pool_scheme" where
  "APB_AllocConnection port handlerId s =
     (let s1 = (if APB_TypeRegisteredInternal LIB_OT_CONNECTION s then s
                else APB_RegisterObjectTypeInternal LIB_OT_CONNECTION ''Connection'' sizeof_LibConnection 1 8 s);
          s2 = (if APB_TypeRegisteredInternal OT_REQUEST s1 then s1
                else APB_RegisterObjectTypeInternal OT_REQUEST ''Request'' sizeof_RequestInt 1 64 s1)
      in case APB_AllocObjectInternal LIB_OT_CONNECTION s2 of
           (None, s3) \<Rightarrow> (None, s3)
         | (Some a, s3) \<Rightarrow>
             (Some \<lparr>c_Addr = a, c_MsgPort = port, c_Status = APB_RS_NO_CONNECTION, c_HandlerId = handlerId,
                c_ConnId = 0\<rparr>, s3))"

definition APB_FreeConnection :: "client_conn \<Rightarrow> 'a pool_scheme \<Rightarrow> 'a pool_scheme" where
  "APB_FreeConnection conn s = APB_FreeObjectInternal LIB_OT_CONNECTION (c_Addr conn) s"

text \<open>\<open>old\<close> is what the memory of an object holds; the fields not set here keep it.\<close>

definition APB_AllocRequest ::
    "(addr \<Rightarrow> client_request) \<Rightarrow> client_conn \<Rightarrow> 'a pool_scheme \<Rightarrow> client_request option \<times> 'a pool_scheme" where
  "APB_AllocRequest old conn s =
     (case APB_AllocObjectInternal OT_REQUEST s of
        (None, s1) \<Rightarrow> (None, s1)
      | (Some a, s1) \<Rightarrow>
          (Some ((old a)\<lparr>rq_Addr := a, rq_ReplyPort := c_MsgPort conn, rq_ConnId := c_ConnId conn,
             rq_Conn := c_Addr conn\<rparr>), s1))"

definition APB_FreeRequest :: "client_request \<Rightarrow> 'a pool_scheme \<Rightarrow> 'a pool_scheme" where
  "APB_FreeRequest r s = APB_FreeObjectInternal OT_REQUEST (rq_Addr r) s"

text \<open>The message is posted if the server's port is found.\<close>

definition APB_PutMsg :: "server_answer \<Rightarrow> client_request \<Rightarrow> bool \<times> client_request list" where
  "APB_PutMsg ans r = (if ans = No_Server then (False, []) else (True, [r]))"

definition APB_OpenConnection ::
    "(addr \<Rightarrow> client_request) \<Rightarrow> server_answer \<Rightarrow> client_conn \<Rightarrow> 'a pool_scheme \<Rightarrow>
     bool \<times> client_conn \<times> client_request list \<times> 'a pool_scheme" where
  "APB_OpenConnection old ans conn s =
     (let (conn1, posted, s1) =
        (case APB_AllocRequest old conn s of
           (None, s1) \<Rightarrow> (conn, [], s1)
         | (Some req, s1) \<Rightarrow>
             (let r = req\<lparr>rq_Type := APB_RT_OPEN, rq_HandlerId := c_HandlerId conn,
                        rq_ReplyPort := c_MsgPort conn, rq_Timeout := CNN_MSG_TIMEOUT\<rparr>;
                  (sent, posted) = APB_PutMsg ans r;
                  conn1 = (if sent
                           then case ans of
                                  Reply st i \<Rightarrow> conn\<lparr>c_Status := st, c_ConnId := i\<rparr>
                                | _ \<Rightarrow> conn\<lparr>c_Status := APB_RS_ABORTED\<rparr>
                           else conn\<lparr>c_Status := APB_RS_NO_SERVER\<rparr>)
              in (conn1, posted, APB_FreeRequest r s1)))
      in (c_Status conn1 = APB_RS_OK, conn1, posted, s1))"

definition APB_CloseConnection ::
    "(addr \<Rightarrow> client_request) \<Rightarrow> server_answer \<Rightarrow> client_conn \<Rightarrow> 'a pool_scheme \<Rightarrow>
     client_conn \<times> client_request list \<times> 'a pool_scheme" where
  "APB_CloseConnection old ans conn s =
     (case APB_AllocRequest old conn s of
        (None, s1) \<Rightarrow> (conn, [], s1)
      | (Some req, s1) \<Rightarrow>
          (let r = req\<lparr>rq_Type := APB_RT_CLOSE, rq_HandlerId := c_HandlerId conn, rq_ConnId := c_ConnId conn,
                     rq_ReplyPort := c_MsgPort conn, rq_Timeout := CNN_MSG_TIMEOUT\<rparr>;
               (sent, posted) = APB_PutMsg ans r;
               conn1 = (if sent
                        then case ans of
                               Reply st i \<Rightarrow> conn\<lparr>c_Status := st, c_ConnId := 0\<rparr>
                             | _ \<Rightarrow> conn\<lparr>c_Status := APB_RS_ABORTED\<rparr>
                        else conn\<lparr>c_Status := APB_RS_NO_SERVER\<rparr>)
           in (conn1, posted, APB_FreeRequest r s1)))"

definition APB_ConnectionState :: "client_conn \<Rightarrow> u16" where
  "APB_ConnectionState conn = c_Status conn"

section \<open>Input and output\<close>

text \<open>Whether the server was there is not looked at.\<close>

definition APB_Read :: "server_answer \<Rightarrow> client_conn \<Rightarrow> client_request \<Rightarrow> client_request \<times> client_request list" where
  "APB_Read ans conn r =
     (let r1 = r\<lparr>rq_Type := APB_RT_READ, rq_HandlerId := c_HandlerId conn, rq_ConnId := c_ConnId conn\<rparr>
      in (r1, snd (APB_PutMsg ans r1)))"

definition APB_Write :: "server_answer \<Rightarrow> client_conn \<Rightarrow> client_request \<Rightarrow> client_request \<times> client_request list" where
  "APB_Write ans conn r =
     (let r1 = r\<lparr>rq_Type := APB_RT_WRITE, rq_HandlerId := c_HandlerId conn, rq_ConnId := c_ConnId conn\<rparr>
      in (r1, snd (APB_PutMsg ans r1)))"

text \<open>
  \<open>linked\<close> tells whether one of the node's links is set, which it still is after the message was
  taken off its list: unlinking it then goes through old links.
\<close>

definition APB_Abort :: "bool \<Rightarrow> addr \<Rightarrow> addr list \<Rightarrow> fault list \<times> addr list" where
  "APB_Abort linked r q = (if linked then (if r \<in> set q then [] else [UseAfterFree], remove1 r q) else ([], q))"

section \<open>Control messages\<close>

text \<open>
  There is no context: memory is allocated and freed and the message is logged through NULL.
  \<open>mp0\<close> is the memory pool found at address 0. The answer is waited for even when there is no
  server; then only a break ends the wait.
\<close>

datatype control_wait = Waits_Forever | Result u16

definition SendControlMessage ::
    "bool \<Rightarrow> addr option \<Rightarrow> server_answer \<Rightarrow> bool \<Rightarrow> u16 \<Rightarrow> addr option \<Rightarrow> u16 \<Rightarrow> exec_mem \<Rightarrow>
     control_wait \<times> fault list \<times> client_request list \<times> exec_mem" where
  "SendControlMessage port mp0 ans broken rt data len m =
     (if \<not> port then (Result APB_RS_FAILED, [], [], m)
      else case APB_AllocMemInternal mp0 (ucast sizeof_RequestInt) m of
        (None, m1) \<Rightarrow> (Result APB_RS_FAILED, [NullDeref], [], m1)
      | (Some a, m1) \<Rightarrow>
          (let r = \<lparr>rq_Addr = a, rq_Conn = 0, rq_ReplyPort = 0, rq_Type = rt, rq_ConnId = 0, rq_HandlerId = 0,
                 rq_State = 0, rq_Actual = 0, rq_Length = len, rq_Timeout = CNN_MSG_TIMEOUT, rq_Data = data\<rparr>;
               posted = snd (APB_PutMsg ans r); n = NullDeref;
               fin = (\<lambda>st. (Result st, [n, n, n], posted, APB_FreeMemInternal mp0 (Some a) (ucast sizeof_RequestInt) m1))
           in case ans of
                No_Server \<Rightarrow> (if broken then fin APB_RS_ABORTED else (Waits_Forever, [n, n], posted, m1))
              | Break \<Rightarrow> fin APB_RS_ABORTED
              | Reply st i \<Rightarrow> fin st))"

definition APB_SrvQuit where
  "APB_SrvQuit port mp0 ans broken m = SendControlMessage port mp0 ans broken APB_RT_SRV_QUIT None 0 m"

text \<open>The level is sent from the stack, at \<open>l\<close>.\<close>

definition APB_SrvSetLogLevel where
  "APB_SrvSetLogLevel l port mp0 ans broken m = SendControlMessage port mp0 ans broken APB_RT_SRV_LOG_LEVEL (Some l) 2 m"

definition APB_SrvGetLog where
  "APB_SrvGetLog data len port mp0 ans broken m = SendControlMessage port mp0 ans broken APB_RT_SRV_LOG data len m"

definition APB_SrvGetConnections where
  "APB_SrvGetConnections data len port mp0 ans broken m = SendControlMessage port mp0 ans broken APB_RT_SRV_CONNS data len m"

definition APB_SrvGetStats where
  "APB_SrvGetStats data len port mp0 ans broken m = SendControlMessage port mp0 ans broken APB_RT_SRV_STATS data len m"

end
