(* ===== verification/FsLife.thy ===== *)
theory FsLife
  imports FsDevice Client
begin

text \<open>
  The life of the file system client (clients/ApbFs/device.c, \<open>FS_CreateDevice\<close> and
  \<open>FS_FreeDevice\<close>, and apbfs.c): everything it makes on the way up, and gives back on the way
  down or when the next thing cannot be made.
\<close>

section \<open>What is made\<close>

datatype dev_part =
    D_Dos | D_Library | D_Pool | D_Device | D_Context | D_ReadBuf | D_RemotePort | D_Connection | D_Reader | D_Writer

datatype dev_call = Made dev_part | Gone dev_part

text \<open>
  The nesting of the code: if the part is made the body follows, and if the body fails the part is
  given back.
\<close>

definition with_part ::
    "bool \<Rightarrow> dev_part \<Rightarrow> 'a option \<times> dev_call list \<Rightarrow> 'a option \<times> dev_call list" where
  "with_part made p body =
     (if made then case body of (None, tr) \<Rightarrow> (None, Made p # tr @ [Gone p]) | (Some x, tr) \<Rightarrow> (Some x, Made p # tr)
      else (None, []))"

lemma with_part_simps [simp]:
  "with_part False p b = (None, [])" "with_part True p (Some x, tr) = (Some x, Made p # tr)"
  "with_part True p (None, tr) = (None, Made p # tr @ [Gone p])"
  by (simp_all add: with_part_def)

text \<open>
  The answers: which of AmigaDOS' parts can be made, the context's pool, and what the server says
  to the new connection. \<open>dv_State\<close> is the memory of the structure before it is filled in.
\<close>

record device_answer =
  dv_Made :: "dev_part \<Rightarrow> bool"
  dv_State :: fs_state
  dv_Port :: nat
  dv_Old :: "addr \<Rightarrow> client_request"
  dv_Server :: server_answer
  dv_ReadBuf :: addr

text \<open>The device with its connection and its two requests.\<close>

record fs_device =
  fd_Conn :: client_conn
  fd_Reader :: client_request
  fd_Writer :: client_request
  fd_State :: fs_state

definition sizeof_Volume :: u16 where "sizeof_Volume = 38"
definition sizeof_FsRequest :: u16 where "sizeof_FsRequest = 42"
definition sizeof_FsFileLock :: u16 where "sizeof_FsFileLock = 22"
definition READ_BUF_SIZE :: u16 where "READ_BUF_SIZE = 4096"

definition register_fs_types :: "'a pool_scheme \<Rightarrow> 'a pool_scheme" where
  "register_fs_types s =
     APB_RegisterObjectType OT_LOCK ''Lock'' sizeof_FsFileLock 4 100
       (APB_RegisterObjectType OT_REQUEST_MAX ''Request (Max)'' (sizeof_FsRequest + of_nat MAX_WRITE_LEN) 1 100
         (APB_RegisterObjectType OT_REQUEST_MIN ''Request (Min)'' sizeof_FsRequest 1 100
           (APB_RegisterObjectType OT_VOLUME ''Volume'' (sizeof_Volume + of_nat MAX_NAME_LEN + 1) 1 8 s)))"

text \<open>The signals of the volumes are not set: they stay what the memory held.\<close>

definition init_device :: "fs_state \<Rightarrow> fs_state" where
  "init_device s =
     register_fs_types (s\<lparr>fs_Status := ST_STARTING, fs_Vols := [], fs_Reqs := [], fs_SentReqs := [],
       fs_WriteReady := True\<rparr>)"

definition FS_CreateDevice :: "device_answer \<Rightarrow> fs_device option \<times> dev_call list" where
  "FS_CreateDevice a =
     (let made = dv_Made a; s0 = dv_State a;
          (conn, s1) = APB_AllocConnection (dv_Port a) 4 s0;
          (rd, s2) = APB_AllocRequest (dv_Old a) (the conn) s1;
          (wr, s3) = APB_AllocRequest (dv_Old a) (the conn) s2;
          (opened, c, posted, s4) = APB_OpenConnection (dv_Old a) (dv_Server a) (the conn) s3
      in with_part (made D_Pool) D_Pool
          (with_part (made D_Device) D_Device
            (with_part (made D_Context) D_Context
              (with_part (made D_ReadBuf) D_ReadBuf
                (with_part (made D_RemotePort) D_RemotePort
                  (with_part (conn \<noteq> None) D_Connection
                    (with_part (rd \<noteq> None) D_Reader
                      (with_part (wr \<noteq> None) D_Writer
                        (if opened
                         then (let s5 = init_device s4; r = (the rd)\<lparr>rq_Data := Some (dv_ReadBuf a), rq_Length := READ_BUF_SIZE\<rparr>
                               in (Some \<lparr>fd_Conn = c, fd_Reader = fst (APB_Read (dv_Server a) c r), fd_Writer = the wr,
                                     fd_State = s5\<lparr>fs_io := fs_io s5 @ [Fs_Read]\<rparr>\<rparr>, []))
                         else (None, []))))))))))"

text \<open>
  The reader's request goes back to the pool although the server still has it to read into.
  \<open>found\<close> are DOS' answers for each volume.
\<close>

fun free_volumes :: "(addr \<Rightarrow> addr option \<times> addr option) \<Rightarrow> addr list \<Rightarrow> fs_state \<Rightarrow> fs_state" where
  "free_volumes found [] s = s"
| "free_volumes found (v # vs) s =
     free_volumes found vs (FS_FreeVolume (fst (found v)) (snd (found v)) v (s\<lparr>fs_Vols := vs\<rparr>))"

definition FS_FreeDevice ::
    "(addr \<Rightarrow> addr option \<times> addr option) \<Rightarrow> (addr \<Rightarrow> client_request) \<Rightarrow> server_answer \<Rightarrow> fs_device \<Rightarrow>
     fs_state \<times> client_request list \<times> dev_call list" where
  "FS_FreeDevice found old ans d =
     (let s1 = APB_FreeRequest (fd_Writer d) (APB_FreeRequest (fd_Reader d) (fd_State d));
          (c, posted, s2) = APB_CloseConnection old ans (fd_Conn d) s1;
          s3 = APB_FreeConnection c s2
      in (free_volumes found (fs_Vols s3) s3, posted,
          map Gone [D_Reader, D_Writer, D_ReadBuf, D_Connection, D_RemotePort, D_Context, D_Device, D_Pool]))"

text \<open>What \<open>main\<close> does: \<open>run\<close> are the rounds of the main loop.\<close>

definition fs_main ::
    "bool \<Rightarrow> bool \<Rightarrow> device_answer \<Rightarrow> fs_input list \<Rightarrow> (addr \<Rightarrow> addr option \<times> addr option) \<Rightarrow> server_answer \<Rightarrow>
     dev_call list" where
  "fs_main dos lib a run found ans =
     (if \<not> dos then []
      else [Made D_Dos] @
        (if \<not> lib then []
         else [Made D_Library] @
           (case FS_CreateDevice a of
              (None, tr) \<Rightarrow> tr
            | (Some d, tr) \<Rightarrow>
                tr @ snd (snd (FS_FreeDevice found (dv_Old a) ans (d\<lparr>fd_State := FS_Run run (fd_State d)\<rparr>)))) @
           [Gone D_Library]) @
        [Gone D_Dos])"

section \<open>Nothing is left behind\<close>

definition unwound :: "dev_call list \<Rightarrow> bool" where
  "unwound tr \<longleftrightarrow> (\<exists>ps. tr = map Made ps @ map Gone (rev ps))"

lemma with_part_unwinds:
  assumes "\<And>tr. body = (None, tr) \<Longrightarrow> unwound tr" and "with_part made p body = (None, tr)"
  shows "unwound tr"
proof (cases made)
  case False
  then show ?thesis using assms(2) by (simp add: unwound_def)
next
  case True
  then obtain t where t: "body = (None, t)" "tr = Made p # t @ [Gone p]"
    using assms(2) by (cases body) (auto simp: with_part_def split: option.splits)
  from assms(1) [OF t(1)] obtain ps where "t = map Made ps @ map Gone (rev ps)" by (auto simp: unwound_def)
  then show ?thesis by (auto simp: unwound_def t(2) intro!: exI [of _ "p # ps"])
qed

text \<open>A device that cannot be made gives back what was made for it, last first.\<close>

lemma create_device_unwinds:
  assumes "FS_CreateDevice a = (None, tr)"
  shows "unwound tr"
proof -
  have n: "unwound tr" if "(if c then (Some x, []) else (None, [])) = (None :: fs_device option, tr)" for c x tr
    using that by (simp add: unwound_def split: if_splits)
  obtain conn s1 where 1: "APB_AllocConnection (dv_Port a) 4 (dv_State a) = (conn, s1)" by fastforce
  obtain rd s2 where 2: "APB_AllocRequest (dv_Old a) (the conn) s1 = (rd, s2)" by fastforce
  obtain wr s3 where 3: "APB_AllocRequest (dv_Old a) (the conn) s2 = (wr, s3)" by fastforce
  obtain op c ps s4 where 4: "APB_OpenConnection (dv_Old a) (dv_Server a) (the conn) s3 = (op, c, ps, s4)"
    by (cases "APB_OpenConnection (dv_Old a) (dv_Server a) (the conn) s3") auto
  show ?thesis
    using assms unfolding FS_CreateDevice_def Let_def 1 2 3 4 prod.case
    by (elim with_part_unwinds [rotated]) (erule n)
qed

end
