(* ===== verification/FsQueue.thy ===== *)
theory FsQueue
  imports FsDevice "HOL-Library.Multiset"
begin

text \<open>
  The file system client's two queues. A request is in one of them from the moment it is enqueued
  until its response is taken off: it waits in \<open>fs_Reqs\<close> for the writer and then in \<open>fs_SentReqs\<close>
  for the answer. The lemmas say what filling in, enqueueing and sending a request leave alone,
  and what each packet of DOS does to the queues.
\<close>

section \<open>The queues\<close>

definition fs_queue :: "fs_state \<Rightarrow> addr list" where
  "fs_queue s = fs_SentReqs s @ fs_Reqs s"

text \<open>The requests in the order they are given to the server: those written, then those waiting.\<close>

fun written :: "fs_io list \<Rightarrow> addr list" where
  "written [] = []"
| "written (Fs_Read # io) = written io"
| "written (Fs_Write r n # io) = r # written io"

definition fs_line :: "fs_state \<Rightarrow> addr list" where
  "fs_line s = written (fs_io s) @ fs_Reqs s"

text \<open>The type of object a request is given back as.\<close>

definition request_type :: "fs_request \<Rightarrow> u16" where
  "request_type x = (if fr_Length x > 0 then OT_REQUEST_MAX else OT_REQUEST_MIN)"

text \<open>
  The state is well typed over \<open>H\<close>, the objects in use: no request is queued twice, each was
  allocated as the type it will be given back as, and no volume is listed twice. A request
  only waits while one is being written.
\<close>

definition fs_typed :: "(u16 \<Rightarrow> addr set) \<Rightarrow> fs_state \<Rightarrow> bool" where
  "fs_typed H s \<longleftrightarrow> pool_holds H s \<and> distinct (fs_queue s) \<and>
     (\<forall>r \<in> set (fs_queue s). r \<in> H (request_type (h_FsReq s r))) \<and>
     distinct (fs_Vols s) \<and> set (fs_Vols s) \<subseteq> H OT_VOLUME \<and> (fs_WriteReady s \<longrightarrow> fs_Reqs s = [])"

lemma written_append [simp]: "written (xs @ ys) = written xs @ written ys"
  by (induction xs rule: written.induct) auto

lemma fs_types_differ [simp]:
  "OT_REQUEST_MIN \<noteq> OT_REQUEST_MAX" "OT_REQUEST_MAX \<noteq> OT_REQUEST_MIN" "OT_LOCK \<noteq> OT_REQUEST_MIN"
  "OT_LOCK \<noteq> OT_REQUEST_MAX" "OT_LOCK \<noteq> OT_VOLUME" "OT_VOLUME \<noteq> OT_REQUEST_MIN" "OT_VOLUME \<noteq> OT_REQUEST_MAX"
  "OT_REQUEST_MIN \<noteq> OT_LOCK" "OT_REQUEST_MAX \<noteq> OT_LOCK" "OT_VOLUME \<noteq> OT_LOCK" "OT_REQUEST_MIN \<noteq> OT_VOLUME"
  "OT_REQUEST_MAX \<noteq> OT_VOLUME"
  by (simp_all add: OT_REQUEST_MIN_def OT_REQUEST_MAX_def OT_LOCK_def OT_VOLUME_def)

lemma request_type_cases: "request_type x = OT_REQUEST_MAX \<or> request_type x = OT_REQUEST_MIN"
  by (simp add: request_type_def)

lemma FS_FreeRequest_alt: "FS_FreeRequest r s = APB_FreeObject (request_type (h_FsReq s r)) r s"
  by (simp add: FS_FreeRequest_def request_type_def)

section \<open>What is left alone\<close>

text \<open>The pool but for its faults.\<close>

definition same_pool :: "fs_state \<Rightarrow> fs_state \<Rightarrow> bool" where
  "same_pool s t \<longleftrightarrow> op_Types t = op_Types s \<and> op_MemPool t = op_MemPool s \<and> op_Mem t = op_Mem s"

definition same_queues :: "fs_state \<Rightarrow> fs_state \<Rightarrow> bool" where
  "same_queues s t \<longleftrightarrow> fs_Reqs t = fs_Reqs s \<and> fs_SentReqs t = fs_SentReqs s \<and> fs_WriteReady t = fs_WriteReady s \<and>
     fs_io t = fs_io s \<and> dos_replies t = dos_replies s \<and> fs_Vols t = fs_Vols s"

text \<open>A step that only changes data of DOS, of volumes or of locks.\<close>

definition data_step :: "fs_state \<Rightarrow> fs_state \<Rightarrow> bool" where
  "data_step s t \<longleftrightarrow> same_pool s t \<and> same_queues s t \<and> h_FsReq t = h_FsReq s"

text \<open>The accesses through NULL so far.\<close>

definition null_count :: "fs_state \<Rightarrow> nat" where
  "null_count s = count_list (faults s) NullDeref"

text \<open>No packet changes its type.\<close>

definition kept :: "fs_state \<Rightarrow> fs_state \<Rightarrow> bool" where
  "kept s t \<longleftrightarrow> (\<forall>p. dp_Type (h_Pkt t p) = dp_Type (h_Pkt s p))"

text \<open>What filling in a request may do: \<open>len\<close> more bytes in it.\<close>

definition fills :: "u16 \<Rightarrow> (addr \<Rightarrow> fs_state \<Rightarrow> fs_state) \<Rightarrow> bool" where
  "fills len fill \<longleftrightarrow> (\<forall>r t. same_pool t (fill r t) \<and> same_queues t (fill r t) \<and>
     (\<forall>x. x \<noteq> r \<longrightarrow> h_FsReq (fill r t) x = h_FsReq t x) \<and>
     fr_Pkt (h_FsReq (fill r t) r) = fr_Pkt (h_FsReq t r) \<and>
     fr_Type (h_FsReq (fill r t) r) = fr_Type (h_FsReq t r) \<and>
     fr_Length (h_FsReq (fill r t) r) = fr_Length (h_FsReq t r) + len \<and>
     null_count (fill r t) = null_count t \<and> kept t (fill r t))"

lemmas step_defs = same_pool_def same_queues_def data_step_def fills_def

lemma data_step_refl [simp]: "data_step s s" by (simp add: step_defs)

lemma data_step_trans: "data_step s t \<Longrightarrow> data_step t u \<Longrightarrow> data_step s u"
  by (auto simp: step_defs)

lemma data_steps [simp]:
  "data_step s (upd_pkt p f s)" "data_step s (upd_lock l g s)" "data_step s (upd_vol v h s)"
  "data_step s (s\<lparr>h_FH := a\<rparr>)" "data_step s (s\<lparr>h_Fib := b\<rparr>)" "data_step s (s\<lparr>h_Info := c\<rparr>)"
  "data_step s (s\<lparr>fs_mem := d\<rparr>)" "data_step s (add_fault e s)" "data_step s (dos_do k s)"
  by (simp_all add: step_defs upd_pkt_def upd_lock_def upd_vol_def add_fault_def dos_do_def)

lemma data_step_queue: "data_step s t \<Longrightarrow> fs_queue t = fs_queue s \<and> fs_line t = fs_line s"
  by (simp add: step_defs fs_queue_def fs_line_def)

lemma data_step_typed: "data_step s t \<Longrightarrow> fs_typed H t = fs_typed H s"
  by (simp add: step_defs fs_typed_def fs_queue_def cong: pool_holds_cong)

lemma upd_fr_at [simp]: "h_FsReq (upd_fr r f s) x = (if x = r then f (h_FsReq s r) else h_FsReq s x)"
  by (simp add: upd_fr_def)

lemma upd_fr_steps [simp]: "same_pool s (upd_fr r f s)" "same_queues s (upd_fr r f s)" "null_count (upd_fr r f s) = null_count s"
  "kept t (upd_fr r f s) = kept t s"
  by (simp_all add: step_defs upd_fr_def null_count_def kept_def)

lemma same_trans:
  "same_pool s t \<Longrightarrow> same_pool t u \<Longrightarrow> same_pool s u" "same_queues s t \<Longrightarrow> same_queues t u \<Longrightarrow> same_queues s u"
  by (simp_all add: step_defs)

subsection \<open>Filling in\<close>

lemma fills_none [simp]: "fills 0 (\<lambda>r t. t)" by (simp add: step_defs kept_def)

lemma fills_args [intro]:
  assumes "\<And>r t x. fr_Pkt (f r t x) = fr_Pkt x \<and> fr_Length (f r t x) = fr_Length x \<and> fr_Type (f r t x) = fr_Type x"
    and "fills len g"
  shows "fills len (\<lambda>r t. upd_fr r (f r t) (g r t))"
  using assms(2) unfolding fills_def by (auto simp: assms(1) intro: same_trans(1) [OF _ upd_fr_steps(1)] same_trans(2) [OF _ upd_fr_steps(2)])

lemma append_arg_at:
  "h_FsReq (FS_AppendArg r a len d s) x = (if x = r then h_FsReq (FS_AppendArg r a len d s) r else h_FsReq s x)"
  "fr_Length (h_FsReq (FS_AppendArg r a len d s) r) = fr_Length (h_FsReq s r) + len"
  "fr_Pkt (h_FsReq (FS_AppendArg r a len d s) r) = fr_Pkt (h_FsReq s r)"
  "fr_Type (h_FsReq (FS_AppendArg r a len d s) r) = fr_Type (h_FsReq s r)"
  "same_pool s (FS_AppendArg r a len d s)" "same_queues s (FS_AppendArg r a len d s)"
  "null_count (FS_AppendArg r a len d s) = null_count s" "kept t (FS_AppendArg r a len d s) = kept t s"
  by (simp_all add: null_count_def kept_def FS_AppendArg_def Let_def upd_fr_def add_fault_def step_defs)

lemma fills_append [intro]:
  assumes "fills len g"
  shows "fills (len + n) (\<lambda>r t. FS_AppendArg r a n d (g r t))"
  using assms unfolding fills_def
  by (auto simp: append_arg_at(2-8) add.assoc intro: same_trans(1) [OF _ append_arg_at(5)] same_trans(2) [OF _ append_arg_at(6)]) (simp add: append_arg_at(1))

section \<open>Allocating and enqueueing\<close>

lemma fs_more:
  assumes "pool.more t = pool.more (s :: fs_state)"
  shows "h_Vol t = h_Vol s" "h_FsReq t = h_FsReq s" "h_Pkt t = h_Pkt s" "h_Lock t = h_Lock s" "h_FH t = h_FH s"
    "h_Fib t = h_Fib s" "fs_mem t = fs_mem s" "same_queues s t" "fs_queue t = fs_queue s" "fs_line t = fs_line s"
  using assms by (cases s; cases t; simp add: step_defs fs_queue_def fs_line_def)+

lemma alloc_typed:
  assumes "fs_typed H s" and "APB_AllocObject i s = (Some r, t)"
  shows "r \<notin> H j" and "fs_typed (H(i := insert r (H i))) t" and "faults t = faults s"
proof -
  note l = pool_laws(1) [OF _ assms(2), of H]
  have h: "pool_holds H s" using assms(1) by (simp add: fs_typed_def)
  let ?H = "H(i := insert r (H i))"
  have a: "r \<notin> H i" "pool_holds ?H t" "faults t = faults s" using l h by auto
  show "faults t = faults s" by (rule a(3))
  show "r \<notin> H j"
  proof (cases "j = i")
    case False
    then show ?thesis using pool_holds_one_type [OF a(2), of r i j] by auto
  qed (use a(1) in simp)
  note m = fs_more [OF APB_AllocObject_more [OF assms(2)]]
  have "fs_Vols t = fs_Vols s" "fs_WriteReady t = fs_WriteReady s" "fs_Reqs t = fs_Reqs s"
    using m(8) by (simp_all add: step_defs)
  then show "fs_typed ?H t" using assms(1) a(2) m by (auto simp: fs_typed_def)
qed

lemma alloc_None_typed:
  assumes "fs_typed H s" and "APB_AllocObject i s = (None, t)"
  shows "fs_typed H t" and "faults t = faults s"
proof -
  have h: "pool_holds H s" using assms(1) by (simp add: fs_typed_def)
  have a: "pool_holds H t" "faults t = faults s" using pool_laws(2) [OF h assms(2)] by auto
  note m = fs_more [OF APB_AllocObject_more [OF assms(2)]]
  have "fs_Vols t = fs_Vols s" "fs_WriteReady t = fs_WriteReady s" "fs_Reqs t = fs_Reqs s"
    using m(8) by (simp_all add: step_defs)
  then show "fs_typed H t" using assms(1) a(1) m by (auto simp: fs_typed_def)
  show "faults t = faults s" by (rule a(2))
qed

lemma not_queued: "fs_typed H s \<Longrightarrow> (\<And>j. r \<notin> H j) \<Longrightarrow> r \<notin> set (fs_queue s)"
  by (auto simp: fs_typed_def)

text \<open>A fresh request joins the end of both orders.\<close>

lemma enqueue_effect:
  "fs_queue (FS_EnqueueRequest r s) = fs_queue s @ [r]" "fs_line (FS_EnqueueRequest r s) = fs_line s @ [r]"
  "same_pool s (FS_EnqueueRequest r s)" "h_FsReq (FS_EnqueueRequest r s) = h_FsReq s"
  "dos_replies (FS_EnqueueRequest r s) = dos_replies s" "fs_Vols (FS_EnqueueRequest r s) = fs_Vols s"
  "h_Pkt (FS_EnqueueRequest r s) = h_Pkt s" "faults (FS_EnqueueRequest r s) = faults s"
  "h_Vol (FS_EnqueueRequest r s) = h_Vol s" "fs_mem (FS_EnqueueRequest r s) = fs_mem s"
  by (auto simp: FS_EnqueueRequest_def FS_SendReq_def fs_queue_def fs_line_def step_defs Let_def split: list.splits)

lemma enqueue_ready:
  "(fs_WriteReady s \<longrightarrow> fs_Reqs s = []) \<Longrightarrow>
     fs_WriteReady (FS_EnqueueRequest r s) \<longrightarrow> fs_Reqs (FS_EnqueueRequest r s) = []"
  by (auto simp: FS_EnqueueRequest_def FS_SendReq_def Let_def split: list.splits)

lemma enqueue_typed:
  assumes "fs_typed H s" and "r \<notin> set (fs_queue s)" and "r \<in> H (request_type (h_FsReq s r))"
  shows "fs_typed H (FS_EnqueueRequest r s)"
  using assms enqueue_effect(3) [of s r]
  by (simp add: fs_typed_def enqueue_effect enqueue_ready same_pool_def cong: pool_holds_cong)

section \<open>The effect of a packet\<close>

definition asks :: "addr \<Rightarrow> addr \<Rightarrow> fs_state \<Rightarrow> fs_state \<Rightarrow> bool" where
  "asks pkt r s t \<longleftrightarrow> fs_queue t = fs_queue s @ [r] \<and> fs_line t = fs_line s @ [r] \<and>
     dos_replies t = dos_replies s \<and> fr_Pkt (h_FsReq t r) = pkt \<and> (\<forall>x \<in> set (fs_queue s). h_FsReq t x = h_FsReq s x)"

definition stays :: "fs_state \<Rightarrow> fs_state \<Rightarrow> bool" where
  "stays s t \<longleftrightarrow> fs_queue t = fs_queue s \<and> fs_line t = fs_line s \<and>
     dos_replies t = dos_replies s \<and> (\<forall>x \<in> set (fs_queue s). h_FsReq t x = h_FsReq s x)"

definition answers :: "addr \<Rightarrow> fs_state \<Rightarrow> fs_state \<Rightarrow> bool" where
  "answers pkt s t \<longleftrightarrow> fs_queue t = fs_queue s \<and> fs_line t = fs_line s \<and>
     (\<exists>p. dos_replies t = dos_replies s @ [(pkt, p)]) \<and> (\<forall>x \<in> set (fs_queue s). h_FsReq t x = h_FsReq s x)"

definition grows :: "(u16 \<Rightarrow> addr set) \<Rightarrow> fs_state \<Rightarrow> bool" where
  "grows H t \<longleftrightarrow> (\<exists>H1. (\<forall>i. H i \<subseteq> H1 i) \<and> fs_typed H1 t)"

definition packet_effect :: "(u16 \<Rightarrow> addr set) \<Rightarrow> addr \<Rightarrow> fs_state \<Rightarrow> fs_state \<Rightarrow> bool" where
  "packet_effect H pkt s t \<longleftrightarrow> grows H t \<and> kept s t \<and>
     (answers pkt s t \<and> null_count t = null_count s \<or> (\<exists>r. asks pkt r s t) \<and> null_count t = null_count s \<or>
      stays s t \<and> null_count t = Suc (null_count s))"

lemma typed_grows: "fs_typed H t \<Longrightarrow> grows H t"
  by (auto simp: grows_def)

lemma grows_insert: "fs_typed (H(T := insert r (H T))) t \<Longrightarrow> grows H t"
proof -
  assume t: "fs_typed (H(T := insert r (H T))) t"
  have "\<forall>i. H i \<subseteq> (H(T := insert r (H T))) i" by auto
  with t show "grows H t" unfolding grows_def by (intro exI conjI)
qed

lemma grows_data: "data_step s t \<Longrightarrow> grows H t = grows H s"
  by (simp add: grows_def data_step_typed)

lemma alloc_request_Some:
  assumes "FS_AllocRequest vol pkt ty len s = (Some r, t)"
  obtains u where "APB_AllocObject (if len > 0 then OT_REQUEST_MAX else OT_REQUEST_MIN) s = (Some r, u)"
    and "same_pool u t" "same_queues u t" "null_count t = null_count u" "\<And>x. x \<noteq> r \<Longrightarrow> h_FsReq t x = h_FsReq u x"
    and "fr_Pkt (h_FsReq t r) = pkt" "fr_Length (h_FsReq t r) = 0" "fr_Type (h_FsReq t r) = ty" "faults t = faults u" "h_Pkt t = h_Pkt u"
  using assms by (auto simp: FS_AllocRequest_def upd_fr_def step_defs null_count_def split: prod.splits option.splits)

lemma alloc_request_None:
  "FS_AllocRequest vol pkt ty len s = (None, t) \<Longrightarrow>
     APB_AllocObject (if len > 0 then OT_REQUEST_MAX else OT_REQUEST_MIN) s = (None, t)"
  by (auto simp: FS_AllocRequest_def split: prod.splits option.splits)

text \<open>
  The heart of it: a request allocated for \<open>len\<close> bytes, filled with as many and enqueued.
\<close>

lemma ask_typed:
  assumes t: "fs_typed H s" and f: "fills len fill" and al: "FS_AllocRequest vol pkt ty len s = (Some r, s1)"
  defines "u \<equiv> FS_EnqueueRequest r (fill r s1)" and "T \<equiv> (if len > 0 then OT_REQUEST_MAX else OT_REQUEST_MIN)"
  shows "fs_typed (H(T := insert r (H T))) u" and "r \<notin> H j" and "asks pkt r s u"
    and "null_count u = null_count s" and "fr_Length (h_FsReq u r) = len" and "h_FsReq u = h_FsReq (fill r s1)"
    and "kept s u"
proof -
  obtain v where v: "APB_AllocObject T s = (Some r, v)" "same_pool v s1" "same_queues v s1"
      "null_count s1 = null_count v" "\<And>x. x \<noteq> r \<Longrightarrow> h_FsReq s1 x = h_FsReq v x"
      "fr_Pkt (h_FsReq s1 r) = pkt" "fr_Length (h_FsReq s1 r) = 0" "h_Pkt s1 = h_Pkt v"
    using alloc_request_Some [OF al] unfolding T_def by metis
  note a = alloc_typed [OF t v(1)]
  show "r \<notin> H j" by (rule a(1))
  let ?H = "H(T := insert r (H T))" and ?w = "fill r s1"
  have w: "same_pool s1 ?w" "same_queues s1 ?w" "\<And>x. x \<noteq> r \<Longrightarrow> h_FsReq ?w x = h_FsReq s1 x"
      "fr_Pkt (h_FsReq ?w r) = pkt" "fr_Length (h_FsReq ?w r) = len" "null_count ?w = null_count s1" "kept s1 ?w"
    using f v(6,7) unfolding fills_def by auto
  have p: "same_pool v ?w" "same_queues v ?w" using same_trans v(2,3) w(1,2) by blast+
  have q: "fs_queue ?w = fs_queue s" "fs_line ?w = fs_line s" "dos_replies ?w = dos_replies s"
    using p(2) fs_more [OF APB_AllocObject_more [OF v(1)]] by (simp_all add: fs_queue_def fs_line_def step_defs)
  have nq: "r \<notin> set (fs_queue s)" by (rule not_queued [OF t a(1)])
  have h: "h_FsReq ?w x = h_FsReq s x" if "x \<noteq> r" for x
    using that w(3) v(5) fs_more(2) [OF APB_AllocObject_more [OF v(1)]] by simp
  have "request_type (h_FsReq ?w r) = T" by (simp add: request_type_def w(5) T_def)
  moreover have "fs_typed ?H ?w"
  proof -
    have "\<forall>x \<in> set (fs_queue s). x \<in> ?H (request_type (h_FsReq ?w x))"
    proof
      fix x assume x: "x \<in> set (fs_queue s)"
      then have "h_FsReq ?w x = h_FsReq s x" using nq h by metis
      then show "x \<in> ?H (request_type (h_FsReq ?w x))" using t x by (auto simp: fs_typed_def)
    qed
    then show ?thesis
      using a(2) p q fs_more(9) [OF APB_AllocObject_more [OF v(1)]] unfolding fs_typed_def
      by (simp add: step_defs cong: pool_holds_cong)
  qed
  ultimately show "fs_typed ?H u"
    unfolding u_def by (intro enqueue_typed) (simp_all add: q nq)
  have "\<forall>x \<in> set (fs_queue s). h_FsReq ?w x = h_FsReq s x" using nq h by metis
  then show "asks pkt r s u" by (simp add: asks_def u_def enqueue_effect q w(4))
  show "null_count u = null_count s"
    using a(3) v(4) w(6) by (simp add: u_def null_count_def enqueue_effect)
  show "fr_Length (h_FsReq u r) = len" "h_FsReq u = h_FsReq ?w" by (simp_all add: u_def enqueue_effect w(5))
  show "kept s u" using w(7) v(8) fs_more(3) [OF APB_AllocObject_more [OF v(1)]] by (simp add: kept_def u_def enqueue_effect)
qed

lemma ask_remote_effect:
  assumes "fs_typed H s" and "fills len fill"
  shows "packet_effect H pkt s (ask_remote vol pkt ty len fill s)"
proof -
  obtain p s1 where al: "FS_AllocRequest vol pkt ty len s = (p, s1)" by fastforce
  show ?thesis
  proof (cases p)
    case None
    note n = alloc_request_None [OF al [unfolded None]]
    note m = fs_more [OF APB_AllocObject_more [OF n]]
    have "stays s (add_fault NullDeref s1)"
      using m by (simp add: stays_def add_fault_def step_defs fs_queue_def fs_line_def)
    moreover have "null_count (add_fault NullDeref s1) = Suc (null_count s)"
      using alloc_None_typed(2) [OF assms(1) n] by (simp add: null_count_def add_fault_def)
    moreover have "grows H (add_fault NullDeref s1)"
      using alloc_None_typed(1) [OF assms(1) n] data_steps(8) [of s1 NullDeref] typed_grows data_step_typed by metis
    moreover have "kept s (add_fault NullDeref s1)" using m(3) by (simp add: kept_def add_fault_def)
    ultimately show ?thesis by (simp add: packet_effect_def ask_remote_def al None)
  next
    case (Some r)
    let ?T = "if len > 0 then OT_REQUEST_MAX else OT_REQUEST_MIN"
    note a = ask_typed [OF assms al [unfolded Some]]
    have e: "ask_remote vol pkt ty len fill s = FS_EnqueueRequest r (fill r s1)"
      by (simp add: ask_remote_def al Some)
    have sub: "\<forall>i. H i \<subseteq> (H(T := insert r (H T))) i" for T by auto
    then have "grows H (FS_EnqueueRequest r (fill r s1))" 
      unfolding grows_def using a(1) sub [of ?T] by (intro exI conjI)
    then show ?thesis unfolding packet_effect_def e using a(3,4,7) by blast
  qed
qed

end
