(* ===== verification/FsPackets.thy ===== *)
theory FsPackets
  imports FsQueue
begin

text \<open>
  What one packet of DOS comes to: an answer at once, or one request to the remote side that
  holds the packet until its response comes. ACTION_END and ACTION_WRITE differ.
\<close>

lemma packet_effect_after:
  assumes "data_step s u" "null_count u = null_count s" "kept s u" "packet_effect H pkt u t"
  shows "packet_effect H pkt s t"
proof -
  have "fs_queue u = fs_queue s" "fs_line u = fs_line s" "dos_replies u = dos_replies s" "h_FsReq u = h_FsReq s"
    using data_step_queue [OF assms(1)] assms(1) by (simp_all add: step_defs)
  moreover have "kept s t" using assms(3,4) by (simp add: kept_def packet_effect_def)
  ultimately show ?thesis using assms(2,4) by (simp add: packet_effect_def answers_def asks_def stays_def)
qed

lemma kept_steps [simp]:
  "kept s s" "kept s (upd_lock l g t) = kept s t" "kept s (upd_vol v h t) = kept s t" "kept s (t\<lparr>h_FH := a\<rparr>) = kept s t"
  "kept s (t\<lparr>h_Fib := b\<rparr>) = kept s t" "kept s (t\<lparr>h_Info := c\<rparr>) = kept s t" "kept s (t\<lparr>fs_mem := d\<rparr>) = kept s t"
  "kept s (add_fault e t) = kept s t" "kept s (dos_do k t) = kept s t" "kept s (t\<lparr>dos_replies := x\<rparr>) = kept s t"
  "(\<And>x. dp_Type (f x) = dp_Type x) \<Longrightarrow> kept s (upd_pkt p f t) = kept s t"
  by (auto simp: kept_def upd_pkt_def upd_lock_def upd_vol_def add_fault_def dos_do_def)

lemma null_steps [simp]:
  "null_count (upd_lock l g t) = null_count t" "null_count (upd_vol v h t) = null_count t"
  "null_count (t\<lparr>h_FH := a\<rparr>) = null_count t" "null_count (t\<lparr>h_Fib := b\<rparr>) = null_count t"
  "null_count (t\<lparr>h_Info := c\<rparr>) = null_count t" "null_count (t\<lparr>fs_mem := d\<rparr>) = null_count t"
  "null_count (dos_do k t) = null_count t" "null_count (t\<lparr>dos_replies := x\<rparr>) = null_count t"
  "null_count (upd_pkt p f t) = null_count t"
  by (simp_all add: null_count_def upd_pkt_def upd_lock_def upd_vol_def dos_do_def)

section \<open>Answers at once\<close>

lemma reply_effect:
  assumes "grows H t" "stays s t" "kept s t" "null_count t = null_count s"
  shows "packet_effect H pkt s (FS_ReplyToDosPacket None pkt t)"
proof -
  have "pool_holds H1 (t\<lparr>dos_replies := x\<rparr>) = pool_holds H1 t" for x H1 by (rule pool_holds_cong) simp_all
  then have "grows H (t\<lparr>dos_replies := x\<rparr>) = grows H t" for x
    by (simp add: grows_def fs_typed_def fs_queue_def)
  then show ?thesis
    using assms by (simp add: packet_effect_def FS_ReplyToDosPacket_def answers_def stays_def fs_queue_def fs_line_def)
qed

lemma stays_data: "data_step s t \<Longrightarrow> stays s t"
  using data_step_queue [of s t] by (simp add: stays_def step_defs)

lemma stays_data_step: "stays s t \<Longrightarrow> data_step t u \<Longrightarrow> stays s u"
  using data_step_queue [of t u] by (simp add: stays_def step_defs)

lemma data_reply_effect:
  assumes "fs_typed H s" "data_step s t" "kept s t" "null_count t = null_count s"
  shows "packet_effect H pkt s (FS_ReplyToDosPacket None pkt t)"
  using assms by (intro reply_effect) (simp_all add: stays_data typed_grows data_step_typed)

lemma faults_upd [simp]:
  "faults (upd_lock l g t) = faults t" "faults (upd_vol v h t) = faults t" "faults (upd_pkt p f t) = faults t"
  "faults (upd_fr p k t) = faults t" "faults (dos_do c t) = faults t"
  by (simp_all add: upd_pkt_def upd_lock_def upd_vol_def dos_do_def upd_fr_def)

lemma lock_alloc:
  assumes "fs_typed H s" and "FS_AllocLock vol s = (p, t)"
  shows "grows H t" and "stays s t" and "kept s t" and "null_count t = null_count s" and "h_FsReq t = h_FsReq s"
    and "faults t = faults s"
proof -
  obtain u where al: "APB_AllocObject OT_LOCK s = (p, u)" and d: "data_step u t" "kept u t" "faults t = faults u"
    using assms(2) data_step_trans [OF data_steps(2) data_steps(3)]
    by (auto simp: FS_AllocLock_def faults_upd split: prod.splits option.splits)
  have g: "grows H u \<and> faults u = faults s"
  proof (cases p)
    case None
    then show ?thesis using alloc_None_typed [OF assms(1)] al by (auto intro: typed_grows)
  next
    case (Some l)
    show ?thesis using alloc_typed(2,3) [OF assms(1) al [unfolded Some]] by (auto intro: grows_insert)
  qed
  note m = fs_more [OF APB_AllocObject_more [OF al]]
  show "grows H t" using g grows_data [OF d(1)] by simp
  have "same_queues s u" by (rule m(8))
  then show "stays s t" "h_FsReq t = h_FsReq s" using d(1) m by (simp_all add: stays_def step_defs fs_queue_def fs_line_def)
  show "kept s t" using d(2) m(3) by (simp add: kept_def)
  show "faults t = faults s" using g d(3) by simp
  then show "null_count t = null_count s" by (simp add: null_count_def)
qed

section \<open>Each packet\<close>

lemma fills_args0:
  assumes "\<And>r t x. fr_Pkt (f r t x) = fr_Pkt x \<and> fr_Length (f r t x) = fr_Length x \<and> fr_Type (f r t x) = fr_Type x"
  shows "fills 0 (\<lambda>r t. upd_fr r (f r t) t)"
  using fills_args [OF assms fills_none] .

lemma fills_name:
  assumes "fills 0 g"
  shows "fills n (\<lambda>r t. FS_AppendArg r a n d (g r t))"
  using fills_append [OF assms, of n] by simp

lemma locate_effect: "fs_typed H s \<Longrightarrow> packet_effect H pkt s (FS_ActionLocateObject vol pkt s)"
  unfolding FS_ActionLocateObject_def Let_def
  by (intro ask_remote_effect fills_args fills_name) simp_all

lemma free_lock_effect: "fs_typed H s \<Longrightarrow> packet_effect H pkt s (FS_ActionFreeLock vol pkt s)"
  by (auto simp: FS_ActionFreeLock_def Let_def intro!: data_reply_effect ask_remote_effect fills_args0)

lemma same_lock_effect: "fs_typed H s \<Longrightarrow> packet_effect H pkt s (FS_ActionSameLock vol pkt s)"
  by (auto simp: FS_ActionSameLock_def Let_def intro!: data_reply_effect ask_remote_effect fills_args0)

lemma info_effect:
  "fs_typed H s \<Longrightarrow> v_Mounted (h_Vol s vol) \<Longrightarrow> packet_effect H pkt s (FS_ActionInfo vol pkt s)"
  by (auto simp: FS_ActionInfo_def intro!: ask_remote_effect)

lemma open_effect: "fs_typed H s \<Longrightarrow> packet_effect H pkt s (FS_ActionOpen vol pkt s)"
  unfolding FS_ActionOpen_def Let_def
  by (intro ask_remote_effect fills_args fills_name) simp_all

lemma examine_effect: "fs_typed H s \<Longrightarrow> packet_effect H pkt s (FS_ActionExamine now vol pkt s)"
  by (auto simp: FS_ActionExamine_def Let_def intro!: data_reply_effect ask_remote_effect fills_args0)

lemma ask_after:
  assumes "fs_typed H s" "data_step s u" "kept s u" "null_count u = null_count s" "fills len fill"
  shows "packet_effect H pkt s (ask_remote vol pkt ty len fill u)"
  by (rule packet_effect_after [OF assms(2,4,3)], rule ask_remote_effect)
    (use assms in \<open>simp_all add: data_step_typed\<close>)

lemma examine_next_effect:
  assumes "fs_typed H s"
  shows "packet_effect H pkt s (FS_ActionExamineNext vol pkt s)"
  unfolding FS_ActionExamineNext_def Let_def by (rule ask_after [OF assms]) (auto intro!: fills_args0)

lemma examine_fh_effect: "fs_typed H s \<Longrightarrow> packet_effect H pkt s (FS_ActionExamineFH vol pkt s)"
  by (auto simp: FS_ActionExamineFH_def intro!: ask_remote_effect fills_args0)

lemma parent_effect:
  assumes "fs_typed H s"
  shows "packet_effect H pkt s (ask_parent ty vol pkt s)"
  unfolding ask_parent_def Let_def by (rule ask_after [OF assms]) (auto intro!: fills_args0)

lemma read_effect: "fs_typed H s \<Longrightarrow> packet_effect H pkt s (FS_ActionRead vol pkt s)"
proof -
  assume t: "fs_typed H s"
  have "fills 0 (\<lambda>r t. upd_pkt pkt (\<lambda>p. p\<lparr>dp_Res1 := 0\<rparr>) (upd_fr r (\<lambda>x. x\<lparr>fr_Arg1 := a, fr_Arg3 := b\<rparr>) t))" for a b
    by (simp add: fills_def step_defs upd_pkt_def upd_fr_def null_count_def kept_def)
  then show ?thesis unfolding FS_ActionRead_def Let_def by (intro ask_remote_effect t)
qed

lemma seek_effect: "fs_typed H s \<Longrightarrow> packet_effect H pkt s (FS_ActionSeek vol pkt s)"
  by (auto simp: FS_ActionSeek_def Let_def intro!: ask_remote_effect fills_args0)

lemma on_name_effect: "fs_typed H s \<Longrightarrow> packet_effect H pkt s (ask_on_name ty vol pkt s)"
  unfolding ask_on_name_def Let_def
  by (intro ask_remote_effect fills_args0 fills_name) simp_all

lemma rename_effect: "fs_typed H s \<Longrightarrow> packet_effect H pkt s (FS_ActionRenameObject vol pkt s)"
  unfolding FS_ActionRenameObject_def Let_def
  by (intro ask_remote_effect fills_append fills_args fills_args0 fills_name) simp_all

lemma fh_from_lock_effect: "fs_typed H s \<Longrightarrow> packet_effect H pkt s (FS_ActionFHFromLock vol pkt s)"
  by (auto simp: FS_ActionFHFromLock_def Let_def intro!: ask_remote_effect fills_args0)

lemma end_effect: "fs_typed H s \<Longrightarrow> packet_effect H pkt s (FS_ActionEnd vol pkt s)"
  by (auto simp: FS_ActionEnd_def intro!: ask_remote_effect fills_args0)

lemma copy_dir_effect:
  assumes "fs_typed H s"
  shows "packet_effect H pkt s (FS_ReplyToDosPacket None pkt (FS_ActionCopyDir vol pkt s))"
proof -
  obtain p t where al: "FS_AllocLock vol s = (p, t)" by fastforce
  note l = lock_alloc [OF assms al]
  have d: "data_step t (FS_ActionCopyDir vol pkt s)"
    by (auto simp: FS_ActionCopyDir_def al intro: data_step_trans [OF data_steps(2) data_steps(1)] split: option.splits)
  have "kept s (FS_ActionCopyDir vol pkt s)" "null_count (FS_ActionCopyDir vol pkt s) = null_count s"
    using l(3,4) by (auto simp: FS_ActionCopyDir_def al split: option.splits)
  moreover have "grows H (FS_ActionCopyDir vol pkt s)" using l(1) grows_data [OF d] by simp
  ultimately show ?thesis by (intro reply_effect stays_data_step [OF l(2) d])
qed

text \<open>Every packet but two.\<close>

lemma handle_packet_effect:
  assumes t: "fs_typed H s" and p: "dp_Type (h_Pkt s pkt) \<notin> {ACTION_END, ACTION_WRITE}"
  shows "packet_effect H pkt s (FS_HandlePacket now vol pkt s)"
proof -
  note eff = locate_effect [OF t] free_lock_effect [OF t] same_lock_effect [OF t] info_effect [OF t] open_effect [OF t]
    examine_effect [OF t] examine_next_effect [OF t] examine_fh_effect [OF t] parent_effect [OF t] read_effect [OF t]
    seek_effect [OF t] on_name_effect [OF t] rename_effect [OF t] fh_from_lock_effect [OF t] copy_dir_effect [OF t]
    data_reply_effect [OF t data_steps(1)]
  show ?thesis
  proof (cases "v_Mounted (h_Vol s vol)")
    case True
    then show ?thesis
      using p by (cases "dp_Type (h_Pkt s pkt)")
        (simp_all add: FS_HandlePacket_def handle_mounted_def Let_def FS_ActionParent_def FS_ActionParentFH_def
          FS_ActionCreateDir_def FS_ActionDeleteObject_def eff)
  next
    case False
    have "data_step s (FS_ActionInfo vol pkt s)" "kept s (FS_ActionInfo vol pkt s)"
        "null_count (FS_ActionInfo vol pkt s) = null_count s"
      using False by (auto simp: FS_ActionInfo_def intro: data_step_trans [OF data_steps(6) data_steps(1)])
    note i = data_reply_effect [OF t this]
    show ?thesis
      using False by (cases "dp_Type (h_Pkt s pkt)")
        (simp_all add: FS_HandlePacket_def handle_unmounted_def eff i)
  qed
qed

end
