(* ===== verification/FsResponses.thy ===== *)
theory FsResponses
  imports FsPackets
begin

text \<open>
  What one response of the remote side comes to: the packet its request holds is answered and the
  request goes back to the pool as the type it came from. A part of a read or a write that is not
  the last answers nothing.
\<close>

lemma free_object_typed:
  assumes t: "fs_typed H s" and x: "x \<in> H i" and "x \<notin> set (fs_queue s)" "x \<notin> set (fs_Vols s)"
  shows "fs_typed (H(i := H i - {x})) (APB_FreeObject i x s)"
proof -
  have h: "pool_holds H s" using t by (simp add: fs_typed_def)
  note p = pool_laws(3) [OF h x]
  note m = fs_more [OF APB_FreeObject_more [of i x s]]
  have q: "fs_Vols (APB_FreeObject i x s) = fs_Vols s" "fs_WriteReady (APB_FreeObject i x s) = fs_WriteReady s"
      "fs_Reqs (APB_FreeObject i x s) = fs_Reqs s"
    using m(8) by (simp_all add: step_defs)
  have "r \<in> (H(i := H i - {x})) (request_type (h_FsReq s r))" if r: "r \<in> set (fs_queue s)" for r
    using t r assms(3) by (auto simp: fs_typed_def)
  then show ?thesis using t p assms(4) by (auto simp: fs_typed_def m(2,9) q)
qed

lemma free_request_steps:
  "same_queues s (FS_FreeRequest r s)" "h_FsReq (FS_FreeRequest r s) = h_FsReq s" "fs_queue (FS_FreeRequest r s) = fs_queue s"
  using fs_more [OF APB_FreeObject_more [of "request_type (h_FsReq s r)" r s]] by (simp_all add: FS_FreeRequest_alt)

lemma other_type:
  assumes "fs_typed H s" "x \<in> H OT_LOCK"
  shows "x \<notin> set (fs_queue s)" "x \<notin> set (fs_Vols s)"
proof -
  have h: "pool_holds H s" using assms(1) by (simp add: fs_typed_def)
  show "x \<notin> set (fs_queue s)"
  proof
    assume "x \<in> set (fs_queue s)"
    then have "x \<in> H (request_type (h_FsReq s x))" using assms(1) by (simp add: fs_typed_def)
    from pool_holds_one_type [OF h assms(2) this] show False using request_type_cases [of "h_FsReq s x"] by auto
  qed
  show "x \<notin> set (fs_Vols s)"
    using pool_holds_one_type [OF h assms(2), of OT_VOLUME] assms(1) by (auto simp: fs_typed_def)
qed

section \<open>Answering\<close>

text \<open>What a reply function does before the packet is answered: \<open>r\<close> is still the client's.\<close>

definition settles :: "addr \<Rightarrow> fs_state \<Rightarrow> fs_state \<Rightarrow> bool" where
  "settles r s t \<longleftrightarrow> same_queues s t \<and> h_FsReq t = h_FsReq s \<and>
     (\<exists>H1. fs_typed H1 t \<and> r \<in> H1 (request_type (h_FsReq s r)))"

lemma settles_data:
  assumes "settles r s t" "data_step t u"
  shows "settles r s u"
proof -
  have "same_queues s u" using same_trans(2) [of s t u] assms by (simp add: settles_def data_step_def)
  moreover have "h_FsReq u = h_FsReq s" using assms by (simp add: settles_def data_step_def)
  moreover have "fs_typed K u = fs_typed K t" for K by (rule data_step_typed [OF assms(2)])
  ultimately show ?thesis using assms(1) by (simp add: settles_def)
qed

lemma settles_start: "fs_typed H s \<Longrightarrow> r \<in> H (request_type (h_FsReq s r)) \<Longrightarrow> settles r s s"
  by (auto simp: settles_def step_defs)

lemma settles_lock:
  assumes "fs_typed H s" "r \<in> H (request_type (h_FsReq s r))" "FS_AllocLock vol s = (p, t)"
  shows "settles r s t"
proof -
  note l = lock_alloc [OF assms(1,3)]
  obtain u where al: "APB_AllocObject OT_LOCK s = (p, u)" and d: "data_step u t"
    using assms(3) data_step_trans [OF data_steps(2) data_steps(3)]
    by (auto simp: FS_AllocLock_def split: prod.splits option.splits)
  have "same_queues s t" using same_trans(2) fs_more(8) [OF APB_AllocObject_more [OF al]] d by (simp add: data_step_def step_defs)
  then show ?thesis using l(1,5) assms(2) by (auto simp: settles_def grows_def)
qed

lemma settles_free_lock:
  assumes t: "fs_typed H s" and r: "r \<in> H (request_type (h_FsReq s r))"
    and l: "\<And>l. p = Some l \<Longrightarrow> fl_Magic (h_Lock s l) = of_nat l \<Longrightarrow> l \<in> H OT_LOCK"
  shows "settles r s (FS_FreeLock vol p s)"
proof (cases p)
  case None
  then show ?thesis using settles_start [OF t r] by (simp add: FS_FreeLock_def)
next
  case (Some a)
  show ?thesis
  proof (cases "fl_Magic (h_Lock s a) = of_nat a")
    case False
    then show ?thesis using settles_start [OF t r] by (simp add: FS_FreeLock_def Some)
  next
    case True
    have a: "a \<in> H OT_LOCK" by (rule l [OF Some True])
    let ?u = "APB_FreeObject OT_LOCK a s"
    have f: "fs_typed (H(OT_LOCK := H OT_LOCK - {a})) ?u"
      by (rule free_object_typed [where H = H]) (use t a other_type [OF t a] in simp_all)
    note m = fs_more [OF APB_FreeObject_more [of OT_LOCK a s]]
    have "r \<in> (H(OT_LOCK := H OT_LOCK - {a})) (request_type (h_FsReq s r))"
      using r request_type_cases [of "h_FsReq s r"] by auto
    then have "settles r s ?u" using f m(2,8) unfolding settles_def by blast
    then show ?thesis
      by (simp add: FS_FreeLock_def Some True settles_data [OF _ data_steps(3)])
  qed
qed

text \<open>The packet's answer, and the request back in the pool.\<close>

lemma reply_settles:
  fixes pkt :: addr
  assumes s: "settles r s t" and nq: "r \<notin> set (fs_queue s)"
  defines "u \<equiv> FS_ReplyToDosPacket (Some r) pkt t"
  shows "\<exists>H1. fs_typed H1 u" and "fs_queue u = fs_queue s" and "fs_line u = fs_line s" and "h_FsReq u = h_FsReq s"
    and "\<exists>p. dos_replies u = dos_replies s @ [(pkt, p)]"
proof -
  obtain H where H: "fs_typed H t" "r \<in> H (request_type (h_FsReq s r))" and q: "same_queues s t" "h_FsReq t = h_FsReq s"
    using s by (auto simp: settles_def)
  let ?v = "t\<lparr>dos_replies := dos_replies t @ [(pkt, h_Pkt t pkt)]\<rparr>"
  have "pool_holds H ?v = pool_holds H t" by (rule pool_holds_cong) simp_all
  then have v: "fs_typed H ?v" using H(1) by (simp add: fs_typed_def fs_queue_def)
  have e: "u = APB_FreeObject (request_type (h_FsReq s r)) r ?v"
    by (simp add: u_def FS_ReplyToDosPacket_def FS_FreeRequest_alt q)
  note m = fs_more [OF APB_FreeObject_more [of "request_type (h_FsReq s r)" r ?v], folded e]
  show "fs_queue u = fs_queue s" "fs_line u = fs_line s" "h_FsReq u = h_FsReq s"
    using q m by (simp_all add: step_defs fs_queue_def fs_line_def)
  have "dos_replies u = dos_replies s @ [(pkt, h_Pkt t pkt)]" using q(1) m(8) by (simp add: step_defs)
  then show "\<exists>p. dos_replies u = dos_replies s @ [(pkt, p)]" by blast
  have h: "pool_holds H t" using H(1) by (simp add: fs_typed_def)
  have "r \<notin> set (fs_Vols ?v)"
  proof
    assume "r \<in> set (fs_Vols ?v)"
    then have "r \<in> H OT_VOLUME" using H(1) by (auto simp: fs_typed_def)
    from pool_holds_one_type [OF h this H(2)] show False using request_type_cases [of "h_FsReq s r"] by auto
  qed
  moreover have "r \<notin> set (fs_queue ?v)" using nq q(1) by (simp add: step_defs fs_queue_def)
  ultimately show "\<exists>H1. fs_typed H1 u" using free_object_typed [OF v H(2)] by (auto simp: e)
qed

section \<open>Each response\<close>

text \<open>A lock DOS gives back, or one taken for a lock, is one that was handed out.\<close>

definition lock_known :: "(u16 \<Rightarrow> addr set) \<Rightarrow> addr \<Rightarrow> fs_state \<Rightarrow> bool" where
  "lock_known H pkt s \<longleftrightarrow> dp_Type (h_Pkt s pkt) \<in> {ACTION_FREE_LOCK, ACTION_FH_FROM_LOCK} \<longrightarrow>
     (\<forall>l. BADDR (dp_Arg1 (h_Pkt s pkt)) = Some l \<and> fl_Magic (h_Lock s l) = of_nat l \<longrightarrow> l \<in> H OT_LOCK)"

lemma locate_settles:
  assumes "fs_typed H s" "r \<in> H (request_type (h_FsReq s r))"
  shows "settles r s (FS_ActionLocateObjectReply vol res pkt s)"
proof -
  obtain p t where al: "FS_AllocLock vol s = (p, t)" by fastforce
  note l = settles_lock [OF assms al]
  show ?thesis
    using settles_data [OF settles_start [OF assms] data_steps(1)]
      settles_data [OF l data_steps(1)] settles_data [OF settles_data [OF l data_steps(2)] data_steps(1)]
    by (auto simp: FS_ActionLocateObjectReply_def al split: option.splits)
qed

lemma create_dir_settles:
  assumes "fs_typed H s" "r \<in> H (request_type (h_FsReq s r))"
  shows "settles r s (FS_ActionCreateDirReply vol res pkt s)"
  using locate_settles [OF assms] by (auto simp: FS_ActionCreateDirReply_def Let_def
      intro: settles_data [OF _ data_steps(8)] settles_data [OF _ data_steps(2)] split: option.splits)

lemma free_lock_settles:
  assumes "fs_typed H s" "r \<in> H (request_type (h_FsReq s r))" "lock_known H pkt s"
    "dp_Type (h_Pkt s pkt) = ACTION_FREE_LOCK"
  shows "settles r s (FS_ActionFreeLockReply vol res pkt s)"
proof -
  have "settles r s (FS_FreeLock vol (BADDR (dp_Arg1 (h_Pkt s pkt))) s)"
    using assms(3,4) by (intro settles_free_lock [OF assms(1,2)]) (auto simp: lock_known_def)
  then show ?thesis
    using settles_start [OF assms(1,2)]
    by (auto simp: FS_ActionFreeLockReply_def intro: settles_data [OF _ data_steps(1)])
qed

lemma settles_after: "data_step s u \<Longrightarrow> settles r u t \<Longrightarrow> settles r s t"
  using same_trans(2) [of s u t] by (simp add: settles_def data_step_def)

lemma fh_from_lock_settles:
  assumes "fs_typed H s" "r \<in> H (request_type (h_FsReq s r))" "lock_known H pkt s"
    "dp_Type (h_Pkt s pkt) = ACTION_FH_FROM_LOCK"
  shows "settles r s (FS_ActionFHFromLockReply vol res pkt s)"
proof -
  let ?u = "upd_pkt pkt (\<lambda>p. p\<lparr>dp_Res1 := fs_Res1 res\<rparr>) s"
  let ?v = "?u\<lparr>h_FH := (h_FH ?u)(fh_addr (h_Pkt s pkt) := fs_Res2 res)\<rparr>"
  have d: "data_step s ?v" by (rule data_step_trans [OF data_steps(1) data_steps(4)])
  have f: "h_FsReq ?v = h_FsReq s" "same_queues s ?v" using d by (simp_all add: data_step_def)
  have "fl_Magic (h_Lock ?v l) = fl_Magic (h_Lock s l)" for l by (simp add: upd_pkt_def)
  then have k: "l \<in> H OT_LOCK"
    if "BADDR (dp_Arg1 (h_Pkt s pkt)) = Some l" "fl_Magic (h_Lock ?v l) = of_nat l" for l
    using that assms(3,4) by (simp add: lock_known_def)
  have "settles r ?v (FS_FreeLock vol (BADDR (dp_Arg1 (h_Pkt s pkt))) ?v)"
    by (rule settles_free_lock [where H = H])
      (use assms(1,2) k in \<open>simp_all only: f data_step_typed [OF d]\<close>)
  then have l: "settles r s (FS_FreeLock vol (BADDR (dp_Arg1 (h_Pkt s pkt))) ?v)"
    by (rule settles_after [OF d])
  note k = settles_data [OF settles_start [OF assms(1,2)] data_steps(1)]
  show ?thesis
    using l k by (auto simp: FS_ActionFHFromLockReply_def Let_def intro: settles_data [OF _ data_steps(1)])
qed

lemma data_settles:
  assumes "fs_typed H s" "r \<in> H (request_type (h_FsReq s r))" "data_step s t"
  shows "settles r s t"
  by (rule settles_data [OF settles_start [OF assms(1,2)] assms(3)])

lemma data_replies:
  "data_step s (FS_ActionInfoReply vol res pkt s)" "data_step s (FS_ActionOpenReply vol res pkt s)"
  "data_step s (FS_ActionExamineReply vol res pkt s)"
  by (auto simp: FS_ActionInfoReply_def FS_ActionOpenReply_def FS_ActionExamineReply_def Let_def
      intro: data_step_trans [OF data_steps(6) data_steps(1)] data_step_trans [OF data_steps(1) data_steps(4)]
        data_step_trans [OF data_steps(1) data_steps(5)] data_step_trans [OF data_steps(1) data_steps(1)])

text \<open>What has become of the queues and of the packet; \<open>k\<close> answers it got.\<close>

definition settled :: "nat \<Rightarrow> addr \<Rightarrow> fs_state \<Rightarrow> fs_state \<Rightarrow> bool" where
  "settled k pkt s t \<longleftrightarrow> (\<exists>H1. fs_typed H1 t) \<and> fs_queue t = fs_queue s \<and> fs_line t = fs_line s \<and>
     h_FsReq t = h_FsReq s \<and> map fst (dos_replies t) = map fst (dos_replies s) @ replicate k pkt"

lemma settled_reply:
  assumes "settles r s t" "r \<notin> set (fs_queue s)"
  shows "settled (Suc 0) pkt s (FS_ReplyToDosPacket (Some r) pkt t)"
  using reply_settles [OF assms, of pkt] by (auto simp: settled_def)

lemma settled_none: "settles r s t \<Longrightarrow> settled 0 pkt s t"
  by (auto simp: settles_def settled_def step_defs fs_queue_def fs_line_def)

lemma response_settles:
  assumes t: "fs_typed H s" and r: "r \<in> H (request_type (h_FsReq s r))" and nq: "r \<notin> set (fs_queue s)"
    and l: "lock_known H (fr_Pkt (h_FsReq s r)) s"
  defines "pkt \<equiv> fr_Pkt (h_FsReq s r)"
  shows "settled (if dp_Type (h_Pkt s pkt) \<in> {ACTION_READ, ACTION_WRITE} \<and> fs_Res2 res = 0 then 0 else Suc 0) pkt s
    (FS_ReceiveRemoteMessage vol res r s)"
proof -
  note st = settled_reply [OF _ nq]
  note d = data_settles [OF t r] and l = l [folded pkt_def]
  note rep = st [OF locate_settles [OF t r]] st [OF create_dir_settles [OF t r]] st [OF free_lock_settles [OF t r l]]
    st [OF fh_from_lock_settles [OF t r l]] st [OF d [OF data_replies(1)]] st [OF d [OF data_replies(2)]]
    st [OF d [OF data_replies(3)]] st [OF d [OF data_steps(1)]]
  have w: "data_step s (if c then upd_pkt p f s else s)" "data_step s (if c then upd_pkt p f (s\<lparr>fs_mem := m\<rparr>) else s)"
    "data_step s (upd_pkt p g (if c then upd_pkt p f s else s))"
    "data_step s (upd_pkt p g (if c then upd_pkt p f (s\<lparr>fs_mem := m\<rparr>) else s))" for c p f g m
    by (auto intro: data_step_trans [OF data_steps(7) data_steps(1)] data_step_trans [OF data_steps(1) data_steps(1)]
        data_step_trans [OF data_step_trans [OF data_steps(7) data_steps(1)] data_steps(1)])
  have rd: "settled (if fs_Res2 res = 0 then 0 else Suc 0) pkt s (FS_ActionReadReply res r pkt s)"
    using st [OF d [OF w(2)]] st [OF d [OF w(4)]] settled_none [OF d [OF w(2)]]
    by (simp add: FS_ActionReadReply_def Let_def)
  have wr: "settled (if fs_Res2 res = 0 then 0 else Suc 0) pkt s (FS_ActionWriteReply res r pkt s)"
    using st [OF d [OF w(1)]] st [OF d [OF w(3)]] settled_none [OF d [OF w(1)]]
    by (simp add: FS_ActionWriteReply_def Let_def)
  show ?thesis
    using rd wr by (cases "dp_Type (h_Pkt s pkt)")
      (simp_all add: FS_ReceiveRemoteMessage_def Let_def pkt_def [symmetric] rep)
qed

end
