(* ===== verification/FsWrite.thy ===== *)
theory FsWrite
  imports FsResponses
begin

text \<open>
  ACTION_WRITE: the data goes out in requests of at most 512 bytes. The reference is a list of
  chunks; every request says which chunk it is by the number of bytes behind it.
\<close>

function chunks :: "nat \<Rightarrow> 'a list \<Rightarrow> 'a list list" where
  "chunks k xs = (if k = 0 \<or> xs = [] then [] else take k xs # chunks k (drop k xs))"
  by pat_completeness auto
termination by (relation "measure (\<lambda>(k, xs). length xs)") auto

declare chunks.simps [simp del]

lemma chunks_Nil [simp]: "chunks k [] = []" by (simp add: chunks.simps)

lemma concat_chunks: "0 < k \<Longrightarrow> concat (chunks k xs) = xs"
  by (induction k xs rule: chunks.induct) (subst chunks.simps, simp)

lemma length_in_chunks: "c \<in> set (chunks k xs) \<Longrightarrow> 0 < length c \<and> length c \<le> k"
  by (induction k xs rule: chunks.induct) (subst (asm) (2) chunks.simps, auto split: if_splits)

text \<open>The bytes behind each chunk.\<close>

fun rests :: "'a list list \<Rightarrow> nat list" where
  "rests [] = []"
| "rests (c # cs) = sum_list (map length cs) # rests cs"

text \<open>What a request carries.\<close>

definition request_data :: "fs_request \<Rightarrow> u8 list" where
  "request_data x = bytes_of (fr_Data x) 0 (unat (fr_Length x))"

definition write_request :: "addr \<Rightarrow> u32 \<Rightarrow> u8 list \<Rightarrow> nat \<Rightarrow> fs_request \<Rightarrow> bool" where
  "write_request pkt fh c rest x \<longleftrightarrow> fr_Pkt x = pkt \<and> fr_Type x = ACTION_WRITE \<and> fr_Arg1 x = fh \<and>
     request_data x = c \<and> fr_Arg2 x = 0 \<and> fr_Arg3 x = of_nat rest \<and> fr_Arg4 x = of_nat (length c)"

section \<open>One chunk\<close>

definition write_fill :: "addr \<Rightarrow> nat \<Rightarrow> addr \<Rightarrow> nat \<Rightarrow> dos_packet \<Rightarrow> addr \<Rightarrow> fs_state \<Rightarrow> fs_state" where
  "write_fill pkt k data rest p r t = upd_fr r (\<lambda>x. x\<lparr>fr_Arg3 := of_nat rest, fr_Arg4 := of_nat k\<rparr>)
     (FS_AppendArg r 2 (of_nat k) data (upd_fr r (\<lambda>x. x\<lparr>fr_Arg1 := dp_Arg1 p, fr_Arg3 := dp_Arg3 p\<rparr>) t))"

lemma write_fill_fills: "fills (of_nat k) (write_fill pkt k data rest p)"
  unfolding write_fill_def by (intro fills_args fills_name fills_args0) simp_all

lemma write_fill_at:
  assumes "fr_Length (h_FsReq t r) = 0" "fr_Pkt (h_FsReq t r) = pkt" "fr_Type (h_FsReq t r) = ACTION_WRITE" "k \<le> MAX_WRITE_LEN"
  shows "write_request pkt (dp_Arg1 p) (bytes_of (fs_mem t) data k) rest (h_FsReq (write_fill pkt k data rest p r t) r)"
    and "h_Pkt (write_fill pkt k data rest p r t) = h_Pkt t" and "fs_mem (write_fill pkt k data rest p r t) = fs_mem t"
proof -
  have k: "unat (of_nat k :: u16) = k" using assms(4) by (intro unat_of_nat_u16) (simp add: MAX_WRITE_LEN_def)
  show "write_request pkt (dp_Arg1 p) (bytes_of (fs_mem t) data k) rest (h_FsReq (write_fill pkt k data rest p r t) r)"
    using assms(1-3) by (simp add: write_request_def write_fill_def FS_AppendArg_def Let_def request_data_def k)
      (use assms(4) in \<open>simp add: upd_fr_def\<close>)
  show "h_Pkt (write_fill pkt k data rest p r t) = h_Pkt t" "fs_mem (write_fill pkt k data rest p r t) = fs_mem t"
    by (simp_all add: write_fill_def FS_AppendArg_def Let_def upd_fr_def add_fault_def)
qed

section \<open>The loop\<close>

text \<open>
  \<open>rs\<close> are the requests enqueued: all of them, unless one could not be had. Nothing queued before
  is touched.
\<close>

definition write_effect :: "(u16 \<Rightarrow> addr set) \<Rightarrow> addr \<Rightarrow> u32 \<Rightarrow> u8 list \<Rightarrow> fs_state \<Rightarrow> fs_state \<Rightarrow> bool" where
  "write_effect H pkt fh data s t \<longleftrightarrow> grows H t \<and> dos_replies t = dos_replies s \<and>
     (\<forall>x \<in> set (fs_queue s). h_FsReq t x = h_FsReq s x) \<and>
     (\<exists>rs. fs_queue t = fs_queue s @ rs \<and> fs_line t = fs_line s @ rs \<and>
        list_all2 (\<lambda>(c, rest) r. write_request pkt fh c rest (h_FsReq t r))
          (take (length rs) (zip (chunks MAX_WRITE_LEN data) (rests (chunks MAX_WRITE_LEN data)))) rs \<and>
        (null_count t = null_count s \<and> length rs = length (chunks MAX_WRITE_LEN data) \<or>
         null_count t = Suc (null_count s) \<and> length rs < length (chunks MAX_WRITE_LEN data)))"

lemma length_rests [simp]: "length (rests cs) = length cs" by (induction cs) auto

lemma sum_chunks: "0 < k \<Longrightarrow> sum_list (map length (chunks k xs)) = length xs"
  using concat_chunks [of k xs] by (metis length_concat)

lemma take_bytes: "k \<le> n \<Longrightarrow> take k (bytes_of m i n) = bytes_of m i k" "k \<le> n \<Longrightarrow> drop k (bytes_of m i n) = bytes_of m (i + k) (n - k)"
  using bytes_of_append [of m i k "n - k"] by simp_all

lemma chunks_bytes:
  assumes "0 < n"
  defines "k \<equiv> min n MAX_WRITE_LEN"
  shows "chunks MAX_WRITE_LEN (bytes_of m i n) = bytes_of m i k # chunks MAX_WRITE_LEN (bytes_of m (i + k) (n - k))"
proof (cases "n \<le> MAX_WRITE_LEN")
  case True
  have "bytes_of m i n \<noteq> []" using assms(1) length_bytes_of by (metis less_numeral_extra(3) list.size(3))
  then show ?thesis
    using True assms(1) by (subst chunks.simps) (simp add: k_def MAX_WRITE_LEN_def bytes_of_def)
next
  case False
  have "bytes_of m i n \<noteq> []" using assms(1) length_bytes_of by (metis less_numeral_extra(3) list.size(3))
  then show ?thesis using False by (subst chunks.simps) (simp add: k_def take_bytes MAX_WRITE_LEN_def)
qed

lemma write_effect_step:
  assumes a: "asks pkt r s t" and n: "null_count t = null_count s" and g: "\<And>i. H i \<subseteq> H1 i"
    and w: "write_request pkt fh c rest (h_FsReq t r)" and e: "write_effect H1 pkt fh d t u"
    and ch: "chunks MAX_WRITE_LEN x = c # chunks MAX_WRITE_LEN d" and rest: "rest = length d"
  shows "write_effect H pkt fh x s u"
proof -
  have q: "fs_queue t = fs_queue s @ [r]" "fs_line t = fs_line s @ [r]" "dos_replies t = dos_replies s"
      "\<forall>y \<in> set (fs_queue s). h_FsReq t y = h_FsReq s y"
    using a by (simp_all add: asks_def)
  from e obtain rs where rs: "fs_queue u = fs_queue t @ rs" "fs_line u = fs_line t @ rs"
      "list_all2 (\<lambda>(c, rest) r. write_request pkt fh c rest (h_FsReq u r))
        (take (length rs) (zip (chunks MAX_WRITE_LEN d) (rests (chunks MAX_WRITE_LEN d)))) rs"
      "null_count u = null_count t \<and> length rs = length (chunks MAX_WRITE_LEN d) \<or>
       null_count u = Suc (null_count t) \<and> length rs < length (chunks MAX_WRITE_LEN d)"
    and u: "grows H1 u" "dos_replies u = dos_replies t" "\<forall>y \<in> set (fs_queue t). h_FsReq u y = h_FsReq t y"
    unfolding write_effect_def by (elim exE conjE)
  have sl: "sum_list (map length (chunks MAX_WRITE_LEN d)) = rest"
    by (simp add: sum_chunks MAX_WRITE_LEN_def rest)
  have r: "h_FsReq u r = h_FsReq t r" using u(3) q(1) by simp
  have "grows H u" using u(1) g unfolding grows_def by (meson subset_trans)
  moreover have "\<forall>y \<in> set (fs_queue s). h_FsReq u y = h_FsReq s y" using u(3) q(1,4) by simp
  moreover have "list_all2 (\<lambda>(c, rest) r. write_request pkt fh c rest (h_FsReq u r))
        (take (length (r # rs)) (zip (chunks MAX_WRITE_LEN x) (rests (chunks MAX_WRITE_LEN x)))) (r # rs)"
    using rs(3) w by (simp add: ch sl r)
  ultimately show ?thesis
    unfolding write_effect_def using rs(1,2,4) u(2) q n
    by (intro conjI exI [of _ "r # rs"]) (auto simp: ch)
qed

lemma write_loop_effect:
  "fs_typed H s \<Longrightarrow> write_effect H pkt (dp_Arg1 (h_Pkt s pkt)) (bytes_of (fs_mem s) data n) s (write_loop vol pkt data n s)"
proof (induction n arbitrary: H s data rule: less_induct)
  case (less n)
  show ?case
  proof (cases "n = 0")
    case True
    then show ?thesis
      using less.prems by (simp add: write_effect_def write_loop.simps typed_grows) (simp add: bytes_of_def)
  next
    case False
    define k where "k = min n MAX_WRITE_LEN"
    have k: "0 < k" "k \<le> n" "k \<le> MAX_WRITE_LEN" using False by (auto simp: k_def MAX_WRITE_LEN_def)
    have ch: "chunks MAX_WRITE_LEN (bytes_of m i n) = bytes_of m i k # chunks MAX_WRITE_LEN (bytes_of m (i + k) (n - k))" for m i
      using chunks_bytes [of n m i] False by (simp add: k_def)
    obtain p s1 where al: "FS_AllocRequest vol pkt ACTION_WRITE (of_nat k) s = (p, s1)" by fastforce
    show ?thesis
    proof (cases p)
      case None
      have e: "write_loop vol pkt data n s = add_fault NullDeref s1"
        using False al None by (simp add: write_loop.simps [of vol pkt data n] k_def [symmetric])
      note nn = alloc_request_None [OF al [unfolded None]]
      note m = fs_more [OF APB_AllocObject_more [OF nn]]
      have "grows H (add_fault NullDeref s1)"
        using alloc_None_typed(1) [OF less.prems nn] data_steps(8) [of s1 NullDeref] typed_grows data_step_typed by metis
      moreover have "null_count (add_fault NullDeref s1) = Suc (null_count s)"
        using alloc_None_typed(2) [OF less.prems nn] by (simp add: null_count_def add_fault_def)
      moreover have "fs_queue (add_fault NullDeref s1) = fs_queue s" "fs_line (add_fault NullDeref s1) = fs_line s"
          "dos_replies (add_fault NullDeref s1) = dos_replies s" "h_FsReq (add_fault NullDeref s1) = h_FsReq s"
        using m by (simp_all add: add_fault_def step_defs fs_queue_def fs_line_def)
      ultimately show ?thesis
        unfolding write_effect_def e by (intro conjI exI [of _ "[]"]) (simp_all add: ch)
    next
      case (Some r)
      let ?p = "h_Pkt s pkt" let ?w = "write_fill pkt k data (n - k) ?p r s1"
      obtain v where v: "APB_AllocObject (if (of_nat k :: u16) > 0 then OT_REQUEST_MAX else OT_REQUEST_MIN) s = (Some r, v)"
          "fr_Pkt (h_FsReq s1 r) = pkt" "fr_Length (h_FsReq s1 r) = 0" "fr_Type (h_FsReq s1 r) = ACTION_WRITE" "h_Pkt s1 = h_Pkt v"
        using alloc_request_Some [OF al [unfolded Some]] by metis
      have s1: "fs_mem s1 = fs_mem s" "h_Pkt s1 = h_Pkt s"
        using al Some v(1,5) fs_more [OF APB_AllocObject_more [OF v(1)]]
        by (auto simp: FS_AllocRequest_def upd_fr_def split: prod.splits option.splits)
      let ?t = "FS_EnqueueRequest r ?w"
      note a = ask_typed [OF less.prems write_fill_fills [of k pkt data "n - k" ?p] al [unfolded Some]]
      note f = write_fill_at [OF v(3,2,4) k(3)]
      have t: "h_Pkt ?t = h_Pkt s" "fs_mem ?t = fs_mem s" by (simp_all add: enqueue_effect f s1)
      have e: "write_loop vol pkt data n s = write_loop vol pkt (data + k) (n - k) ?t"
        using False al Some s1
        by (simp add: write_loop.simps [of vol pkt data n] k_def [symmetric] write_fill_def)
      have lt: "n - k < n" using k by simp
      note ih = less.IH [OF lt a(1), of "data + k", unfolded t]
      show ?thesis
        unfolding e
        by (rule write_effect_step [OF a(3,4) _ _ ih ch]) (use f(1) in \<open>auto simp: enqueue_effect s1\<close>)
    qed
  qed
qed

end
