(* ===== verification/FsDemo.thy ===== *)
theory FsDemo
  imports FsLife FsWrite
begin

text \<open>
  A device as \<open>FS_CreateDevice\<close> makes it is well typed; one concrete device, and one with a mounted
  volume, are what the properties are applied to.
\<close>

definition demo_volume :: volume where
  "demo_volume = \<lparr>v_DevName = Some 20, v_Name = [0x41], v_Port = Some 20, v_Dev = Some 24, v_Vol = Some 28,
     v_Id = 1, v_LockCount = 0, v_Mounted = True\<rparr>"

definition demo_packet :: "action \<Rightarrow> u32 \<Rightarrow> dos_packet" where
  "demo_packet ty len = \<lparr>dp_Type = ty, dp_Arg1 = 0, dp_Arg2 = 64, dp_Arg3 = len, dp_Arg4 = 64, dp_Res1 = 0, dp_Res2 = 0\<rparr>"

definition demo_fs :: "(addr \<Rightarrow> dos_packet) \<Rightarrow> fs_state" where
  "demo_fs pkts = \<lparr>op_Types = [], op_MemPool = Some 4, op_Mem = \<lparr>em_answer = bump, em_hist = []\<rparr>, faults = [],
     h_Vol = (\<lambda>_. demo_volume),
     h_FsReq = (\<lambda>_. \<lparr>fr_Volume = 0, fr_Pkt = 0, fr_Arg1 = 0, fr_Arg2 = 0, fr_Arg3 = 0, fr_Arg4 = 0, fr_VolId = 0,
        fr_Type = ACTION_FLUSH, fr_Length = 0, fr_Data = (\<lambda>_. 0)\<rparr>),
     h_Lock = (\<lambda>_. \<lparr>fl_Key = 0, fl_Access = 0, fl_Task = None, fl_Volume = 0, fl_Magic = 0\<rparr>),
     h_Pkt = pkts, h_FH = (\<lambda>_. 0), h_Fib = (\<lambda>_ _. 0),
     h_Info = (\<lambda>_. \<lparr>id_NumSoftErrors = 0, id_UnitNumber = 0, id_DiskState = 0, id_NumBlocks = 0, id_NumBlocksUsed = 0,
        id_BytesPerBlock = 0, id_DiskType = 0, id_VolumeNode = 0, id_InUse = 0\<rparr>),
     fs_mem = (\<lambda>_. 7), fs_Vols = [], fs_Reqs = [], fs_SentReqs = [], fs_Status = ST_STARTING, fs_VolSigBits = 0,
     fs_WriteReady = False, fs_io = [], dos_replies = [], dos_calls = []\<rparr>"

definition demo_answer :: "(addr \<Rightarrow> dos_packet) \<Rightarrow> device_answer" where
  "demo_answer pkts = \<lparr>dv_Made = (\<lambda>_. True), dv_State = demo_fs pkts, dv_Port = 12,
     dv_Old = (\<lambda>_. \<lparr>rq_Addr = 0, rq_Conn = 0, rq_ReplyPort = 0, rq_Type = 0, rq_ConnId = 0, rq_HandlerId = 0,
        rq_State = 0, rq_Actual = 0, rq_Length = 0, rq_Timeout = 0, rq_Data = None\<rparr>),
     dv_Server = Reply APB_RS_OK 1, dv_ReadBuf = 500\<rparr>"

definition demo_device :: "(addr \<Rightarrow> dos_packet) \<Rightarrow> fs_state" where
  "demo_device pkts = fd_State (the (fst (FS_CreateDevice (demo_answer pkts))))"

section \<open>A new device is well typed\<close>

text \<open>Nothing is queued, nothing went wrong, and there are requests and locks to be had.\<close>

definition device_ready :: "(u16 \<Rightarrow> addr set) \<Rightarrow> fs_state \<Rightarrow> bool" where
  "device_ready H s \<longleftrightarrow> fs_typed H s \<and> fs_queue s = [] \<and> faults s = [] \<and> em_answer (op_Mem s) = bump \<and>
     registered OT_REQUEST_MIN 100 s \<and> registered OT_REQUEST_MAX 100 s \<and> registered OT_LOCK 100 s \<and>
     H OT_REQUEST_MIN = {} \<and> H OT_REQUEST_MAX = {} \<and> H OT_LOCK = {} \<and> fs_WriteReady s"

lemma lib_types_differ [simp]:
  "LIB_OT_CONNECTION \<noteq> OT_REQUEST" "OT_REQUEST \<noteq> LIB_OT_CONNECTION"
  "OT_VOLUME \<noteq> OT_REQUEST" "OT_REQUEST_MIN \<noteq> OT_REQUEST" "OT_REQUEST_MAX \<noteq> OT_REQUEST" "OT_LOCK \<noteq> OT_REQUEST"
  "OT_VOLUME \<noteq> LIB_OT_CONNECTION" "OT_REQUEST_MIN \<noteq> LIB_OT_CONNECTION" "OT_REQUEST_MAX \<noteq> LIB_OT_CONNECTION"
  "OT_LOCK \<noteq> LIB_OT_CONNECTION"
  by (simp_all add: LIB_OT_CONNECTION_def OT_REQUEST_def OT_VOLUME_def OT_REQUEST_MIN_def OT_REQUEST_MAX_def OT_LOCK_def)

text \<open>The four types, registered in a pool that has none of them.\<close>

lemma register_fs_types_facts:
  assumes h: "pool_holds H s" and b: "em_answer (op_Mem s) = bump"
    and n: "\<And>i n. i \<in> {OT_VOLUME, OT_REQUEST_MIN, OT_REQUEST_MAX, OT_LOCK} \<Longrightarrow> \<not> registered i n s"
  defines "t \<equiv> register_fs_types s"
  shows "pool_holds H t" "em_answer (op_Mem t) = bump" "faults t = faults s" "pool.more t = pool.more s"
    "registered OT_REQUEST_MIN 100 t" "registered OT_REQUEST_MAX 100 t" "registered OT_LOCK 100 t"
proof -
  note e = APB_RegisterObjectType_def
  define s1 where "s1 = APB_RegisterObjectTypeInternal OT_VOLUME ''Volume'' (sizeof_Volume + of_nat MAX_NAME_LEN + 1) 1 8 s"
  have nv: "\<And>k. \<not> registered OT_VOLUME k s" using n by blast
  note r1 = register_step [OF h b nv, where name = "''Volume''" and k = "sizeof_Volume + of_nat MAX_NAME_LEN + 1" and lo = 1 and hi = 8, folded s1_def]
  define s2 where "s2 = APB_RegisterObjectTypeInternal OT_REQUEST_MIN ''Request (Min)'' sizeof_FsRequest 1 100 s1"
  have n1: "\<And>k. \<not> registered OT_REQUEST_MIN k s1" "\<And>k. \<not> registered OT_REQUEST_MAX k s1" "\<And>k. \<not> registered OT_LOCK k s1"
    using n r1(7) by simp_all
  note r2 = register_step [OF r1(1,2) n1(1), where name = "''Request (Min)''" and k = sizeof_FsRequest and lo = 1 and hi = 100, folded s2_def]
  define s3 where "s3 = APB_RegisterObjectTypeInternal OT_REQUEST_MAX ''Request (Max)''
    (sizeof_FsRequest + of_nat MAX_WRITE_LEN) 1 100 s2"
  have n2: "\<And>k. \<not> registered OT_REQUEST_MAX k s2" "\<And>k. \<not> registered OT_LOCK k s2" using n1 r2(7) by simp_all
  note r3 = register_step [OF r2(1,2) n2(1), where name = "''Request (Max)''" and k = "sizeof_FsRequest + of_nat MAX_WRITE_LEN" and lo = 1 and hi = 100, folded s3_def]
  have n3: "\<And>k. \<not> registered OT_LOCK k s3" using n2 r3(7) by simp
  have t: "t = APB_RegisterObjectTypeInternal OT_LOCK ''Lock'' sizeof_FsFileLock 4 100 s3"
    by (simp add: t_def register_fs_types_def e s1_def s2_def s3_def)
  note r4 = register_step [OF r3(1,2) n3, where name = "''Lock''" and k = sizeof_FsFileLock and lo = 4 and hi = 100, folded t]
  show "pool_holds H t" "em_answer (op_Mem t) = bump" "registered OT_LOCK 100 t" by (rule r4)+
  show "faults t = faults s" "pool.more t = pool.more s" using r1(4,5) r2(4,5) r3(4,5) r4(4,5) by simp_all
  show "registered OT_REQUEST_MIN 100 t" "registered OT_REQUEST_MAX 100 t" using r2(3) r3(3,6) r4(6) by blast+
qed

text \<open>What it takes to come up: everything can be made and the server says yes.\<close>

lemma client_up:
  assumes h: "pool_holds (\<lambda>_. {}) s" and b: "em_answer (op_Mem s) = bump" and n: "\<And>i n. \<not> registered i n s"
  obtains conn s1 rd s2 wr s3 c posted s4 H where
    "APB_AllocConnection port hid s = (Some conn, s1)" "APB_AllocRequest old conn s1 = (Some rd, s2)"
    "APB_AllocRequest old conn s2 = (Some wr, s3)" "APB_OpenConnection old (Reply APB_RS_OK i) conn s3 = (True, c, posted, s4)"
    "pool_holds H s4" "em_answer (op_Mem s4) = bump" "faults s4 = faults s" "pool.more s4 = pool.more s"
    "\<forall>j k. j \<notin> {LIB_OT_CONNECTION, OT_REQUEST} \<longrightarrow> H j = {} \<and> \<not> registered j k s4"
proof -
  define u1 where "u1 = APB_RegisterObjectTypeInternal LIB_OT_CONNECTION ''Connection'' sizeof_LibConnection 1 8 s"
  note r1 = register_step [OF h b n, where i = LIB_OT_CONNECTION and name = "''Connection''" and k = sizeof_LibConnection and lo = 1 and hi = 8, folded u1_def]
  define u2 where "u2 = APB_RegisterObjectTypeInternal OT_REQUEST ''Request'' sizeof_RequestInt 1 64 u1"
  have n1: "\<And>k. \<not> registered OT_REQUEST k u1" using n r1(7) by simp
  note r2 = register_step [OF r1(1,2) n1, where name = "''Request''" and k = sizeof_RequestInt and lo = 1 and hi = 64, folded u2_def]
  have nt: "\<not> APB_TypeRegisteredInternal LIB_OT_CONNECTION s" "\<not> APB_TypeRegisteredInternal OT_REQUEST u1"
    by (simp_all add: n n1 type_registered_iff [unfolded APB_TypeRegistered_def])
  let ?H0 = "(\<lambda>_. {}) :: u16 \<Rightarrow> addr set"
  have c8: "card (?H0 LIB_OT_CONNECTION) < unat (8 :: u16)" by simp
  obtain p1 s1 where a1: "APB_AllocObjectInternal LIB_OT_CONNECTION u2 = (Some p1, s1)"
      "pool_holds (?H0(LIB_OT_CONNECTION := insert p1 {})) s1" "em_answer (op_Mem s1) = bump"
      "\<And>j m. registered j m s1 = registered j m u2" "faults s1 = faults u2" "pool.more s1 = pool.more u2"
    using alloc_step [OF r2(1,2) r2(6) [OF r1(3)] c8] by metis
  let ?H1 = "?H0(LIB_OT_CONNECTION := {p1})"
  have k: "registered OT_REQUEST 64 s1" using r2(3) a1(4) by simp
  have c64: "card (?H1 OT_REQUEST) < unat (64 :: u16)" by simp
  obtain p2 s2 where a2: "APB_AllocObjectInternal OT_REQUEST s1 = (Some p2, s2)"
      "pool_holds (?H1(OT_REQUEST := insert p2 (?H1 OT_REQUEST))) s2" "em_answer (op_Mem s2) = bump"
      "\<And>j m. registered j m s2 = registered j m s1" "faults s2 = faults s1" "pool.more s2 = pool.more s1"
    using alloc_step [OF a1(2,3) k c64] by metis
  let ?H2 = "?H1(OT_REQUEST := insert p2 (?H1 OT_REQUEST))"
  have k2: "registered OT_REQUEST 64 s2" using k a2(4) by simp
  have "card (?H2 OT_REQUEST) < unat (64 :: u16)" by simp
  then obtain p3 s3 where a3: "APB_AllocObjectInternal OT_REQUEST s2 = (Some p3, s3)"
      "pool_holds (?H2(OT_REQUEST := insert p3 (?H2 OT_REQUEST))) s3" "em_answer (op_Mem s3) = bump"
      "\<And>j m. registered j m s3 = registered j m s2" "faults s3 = faults s2" "pool.more s3 = pool.more s2"
    using alloc_step [OF a2(2,3) k2] by metis
  let ?H3 = "?H2(OT_REQUEST := insert p3 (?H2 OT_REQUEST))"
  have k3: "registered OT_REQUEST 64 s3" using k2 a3(4) by simp
  have "card (?H3 OT_REQUEST) < unat (64 :: u16)" by (simp add: card_insert_if)
  then obtain p4 v where a4: "APB_AllocObjectInternal OT_REQUEST s3 = (Some p4, v)"
      "pool_holds (?H3(OT_REQUEST := insert p4 (?H3 OT_REQUEST))) v" "em_answer (op_Mem v) = bump"
      "\<And>j m. registered j m v = registered j m s3" "faults v = faults s3" "pool.more v = pool.more s3"
    using alloc_step [OF a3(2,3) k3] by metis
  let ?H4 = "?H3(OT_REQUEST := insert p4 (?H3 OT_REQUEST))"
  let ?s4 = "APB_FreeObjectInternal OT_REQUEST p4 v"
  have f: "pool_holds (?H4(OT_REQUEST := ?H4 OT_REQUEST - {p4})) ?s4" "faults ?s4 = faults v"
    using obj.free_held [OF a4(2), of p4 OT_REQUEST] by auto
  let ?H5 = "?H4(OT_REQUEST := ?H4 OT_REQUEST - {p4})"
  define conn where "conn = \<lparr>c_Addr = p1, c_MsgPort = port, c_Status = APB_RS_NO_CONNECTION, c_HandlerId = hid, c_ConnId = 0\<rparr>"
  have m: "pool.more ?s4 = pool.more v" using APB_FreeObject_more [of OT_REQUEST p4 v] by (simp add: APB_FreeObject_def)
  have g: "APB_AllocConnection port hid s = (Some conn, s1)"
    using nt a1(1) by (simp add: APB_AllocConnection_def u1_def [symmetric] u2_def [symmetric] conn_def)
  obtain rd where g2: "APB_AllocRequest old conn s1 = (Some rd, s2)" using a2(1) by (simp add: APB_AllocRequest_def)
  obtain wr where g3: "APB_AllocRequest old conn s2 = (Some wr, s3)" using a3(1) by (simp add: APB_AllocRequest_def)
  obtain c posted where g4: "APB_OpenConnection old (Reply APB_RS_OK i) conn s3 = (True, c, posted, ?s4)"
    using a4(1) by (simp add: APB_OpenConnection_def APB_AllocRequest_def APB_PutMsg_def APB_FreeRequest_def)
  show ?thesis
  proof (rule that [OF g g2 g3 g4 f(1)])
    show "em_answer (op_Mem ?s4) = bump" using a4(3) by (simp add: free_object_registered)
    show "faults ?s4 = faults s" using f(2) a4(5) a3(5) a2(5) a1(5) r1(4) r2(4) by simp
    show "pool.more ?s4 = pool.more s" using m a4(6) a3(6) a2(6) a1(6) r1(5) r2(5) by simp
    have "?H5 j = {} \<and> \<not> registered j k ?s4" if "j \<notin> {LIB_OT_CONNECTION, OT_REQUEST}" for j k
      using that r1(7) r2(7) n by (simp add: free_object_registered a4(4) a3(4) a2(4) a1(4))
    then show "\<forall>j k. j \<notin> {LIB_OT_CONNECTION, OT_REQUEST} \<longrightarrow> ?H5 j = {} \<and> \<not> registered j k ?s4" by blast
  qed
qed

lemma created_ready:
  assumes "\<And>p. dv_Made a p" and "dv_Server a = Reply APB_RS_OK i" and "pool_holds (\<lambda>_. {}) (dv_State a)"
    and "em_answer (op_Mem (dv_State a)) = bump" and "op_Types (dv_State a) = []" and "faults (dv_State a) = []"
  obtains d tr H where "FS_CreateDevice a = (Some d, tr)" "device_ready H (fd_State d)"
    "h_Pkt (fd_State d) = h_Pkt (dv_State a)" "h_Vol (fd_State d) = h_Vol (dv_State a)"
    "fs_mem (fd_State d) = fs_mem (dv_State a)" "dos_replies (fd_State d) = dos_replies (dv_State a)"
proof -
  have n: "\<not> registered j k (dv_State a)" for j k
    using assms(5) by (simp add: registered_def APB_GetObjectType_def)
  obtain conn s1 rd s2 wr s3 c posted s4 H where u:
    "APB_AllocConnection (dv_Port a) 4 (dv_State a) = (Some conn, s1)" "APB_AllocRequest (dv_Old a) conn s1 = (Some rd, s2)"
    "APB_AllocRequest (dv_Old a) conn s2 = (Some wr, s3)"
    "APB_OpenConnection (dv_Old a) (Reply APB_RS_OK i) conn s3 = (True, c, posted, s4)"
    "pool_holds H s4" "em_answer (op_Mem s4) = bump" "faults s4 = faults (dv_State a)" "pool.more s4 = pool.more (dv_State a)"
    "\<forall>j k. j \<notin> {LIB_OT_CONNECTION, OT_REQUEST} \<longrightarrow> H j = {} \<and> \<not> registered j k s4"
    by (rule client_up [OF assms(3,4) n, where port = "dv_Port a" and hid = 4 and old = "dv_Old a" and i = i])
  then have r: "H j = {}" "\<not> registered j k s4" if "j \<notin> {LIB_OT_CONNECTION, OT_REQUEST}" for j k
    using that by blast+
  let ?v = "s4\<lparr>fs_Status := ST_STARTING, fs_Vols := [], fs_Reqs := [], fs_SentReqs := [], fs_WriteReady := True\<rparr>"
  have "pool_holds H ?v" using u(5) by (simp cong: pool_holds_cong)
  moreover have "\<not> registered j k ?v" if "j \<in> {OT_VOLUME, OT_REQUEST_MIN, OT_REQUEST_MAX, OT_LOCK}" for j k
    using r(2) [of j k] that registered_cong [of ?v s4] by auto
  moreover have "em_answer (op_Mem ?v) = bump" using u(6) by simp
  ultimately have f: "pool_holds H (init_device s4)" "em_answer (op_Mem (init_device s4)) = bump" "faults (init_device s4) = faults ?v"
      "pool.more (init_device s4) = pool.more ?v" "registered OT_REQUEST_MIN 100 (init_device s4)"
      "registered OT_REQUEST_MAX 100 (init_device s4)" "registered OT_LOCK 100 (init_device s4)"
    using register_fs_types_facts [of H ?v] by (simp_all add: init_device_def)
  define s5 where "s5 = (init_device s4)\<lparr>fs_io := fs_io (init_device s4) @ [Fs_Read]\<rparr>"
  obtain d tr where d: "FS_CreateDevice a = (Some d, tr)" "fd_State d = s5"
    using assms(1,2) u(1-4) by (simp add: FS_CreateDevice_def Let_def s5_def)
  note m = fs_more [OF f(4)] and q = fs_more [OF u(8)]
  have z: "fs_queue s5 = []" "fs_Vols s5 = []" "fs_WriteReady s5" "dos_replies s5 = dos_replies (dv_State a)" "fs_Reqs s5 = []"
    using m(8,9) q(8) by (simp_all add: s5_def step_defs fs_queue_def)
  have "pool_holds H s5" using f(1) by (simp add: s5_def cong: pool_holds_cong)
  moreover have "H OT_REQUEST_MIN = {}" "H OT_REQUEST_MAX = {}" "H OT_LOCK = {}" using r(1) by simp_all
  moreover have "registered j k s5 = registered j k (init_device s4)" for j k by (rule registered_cong) (simp add: s5_def)
  ultimately have "device_ready H s5"
    using f z u(7) assms(6) by (simp add: device_ready_def fs_typed_def s5_def)
  moreover have "h_Pkt s5 = h_Pkt (dv_State a)" "h_Vol s5 = h_Vol (dv_State a)" "fs_mem s5 = fs_mem (dv_State a)"
    using m(1,3,7) q(1,3,7) by (simp_all add: s5_def)
  ultimately show ?thesis using that d z(4) by simp
qed

lemma demo_fs_holds: "pool_holds (\<lambda>_. {}) (demo_fs pkts)"
proof -
  have "pool_inv (\<lambda>_. {}) (demo_fs pkts)"
    by (auto simp: pool_inv_def pool_own_def mem_own_def demo_fs_def exec_fresh_bump)
  then show ?thesis by (auto simp: pool_holds_def intro!: exI [of _ "\<lambda>_. {}"])
qed

lemma demo_ready:
  obtains d H where "device_ready H d" "h_Pkt d = pkts" "h_Vol d = (\<lambda>_. demo_volume)" "fs_mem d = (\<lambda>_. 7)" "dos_replies d = []"
proof -
  note demo_fs_holds [of pkts]
  then show ?thesis
    using created_ready [of "demo_answer pkts" 1] that by (auto simp: demo_answer_def demo_fs_def)
qed

text \<open>A request that can be had is had.\<close>

lemma ready_alloc:
  assumes "device_ready H s" and "T \<in> {OT_REQUEST_MIN, OT_REQUEST_MAX, OT_LOCK}"
  obtains p t where "APB_AllocObject T s = (Some p, t)"
proof -
  have "pool_holds H s" "registered T 100 s" "card (H T) < unat (100 :: u16)" "em_answer (op_Mem s) = bump"
    using assms by (auto simp: device_ready_def fs_typed_def)
  from alloc_object_bump [OF this] show ?thesis using that by (elim exE)
qed

section \<open>One request that was sent\<close>

text \<open>A small pool, so that the address of the request is known.\<close>

definition demo_base :: "action \<Rightarrow> fs_state" where
  "demo_base ty = APB_RegisterObjectTypeInternal OT_REQUEST_MIN ''Request (Min)'' sizeof_FsRequest 1 100
     (demo_fs (\<lambda>_. demo_packet ty 8))"

definition demo_sent :: "action \<Rightarrow> fs_state" where
  "demo_sent ty = (let (p, s) = APB_AllocObject OT_REQUEST_MIN (demo_base ty)
     in s\<lparr>fs_SentReqs := [1052], h_FsReq := (h_FsReq s)(1052 := (h_FsReq s 1052)\<lparr>fr_Pkt := 9\<rparr>)\<rparr>)"

lemma demo_address: "fst (APB_AllocObject OT_REQUEST_MIN (demo_base ty)) = Some 1052"
  by code_simp

lemma demo_sent_facts:
  "fs_typed ((\<lambda>_. {})(OT_REQUEST_MIN := {1052})) (demo_sent ty)" "fs_SentReqs (demo_sent ty) = [1052]"
  "fs_queue (demo_sent ty) = [1052]" "fr_Pkt (h_FsReq (demo_sent ty) 1052) = 9" "h_Pkt (demo_sent ty) = (\<lambda>_. demo_packet ty 8)"
  "dos_replies (demo_sent ty) = []" "faults (demo_sent ty) = []"
proof -
  have h: "pool_holds (\<lambda>_. {}) (demo_base ty)" "faults (demo_base ty) = []"
    using pool_holds_register [OF demo_fs_holds] by (simp_all add: demo_base_def APB_RegisterObjectType_def demo_fs_def)
  have m: "pool.more (demo_base ty) = pool.more (demo_fs (\<lambda>_. demo_packet ty 8))"
    using APB_RegisterObjectType_more by (simp add: demo_base_def APB_RegisterObjectType_def)
  obtain t where al: "APB_AllocObject OT_REQUEST_MIN (demo_base ty) = (Some 1052, t)"
    using demo_address [of ty] by (cases "APB_AllocObject OT_REQUEST_MIN (demo_base ty)") auto
  have e: "demo_sent ty = t\<lparr>fs_SentReqs := [1052], h_FsReq := (h_FsReq t)(1052 := (h_FsReq t 1052)\<lparr>fr_Pkt := 9\<rparr>)\<rparr>"
    by (simp add: demo_sent_def al)
  have q: "same_queues (demo_fs (\<lambda>_. demo_packet ty 8)) t" "h_FsReq t = h_FsReq (demo_fs (\<lambda>_. demo_packet ty 8))"
      "h_Pkt t = (\<lambda>_. demo_packet ty 8)"
    using fs_more [OF APB_AllocObject_more [OF al, unfolded m]] by (simp_all add: demo_fs_def)
  have z: "fs_Reqs t = []" "fs_Vols t = []" "dos_replies t = []" "fr_Length (h_FsReq t 1052) = 0"
    using q by (simp_all add: step_defs demo_fs_def)
  have "pool_holds ((\<lambda>_. {})(OT_REQUEST_MIN := {1052})) t" "faults t = []"
    using pool_laws(1) [OF h(1) al] h(2) by simp_all
  then show "fs_typed ((\<lambda>_. {})(OT_REQUEST_MIN := {1052})) (demo_sent ty)" "faults (demo_sent ty) = []"
    using z by (simp_all add: e fs_typed_def fs_queue_def request_type_def cong: pool_holds_cong)
  show "fs_SentReqs (demo_sent ty) = [1052]" "fs_queue (demo_sent ty) = [1052]" "fr_Pkt (h_FsReq (demo_sent ty) 1052) = 9"
    "h_Pkt (demo_sent ty) = (\<lambda>_. demo_packet ty 8)" "dos_replies (demo_sent ty) = []"
    using z q(3) by (simp_all add: e fs_queue_def)
qed

end
