(* ===== verification/FsOrder.thy ===== *)
theory FsOrder
  imports FsWrite
begin

text \<open>
  The order of the requests: whatever happens, a request joins the line at its end, and a request is
  written only when the last one has come back from the server. No assumption on the state.
\<close>

section \<open>Orderly steps\<close>

definition idle_line :: "fs_state \<Rightarrow> bool" where
  "idle_line s \<longleftrightarrow> (fs_WriteReady s \<longrightarrow> fs_Reqs s = [])"

text \<open>The writes so far, and the one that may be made now.\<close>

definition write_credit :: "fs_state \<Rightarrow> nat" where
  "write_credit s = length (written (fs_io s)) + (if fs_WriteReady s then 1 else 0)"

definition orderly :: "fs_state \<Rightarrow> fs_state \<Rightarrow> bool" where
  "orderly s t \<longleftrightarrow> (\<exists>rs. fs_line t = fs_line s @ rs) \<and> write_credit t = write_credit s \<and> (idle_line s \<longrightarrow> idle_line t)"

lemma orderly_trans: "orderly s t \<Longrightarrow> orderly t u \<Longrightarrow> orderly s u"
  by (auto simp: orderly_def)

lemma orderly_same: "same_queues s t \<Longrightarrow> orderly s t"
  by (simp add: orderly_def step_defs fs_line_def write_credit_def idle_line_def)

lemma orderly_refl [simp]: "orderly s s" by (simp add: orderly_def)

lemma orderly_data: "data_step s t \<Longrightarrow> orderly s t"
  by (simp add: data_step_def orderly_same)

lemma orderly_more: "pool.more t = pool.more s \<Longrightarrow> orderly s t"
  by (rule orderly_same) (rule fs_more(8))

lemma orderly_enqueue: "orderly s (FS_EnqueueRequest r s)"
  using enqueue_effect(2) [of r s] enqueue_ready [of s r]
  by (auto simp: orderly_def idle_line_def write_credit_def FS_EnqueueRequest_def FS_SendReq_def Let_def split: list.splits)

lemma orderly_reply: "orderly s (FS_ReplyToDosPacket req pkt s)"
proof (cases req)
  case None
  then show ?thesis by (simp add: FS_ReplyToDosPacket_def orderly_def fs_line_def write_credit_def idle_line_def)
next
  case (Some r)
  have "orderly s (s\<lparr>dos_replies := x\<rparr>)" for x by (simp add: orderly_def fs_line_def write_credit_def idle_line_def)
  from orderly_trans [OF this orderly_same [OF free_request_steps(1)]]
  show ?thesis by (simp add: FS_ReplyToDosPacket_def Some)
qed

lemma alloc_request_orderly:
  assumes "FS_AllocRequest vol pkt ty len s = (p, t)"
  shows "orderly s t"
proof -
  obtain u where al: "APB_AllocObject (if len > 0 then OT_REQUEST_MAX else OT_REQUEST_MIN) s = (p, u)" and u: "same_queues u t"
    using assms by (auto simp: FS_AllocRequest_def upd_fr_def step_defs split: prod.splits option.splits)
  show ?thesis using orderly_trans [OF orderly_more [OF APB_AllocObject_more [OF al]] orderly_same [OF u]] .
qed

lemma ask_orderly:
  assumes "fills len fill" "orderly s u"
  shows "orderly s (ask_remote vol pkt ty len fill u)"
proof -
  obtain p t where al: "FS_AllocRequest vol pkt ty len u = (p, t)" by fastforce
  note o = orderly_trans [OF assms(2) alloc_request_orderly [OF al]]
  have f: "orderly t (FS_EnqueueRequest r (fill r t))" for r
    using assms(1) by (intro orderly_trans [OF orderly_same orderly_enqueue]) (simp add: fills_def)
  show ?thesis
    using orderly_trans [OF o f] orderly_trans [OF o orderly_data [OF data_steps(8)]]
    by (simp add: ask_remote_def al split: option.splits)
qed

lemma lock_orderly: "FS_AllocLock vol s = (p, t) \<Longrightarrow> orderly s t"
proof -
  assume a: "FS_AllocLock vol s = (p, t)"
  obtain u where al: "APB_AllocObject OT_LOCK s = (p, u)" and d: "data_step u t"
    using a data_step_trans [OF data_steps(2) data_steps(3)]
    by (auto simp: FS_AllocLock_def split: prod.splits option.splits)
  show ?thesis using orderly_trans [OF orderly_more [OF APB_AllocObject_more [OF al]] orderly_data [OF d]] .
qed

lemma free_lock_orderly: "orderly s (FS_FreeLock vol p s)"
  using orderly_trans [OF orderly_more [OF APB_FreeObject_more] orderly_data [OF data_steps(3)]]
  by (simp add: FS_FreeLock_def split: option.splits)

section \<open>Packets\<close>

lemma write_loop_orderly: "orderly s (write_loop vol pkt data n s)"
proof (induction vol pkt data n s rule: write_loop.induct)
  case (1 vol pkt data n s)
  show ?case
  proof (cases "n = 0")
    case True
    then show ?thesis by (simp add: write_loop.simps)
  next
    case False
    define k where "k = min n MAX_WRITE_LEN"
    obtain p t where al: "FS_AllocRequest vol pkt ACTION_WRITE (of_nat k) s = (p, t)" by fastforce
    note o = alloc_request_orderly [OF al]
    show ?thesis
    proof (cases p)
      case None
      then show ?thesis
        using orderly_trans [OF o orderly_data [OF data_steps(8)]] False al
        by (simp add: write_loop.simps [of vol pkt data n] k_def [symmetric])
    next
      case (Some r)
      let ?u = "FS_EnqueueRequest r (upd_fr r (\<lambda>x. x\<lparr>fr_Arg3 := of_nat (n - k), fr_Arg4 := of_nat k\<rparr>)
        (FS_AppendArg r 2 (of_nat k) data (upd_fr r (\<lambda>x. x\<lparr>fr_Arg1 := dp_Arg1 (h_Pkt s pkt), fr_Arg3 := dp_Arg3 (h_Pkt s pkt)\<rparr>) t)))"
      have "orderly s ?u"
        by (intro orderly_trans [OF _ orderly_enqueue] orderly_trans [OF _ orderly_same [OF upd_fr_steps(2)]]
            orderly_trans [OF _ orderly_same [OF append_arg_at(6)]] o)
      moreover have "orderly ?u (write_loop vol pkt (data + k) (n - k) ?u)"
        using "1.IH" [OF False k_def al [symmetric] Some] by simp
      ultimately show ?thesis
        using orderly_trans False al Some by (simp add: write_loop.simps [of vol pkt data n] k_def [symmetric])
    qed
  qed
qed

lemma copy_dir_orderly: "orderly s (FS_ActionCopyDir vol pkt s)"
proof -
  obtain p t where al: "FS_AllocLock vol s = (p, t)" by fastforce
  have "data_step t (FS_ActionCopyDir vol pkt s)"
    by (auto simp: FS_ActionCopyDir_def al intro: data_step_trans [OF data_steps(2) data_steps(1)] split: option.splits)
  then show ?thesis using orderly_trans [OF lock_orderly [OF al] orderly_data] by blast
qed

lemma actions_orderly:
  "orderly s (FS_ActionLocateObject vol pkt s)" "orderly s (FS_ActionFreeLock vol pkt s)"
  "orderly s (FS_ActionSameLock vol pkt s)" "orderly s (FS_ActionInfo vol pkt s)" "orderly s (FS_ActionOpen vol pkt s)"
  "orderly s (FS_ActionEnd vol pkt s)" "orderly s (FS_ActionExamine now vol pkt s)" "orderly s (FS_ActionExamineNext vol pkt s)"
  "orderly s (FS_ActionExamineFH vol pkt s)" "orderly s (ask_parent ty vol pkt s)" "orderly s (FS_ActionRead vol pkt s)"
  "orderly s (FS_ActionWrite vol pkt s)" "orderly s (FS_ActionSeek vol pkt s)" "orderly s (ask_on_name ty vol pkt s)"
  "orderly s (FS_ActionRenameObject vol pkt s)" "orderly s (FS_ActionFHFromLock vol pkt s)"
proof -
  note reply = orderly_trans [OF orderly_data orderly_reply]
  show "orderly s (FS_ActionLocateObject vol pkt s)"
    unfolding FS_ActionLocateObject_def Let_def by (intro ask_orderly fills_args fills_name orderly_refl) simp_all
  show "orderly s (FS_ActionFreeLock vol pkt s)"
    by (auto simp: FS_ActionFreeLock_def Let_def intro!: reply ask_orderly fills_args0)
  show "orderly s (FS_ActionSameLock vol pkt s)"
    by (auto simp: FS_ActionSameLock_def Let_def intro!: reply ask_orderly fills_args0)
  show "orderly s (FS_ActionInfo vol pkt s)"
    using ask_orderly [OF fills_none orderly_refl] orderly_data [OF data_step_trans [OF data_steps(6) data_steps(1)]]
    by (simp add: FS_ActionInfo_def)
  show "orderly s (FS_ActionOpen vol pkt s)"
    unfolding FS_ActionOpen_def Let_def by (intro ask_orderly fills_args fills_name orderly_refl) simp_all
  show "orderly s (FS_ActionEnd vol pkt s)" by (auto simp: FS_ActionEnd_def intro!: ask_orderly fills_args0)
  show "orderly s (FS_ActionExamine now vol pkt s)"
    by (auto simp: FS_ActionExamine_def Let_def intro!: reply ask_orderly fills_args0)
  show "orderly s (FS_ActionExamineNext vol pkt s)"
    unfolding FS_ActionExamineNext_def Let_def by (rule ask_orderly) (auto intro!: fills_args0 orderly_data)
  show "orderly s (FS_ActionExamineFH vol pkt s)" by (auto simp: FS_ActionExamineFH_def intro!: ask_orderly fills_args0)
  show "orderly s (ask_parent ty vol pkt s)"
    unfolding ask_parent_def Let_def by (rule ask_orderly) (auto intro!: fills_args0 orderly_data)
  have "fills 0 (\<lambda>r t. upd_pkt pkt (\<lambda>p. p\<lparr>dp_Res1 := 0\<rparr>) (upd_fr r (\<lambda>x. x\<lparr>fr_Arg1 := a, fr_Arg3 := b\<rparr>) t))" for a b
    by (simp add: fills_def step_defs upd_pkt_def upd_fr_def null_count_def kept_def)
  then show "orderly s (FS_ActionRead vol pkt s)" unfolding FS_ActionRead_def Let_def by (intro ask_orderly orderly_refl)
  show "orderly s (FS_ActionWrite vol pkt s)"
    unfolding FS_ActionWrite_def by (rule orderly_trans [OF orderly_data [OF data_steps(1)] write_loop_orderly])
  show "orderly s (FS_ActionSeek vol pkt s)" by (auto simp: FS_ActionSeek_def Let_def intro!: ask_orderly fills_args0)
  show "orderly s (ask_on_name ty vol pkt s)"
    unfolding ask_on_name_def Let_def by (intro ask_orderly fills_args0 fills_name orderly_refl) simp_all
  show "orderly s (FS_ActionRenameObject vol pkt s)"
    unfolding FS_ActionRenameObject_def Let_def
    by (intro ask_orderly fills_append fills_args fills_args0 fills_name orderly_refl) simp_all
  show "orderly s (FS_ActionFHFromLock vol pkt s)" by (auto simp: FS_ActionFHFromLock_def Let_def intro!: ask_orderly fills_args0)
qed

lemma mounted_orderly: "orderly s (snd (handle_mounted now vol pkt s))"
  by (cases "dp_Type (h_Pkt s pkt)")
    (simp_all add: handle_mounted_def Let_def FS_ActionParent_def FS_ActionParentFH_def FS_ActionCreateDir_def
      FS_ActionDeleteObject_def actions_orderly copy_dir_orderly orderly_data)

lemma unmounted_orderly: "orderly s (snd (handle_unmounted vol pkt s))"
  by (cases "dp_Type (h_Pkt s pkt)") (simp_all add: handle_unmounted_def actions_orderly orderly_data)

lemma packet_orderly: "orderly s (FS_HandlePacket now vol pkt s)"
proof -
  obtain rep t where rt: "(if v_Mounted (h_Vol s vol) then handle_mounted now vol pkt s else handle_unmounted vol pkt s) = (rep, t)"
    by fastforce
  have "orderly s t" using mounted_orderly [of s now vol pkt] unmounted_orderly [of s vol pkt] rt by (auto split: if_splits)
  then show ?thesis using orderly_trans [OF _ orderly_reply] by (simp add: FS_HandlePacket_def rt)
qed

lemma packets_orderly: "orderly s (FS_ReceiveDosMessage now vol pkts s)"
  by (induction pkts arbitrary: s) (auto intro: orderly_trans packet_orderly)

section \<open>Responses\<close>

lemma locate_orderly: "orderly s (FS_ActionLocateObjectReply vol res pkt s)"
proof -
  obtain p t where al: "FS_AllocLock vol s = (p, t)" by fastforce
  note l = lock_orderly [OF al]
  show ?thesis
    using orderly_trans [OF l orderly_data [OF data_steps(1)]]
      orderly_trans [OF l orderly_data [OF data_step_trans [OF data_steps(2) data_steps(1)]]]
    by (auto simp: FS_ActionLocateObjectReply_def al intro: orderly_data split: option.splits)
qed

lemma create_dir_orderly: "orderly s (FS_ActionCreateDirReply vol res pkt s)"
  using locate_orderly [of s vol res pkt] by (auto simp: FS_ActionCreateDirReply_def Let_def
      intro: orderly_trans [OF _ orderly_data [OF data_steps(8)]] orderly_trans [OF _ orderly_data [OF data_steps(2)]]
      split: option.splits)

lemma free_lock_reply_orderly: "orderly s (FS_ActionFreeLockReply vol res pkt s)"
  using orderly_trans [OF free_lock_orderly orderly_data [OF data_steps(1)]]
  by (auto simp: FS_ActionFreeLockReply_def intro: orderly_data)

lemma fh_from_lock_orderly: "orderly s (FS_ActionFHFromLockReply vol res pkt s)"
proof -
  have "orderly s (upd_pkt pkt f (FS_FreeLock vol q ((upd_pkt pkt g s)\<lparr>h_FH := x\<rparr>)))" for f g q x
    by (rule orderly_trans [OF orderly_data [OF data_step_trans [OF data_steps(1) data_steps(4)]]
          orderly_trans [OF free_lock_orderly orderly_data [OF data_steps(1)]]])
  moreover have "orderly s (upd_pkt pkt f (upd_pkt pkt g s))" for f g
    by (rule orderly_data [OF data_step_trans [OF data_steps(1) data_steps(1)]])
  ultimately show ?thesis by (simp add: FS_ActionFHFromLockReply_def Let_def)
qed

lemma read_part_orderly:
  "orderly s (if c then upd_pkt p f s else s)" "orderly s (if c then upd_pkt p f (s\<lparr>fs_mem := m\<rparr>) else s)"
  by (auto intro!: orderly_data intro: data_step_trans [OF data_steps(7) data_steps(1)])

lemma read_orderly: "orderly s (FS_ActionReadReply res req pkt s)"
proof -
  note r = read_part_orderly(2) [of s]
  note q = orderly_trans [OF r orderly_reply] orderly_trans [OF r orderly_trans [OF orderly_data [OF data_steps(1)] orderly_reply]]
  show ?thesis using r q by (simp add: FS_ActionReadReply_def Let_def)
qed

lemma write_orderly: "orderly s (FS_ActionWriteReply res req pkt s)"
proof -
  note r = read_part_orderly(1) [of s]
  note q = orderly_trans [OF r orderly_reply] orderly_trans [OF r orderly_trans [OF orderly_data [OF data_steps(1)] orderly_reply]]
  show ?thesis using r q by (simp add: FS_ActionWriteReply_def Let_def)
qed

lemma remote_message_orderly: "orderly s (FS_ReceiveRemoteMessage vol res req s)"
proof -
  note d = orderly_data [OF data_replies(1)] orderly_data [OF data_replies(2)] orderly_data [OF data_replies(3)]
    orderly_data [OF data_steps(1)]
  note eff = locate_orderly create_dir_orderly free_lock_reply_orderly fh_from_lock_orderly d
  show ?thesis
    by (cases "dp_Type (h_Pkt s (fr_Pkt (h_FsReq s req)))")
      (simp_all add: FS_ReceiveRemoteMessage_def Let_def read_orderly write_orderly orderly_trans [OF _ orderly_reply] eff)
qed

section \<open>Mounting\<close>

lemma pool_alloc_orderly: "APB_AllocMem n s = (p, t) \<Longrightarrow> orderly s t"
  unfolding APB_AllocMem_def by (rule orderly_more) (rule pool_alloc_more)

lemma pool_free_orderly: "orderly s (APB_FreeMem p n s)"
  unfolding APB_FreeMem_def by (rule orderly_more) simp

lemma mount_data: "data_step s (snd (FS_MountVolume ea vol s))"
  by (auto simp: FS_MountVolume_def Let_def intro: data_step_trans [OF data_steps(3) data_steps(3)]
      data_step_trans [OF data_steps(3) data_steps(9)])

lemma remove_entry_data: "data_step s (FS_RemoveDosEntry found s)"
  by (simp add: FS_RemoveDosEntry_def split: option.splits)

lemma unmount_data: "data_step s (FS_UnmountVolume found vol s)"
proof -
  have d: "data_step s (upd_vol vol f (upd_vol vol g (dos_do c (FS_RemoveDosEntry found s))))" for f g c
    by (rule data_step_trans [OF remove_entry_data data_step_trans [OF data_steps(9) data_step_trans [OF data_steps(3) data_steps(3)]]])
  show ?thesis using d by (simp add: FS_UnmountVolume_def)
qed

lemma create_dos_orderly: "orderly s (snd (FS_CreateDosDevice ea vol s))"
proof -
  obtain p t where al: "APB_AllocMem DEV_NAME_SIZE s = (p, t)" by fastforce
  note o = pool_alloc_orderly [OF al]
  note v = orderly_trans [OF o orderly_data [OF data_steps(3)]]
  show ?thesis
    using orderly_trans [OF v pool_free_orderly] orderly_trans [OF v orderly_trans [OF orderly_data [OF data_steps(9)] pool_free_orderly]] v
    by (auto simp: FS_CreateDosDevice_def al Let_def split: option.splits)
qed

lemma free_dos_orderly: "orderly s (FS_FreeDosDevice found vol s)"
proof -
  have "orderly s (if v_Dev (h_Vol s vol) \<noteq> None then dos_do (FreeDosEntry (v_Dev (h_Vol s vol))) (FS_RemoveDosEntry found s) else s)"
    using orderly_data [OF data_step_trans [OF remove_entry_data data_steps(9)]] by simp
  then show ?thesis using orderly_trans [OF _ pool_free_orderly] by (simp add: FS_FreeDosDevice_def Let_def)
qed

lemma create_volume_orderly: "FS_CreateVolume va i name s = (p, t) \<Longrightarrow> orderly s t"
proof -
  assume c: "FS_CreateVolume va i name s = (p, t)"
  obtain q u where al: "APB_AllocObject OT_VOLUME s = (q, u)" by fastforce
  note o = orderly_more [OF APB_AllocObject_more [OF al]]
  show ?thesis
  proof (cases q)
    case None
    then show ?thesis using c al o by (simp add: FS_CreateVolume_def)
  next
    case (Some vol)
    let ?v = "upd_vol vol (\<lambda>v. v\<lparr>v_Id := i, v_Name := take MAX_NAME_LEN name, v_Port := va_Port va\<rparr>) u"
    note v = orderly_trans [OF o orderly_data [OF data_steps(3)]]
    obtain b1 w where w: "FS_CreateDosDevice (va_Dev va) vol ?v = (b1, w)" by fastforce
    then have ow: "orderly s w" using orderly_trans [OF v create_dos_orderly] by (metis snd_conv)
    obtain b2 x where x: "FS_MountVolume (va_Vol va) vol w = (b2, x)" by fastforce
    then have ox: "orderly s x" using orderly_trans [OF ow orderly_data [OF mount_data]] by (metis snd_conv)
    note f = orderly_trans [OF _ orderly_more [OF APB_FreeObject_more]] and d = orderly_trans [OF _ orderly_data [OF data_steps(9)]]
    show ?thesis
      using c al Some w x v ow ox f [OF v] f [OF d [OF ow]] f [OF d [OF orderly_trans [OF ox free_dos_orderly]]]
      by (auto simp: FS_CreateVolume_def Let_def split: if_splits bool.splits)
  qed
qed

lemma response_orderly: "orderly s (FS_ReceiveResponse va buf s)"
proof -
  have q: "orderly s (s\<lparr>fs_Vols := v, fs_VolSigBits := b\<rparr>)" "orderly s (s\<lparr>fs_SentReqs := l\<rparr>)"
      "orderly s (s\<lparr>fs_io := fs_io s @ [Fs_Read]\<rparr>)" for s v b l
    by (simp_all add: orderly_def fs_line_def write_credit_def idle_line_def)
  have m: "orderly s (FS_HandleMountVolume va i name s)" for i name
    using orderly_trans [OF create_volume_orderly q(1)] create_volume_orderly orderly_data [OF mount_data]
    by (auto simp: FS_HandleMountVolume_def split: option.splits prod.splits)
  have u: "orderly s (FS_HandleUnmountVolume found i s)" for found i
    by (simp add: FS_HandleUnmountVolume_def orderly_data unmount_data split: option.splits)
  have r: "orderly s (FS_ReceiveRemoteMessage v res req (if c then s\<lparr>fs_SentReqs := l\<rparr> else add_fault e s))" for v res req c l e
    using orderly_trans [OF q(2) remote_message_orderly] orderly_trans [OF orderly_data [OF data_steps(8)] remote_message_orderly]
    by simp
  show ?thesis using orderly_trans [OF _ q(3)] m u r by (simp add: FS_ReceiveResponse_def Let_def)
qed

end
