(* ===== verification/FsClaims.thy ===== *)
theory FsClaims
  imports FsDemo FsOrder
begin

text \<open>
  The file system client as a whole: no packet of DOS is lost, requests go back as what they came
  from, a response answers the packet it belongs to, and one write is in flight at a time.
\<close>

section \<open>The packets waiting for a response\<close>

definition pending :: "fs_state \<Rightarrow> addr list" where
  "pending s = map (\<lambda>r. fr_Pkt (h_FsReq s r)) (fs_queue s)"

definition answered :: "fs_state \<Rightarrow> addr list" where
  "answered s = map fst (dos_replies s)"

lemma packet_conserved:
  assumes "packet_effect H pkt s t"
  shows "\<exists>lost. mset (answered t) + mset (pending t) + mset lost = add_mset pkt (mset (answered s) + mset (pending s)) \<and>
    length lost + null_count s = null_count t" and "\<exists>rs. fs_line t = fs_line s @ rs"
proof -
  have p: "pending t = map (\<lambda>r. fr_Pkt (h_FsReq s r)) (fs_queue s) @ xs"
    if "\<forall>x \<in> set (fs_queue s). h_FsReq t x = h_FsReq s x" "fs_queue t = fs_queue s @ ys"
      "xs = map (\<lambda>r. fr_Pkt (h_FsReq t r)) ys" for xs ys
    using that by (simp add: pending_def)
  consider (answers) "answers pkt s t" "null_count t = null_count s" | (asks) r where "asks pkt r s t" "null_count t = null_count s"
    | (stays) "stays s t" "null_count t = Suc (null_count s)"
    using assms unfolding packet_effect_def by blast
  then have "(\<exists>lost. mset (answered t) + mset (pending t) + mset lost = add_mset pkt (mset (answered s) + mset (pending s)) \<and>
      length lost + null_count s = null_count t) \<and> (\<exists>rs. fs_line t = fs_line s @ rs)"
  proof cases
    case answers
    then have "pending t = pending s" using p [of "[]" "[]"] by (simp add: answers_def pending_def)
    moreover have "mset (answered t) = add_mset pkt (mset (answered s))"
      using answers by (auto simp: answers_def answered_def)
    ultimately show ?thesis using answers by (intro conjI exI [of _ "[]"]) (simp_all add: answers_def)
  next
    case asks
    then have "pending t = pending s @ [pkt]" using p [of "[r]" "[pkt]"] by (simp add: asks_def pending_def)
    moreover have "answered t = answered s" using asks by (simp add: asks_def answered_def)
    ultimately show ?thesis
      using asks by (intro conjI exI [of _ "[]"] exI [of _ "[r]"]) (simp_all add: asks_def)
  next
    case stays
    then have "pending t = pending s" using p [of "[]" "[]"] by (simp add: stays_def pending_def)
    moreover have "answered t = answered s" using stays by (simp add: stays_def answered_def)
    ultimately show ?thesis
      using stays by (intro conjI exI [of _ "[pkt]"] exI [of _ "[]"]) (simp_all add: stays_def)
  qed
  then show "\<exists>lost. mset (answered t) + mset (pending t) + mset lost = add_mset pkt (mset (answered s) + mset (pending s)) \<and>
    length lost + null_count s = null_count t" "\<exists>rs. fs_line t = fs_line s @ rs" by blast+
qed

lemma ledger_chain:
  fixes X :: "'a multiset"
  assumes "X + L2 = Y + P" and "Y + L1 = add_mset a Z"
  shows "X + (L1 + L2) = Z + add_mset a P"
proof -
  have "X + (L1 + L2) = (X + L2) + L1" by (simp only: ac_simps)
  also have "\<dots> = (Y + L1) + P" unfolding assms(1) by (simp only: ac_simps)
  finally show ?thesis by (simp add: assms(2))
qed

lemma conserved_run:
  "fs_typed H s \<Longrightarrow> \<forall>pkt \<in> set pkts. dp_Type (h_Pkt s pkt) \<notin> {ACTION_END, ACTION_WRITE} \<Longrightarrow>
   (\<exists>lost. mset (answered (FS_ReceiveDosMessage now vol pkts s)) + mset (pending (FS_ReceiveDosMessage now vol pkts s)) +
        mset lost = mset (answered s) + mset (pending s) + mset pkts \<and>
      length lost + null_count s = null_count (FS_ReceiveDosMessage now vol pkts s)) \<and>
   (\<exists>rs. fs_line (FS_ReceiveDosMessage now vol pkts s) = fs_line s @ rs)"
proof (induction pkts arbitrary: H s)
  case Nil
  show ?case by (intro conjI exI [of _ "[]"]) simp_all
next
  case (Cons pkt pkts)
  let ?t = "FS_HandlePacket now vol pkt s"
  have e: "packet_effect H pkt s ?t" using Cons.prems by (intro handle_packet_effect) simp_all
  then obtain H1 where t: "fs_typed H1 ?t" and k: "kept s ?t" by (auto simp: packet_effect_def grows_def)
  have "\<forall>p \<in> set pkts. dp_Type (h_Pkt ?t p) \<notin> {ACTION_END, ACTION_WRITE}" using Cons.prems(2) k by (simp add: kept_def)
  note ih = Cons.IH [OF t this]
  obtain l1 where l1: "mset (answered ?t) + mset (pending ?t) + mset l1 = add_mset pkt (mset (answered s) + mset (pending s))"
      "length l1 + null_count s = null_count ?t"
    using packet_conserved(1) [OF e] by (elim exE conjE)
  let ?u = "FS_ReceiveDosMessage now vol pkts ?t"
  obtain l2 where l2: "mset (answered ?u) + mset (pending ?u) + mset l2 = mset (answered ?t) + mset (pending ?t) + mset pkts"
      "length l2 + null_count ?t = null_count ?u"
    using ih by (elim exE conjE)
  obtain r1 where r1: "fs_line ?t = fs_line s @ r1" using packet_conserved(2) [OF e] by (elim exE)
  obtain r2 where r2: "fs_line ?u = fs_line ?t @ r2" using ih by (elim exE conjE)
  have "mset (answered ?u) + mset (pending ?u) + mset (l1 @ l2) = mset (answered s) + mset (pending s) + mset (pkt # pkts)"
    unfolding mset_append mset.simps by (rule ledger_chain [OF l2(1) l1(1)])
  then show ?case
    using l1(2) l2(2) r1 r2 by (intro conjI exI [of _ "l1 @ l2"] exI [of _ "r1 @ r2"]) simp_all
qed

section \<open>What can happen\<close>



text \<open>
  What is asked of the other sides: a response is for a request that was sent, a volume that is
  mounted is known already, and a lock DOS frees was given to it.
\<close>

definition response_ok :: "(u16 \<Rightarrow> addr set) \<Rightarrow> fs_state \<Rightarrow> bytes \<Rightarrow> bool" where
  "response_ok H s buf \<longleftrightarrow> fs_Req (response_at buf) \<notin> {MOUNT_VOLUME_KEY, UNMOUNT_VOLUME_KEY} \<and>
     unat (fs_Req (response_at buf)) \<in> set (fs_SentReqs s) \<and>
     lock_known H (fr_Pkt (h_FsReq s (unat (fs_Req (response_at buf))))) s"


lemma keys_differ [simp]: "MOUNT_VOLUME_KEY \<noteq> UNMOUNT_VOLUME_KEY" "UNMOUNT_VOLUME_KEY \<noteq> MOUNT_VOLUME_KEY"
  by (simp_all add: MOUNT_VOLUME_KEY_def UNMOUNT_VOLUME_KEY_def)

text \<open>Taking a request off the list of those sent.\<close>

lemma take_off:
  assumes t: "fs_typed H s" and r: "r \<in> set (fs_SentReqs s)"
  defines "u \<equiv> s\<lparr>fs_SentReqs := remove1 r (fs_SentReqs s)\<rparr>"
  shows "fs_typed H u" "r \<in> H (request_type (h_FsReq u r))" "r \<notin> set (fs_queue u)"
    "fs_queue u = remove1 r (fs_queue s)" "fs_line u = fs_line s" "dos_replies u = dos_replies s" "h_FsReq u = h_FsReq s"
    "lock_known H pkt u = lock_known H pkt s" "h_Pkt u = h_Pkt s"
proof -
  have d: "distinct (fs_queue s)" using t by (simp add: fs_typed_def)
  show q: "fs_queue u = remove1 r (fs_queue s)" using r by (simp add: u_def fs_queue_def remove1_append)
  have "pool_holds H u = pool_holds H s" by (rule pool_holds_cong) (simp_all add: u_def)
  then show "fs_typed H u"
    using t q d by (auto simp: fs_typed_def u_def fs_queue_def dest: notin_set_remove1 [rotated] in_set_remove1 [THEN iffD1, rotated])
  show "r \<in> H (request_type (h_FsReq u r))" using t r by (simp add: fs_typed_def u_def fs_queue_def)
  show "r \<notin> set (fs_queue u)" using d unfolding q by simp
  show "fs_line u = fs_line s" "dos_replies u = dos_replies s" "h_FsReq u = h_FsReq s"
    "lock_known H pkt u = lock_known H pkt s" "h_Pkt u = h_Pkt s" by (simp_all add: u_def fs_line_def lock_known_def)
qed

lemma response_step:
  assumes t: "fs_typed H s" and ok: "response_ok H s buf"
  defines "r \<equiv> unat (fs_Req (response_at buf))"
  defines "pkt \<equiv> fr_Pkt (h_FsReq s r)" and "u \<equiv> s\<lparr>fs_SentReqs := remove1 r (fs_SentReqs s)\<rparr>"
  defines "t \<equiv> FS_ReceiveRemoteMessage (fr_Volume (h_FsReq s r)) (response_at buf) r u"
  shows "FS_ReceiveResponse va buf s = t\<lparr>fs_io := fs_io t @ [Fs_Read]\<rparr>"
    and "settled (if dp_Type (h_Pkt s pkt) \<in> {ACTION_READ, ACTION_WRITE} \<and> fs_Res2 (response_at buf) = 0 then 0 else Suc 0) pkt u t"
proof -
  have r: "r \<in> set (fs_SentReqs s)" using ok by (simp add: response_ok_def r_def)
  note o = take_off [OF t r, folded u_def]
  show "FS_ReceiveResponse va buf s = t\<lparr>fs_io := fs_io t @ [Fs_Read]\<rparr>"
    using ok r by (simp add: FS_ReceiveResponse_def response_ok_def Let_def t_def u_def r_def)
  have "lock_known H (fr_Pkt (h_FsReq u r)) u" using ok o(7,8) by (simp add: response_ok_def r_def)
  from response_settles [OF o(1-3) this]
  show "settled (if dp_Type (h_Pkt s pkt) \<in> {ACTION_READ, ACTION_WRITE} \<and> fs_Res2 (response_at buf) = 0 then 0 else Suc 0) pkt u t"
    by (simp add: o(7,9) t_def pkt_def)
qed


lemma typed_replies: "fs_typed H (s\<lparr>dos_replies := x\<rparr>) = fs_typed H s"
proof -
  have "pool_holds H (s\<lparr>dos_replies := x\<rparr>) = pool_holds H s" by (rule pool_holds_cong) simp_all
  then show ?thesis by (simp add: fs_typed_def fs_queue_def)
qed

section \<open>The state stays well typed\<close>






section \<open>No packet is lost\<close>

text \<open>
  C5: the packets DOS sends a volume, other than ACTION_END and ACTION_WRITE, are all accounted
  for: each has been answered once or waits in one request to the remote side, unless there was
  no request to be had, which costs it one access through NULL. Requests go out in the order they
  were asked for: what is new is behind what was there.
\<close>

theorem packets_conserved:
  fixes now :: bytes and vol :: addr
  assumes "fs_typed H s" and "\<forall>pkt \<in> set pkts. dp_Type (h_Pkt s pkt) \<notin> {ACTION_END, ACTION_WRITE}"
  defines "t \<equiv> FS_ReceiveDosMessage now vol pkts s"
  shows "(\<exists>lost. mset (answered t) + mset (pending t) + mset lost = mset (answered s) + mset (pending s) + mset pkts \<and>
      length lost + null_count s = null_count t) \<and> (\<exists>rs. fs_line t = fs_line s @ rs)"
  unfolding t_def by (rule conserved_run [OF assms(1,2)])

theorem packets_conserved_witness:
  "\<exists>s. fs_queue s = [] \<and> dos_replies s = [] \<and> null_count s = 0 \<and>
     (\<exists>lost. mset (answered (FS_ReceiveDosMessage (\<lambda>_. 0) 1 [2, 3, 4] s)) +
         mset (pending (FS_ReceiveDosMessage (\<lambda>_. 0) 1 [2, 3, 4] s)) + mset lost = mset [2, 3, 4] \<and>
       length lost = null_count (FS_ReceiveDosMessage (\<lambda>_. 0) 1 [2, 3, 4] s))"
proof -
  obtain s H where r: "device_ready H s" "h_Pkt s = (\<lambda>p. demo_packet (if p = 2 then ACTION_LOCATE_OBJECT else ACTION_READ) 8)"
      "dos_replies s = []" by (rule demo_ready)
  then have t: "fs_typed H s" "fs_queue s = []" "null_count s = 0" by (simp_all add: device_ready_def null_count_def)
  have "\<forall>pkt \<in> set [2, 3, 4]. dp_Type (h_Pkt s pkt) \<notin> {ACTION_END, ACTION_WRITE}" by (simp add: r(2) demo_packet_def)
  from packets_conserved [OF t(1) this, of "\<lambda>_. 0" 1] t(2,3) r(3) show ?thesis
    by (intro exI [of _ s]) (simp add: answered_def pending_def)
qed

section \<open>A response answers its packet\<close>

lemma response_answered:
  fixes va :: volume_answer
  assumes "fs_typed H s" and "response_ok H s buf"
  defines "r \<equiv> unat (fs_Req (response_at buf))" and "u \<equiv> FS_ReceiveResponse va buf s"
  defines "pkt \<equiv> fr_Pkt (h_FsReq s r)"
  shows "answered u = answered s @
      (if dp_Type (h_Pkt s pkt) \<in> {ACTION_READ, ACTION_WRITE} \<and> fs_Res2 (response_at buf) = 0 then [] else [pkt]) \<and>
    fs_queue u = remove1 r (fs_queue s) \<and> h_FsReq u = h_FsReq s \<and> last (fs_io u) = Fs_Read"
proof -
  have r: "r \<in> set (fs_SentReqs s)" using assms(2) by (simp add: response_ok_def r_def)
  note o = take_off [OF assms(1) r]
  obtain t where t: "u = t\<lparr>fs_io := fs_io t @ [Fs_Read]\<rparr>" and st: "settled (if dp_Type (h_Pkt s pkt) \<in>
      {ACTION_READ, ACTION_WRITE} \<and> fs_Res2 (response_at buf) = 0 then 0 else Suc 0) pkt
      (s\<lparr>fs_SentReqs := remove1 r (fs_SentReqs s)\<rparr>) t"
    using response_step [OF assms(1,2)] unfolding u_def r_def pkt_def by blast
  show ?thesis
    using st o(4,6,7) by (auto simp: settled_def t answered_def fs_queue_def)
qed

text \<open>
  C16: a response of the remote side answers the packet that its request holds, once, takes that
  request and no other out of the queues, and asks for the next response. A part of a read or a
  write that is not the last (\<open>r_Res2\<close> is 0) takes the request out as well, but answers nothing.
\<close>

theorem response_answers_packet:
  fixes va :: volume_answer
  assumes "fs_typed H s" and "response_ok H s buf"
  defines "r \<equiv> unat (fs_Req (response_at buf))" and "u \<equiv> FS_ReceiveResponse va buf s"
  defines "pkt \<equiv> fr_Pkt (h_FsReq s r)"
  shows "answered u = answered s @
      (if dp_Type (h_Pkt s pkt) \<in> {ACTION_READ, ACTION_WRITE} \<and> fs_Res2 (response_at buf) = 0 then [] else [pkt]) \<and>
    fs_queue u = remove1 r (fs_queue s) \<and> h_FsReq u = h_FsReq s \<and> last (fs_io u) = Fs_Read"
  unfolding r_def u_def pkt_def by (rule response_answered [OF assms(1,2)])

lemma get32_put32_other: "i + 4 \<le> j \<or> j + 4 \<le> i \<Longrightarrow> get32 (put32 i w m) j = get32 m j"
  by (auto simp: get32_def get16_def put32_apply)

lemma response_buffer:
  "response_at (put32 8 b (put32 4 a (put32 0 r m))) =
    \<lparr>fs_Req = r, fs_Res1 = a, fs_Res2 = b, fs_Data = (\<lambda>i. m (14 + i))\<rparr>"
  by (simp add: response_at_def get32_put32_other fun_eq_iff put32_apply)

text \<open>A response for the one request of \<open>demo_sent\<close>.\<close>

definition demo_response :: bytes where
  "demo_response = put32 8 0 (put32 4 0 (put32 0 1052 (\<lambda>_. 0)))"

lemma demo_response_at: "fs_Req (response_at demo_response) = 1052" "fs_Res2 (response_at demo_response) = 0"
  using response_buffer [of 0 0 1052 "\<lambda>_. 0"] by (simp_all add: demo_response_def)

lemma demo_response_ok:
  "ty \<notin> {ACTION_FREE_LOCK, ACTION_FH_FROM_LOCK} \<Longrightarrow>
     response_ok ((\<lambda>_. {})(OT_REQUEST_MIN := {1052})) (demo_sent ty) demo_response"
  by (simp add: response_ok_def demo_response_at demo_sent_facts MOUNT_VOLUME_KEY_def UNMOUNT_VOLUME_KEY_def
      lock_known_def demo_packet_def)

theorem response_answers_packet_witness:
  "\<forall>va. answered (FS_ReceiveResponse va demo_response (demo_sent ACTION_SEEK)) = [9] \<and>
     fs_queue (FS_ReceiveResponse va demo_response (demo_sent ACTION_SEEK)) = []"
proof
  fix va
  have "response_ok ((\<lambda>_. {})(OT_REQUEST_MIN := {1052})) (demo_sent ACTION_SEEK) demo_response"
    by (rule demo_response_ok) simp
  from response_answers_packet [OF demo_sent_facts(1) this, of va]
  show "answered (FS_ReceiveResponse va demo_response (demo_sent ACTION_SEEK)) = [9] \<and>
     fs_queue (FS_ReceiveResponse va demo_response (demo_sent ACTION_SEEK)) = []"
    by (simp add: demo_response_at demo_sent_facts answered_def demo_packet_def)
qed

section \<open>One write at a time\<close>












section \<open>Writing\<close>

text \<open>
  C15: a write is sent in requests of at most 512 bytes that hold the data between them, in order,
  each with its length and the number of bytes behind it; they join the line together, and the
  packet is not answered yet. A request that cannot be had ends it in an access through NULL.
\<close>

theorem write_sends_chunks:
  fixes now :: bytes
  assumes "fs_typed H s" and "v_Mounted (h_Vol s vol)" and "dp_Type (h_Pkt s pkt) = ACTION_WRITE"
  defines "p \<equiv> h_Pkt s pkt" and "t \<equiv> FS_HandlePacket now vol pkt s"
  defines "data \<equiv> bytes_of (fs_mem s) (unat (dp_Arg2 p)) (nat (sint (dp_Arg3 p)))"
  defines "cs \<equiv> chunks MAX_WRITE_LEN data"
  shows "concat cs = data \<and> (\<forall>c \<in> set cs. length c \<le> MAX_WRITE_LEN) \<and> dos_replies t = dos_replies s \<and>
    (\<exists>rs. fs_queue t = fs_queue s @ rs \<and> fs_line t = fs_line s @ rs \<and>
      (\<forall>i < length rs. write_request pkt (dp_Arg1 p) (cs ! i) (length (concat (drop (Suc i) cs))) (h_FsReq t (rs ! i))) \<and>
      (null_count t = null_count s \<and> length rs = length cs \<or> null_count t = Suc (null_count s) \<and> length rs < length cs))"
proof -
  let ?u = "upd_pkt pkt (\<lambda>p. p\<lparr>dp_Res1 := 0\<rparr>) s"
  have d: "data_step s ?u" by simp
  have ty: "fs_typed H ?u" using assms(1) data_step_typed [OF d] by simp
  have t: "t = write_loop vol pkt (unat (dp_Arg2 p)) (nat (sint (dp_Arg3 p))) ?u"
    using assms(2,3) by (simp add: t_def FS_HandlePacket_def handle_mounted_def Let_def FS_ActionWrite_def p_def)
  have "write_effect H pkt (dp_Arg1 p) data ?u t"
    using write_loop_effect [OF ty, of pkt "unat (dp_Arg2 p)" "nat (sint (dp_Arg3 p))" vol]
    by (simp add: t data_def p_def upd_pkt_def)
  then obtain rs where rs: "fs_queue t = fs_queue ?u @ rs" "fs_line t = fs_line ?u @ rs"
      "list_all2 (\<lambda>(c, rest) r. write_request pkt (dp_Arg1 p) c rest (h_FsReq t r)) (take (length rs) (zip cs (rests cs))) rs"
      "null_count t = null_count ?u \<and> length rs = length cs \<or> null_count t = Suc (null_count ?u) \<and> length rs < length cs"
    and rp: "dos_replies t = dos_replies ?u"
    unfolding write_effect_def cs_def by (elim exE conjE)
  have rest: "rests ys ! i = length (concat (drop (Suc i) ys))" if "i < length ys" for i and ys :: "u8 list list"
    using that by (induction ys arbitrary: i) (auto simp: nth_Cons length_concat split: nat.splits)
  have "write_request pkt (dp_Arg1 p) (cs ! i) (length (concat (drop (Suc i) cs))) (h_FsReq t (rs ! i))" if i: "i < length rs" for i
  proof -
    have "length rs \<le> length cs" using rs(4) by auto
    then have j: "i < length cs" using i by simp
    from rs(3) i have "(\<lambda>(c, rest) r. write_request pkt (dp_Arg1 p) c rest (h_FsReq t r)) (take (length rs) (zip cs (rests cs)) ! i) (rs ! i)"
      by (auto simp: list_all2_conv_all_nth)
    then show ?thesis using i j by (simp add: rest [OF j])
  qed
  moreover have "fs_queue ?u = fs_queue s" "fs_line ?u = fs_line s" "dos_replies ?u = dos_replies s"
    using data_step_queue [OF d] by (simp_all add: upd_pkt_def)
  moreover have "concat cs = data" "\<forall>c \<in> set cs. length c \<le> MAX_WRITE_LEN"
    using concat_chunks [of MAX_WRITE_LEN data] length_in_chunks by (auto simp: cs_def MAX_WRITE_LEN_def)
  ultimately show ?thesis using rs(1,2,4) rp by (intro conjI exI [of _ rs]) auto
qed

theorem write_sends_chunks_witness:
  "\<exists>s rs. fs_queue (FS_HandlePacket (\<lambda>_. 0) 1 2 s) = rs \<and> length rs \<le> 2 \<and>
     (\<forall>i < length rs. write_request 2 0 ([replicate 512 7, replicate 88 7] ! i)
        (length (concat (drop (Suc i) [replicate 512 (7::u8), replicate 88 7]))) (h_FsReq (FS_HandlePacket (\<lambda>_. 0) 1 2 s) (rs ! i)))"
proof -
  obtain s H where r: "device_ready H s" "h_Pkt s = (\<lambda>_. demo_packet ACTION_WRITE 600)" "h_Vol s = (\<lambda>_. demo_volume)"
      "fs_mem s = (\<lambda>_. 7)" by (rule demo_ready)
  have t: "fs_typed H s" and q: "fs_queue s = []" using r(1) by (simp_all add: device_ready_def)
  have m: "v_Mounted (h_Vol s 1)" by (simp add: r(3) demo_volume_def)
  have ty: "dp_Type (h_Pkt s 2) = ACTION_WRITE" by (simp add: r(2) demo_packet_def)
  have c: "chunks MAX_WRITE_LEN (replicate 600 (7 :: u8)) = [replicate 512 7, replicate 88 7]"
    by (simp add: chunks.simps MAX_WRITE_LEN_def)
  have b: "bytes_of (\<lambda>_. 7) i n = replicate n 7" for i n by (simp add: bytes_of_def map_replicate_const)
  from write_sends_chunks [OF t m ty, of "\<lambda>_. 0"] obtain rs where
    "fs_queue (FS_HandlePacket (\<lambda>_. 0) 1 2 s) = fs_queue s @ rs"
    "\<forall>i < length rs. write_request 2 0 ([replicate 512 7, replicate 88 7] ! i)
        (length (concat (drop (Suc i) [replicate 512 (7::u8), replicate 88 7]))) (h_FsReq (FS_HandlePacket (\<lambda>_. 0) 1 2 s) (rs ! i))"
    "length rs \<le> 2"
    unfolding r(2,4) demo_packet_def dos_packet.simps b
    by (auto simp: c)
  then show ?thesis using q by (intro exI [of _ s] exI [of _ rs]) simp
qed

text \<open>A write of no bytes, or of a negative number, is neither answered nor sent.\<close>

lemma empty_write_forgotten:
  assumes "v_Mounted (h_Vol s vol)" "dp_Type (h_Pkt s pkt) = ACTION_WRITE" "sint (dp_Arg3 (h_Pkt s pkt)) \<le> 0"
  shows "dos_replies (FS_HandlePacket now vol pkt s) = dos_replies s \<and> fs_queue (FS_HandlePacket now vol pkt s) = fs_queue s"
  using assms by (simp add: FS_HandlePacket_def handle_mounted_def Let_def FS_ActionWrite_def write_loop.simps
      upd_pkt_def fs_queue_def)

section \<open>Closing a file\<close>

lemma ask_replies:
  assumes "fills len fill"
  shows "dos_replies (ask_remote vol pkt ty len fill s) = dos_replies s"
proof -
  obtain p t where al: "FS_AllocRequest vol pkt ty len s = (p, t)" by fastforce
  obtain u where u: "APB_AllocObject (if len > 0 then OT_REQUEST_MAX else OT_REQUEST_MIN) s = (p, u)" "same_queues u t"
    using al by (auto simp: FS_AllocRequest_def upd_fr_def step_defs split: prod.splits option.splits)
  have "dos_replies t = dos_replies s" using u(2) fs_more(8) [OF APB_AllocObject_more [OF u(1)]] by (simp add: step_defs)
  moreover have "dos_replies (fill r t) = dos_replies t" for r using assms by (simp add: fills_def step_defs)
  ultimately show ?thesis by (simp add: ask_remote_def al enqueue_effect add_fault_def split: option.splits)
qed

text \<open>
  Closing a file (ACTION_END) is answered twice: at once, while the remote side is asked, and
  again when its response comes, when DOS has the packet back.
\<close>

theorem end_answered_twice:
  fixes now :: bytes and va :: volume_answer
  assumes "fs_typed H s" and "v_Mounted (h_Vol s vol)" and "dp_Type (h_Pkt s pkt) = ACTION_END"
  defines "t \<equiv> FS_HandlePacket now vol pkt s"
  assumes "fs_typed H1 t" and "response_ok H1 t buf"
    and "fr_Pkt (h_FsReq t (unat (fs_Req (response_at buf)))) = pkt"
  shows "answered t = answered s @ [pkt] \<and> answered (FS_ReceiveResponse va buf t) = answered s @ [pkt, pkt]"
proof -
  let ?u = "FS_ActionEnd vol pkt s"
  have t: "t = ?u\<lparr>dos_replies := dos_replies ?u @ [(pkt, h_Pkt ?u pkt)]\<rparr>"
    using assms(2,3) by (simp add: t_def FS_HandlePacket_def handle_mounted_def Let_def FS_ReplyToDosPacket_def)
  note e = end_effect [OF assms(1), of pkt vol]
  have ty: "dp_Type (h_Pkt ?u pkt) = ACTION_END" using e assms(3) by (simp add: packet_effect_def kept_def)
  have "dos_replies ?u = dos_replies s"
    unfolding FS_ActionEnd_def by (rule ask_replies) (auto intro!: fills_args0)
  then have a: "answered t = answered s @ [pkt]" by (simp add: answered_def t)
  have "dp_Type (h_Pkt t pkt) = ACTION_END" using ty by (simp add: t)
  then show ?thesis using a assms(7) response_answered [OF assms(5,6), of va] by simp
qed

text \<open>A device whose first request has the address 1052 and is sent at once.\<close>

lemma demo_end:
  defines "s \<equiv> (demo_base ACTION_END)\<lparr>fs_WriteReady := True\<rparr>"
  defines "t \<equiv> FS_HandlePacket (\<lambda>_. 0) 4 2 s"
  obtains H1 where "fs_typed (\<lambda>_. {}) s" "fs_typed H1 t" "fs_SentReqs t = [1052]" "fr_Pkt (h_FsReq t 1052) = 2"
    "dp_Type (h_Pkt t 2) = ACTION_END" "h_Pkt s = (\<lambda>_. demo_packet ACTION_END 8)" "h_Vol s = (\<lambda>_. demo_volume)"
    "dos_replies s = []"
proof -
  have h: "pool_holds (\<lambda>_. {}) (demo_base ACTION_END)"
    using pool_holds_register [OF demo_fs_holds] by (simp add: demo_base_def APB_RegisterObjectType_def)
  have m: "pool.more (demo_base ACTION_END) = pool.more (demo_fs (\<lambda>_. demo_packet ACTION_END 8))"
    using APB_RegisterObjectType_more by (simp add: demo_base_def APB_RegisterObjectType_def)
  note q = fs_more [OF m]
  have z: "fs_Reqs s = []" "fs_SentReqs s = []" "fs_Vols s = []" "dos_replies s = []" "fs_WriteReady s"
      "h_Pkt s = (\<lambda>_. demo_packet ACTION_END 8)" "h_Vol s = (\<lambda>_. demo_volume)"
    using q(1,3,8) by (simp_all add: s_def step_defs demo_fs_def)
  have "pool_holds (\<lambda>_. {}) s" using h by (simp add: s_def cong: pool_holds_cong)
  then have ty: "fs_typed (\<lambda>_. {}) s" using z by (simp add: fs_typed_def fs_queue_def)
  have "fst (APB_AllocObject OT_REQUEST_MIN s) = Some 1052" unfolding s_def by code_simp
  then obtain v where al: "APB_AllocObject OT_REQUEST_MIN s = (Some 1052, v)"
    by (cases "APB_AllocObject OT_REQUEST_MIN s") auto
  then obtain u where u: "FS_AllocRequest 4 2 ACTION_END 0 s = (Some 1052, u)" by (auto simp: FS_AllocRequest_def)
  have f: "fills 0 (\<lambda>r. upd_fr r (\<lambda>x. x\<lparr>fr_Arg1 := dp_Arg1 (h_Pkt s 2)\<rparr>))" by (rule fills_args0) simp
  let ?e = "FS_ActionEnd 4 2 s"
  have e: "?e = FS_EnqueueRequest 1052 (upd_fr 1052 (\<lambda>x. x\<lparr>fr_Arg1 := dp_Arg1 (h_Pkt s 2)\<rparr>) u)"
    by (simp add: FS_ActionEnd_def ask_remote_def u)
  note a = ask_typed [OF ty f u, folded e]
  have "fs_queue ?e = [1052]" "fr_Pkt (h_FsReq ?e 1052) = 2" using a(3) z by (simp_all add: asks_def fs_queue_def)
  moreover have r: "fs_WriteReady u" "fs_Reqs u = []"
    using alloc_request_Some [OF u] al z fs_more(8) [OF APB_AllocObject_more [OF al]] by (auto simp: step_defs)
  moreover have "fs_Reqs ?e = []" using r by (simp add: e FS_EnqueueRequest_def FS_SendReq_def upd_fr_def)
  ultimately have se: "fs_SentReqs ?e = [1052]" "fr_Pkt (h_FsReq ?e 1052) = 2" by (simp_all add: fs_queue_def)
  have t: "t = ?e\<lparr>dos_replies := dos_replies ?e @ [(2, h_Pkt ?e 2)]\<rparr>"
    using z by (simp add: t_def FS_HandlePacket_def handle_mounted_def Let_def FS_ReplyToDosPacket_def demo_volume_def demo_packet_def)
  have "dp_Type (h_Pkt ?e 2) = ACTION_END" using a(7) z by (simp add: kept_def demo_packet_def)
  then show ?thesis using that ty a(1) se z by (simp add: t typed_replies)
qed

theorem end_answered_twice_witness:
  "\<forall>va. answered (FS_ReceiveResponse va demo_response (FS_HandlePacket (\<lambda>_. 0) 4 2 ((demo_base ACTION_END)\<lparr>fs_WriteReady := True\<rparr>))) = [2, 2]"
proof
  fix va
  let ?s = "(demo_base ACTION_END)\<lparr>fs_WriteReady := True\<rparr>" let ?t = "FS_HandlePacket (\<lambda>_. 0) 4 2 ?s"
  obtain H1 where d: "fs_typed (\<lambda>_. {}) ?s" "fs_typed H1 ?t" "fs_SentReqs ?t = [1052]" "fr_Pkt (h_FsReq ?t 1052) = 2"
    "dp_Type (h_Pkt ?t 2) = ACTION_END" "h_Pkt ?s = (\<lambda>_. demo_packet ACTION_END 8)" "h_Vol ?s = (\<lambda>_. demo_volume)"
    "dos_replies ?s = []" by (rule demo_end)
  have m: "v_Mounted (h_Vol ?s 4)" unfolding d(7) by (simp add: demo_volume_def)
  have ty: "dp_Type (h_Pkt ?s 2) = ACTION_END" unfolding d(6) by (simp add: demo_packet_def)
  have ok: "response_ok H1 ?t demo_response"
    using d(3-5) by (simp add: response_ok_def demo_response_at lock_known_def MOUNT_VOLUME_KEY_def UNMOUNT_VOLUME_KEY_def)
  have "fr_Pkt (h_FsReq ?t (unat (fs_Req (response_at demo_response)))) = 2" using d(4) by (simp add: demo_response_at)
  from end_answered_twice [OF d(1) m ty d(2) ok this, of va]
  show "answered (FS_ReceiveResponse va demo_response ?t) = [2, 2]"
    using d(8) by (simp add: answered_def)
qed

section \<open>Reading\<close>

text \<open>A part of the data, more to come; and the end.\<close>

definition read_part :: "addr \<Rightarrow> u8 list \<Rightarrow> fs_response" where
  "read_part r d = \<lparr>fs_Req = of_nat r, fs_Res1 = of_nat (length d), fs_Res2 = 0,
     fs_Data = (\<lambda>i. if i < length d then d ! i else 0)\<rparr>"

definition read_end :: "addr \<Rightarrow> fs_response" where
  "read_end r = \<lparr>fs_Req = of_nat r, fs_Res1 = 0, fs_Res2 = 0xFFFFFFFF, fs_Data = (\<lambda>_. 0)\<rparr>"

lemma part_step:
  fixes vol :: addr
  assumes "dp_Type (h_Pkt s pkt) = ACTION_READ" and "fr_Pkt (h_FsReq s r) = pkt" and "dp_Res1 (h_Pkt s pkt) = of_nat m"
    and "unat (dp_Arg2 (h_Pkt s pkt)) + m + length d < 2 ^ 32"
  defines "t \<equiv> FS_ReceiveRemoteMessage vol (read_part r d) r s" and "a \<equiv> unat (dp_Arg2 (h_Pkt s pkt)) + m"
  shows "bytes_of (fs_mem t) a (length d) = d" "\<And>i. i < a \<or> a + length d \<le> i \<Longrightarrow> fs_mem t i = fs_mem s i"
    "dp_Res1 (h_Pkt t pkt) = of_nat (m + length d)" "dp_Type (h_Pkt t pkt) = ACTION_READ"
    "dp_Arg2 (h_Pkt t pkt) = dp_Arg2 (h_Pkt s pkt)" "h_FsReq t = h_FsReq s" "dos_replies t = dos_replies s"
proof -
  have n: "unat (of_nat (length d) :: u32) = length d" using assms(4) by (simp add: unat_of_nat)
  have m: "unat (of_nat m :: u32) = m" using assms(4) by (simp add: unat_of_nat)
  have "unat (dp_Arg2 (h_Pkt s pkt) + of_nat m :: u32) = a"
    using assms(4) m by (simp add: a_def unat_add_lem [THEN iffD1])
  then have t: "t = FS_ActionReadReply (read_part r d) r pkt s" "FS_ActionReadReply (read_part r d) r pkt s =
      (if d = [] then s else upd_pkt pkt (\<lambda>p. p\<lparr>dp_Res1 := dp_Res1 p + of_nat (length d), dp_Res2 := 0\<rparr>)
        (s\<lparr>fs_mem := copy_mem (fs_Data (read_part r d)) 0 (fs_mem s) a (length d)\<rparr>))"
    using assms(1-3) n by (auto simp: t_def FS_ReceiveRemoteMessage_def Let_def FS_ActionReadReply_def read_part_def
        word_gt_0_no word_neq_0_conv [symmetric] unat_eq_0 [symmetric])
  have b: "bytes_of (fs_Data (read_part r d)) 0 (length d) = d" by (rule nth_equalityI) (simp_all add: read_part_def)
  show "bytes_of (fs_mem t) a (length d) = d"
  proof (cases "d = []")
    case True
    then show ?thesis by (simp add: bytes_of_def)
  next
    case False
    then show ?thesis using b by (simp add: t upd_pkt_def)
  qed
  show "fs_mem t i = fs_mem s i" if "i < a \<or> a + length d \<le> i" for i using that by (simp add: t upd_pkt_def)
  show "dp_Res1 (h_Pkt t pkt) = of_nat (m + length d)" "dp_Type (h_Pkt t pkt) = ACTION_READ"
    "dp_Arg2 (h_Pkt t pkt) = dp_Arg2 (h_Pkt s pkt)" "h_FsReq t = h_FsReq s" "dos_replies t = dos_replies s"
    using assms(1,3) by (simp_all add: t upd_pkt_def)
qed

lemma parts_join:
  "dp_Type (h_Pkt s pkt) = ACTION_READ \<Longrightarrow> fr_Pkt (h_FsReq s r) = pkt \<Longrightarrow> dp_Res1 (h_Pkt s pkt) = of_nat m \<Longrightarrow>
   unat (dp_Arg2 (h_Pkt s pkt)) + m + length (concat ds) < 2 ^ 32 \<Longrightarrow>
   (let t = fold (\<lambda>d. FS_ReceiveRemoteMessage vol (read_part r d) r) ds s; a = unat (dp_Arg2 (h_Pkt s pkt)) + m in
     bytes_of (fs_mem t) a (length (concat ds)) = concat ds \<and>
     (\<forall>i. i < a \<or> a + length (concat ds) \<le> i \<longrightarrow> fs_mem t i = fs_mem s i) \<and>
     dp_Res1 (h_Pkt t pkt) = of_nat (m + length (concat ds)) \<and> dp_Type (h_Pkt t pkt) = ACTION_READ \<and>
     h_FsReq t = h_FsReq s \<and> dos_replies t = dos_replies s)"
proof (induction ds arbitrary: s m)
  case Nil
  then show ?case by (simp add: bytes_of_def)
next
  case (Cons d ds)
  let ?t = "FS_ReceiveRemoteMessage vol (read_part r d) r s" let ?u = "fold (\<lambda>d. FS_ReceiveRemoteMessage vol (read_part r d) r) ds ?t"
  let ?a = "unat (dp_Arg2 (h_Pkt s pkt)) + m"
  have l: "unat (dp_Arg2 (h_Pkt s pkt)) + m + length d < 2 ^ 32" using Cons.prems(4) by simp
  note p = part_step [OF Cons.prems(1-3) l, where vol = vol]
  have ih: "bytes_of (fs_mem ?u) (?a + length d) (length (concat ds)) = concat ds \<and>
     (\<forall>i. i < ?a + length d \<or> ?a + length d + length (concat ds) \<le> i \<longrightarrow> fs_mem ?u i = fs_mem ?t i) \<and>
     dp_Res1 (h_Pkt ?u pkt) = of_nat (m + length d + length (concat ds)) \<and> dp_Type (h_Pkt ?u pkt) = ACTION_READ \<and>
     h_FsReq ?u = h_FsReq ?t \<and> dos_replies ?u = dos_replies ?t"
    using Cons.IH [of ?t "m + length d"] p Cons.prems(2,4) unfolding Let_def p(5) by (simp add: add.assoc)
  have "bytes_of (fs_mem ?u) ?a (length d) = bytes_of (fs_mem ?t) ?a (length d)" using ih by (intro bytes_of_cong) simp
  then have "bytes_of (fs_mem ?u) ?a (length (concat (d # ds))) = concat (d # ds)"
    using ih p(1) by (simp add: bytes_of_append)
  moreover have "fs_mem ?u i = fs_mem s i" if "i < ?a \<or> ?a + length (concat (d # ds)) \<le> i" for i
  proof -
    have o: "i < ?a + length d \<or> ?a + length d + length (concat ds) \<le> i" "i < ?a \<or> ?a + length d \<le> i"
      using that by auto
    have "fs_mem ?u i = fs_mem ?t i" using ih o(1) by blast
    then show ?thesis using p(2) [OF o(2)] by simp
  qed
  ultimately show ?case using ih p(6,7) unfolding Let_def by (simp add: add.assoc)
qed

text \<open>
  C17: a read the remote side answers in several parts is joined: the parts are stored one behind
  the other at the buffer DOS named, nothing else is written, and the packet is answered once, at
  the end, with the number of bytes of all of them.
\<close>

theorem read_joins_parts:
  fixes vol :: addr
  assumes "dp_Type (h_Pkt s pkt) = ACTION_READ" and "fr_Pkt (h_FsReq s r) = pkt" and "dp_Res1 (h_Pkt s pkt) = 0"
    and "unat (dp_Arg2 (h_Pkt s pkt)) + length (concat ds) < 2 ^ 32"
  defines "t \<equiv> fold (\<lambda>d. FS_ReceiveRemoteMessage vol (read_part r d) r) ds s"
  defines "u \<equiv> FS_ReceiveRemoteMessage vol (read_end r) r t" and "a \<equiv> unat (dp_Arg2 (h_Pkt s pkt))"
  shows "bytes_of (fs_mem u) a (length (concat ds)) = concat ds \<and>
    (\<forall>i. i < a \<or> a + length (concat ds) \<le> i \<longrightarrow> fs_mem u i = fs_mem s i) \<and>
    (\<exists>p. dos_replies u = dos_replies s @ [(pkt, p)] \<and> dp_Res1 p = of_nat (length (concat ds)))"
proof -
  have j: "bytes_of (fs_mem t) a (length (concat ds)) = concat ds"
     "\<forall>i. i < a \<or> a + length (concat ds) \<le> i \<longrightarrow> fs_mem t i = fs_mem s i"
     "dp_Res1 (h_Pkt t pkt) = of_nat (length (concat ds))" "dp_Type (h_Pkt t pkt) = ACTION_READ"
     "h_FsReq t = h_FsReq s" "dos_replies t = dos_replies s"
    using parts_join [of s pkt r 0 ds vol] assms(1-4) by (simp_all add: Let_def t_def a_def)
  have u: "u = FS_ReplyToDosPacket (Some r) pkt t"
    using j(4,5) assms(2) by (simp add: u_def FS_ReceiveRemoteMessage_def Let_def FS_ActionReadReply_def read_end_def)
  let ?v = "t\<lparr>dos_replies := dos_replies t @ [(pkt, h_Pkt t pkt)]\<rparr>"
  have m: "pool.more u = pool.more ?v" by (simp add: u FS_ReplyToDosPacket_def FS_FreeRequest_alt)
  have "fs_mem u = fs_mem t" "dos_replies u = dos_replies t @ [(pkt, h_Pkt t pkt)]"
    using fs_more(7,8) [OF m] by (simp_all add: step_defs)
  then show ?thesis using j by simp
qed

theorem read_joins_parts_witness:
  "bytes_of (fs_mem (FS_ReceiveRemoteMessage 4 (read_end 1052) 1052
      (fold (\<lambda>d. FS_ReceiveRemoteMessage 4 (read_part 1052 d) 1052) [[1, 2], [3]] (demo_sent ACTION_READ)))) 64 3 = [1, 2, 3]"
proof -
  have h: "h_Pkt (demo_sent ACTION_READ) 9 = demo_packet ACTION_READ 8" by (simp add: demo_sent_facts)
  have "dp_Type (h_Pkt (demo_sent ACTION_READ) 9) = ACTION_READ" "dp_Res1 (h_Pkt (demo_sent ACTION_READ) 9) = 0"
      "unat (dp_Arg2 (h_Pkt (demo_sent ACTION_READ) 9)) + length (concat [[1, 2], [3 :: u8]]) < 2 ^ 32"
    unfolding h by (simp_all add: demo_packet_def)
  from read_joins_parts [OF this(1) demo_sent_facts(4) this(2,3), of 4] have
    "bytes_of (fs_mem (FS_ReceiveRemoteMessage 4 (read_end 1052) 1052
        (fold (\<lambda>d. FS_ReceiveRemoteMessage 4 (read_part 1052 d) 1052) [[1, 2], [3]] (demo_sent ACTION_READ))))
      (unat (dp_Arg2 (h_Pkt (demo_sent ACTION_READ) 9))) (length (concat [[1, 2], [3 :: u8]])) = concat [[1, 2], [3]]"
    by (elim conjE)
  moreover have "unat (dp_Arg2 (h_Pkt (demo_sent ACTION_READ) 9)) = 64" unfolding h by (simp add: demo_packet_def)
  moreover have "length (concat [[1, 2], [3 :: u8]]) = 3" by simp
  moreover have "concat [[1, 2], [3 :: u8]] = [1, 2, 3]" by simp
  ultimately show ?thesis by (simp only:)
qed

end
