(* ===== verification/ServerLife.thy ===== *)
theory ServerLife
  imports Server Client
begin

text \<open>
  How the server comes up and goes down (server/server.c, config.c, main.c). The structure is
  allocated from a pool that does not clear its memory: \<open>server_life\<close> starts as anything and is
  filled in step by step. The command line, DOS, Exec and the timer are inputs.
\<close>

section \<open>Configuration\<close>

text \<open>What \<open>ReadArgs\<close> leaves in the array; the first two have defaults.\<close>

record config_args =
  ca_Read :: bool
  ca_LogLevel :: "u8 list"
  ca_Remote :: "u8 list"
  ca_RemArgs :: "u8 list option"

record config =
  cf_Addr :: addr
  cf_Size :: u16
  cf_RemoteName :: "u8 list"
  cf_RemoteArgs :: "u8 list option"

definition sizeof_Config :: u32 where "sizeof_Config = 14"

definition name_len :: "u8 list \<Rightarrow> u16" where
  "name_len name = (let n = of_nat (length name + 1) in if unat n mod 2 = 1 then n + 1 else n)"

definition args_len :: "u8 list option \<Rightarrow> u16" where
  "args_len t = (case t of None \<Rightarrow> 0 | Some xs \<Rightarrow> of_nat (length xs + 2))"

text \<open>
  Name and arguments are copied behind the structure, the arguments with a newline. Their lengths
  are UWORDs: a longer string is copied whole into the room for a shorter one.
\<close>

definition APB_GetConfig ::
    "config_args \<Rightarrow> 'a server_state_scheme \<Rightarrow> config option \<times> 'a server_state_scheme" where
  "APB_GetConfig a s =
     (if \<not> ca_Read a then (None, s)
      else let level = APB_GetLogLevel (ca_LogLevel a); len1 = name_len (ca_Remote a); len2 = args_len (ca_RemArgs a) in
        if level < 0 then (None, s)
        else case APB_AllocMem (sizeof_Config + ucast len1 + ucast len2) s of
          (None, s1) \<Rightarrow> (None, s1)
        | (Some p, s1) \<Rightarrow>
            (let over = length (ca_Remote a) + 1 > unat len1 \<or>
                        (len2 \<noteq> 0 \<and> length (the (ca_RemArgs a)) + 2 > unat len2);
                 s2 = s1\<lparr>log_level := of_int level\<rparr>
             in (Some \<lparr>cf_Addr = p, cf_Size = len1 + len2, cf_RemoteName = ca_Remote a,
                   cf_RemoteArgs = (if len2 = 0 then None else map_option (\<lambda>t. t @ [0x0A]) (ca_RemArgs a))\<rparr>,
                 if over then add_fault OutOfBounds s2 else s2)))"

definition APB_FreeConfig :: "config \<Rightarrow> 'a pool_scheme \<Rightarrow> 'a pool_scheme" where
  "APB_FreeConfig cfg s = APB_FreeMem (Some (cf_Addr cfg)) (sizeof_Config + ucast (cf_Size cfg)) s"

text \<open>
  The answers when the remote is configured: a structure for the arguments, what parsing them makes
  of the template, the strings and numbers the values point to.
\<close>

record remote_answer =
  cr_Name :: addr
  cr_RDArgs :: bool
  cr_Parse :: "u8 list \<Rightarrow> remote_args \<Rightarrow> remote_args option"
  cr_Str :: "addr \<Rightarrow> string"
  cr_Long :: "addr \<Rightarrow> u32"

text \<open>Only a remote with arguments is configured; else the template is not given back either.\<close>

definition APB_ConfigureRemote ::
    "remote_answer \<Rightarrow> config \<Rightarrow> 'a rem_state_scheme \<Rightarrow> bool \<times> 'a rem_state_scheme" where
  "APB_ConfigureRemote cr cfg s =
     (case REM_GetArgTemplate (cr_Name cr) (op_Mem s) of
        (None, m) \<Rightarrow> (True, s\<lparr>op_Mem := m\<rparr>)
      | (Some (a, ra), m) \<Rightarrow>
          (let s1 = s\<lparr>op_Mem := m\<rparr>; t = (case cf_RemoteArgs cfg of None \<Rightarrow> [] | Some t \<Rightarrow> t)
           in if t = [] then (True, s1)
              else if \<not> cr_RDArgs cr then (False, s1)
              else case cr_Parse cr t ra of
                None \<Rightarrow> (False, s1)
              | Some ra1 \<Rightarrow>
                  (let (ok, r, m2) = REM_ConfigureRemote (cr_Str cr) (cr_Long cr) a ra1 (rem s1) (op_Mem s1)
                   in (ok, (upd_rem (\<lambda>_. r) s1)\<lparr>op_Mem := m2\<rparr>))))"

section \<open>The parts of a server\<close>

text \<open>
  The pointers of the structure that say what is there. \<open>sl_RemoteBase\<close> is the global; \<open>sl_Opens\<close>
  counts how often the remote library is open. \<open>sl_Timer\<close> are the calls to the timer device.
\<close>

datatype timer_call = Timer_Abort | Timer_Wait | Timer_Close | Timer_Delete | Timer_Port_Delete

record server_life =
  sl_Ctx :: "apb_context option"
  sl_Config :: "config option"
  sl_Writer :: bool
  sl_Reader :: bool
  sl_Remote :: "addr option"
  sl_RemoteBase :: bool
  sl_Opens :: int
  sl_TimerReq :: bool
  sl_ListReady :: bool
  sl_Timer :: "timer_call list"

record server_answer_set =
  sn_Pool :: bool
  sn_Server :: bool
  sn_MemPool :: addr
  sn_Garbage :: bytes
  sn_Junk :: apb_context
  sn_Args :: config_args
  sn_RemLib :: bool
  sn_RemConf :: remote_answer
  sn_DevAddr :: addr
  sn_TimerPort :: "nat option"
  sn_TimerReq :: bool
  sn_TimerDev :: bool

text \<open>The context's pool is the pool of the server's state.\<close>

definition enter_context :: "apb_context \<Rightarrow> exec_mem \<Rightarrow> 'a pool_scheme \<Rightarrow> 'a pool_scheme" where
  "enter_context ctx m s =
     (case ctx_ObjPool ctx of
        None \<Rightarrow> s\<lparr>op_Mem := m\<rparr>
      | Some (a, p) \<Rightarrow> s\<lparr>op_Types := op_Types p, op_MemPool := op_MemPool p, op_Mem := m\<rparr>)"

definition new_server :: server where
  "new_server = \<lparr>srv_ReadBuffer = None, srv_ClientPort = None, srv_TimerPort = None, srv_State = SS_STARTING,
     srv_NextConnId = 1, srv_LastInPackId = 0, srv_PingSendTicks = MAX_MISSED_PINGS, srv_MissedPingCount = 0,
     srv_PingTimeoutTicks = 0\<rparr>"

definition APB_SrvInitServer ::
    "server_answer_set \<Rightarrow> server_life \<Rightarrow> 'a server_state_scheme \<Rightarrow> bool \<times> server_life \<times> 'a server_state_scheme" where
  "APB_SrvInitServer a L s =
     (case APB_CreateContext (Some (sn_MemPool a)) True LOG_INFO (sn_Garbage a) (sn_Junk a) (op_Mem s) of
        (None, fs, m) \<Rightarrow> (False, L\<lparr>sl_Ctx := None\<rparr>, s\<lparr>op_Mem := m, faults := fs @ faults s\<rparr>)
      | (Some ctx, fs, m) \<Rightarrow>
          (let L1 = L\<lparr>sl_Ctx := Some ctx\<rparr>; s1 = enter_context ctx m (s\<lparr>faults := fs @ faults s\<rparr>)
           in case APB_GetConfig (sn_Args a) s1 of
                (None, s2) \<Rightarrow> (False, L1, s2)
              | (Some cfg, s2) \<Rightarrow>
                  (let L2 = L1\<lparr>sl_Config := Some cfg, sl_TimerReq := False, sl_ListReady := True\<rparr>;
                       (w, s3) = APB_CreatePacketWriter (s2\<lparr>srv := new_server, cnns := []\<rparr>);
                       L3 = L2\<lparr>sl_Writer := w\<rparr>
                   in if \<not> w then (False, L3, s3)
                      else let (r, s4) = APB_CreatePacketReader s3 in (r, L3\<lparr>sl_Reader := r\<rparr>, s4))))"

text \<open>
  \<open>RemoteBase\<close> and \<open>srv_Remote\<close> keep their values when the remote is given up: \<open>APB_DestroyServer\<close>
  finds them set.
\<close>

definition APB_SrvInitRemote ::
    "server_answer_set \<Rightarrow> server_life \<Rightarrow> 'a server_state_scheme \<Rightarrow> bool \<times> server_life \<times> 'a server_state_scheme" where
  "APB_SrvInitRemote a L s =
     (if \<not> sn_RemLib a then (False, L\<lparr>sl_RemoteBase := False\<rparr>, s)
      else let L1 = L\<lparr>sl_RemoteBase := True, sl_Opens := sl_Opens L + 1\<rparr> in
        case REM_CreateRemote (op_Mem s) of
          (None, m) \<Rightarrow> (False, L1\<lparr>sl_Remote := None, sl_Opens := sl_Opens L1 - 1\<rparr>, s\<lparr>op_Mem := m\<rparr>)
        | (Some (ra, r), m) \<Rightarrow>
            (let L2 = L1\<lparr>sl_Remote := Some ra\<rparr>; s1 = (upd_rem (\<lambda>_. r) s)\<lparr>op_Mem := m\<rparr>
             in case sl_Config L of
                  None \<Rightarrow> (False, L2, add_fault NullDeref s1)
                | Some cfg \<Rightarrow>
                    (case APB_ConfigureRemote (sn_RemConf a) cfg s1 of
                       (True, s2) \<Rightarrow> (True, L2, s2)
                     | (False, s2) \<Rightarrow>
                         (False, L2\<lparr>sl_Opens := sl_Opens L2 - 1\<rparr>,
                          s2\<lparr>op_Mem := REM_DestroyRemote ra (sn_DevAddr a) (rem s2) (op_Mem s2)\<rparr>))))"

definition APB_SrvCreateTimer ::
    "server_answer_set \<Rightarrow> server_life \<Rightarrow> 'a server_state_scheme \<Rightarrow> bool \<times> server_life \<times> 'a server_state_scheme" where
  "APB_SrvCreateTimer a L s =
     (let s1 = upd_srv (\<lambda>x. x\<lparr>srv_TimerPort := sn_TimerPort a\<rparr>) s
      in if sn_TimerPort a = None then (False, L, s1)
         else let L1 = L\<lparr>sl_TimerReq := sn_TimerReq a\<rparr>
              in (sn_TimerReq a \<and> sn_TimerDev a, L1, s1))"

section \<open>Going down\<close>

text \<open>The connections, from the last; each is taken off the list before it is destroyed.\<close>

fun destroy_connections :: "addr list \<Rightarrow> 'a server_state_scheme \<Rightarrow> 'a server_state_scheme" where
  "destroy_connections [] s = s"
| "destroy_connections (c # cs) s = destroy_connections cs (APB_DestroyConnection c (s\<lparr>cnns := rev cs\<rparr>))"

definition APB_DestroyServer ::
    "server_answer_set \<Rightarrow> server_life \<Rightarrow> 'a server_state_scheme \<Rightarrow> server_life \<times> 'a server_state_scheme" where
  "APB_DestroyServer a L s =
     (let L1 = L\<lparr>sl_Timer := sl_Timer L @
                 (if sl_TimerReq L then [Timer_Abort, Timer_Wait, Timer_Close, Timer_Delete] else []) @
                 (if srv_TimerPort (srv s) \<noteq> None then [Timer_Port_Delete] else [])\<rparr>;
          s1 = (if sl_ListReady L then destroy_connections (rev (cnns s)) s else add_fault UseAfterFree s);
          s2 = (if sl_RemoteBase L
                then case sl_Remote L of
                       None \<Rightarrow> s1
                     | Some ra \<Rightarrow> s1\<lparr>op_Mem := REM_DestroyRemote ra (sn_DevAddr a) (rem s1) (op_Mem s1)\<rparr>
                else s1);
          L2 = (if sl_RemoteBase L then L1\<lparr>sl_Opens := sl_Opens L1 - 1\<rparr> else L1);
          s3 = (if sl_Reader L then APB_DestroyPacketReader s2 else s2);
          s4 = (if sl_Writer L then APB_DestroyPacketWriter s3 else s3);
          s5 = (case sl_Config L of None \<Rightarrow> add_fault NullDeref s4 | Some cfg \<Rightarrow> APB_FreeConfig cfg s4)
      in case sl_Ctx L of
           None \<Rightarrow> (L2, add_fault NullDeref s5)
         | Some ctx \<Rightarrow>
             (let (fs, m) = APB_FreeContext (ctx\<lparr>ctx_ObjPool := map_option (\<lambda>(p, _). (p, pool.truncate s5)) (ctx_ObjPool ctx)\<rparr>)
                              (op_Mem s5)
              in (L2, s5\<lparr>op_Mem := m, faults := fs\<rparr>)))"

text \<open>A structure that could not be allocated is destroyed through NULL.\<close>

definition APB_CreateServer ::
    "server_answer_set \<Rightarrow> server_life \<Rightarrow> 'a server_state_scheme \<Rightarrow> bool \<times> server_life \<times> 'a server_state_scheme" where
  "APB_CreateServer a L s =
     (if \<not> sn_Pool a then (False, L, s)
      else if \<not> sn_Server a then (False, L, add_fault NullDeref s)
      else let (ok1, L1, s1) = APB_SrvInitServer a L s;
               (ok2, L2, s2) = (if ok1 then APB_SrvInitRemote a L1 s1 else (False, L1, s1));
               (ok3, L3, s3) = (if ok2 then APB_SrvCreateTimer a L2 s2 else (False, L2, s2))
           in if ok3 then (True, L3, s3)
              else let (L4, s4) = APB_DestroyServer a L3 s3 in (False, L4, s4))"

section \<open>The program\<close>

datatype main_lib = L_Dos | L_Utility | L_AmiPiBorg

datatype main_call = Lib_Open main_lib | Lib_Close main_lib

text \<open>
  \<open>found\<close> tells which libraries can be opened, \<open>rounds\<close> are the rounds of the main loop. None is a
  run that hangs.
\<close>

definition server_main ::
    "(main_lib \<Rightarrow> bool) \<Rightarrow> server_answer_set \<Rightarrow> run_input list \<Rightarrow> server_life \<Rightarrow> 'a server_state_scheme \<Rightarrow>
     (main_call list \<times> server_life \<times> 'a server_state_scheme) option" where
  "server_main found a rounds L s =
     (if \<not> found L_Dos then Some ([], L, s)
      else if \<not> found L_Utility then Some ([Lib_Open L_Dos, Lib_Close L_Dos], L, s)
      else if \<not> found L_AmiPiBorg
      then Some ([Lib_Open L_Dos, Lib_Open L_Utility, Lib_Close L_Utility, Lib_Close L_Dos], L, s)
      else let fin = (\<lambda>(L, s). ([Lib_Open L_Dos, Lib_Open L_Utility, Lib_Open L_AmiPiBorg,
                             Lib_Close L_AmiPiBorg, Lib_Close L_Utility, Lib_Close L_Dos], L, s))
           in case APB_CreateServer a L s of
                (False, L1, s1) \<Rightarrow> Some (fin (L1, s1))
              | (True, L1, s1) \<Rightarrow>
                  (case APB_Run rounds s1 of
                     None \<Rightarrow> None
                   | Some (retry, s2) \<Rightarrow> Some (fin (APB_DestroyServer a L1 s2))))"

section \<open>The remote library\<close>

lemma init_server_life:
  "APB_SrvInitServer a L s = (ok, L1, s1) \<Longrightarrow>
     sl_Opens L1 = sl_Opens L \<and> sl_RemoteBase L1 = sl_RemoteBase L \<and> sl_Remote L1 = sl_Remote L"
  by (auto simp: APB_SrvInitServer_def Let_def split: option.splits prod.splits if_splits)

lemma destroy_server_life:
  "sl_Opens (fst (APB_DestroyServer a L s)) = sl_Opens L - (if sl_RemoteBase L then 1 else 0)"
  by (auto simp: APB_DestroyServer_def Let_def split: option.splits prod.splits)

lemma init_remote_life:
  "APB_SrvInitRemote a L s = (ok, L1, s1) \<Longrightarrow>
     sl_RemoteBase L1 = sn_RemLib a \<and>
     sl_Opens L1 = sl_Opens L + (if sn_RemLib a \<and> (ok \<or> sl_Remote L1 \<noteq> None \<and> sl_Config L = None) then 1 else 0)"
  by (auto simp: APB_SrvInitRemote_def Let_def split: option.splits prod.splits if_splits bool.splits)

lemma create_timer_life:
  "APB_SrvCreateTimer a L s = (ok, L1, s1) \<Longrightarrow>
     sl_RemoteBase L1 = sl_RemoteBase L \<and> sl_Opens L1 = sl_Opens L"
  by (auto simp: APB_SrvCreateTimer_def Let_def split: if_splits)

text \<open>A server that was made holds the remote library open once and gives it back.\<close>

lemma server_opens_remote_once:
  assumes "APB_CreateServer a L s = (True, L1, s1)"
  shows "sl_Opens L1 = sl_Opens L + 1 \<and> sl_Opens (fst (APB_DestroyServer a L1 s2)) = sl_Opens L"
proof -
  from assms obtain La sa Lb sb where
    1: "APB_SrvInitServer a L s = (True, La, sa)" and 2: "APB_SrvInitRemote a La sa = (True, Lb, sb)"
    and 3: "APB_SrvCreateTimer a Lb sb = (True, L1, s1)"
    by (auto simp: APB_CreateServer_def Let_def split: if_splits prod.splits)
  have "sn_RemLib a" using 2 by (simp add: APB_SrvInitRemote_def split: if_splits)
  then show ?thesis
    using init_server_life [OF 1] init_remote_life [OF 2] create_timer_life [OF 3] by (simp add: destroy_server_life)
qed

text \<open>A remote that cannot be made or configured has its library closed twice.\<close>

lemma remote_closed_twice:
  assumes "sn_Pool a" "sn_Server a" "sn_RemLib a"
    and "APB_SrvInitServer a L s = (True, L1, s1)" and "APB_SrvInitRemote a L1 s1 = (False, L2, s2)"
  shows "\<exists>L3 s3. APB_CreateServer a L s = (False, L3, s3) \<and> sl_Opens L3 = sl_Opens L - 1"
proof -
  have "sl_Config L1 \<noteq> None"
    using assms(4) by (auto simp: APB_SrvInitServer_def Let_def split: option.splits prod.splits if_splits)
  then show ?thesis
    using assms init_server_life [OF assms(4)] init_remote_life [OF assms(5)] destroy_server_life [of a L2 s2]
    by (cases "APB_DestroyServer a L2 s2") (auto simp: APB_CreateServer_def Let_def)
qed

end
