(* ===== verification/ClientTools.thy ===== *)
theory ClientTools
  imports Client
begin

text \<open>
  What the small clients (clients/ApbPing, ApbControl, ApbDate and ApbInput) have in common: the
  things they make on the way in and give back on the way out, and the context, the connection and
  the one or two requests between them. What happens while the connection is open is the argument
  \<open>body\<close>: it yields the events of the program and its faults.
\<close>

section \<open>Nested parts\<close>

datatype tool_part = T_Dos | T_Args | T_Library | T_Port | T_IORequest | T_Device | T_Intuition | T_Utility

datatype 'e tool_event = Get tool_part | Give tool_part | Did 'e

text \<open>If the part can be had the body runs between getting it and giving it back.\<close>

definition holding ::
    "bool \<Rightarrow> tool_part \<Rightarrow> ('s \<Rightarrow> 'e tool_event list \<times> 's) \<Rightarrow> 's \<Rightarrow> 'e tool_event list \<times> 's" where
  "holding made p body s =
     (if made then case body s of (tr, s1) \<Rightarrow> (Get p # tr @ [Give p], s1) else ([], s))"

text \<open>What a read stores at the beginning of a buffer.\<close>

definition put_bytes :: "u8 list \<Rightarrow> bytes \<Rightarrow> bytes" where
  "put_bytes bs m = (\<lambda>i. if i < length bs then bs ! i else m i)"

section \<open>The session of a tool\<close>

text \<open>
  The answers: the port's number, Exec's cleared memory, what an object's memory held, the server's
  answers to the opening and the closing message.
\<close>

record tool_answer =
  ta_Port :: nat
  ta_Garbage :: bytes
  ta_Junk :: apb_context
  ta_Old :: "addr \<Rightarrow> client_request"
  ta_Open :: server_answer
  ta_Close :: server_answer

text \<open>
  \<open>two\<close> tells whether there is a writer beside the reader, \<open>failed\<close> is what is said when the
  connection cannot be opened.
\<close>

definition tool_open ::
    "tool_answer \<Rightarrow> (u16 \<Rightarrow> 'e list) \<Rightarrow> (client_conn \<Rightarrow> 'e list \<times> fault list) \<Rightarrow> client_conn \<Rightarrow>
     'a pool_scheme \<Rightarrow> 'e list \<times> 'a pool_scheme" where
  "tool_open ta failed body conn s =
     (case APB_OpenConnection (ta_Old ta) (ta_Open ta) conn s of
        (True, c, posted, s1) \<Rightarrow>
          (let (evs, fs) = body c;
               (c1, posted1, s2) = APB_CloseConnection (ta_Old ta) (ta_Close ta) c (s1\<lparr>faults := fs @ faults s1\<rparr>)
           in (evs, s2))
      | (False, c, posted, s1) \<Rightarrow> (failed (APB_ConnectionState c), s1))"

definition tool_session ::
    "tool_answer \<Rightarrow> u16 \<Rightarrow> bool \<Rightarrow> (u16 \<Rightarrow> 'e list) \<Rightarrow>
     (client_conn \<Rightarrow> client_request \<Rightarrow> client_request \<Rightarrow> 'e list \<times> fault list) \<Rightarrow>
     'a pool_scheme \<Rightarrow> 'e list \<times> 'a pool_scheme" where
  "tool_session ta handler two failed body s =
     (case APB_AllocConnection (ta_Port ta) handler s of
        (None, s1) \<Rightarrow> ([], s1)
      | (Some conn, s1) \<Rightarrow>
          (let (evs, s4) =
             (case APB_AllocRequest (ta_Old ta) conn s1 of
                (None, s2) \<Rightarrow> ([], s2)
              | (Some rd, s2) \<Rightarrow>
                  (let (evs, s3) =
                     (if two
                      then case APB_AllocRequest (ta_Old ta) conn s2 of
                             (None, s3) \<Rightarrow> ([], s3)
                           | (Some wr, s3) \<Rightarrow>
                               (let (evs, s4) = tool_open ta failed (\<lambda>c. body c rd wr) conn s3
                                in (evs, APB_FreeRequest wr s4))
                      else tool_open ta failed (\<lambda>c. body c rd rd) conn s2)
                   in (evs, APB_FreeRequest rd s3)))
           in (evs, APB_FreeConnection conn s4)))"

text \<open>A context around the session. The faults of the program are counted with Exec's memory.\<close>

definition tool_context ::
    "tool_answer \<Rightarrow> u16 \<Rightarrow> (pool \<Rightarrow> 'e list \<times> pool) \<Rightarrow> fault list \<times> exec_mem \<Rightarrow>
     'e tool_event list \<times> fault list \<times> exec_mem" where
  "tool_context ta level run x =
     (case x of (fs, m) \<Rightarrow>
        (case APB_CreateContext None True level (ta_Garbage ta) (ta_Junk ta) m of
           (None, gs, m1) \<Rightarrow> ([], gs @ fs, m1)
         | (Some ctx, gs, m1) \<Rightarrow>
             (case ctx_ObjPool ctx of
                None \<Rightarrow> ([], NullDeref # gs @ fs, m1)
              | Some (a, p) \<Rightarrow>
                  (let (evs, p1) = run (p\<lparr>op_Mem := m1\<rparr>);
                       (hs, m2) = APB_FreeContext (ctx\<lparr>ctx_ObjPool := Some (a, p1)\<rparr>) (op_Mem p1)
                   in (map Did evs, hs @ gs @ fs, m2)))))"

section \<open>A session gives back what it takes\<close>

lemma alloc_connection_holds:
  assumes "pool_holds H s" "APB_AllocConnection port h s = (r, t)"
  shows "case r of
      None \<Rightarrow> pool_holds H t
    | Some c \<Rightarrow> c_Addr c \<notin> H LIB_OT_CONNECTION \<and>
        pool_holds (H(LIB_OT_CONNECTION := insert (c_Addr c) (H LIB_OT_CONNECTION))) t"
    and "faults t = faults s"
proof -
  let ?s1 = "if APB_TypeRegisteredInternal LIB_OT_CONNECTION s then s
     else APB_RegisterObjectTypeInternal LIB_OT_CONNECTION ''Connection'' sizeof_LibConnection 1 8 s"
  let ?s2 = "if APB_TypeRegisteredInternal OT_REQUEST ?s1 then ?s1
     else APB_RegisterObjectTypeInternal OT_REQUEST ''Request'' sizeof_RequestInt 1 64 ?s1"
  note reg = pool_holds_register [unfolded APB_RegisterObjectType_def]
  have 1: "pool_holds H ?s1" "faults ?s1 = faults s" using reg [OF assms(1)] assms(1) by auto
  have 2: "pool_holds H ?s2" "faults ?s2 = faults s" using reg [OF 1(1)] 1 by auto
  obtain p u where al: "APB_AllocObjectInternal LIB_OT_CONNECTION ?s2 = (p, u)" by fastforce
  have t: "u = t" "r = map_option (\<lambda>a. \<lparr>c_Addr = a, c_MsgPort = port, c_Status = APB_RS_NO_CONNECTION,
      c_HandlerId = h, c_ConnId = 0\<rparr>) p"
    using assms(2) al by (auto simp: APB_AllocConnection_def Let_def split: option.splits)
  show "case r of None \<Rightarrow> pool_holds H t
    | Some c \<Rightarrow> c_Addr c \<notin> H LIB_OT_CONNECTION \<and>
        pool_holds (H(LIB_OT_CONNECTION := insert (c_Addr c) (H LIB_OT_CONNECTION))) t"
    using obj.alloc_Some [OF 2(1), of LIB_OT_CONNECTION] obj.alloc_None [OF 2(1), of LIB_OT_CONNECTION] al t
    by (cases p) auto
  show "faults t = faults s"
    using obj.alloc_Some [OF 2(1), of LIB_OT_CONNECTION] obj.alloc_None [OF 2(1), of LIB_OT_CONNECTION] al t 2(2)
    by (cases p) auto
qed

text \<open>Taking an object and giving it back leaves the clients' holdings as they were.\<close>

lemma free_taken:
  assumes "pool_holds (H(i := insert p (H i))) s" "p \<notin> H i"
  shows "pool_holds H (APB_FreeObjectInternal i p s)" "faults (APB_FreeObjectInternal i p s) = faults s"
  using obj.free_held [OF assms(1), of p i] assms(2) by simp_all

lemma alloc_request_holds:
  assumes "pool_holds H s" "APB_AllocRequest old conn s = (r, t)"
  shows "case r of
      None \<Rightarrow> pool_holds H t
    | Some q \<Rightarrow> rq_Addr q \<notin> H OT_REQUEST \<and> pool_holds (H(OT_REQUEST := insert (rq_Addr q) (H OT_REQUEST))) t"
    and "faults t = faults s"
proof -
  obtain p u where al: "APB_AllocObjectInternal OT_REQUEST s = (p, u)" by fastforce
  note l = obj.alloc_Some [OF assms(1), of OT_REQUEST] obj.alloc_None [OF assms(1), of OT_REQUEST]
  show "case r of None \<Rightarrow> pool_holds H t
    | Some q \<Rightarrow> rq_Addr q \<notin> H OT_REQUEST \<and> pool_holds (H(OT_REQUEST := insert (rq_Addr q) (H OT_REQUEST))) t"
    using l al assms(2) by (cases p) (auto simp: APB_AllocRequest_def)
  show "faults t = faults s"
    using l al assms(2) by (cases p) (auto simp: APB_AllocRequest_def)
qed

lemma open_connection_holds:
  assumes "pool_holds H s" "APB_OpenConnection old ans conn s = (ok, c, posted, t)"
  shows "pool_holds H t" "faults t = faults s" "c_Addr c = c_Addr conn"
proof -
  obtain r u where al: "APB_AllocRequest old conn s = (r, u)" by fastforce
  note h = alloc_request_holds [OF assms(1) al]
  show "pool_holds H t" "faults t = faults s"
    using h al assms(2)
    by (auto simp: free_taken [of H OT_REQUEST] APB_OpenConnection_def APB_PutMsg_def APB_FreeRequest_def Let_def
        split: option.splits server_answer.splits if_splits)
  show "c_Addr c = c_Addr conn"
    using al assms(2)
    by (auto simp: APB_OpenConnection_def APB_PutMsg_def Let_def split: option.splits server_answer.splits if_splits)
qed

lemma close_connection_holds:
  assumes "pool_holds H s" "APB_CloseConnection old ans conn s = (c, posted, t)"
  shows "pool_holds H t" "faults t = faults s"
proof -
  obtain r u where al: "APB_AllocRequest old conn s = (r, u)" by fastforce
  note h = alloc_request_holds [OF assms(1) al]
  show "pool_holds H t" "faults t = faults s"
    using h al assms(2)
    by (auto simp: free_taken [of H OT_REQUEST] APB_CloseConnection_def APB_PutMsg_def APB_FreeRequest_def Let_def
        split: option.splits server_answer.splits if_splits)
qed

text \<open>What a program's events and the faults it adds to a pool with the holdings \<open>H\<close> may be.\<close>

definition session_ok ::
    "(u16 \<Rightarrow> addr set) \<Rightarrow> bool \<Rightarrow> 'a pool_scheme \<Rightarrow> 'e list \<times> 'a pool_scheme \<Rightarrow> bool" where
  "session_ok H quiet s r \<longleftrightarrow> pool_holds H (snd r) \<and> (quiet \<longrightarrow> faults (snd r) = faults s)"

lemma tool_open_ok:
  assumes "pool_holds H s"
  shows "session_ok H (\<forall>c. snd (body c) = []) s (tool_open ta failed body conn s)"
proof -
  obtain ok c posted s1 where o: "APB_OpenConnection (ta_Old ta) (ta_Open ta) conn s = (ok, c, posted, s1)"
    by (cases "APB_OpenConnection (ta_Old ta) (ta_Open ta) conn s") auto
  obtain evs fs where b: "body c = (evs, fs)" by fastforce
  let ?s = "s1\<lparr>faults := fs @ faults s1\<rparr>"
  obtain c1 posted1 s2 where cl: "APB_CloseConnection (ta_Old ta) (ta_Close ta) c ?s = (c1, posted1, s2)"
    by (cases "APB_CloseConnection (ta_Old ta) (ta_Close ta) c ?s") auto
  note h = open_connection_holds [OF assms o]
  have "pool_holds H ?s" using h(1) pool_holds_cong [of ?s s1 H] by simp
  note k = close_connection_holds [OF this cl]
  have f: "fs = []" if "\<forall>c. snd (body c) = []" using that [rule_format, of c] b by simp
  show ?thesis using o b cl h k f by (cases ok) (auto simp: tool_open_def session_ok_def)
qed

lemma request_around:
  assumes h: "pool_holds H s" and al: "APB_AllocRequest old conn s = (Some q, s1)"
    and body: "\<And>H s. pool_holds H s \<Longrightarrow> session_ok H quiet s (f s)"
  shows "session_ok H quiet s (case f s1 of (evs, s2) \<Rightarrow> (evs, APB_FreeRequest q s2))"
proof -
  obtain evs s2 where f: "f s1 = (evs, s2)" by fastforce
  note q = alloc_request_holds [OF h al, simplified]
  have "session_ok (H(OT_REQUEST := insert (rq_Addr q) (H OT_REQUEST))) quiet s1 (evs, s2)"
    using body [of _ s1] q(1) f by simp
  then show ?thesis
    using q free_taken [of H OT_REQUEST "rq_Addr q" s2] by (simp add: f session_ok_def APB_FreeRequest_def)
qed

lemma no_request:
  "pool_holds H s \<Longrightarrow> APB_AllocRequest old conn s = (None, s1) \<Longrightarrow> session_ok H quiet s ([], s1)"
  using alloc_request_holds [of H s old conn None s1] by (simp add: session_ok_def)

lemma tool_session_ok:
  fixes body :: "client_conn \<Rightarrow> client_request \<Rightarrow> client_request \<Rightarrow> 'e list \<times> fault list"
    and s :: "'b pool_scheme"
  assumes h: "pool_holds H s"
  defines "quiet \<equiv> \<forall>c rd wr. snd (body c rd wr) = []"
  shows "session_ok H quiet s (tool_session ta handler two failed body s)"
proof -
  obtain r s1 where al: "APB_AllocConnection (ta_Port ta) handler s = (r, s1)" by fastforce
  note c = alloc_connection_holds [OF h al]
  show ?thesis
  proof (cases r)
    case None
    then show ?thesis using c by (simp add: tool_session_def al session_ok_def)
  next
    case (Some conn)
    let ?H = "H(LIB_OT_CONNECTION := insert (c_Addr conn) (H LIB_OT_CONNECTION))"
    define inner where "inner rd s2 =
      (if two
       then case APB_AllocRequest (ta_Old ta) conn s2 of
              (None, s3) \<Rightarrow> ([], s3)
            | (Some wr, s3) \<Rightarrow>
                (let (evs, s4) = tool_open ta failed (\<lambda>c. body c rd wr) conn s3 in (evs, APB_FreeRequest wr s4))
       else tool_open ta failed (\<lambda>c. body c rd rd) conn s2)" for rd and s2 :: "'b pool_scheme"
    have op: "session_ok H quiet s (tool_open ta failed (\<lambda>c. body c rd wr) conn s)"
      if "pool_holds H s" for H rd wr and s :: "'b pool_scheme"
      using tool_open_ok [OF that, of "\<lambda>c. body c rd wr" ta failed conn]
      by (auto simp: session_ok_def quiet_def)
    have inner: "session_ok H quiet s (inner rd s)" if "pool_holds H s" for H rd and s :: "'b pool_scheme"
    proof (cases two)
      case True
      obtain w s3 where aw: "APB_AllocRequest (ta_Old ta) conn s = (w, s3)" by fastforce
      show ?thesis
        using True aw no_request [OF that] request_around [OF that _ op]
        by (cases w) (auto simp: inner_def)
    qed (simp add: inner_def op [OF that])
    obtain q s2 where aq: "APB_AllocRequest (ta_Old ta) conn s1 = (q, s2)" by fastforce
    define res where "res =
      (case q of None \<Rightarrow> ([], s2)
       | Some rd \<Rightarrow> (case inner rd s2 of (evs, s3) \<Rightarrow> (evs, APB_FreeRequest rd s3)))"
    have hs: "pool_holds ?H s1" "c_Addr conn \<notin> H LIB_OT_CONNECTION" using c Some by auto
    have "session_ok ?H quiet s1 res"
      using aq no_request [OF hs(1)] request_around [OF hs(1) _ inner]
      by (cases q) (auto simp: res_def)
    moreover have "tool_session ta handler two failed body s =
        (fst res, APB_FreeConnection conn (snd res))"
      using aq by (cases q) (auto simp: tool_session_def al Some res_def inner_def Let_def split: prod.split)
    ultimately show ?thesis
      using free_taken [of H LIB_OT_CONNECTION "c_Addr conn" "snd res"] hs(2) c(2)
      by (simp add: session_ok_def APB_FreeConnection_def)
  qed
qed

section \<open>A context around it\<close>

text \<open>The pool of a new context is empty; by then Exec has given blocks for other things too.\<close>

lemma new_context_pool:
  assumes m: "exec_fresh (em_answer m)" "frees_ok (em_hist m)"
    and cr: "APB_CreateContext None lf level g junk m = (Some ctx, gs, m1)"
  obtains a p where "ctx_ObjPool ctx = Some (a, p)" "pool_holds (\<lambda>i. {}) (p\<lparr>op_Mem := m1\<rparr>)" "faults p = []"
proof -
  have alloc: "exec_fresh (em_answer m') \<and> frees_ok (em_hist m')"
    if "APB_AllocMemInternal None n m0 = (r, m')" "exec_fresh (em_answer m0) \<and> frees_ok (em_hist m0)" for n m0 m' r
  proof -
    have e: "exec_alloc (mem_fn_of None) n m0 = (r, m')" using that(1) by (simp add: APB_AllocMemInternal_alt)
    show ?thesis
    proof (cases r)
      case None
      from exec_alloc_None [OF e [unfolded None]] that(2) show ?thesis by simp
    next
      case (Some b)
      from exec_alloc_Some [OF e [unfolded Some]] that(2) show ?thesis by simp
    qed
  qed
  obtain a1 ma where 1: "APB_AllocMemInternal None sizeof_ApbContext m = (Some a1, ma)"
    using cr by (auto simp: APB_CreateContext_def split: prod.splits option.splits)
  obtain lg fs mb where 2: "APB_CreateLogger None lf level g ma = (Some lg, fs, mb)"
    using cr 1 by (auto simp: APB_CreateContext_def Let_def split: prod.splits option.splits if_splits)
  obtain op mc where 3: "APB_CreateObjectPool None mb = (Some op, mc)"
    using cr 1 2 by (auto simp: APB_CreateContext_def Let_def split: prod.splits option.splits)
  obtain sc where 4: "APB_CreateStatCollector None mc = (Some sc, m1)" and ctx: "ctx_ObjPool ctx = Some op"
    using cr 1 2 3 by (auto simp: APB_CreateContext_def Let_def split: prod.splits option.splits)
  have "exec_fresh (em_answer ma) \<and> frees_ok (em_hist ma)" by (rule alloc [OF 1]) (simp add: m)
  then have "exec_fresh (em_answer mb) \<and> frees_ok (em_hist mb)"
    using 2 by (auto simp: APB_CreateLogger_def dest: alloc split: prod.splits option.splits)
  then have "exec_fresh (em_answer mc) \<and> frees_ok (em_hist mc)"
    using 3 by (auto simp: APB_CreateObjectPool_def dest: alloc split: prod.splits option.splits)
  then have m1: "exec_fresh (em_answer m1)" "frees_ok (em_hist m1)"
    using 4 by (auto simp: APB_CreateStatCollector_def dest: alloc split: prod.splits option.splits)
  obtain a p where op: "op = (a, p)" by fastforce
  have p: "op_Types p = []" "op_MemPool p = None" "faults p = []"
    using 3 by (auto simp: op APB_CreateObjectPool_def split: prod.splits option.splits)
  have "pool_own Map.empty (\<lambda>i. {}) (p\<lparr>op_Mem := m1\<rparr>)" using m1 by (simp add: pool_own_def mem_own_def p)
  then have "pool_holds (\<lambda>i. {}) (p\<lparr>op_Mem := m1\<rparr>)" by (auto simp: pool_holds_def pool_inv_def)
  with that ctx op p show ?thesis by simp
qed

lemma free_idle_context:
  assumes "pool_holds (\<lambda>i. {}) p"
  shows "fst (APB_FreeContext (ctx\<lparr>ctx_ObjPool := Some (a, p)\<rparr>) m) = faults p"
  using free_pool_faults [OF assms, of "p\<lparr>op_Mem := x\<rparr>" a for x]
  by (auto simp: APB_FreeContext_def Let_def split: option.splits)

text \<open>A tool whose program is quiet adds no fault to those of making the context.\<close>

lemma tool_context_quiet:
  assumes m: "exec_fresh (em_answer m)" "frees_ok (em_hist m)"
    and cr: "APB_CreateContext None True level (ta_Garbage ta) (ta_Junk ta) m = (Some ctx, gs, m1)"
    and quiet: "\<And>s. pool_holds (\<lambda>i. {}) s \<Longrightarrow> session_ok (\<lambda>i. {}) True s (run s)"
  shows "fst (snd (tool_context ta level run (fs, m))) = gs @ fs"
proof -
  obtain a p where p: "ctx_ObjPool ctx = Some (a, p)" "pool_holds (\<lambda>i. {}) (p\<lparr>op_Mem := m1\<rparr>)" "faults p = []"
    by (rule new_context_pool [OF m cr])
  obtain evs p1 where s: "run (p\<lparr>op_Mem := m1\<rparr>) = (evs, p1)" by fastforce
  have k: "pool_holds (\<lambda>i. {}) p1" "faults p1 = []"
    using quiet [OF p(2)] by (auto simp: session_ok_def s p(3))
  obtain hs m2 where f: "APB_FreeContext (ctx\<lparr>ctx_ObjPool := Some (a, p1)\<rparr>) (op_Mem p1) = (hs, m2)" by fastforce
  have "hs = []" using free_idle_context [OF k(1), of a ctx "op_Mem p1"] k(2) by (simp add: f)
  then show ?thesis by (simp add: tool_context_def cr p(1) s f)
qed

lemma quiet_session:
  assumes "pool_holds H s" and "\<And>c rd wr. snd (body c rd wr) = []"
  shows "session_ok H True s (tool_session ta handler two failed body s)"
  using tool_session_ok [OF assms(1), of body] by (simp add: assms(2))

lemma holding_state: "snd (holding made p f x) = (if made then snd (f x) else x)"
  by (simp add: holding_def split: prod.split)

end
