(* ===== verification/ApbPing.thy ===== *)
theory ApbPing
  imports ClientTools
begin

text \<open>
  clients/ApbPing/apbping.c: sends a text to a handler that sends it back, \<open>repeat\<close> times, and
  compares. Inputs are the arguments, what is signalled in each round of the loop and the messages
  the port then holds; the program's output and the requests it posts are its events.
\<close>

section \<open>Arguments\<close>

definition PING_HANDLER_ID :: u16 where "PING_HANDLER_ID = 1"
definition PING_BUF_SIZE :: nat where "PING_BUF_SIZE = 64"

record ping_args =
  pa_LogLevel :: "u8 list"
  pa_Repeat :: int
  pa_Msg :: "u8 list"

text \<open>The level is stored as a UWORD before it is looked at. None is an error message.\<close>

definition ParseArgs :: "ping_args option \<Rightarrow> (u16 \<times> int \<times> u8 list) option" where
  "ParseArgs args =
     (case args of
        None \<Rightarrow> None
      | Some a \<Rightarrow>
          (let level = of_int (APB_GetLogLevel (pa_LogLevel a)) :: u16
           in if uint level < 0 then None
              else if pa_Repeat a < 1 then None
              else Some (level, pa_Repeat a, pa_Msg a)))"

section \<open>The loop\<close>

datatype ping_msg = Writer_Back u16 u16 | Reader_Back u16 "u8 list" | Other_Msg addr

datatype ping_event =
    Ping_Sending "u8 list"
  | Ping_Posted client_request
  | Ping_Sent u32 u16
  | Ping_Write_Failed u16
  | Ping_Read_Failed u16
  | Ping_Expected nat nat
  | Ping_Differs
  | Ping_Received u32 nat "u8 list"
  | Ping_Replied addr
  | Ping_Not_Connected u16

record ping_state =
  pg_Count :: u32
  pg_ReadBuf :: bytes
  pg_Events :: "ping_event list"
  pg_Faults :: "fault list"

definition ping_say :: "ping_event list \<Rightarrow> ping_state \<Rightarrow> ping_state" where
  "ping_say evs s = s\<lparr>pg_Events := pg_Events s @ evs\<rparr>"

text \<open>
  The text read is ended with a zero behind its last byte, and compared as far as it goes.
  \<open>post_read\<close> and \<open>post_write\<close> are the events of \<open>APB_Read\<close> and \<open>APB_Write\<close>.
\<close>

definition ping_received ::
    "u8 list \<Rightarrow> u32 \<Rightarrow> ping_event list \<Rightarrow> u8 list \<Rightarrow> ping_state \<Rightarrow> ping_state" where
  "ping_received text repeat post_write bs s =
     (let len = length text; actual = min (length bs) len;
          buf = (put_bytes bs (pg_ReadBuf s))(actual := 0);
          s1 = s\<lparr>pg_ReadBuf := buf, pg_Faults := (if actual < PING_BUF_SIZE then [] else [OutOfBounds]) @ pg_Faults s\<rparr>;
          s2 = ping_say
                 ((if actual \<noteq> unat (of_nat len :: u16) then [Ping_Expected len actual] else []) @
                  (if bytes_of buf 0 actual \<noteq> take actual text then [Ping_Differs] else []) @
                  [Ping_Received (pg_Count s) (length bs) (takeWhile (\<lambda>b. b \<noteq> 0) (bytes_of buf 0 (Suc actual)))]) s1;
          s3 = s2\<lparr>pg_Count := pg_Count s2 + 1\<rparr>
      in if pg_Count s3 < repeat then ping_say post_write s3 else s3)"

fun ping_message ::
    "u8 list \<Rightarrow> u32 \<Rightarrow> ping_event list \<Rightarrow> ping_event list \<Rightarrow> ping_msg \<Rightarrow> ping_state \<Rightarrow> ping_state" where
  "ping_message text repeat post_read post_write (Writer_Back st actual) s =
     (if st \<noteq> APB_RS_OK then (ping_say [Ping_Write_Failed st] s)\<lparr>pg_Count := repeat\<rparr>
      else ping_say (Ping_Sent (pg_Count s) actual # post_read) s)"
| "ping_message text repeat post_read post_write (Reader_Back st bs) s =
     (if st \<noteq> APB_RS_OK then (ping_say [Ping_Read_Failed st] s)\<lparr>pg_Count := repeat\<rparr>
      else ping_received text repeat post_write bs s)"
| "ping_message text repeat post_read post_write (Other_Msg a) s = ping_say [Ping_Replied a] s"

text \<open>One round: was the port signalled, which messages does it hold, was Ctrl-C pressed.\<close>

record ping_round =
  pr_Port :: bool
  pr_Msgs :: "ping_msg list"
  pr_Break :: bool

definition ping_step ::
    "u8 list \<Rightarrow> u32 \<Rightarrow> ping_event list \<Rightarrow> ping_event list \<Rightarrow> ping_round \<Rightarrow> ping_state \<Rightarrow> ping_state" where
  "ping_step text repeat post_read post_write r s =
     (if pr_Port r then fold (ping_message text repeat post_read post_write) (pr_Msgs r) s else s)"

fun ping_rounds ::
    "u8 list \<Rightarrow> u32 \<Rightarrow> ping_event list \<Rightarrow> ping_event list \<Rightarrow> ping_round list \<Rightarrow> ping_state \<Rightarrow> ping_state" where
  "ping_rounds text repeat post_read post_write [] s = s"
| "ping_rounds text repeat post_read post_write (r # rs) s =
     (if \<not> pg_Count s < repeat then s
      else let s1 = ping_step text repeat post_read post_write r s
           in if pr_Break r then s1 else ping_rounds text repeat post_read post_write rs s1)"

text \<open>What is still in the port at the end is answered, but for the program's own requests.\<close>

fun ping_drain :: "ping_msg list \<Rightarrow> ping_event list" where
  "ping_drain [] = []"
| "ping_drain (Other_Msg a # ms) = Ping_Replied a # ping_drain ms"
| "ping_drain (_ # ms) = ping_drain ms"

definition ping_start :: "bytes \<Rightarrow> u8 list \<Rightarrow> ping_event list \<Rightarrow> ping_state" where
  "ping_start buf text post_write =
     \<lparr>pg_Count = 0, pg_ReadBuf = buf, pg_Events = Ping_Sending text # post_write, pg_Faults = []\<rparr>"

record ping_answer =
  pn_Data :: addr
  pn_ReadBuf :: addr
  pn_Buf :: bytes
  pn_Server :: server_answer
  pn_Rounds :: "ping_round list"
  pn_Rest :: "ping_msg list"

text \<open>The two requests are filled in before the connection is opened.\<close>

definition ping_posts :: "ping_answer \<Rightarrow> u8 list \<Rightarrow> client_conn \<Rightarrow> client_request \<Rightarrow> client_request \<Rightarrow>
    ping_event list \<times> ping_event list" where
  "ping_posts pn text conn rd wr =
     (let reader = rd\<lparr>rq_Data := Some (pn_ReadBuf pn), rq_Length := of_nat PING_BUF_SIZE, rq_Timeout := 5\<rparr>;
          writer = wr\<lparr>rq_Data := Some (pn_Data pn), rq_Length := of_nat (length text), rq_Timeout := 5\<rparr>
      in (map Ping_Posted (snd (APB_Read (pn_Server pn) conn reader)),
          map Ping_Posted (snd (APB_Write (pn_Server pn) conn writer))))"

definition ping_body ::
    "ping_answer \<Rightarrow> u8 list \<Rightarrow> u32 \<Rightarrow> client_conn \<Rightarrow> client_request \<Rightarrow> client_request \<Rightarrow>
     ping_event list \<times> fault list" where
  "ping_body pn text repeat conn rd wr =
     (let (post_read, post_write) = ping_posts pn text conn rd wr;
          s = ping_rounds text repeat post_read post_write (pn_Rounds pn) (ping_start (pn_Buf pn) text post_write)
      in (pg_Events s @ ping_drain (pn_Rest pn), pg_Faults s))"

text \<open>
  \<open>main\<close>: \<open>have_part\<close> tells which of AmigaDOS' things can be had. The port is made inside the context
  and is not among the events.
\<close>

definition ping_main ::
    "(tool_part \<Rightarrow> bool) \<Rightarrow> tool_answer \<Rightarrow> ping_answer \<Rightarrow> ping_args option \<Rightarrow> fault list \<times> exec_mem \<Rightarrow>
     ping_event tool_event list \<times> fault list \<times> exec_mem" where
  "ping_main have_part ta pn args =
     holding (have_part T_Dos) T_Dos (\<lambda>x.
       (case ParseArgs args of
          None \<Rightarrow> ([], x)
        | Some (level, repeat, text) \<Rightarrow>
            holding True T_Args
              (holding (have_part T_Library) T_Library
                (tool_context ta level
                  (\<lambda>s. if have_part T_Port
                       then tool_session ta PING_HANDLER_ID True (\<lambda>st. [Ping_Not_Connected st])
                              (ping_body pn text (of_int repeat)) s
                       else ([], s)))) x))"

section \<open>The buffer\<close>

text \<open>A text that fits the buffer with its zero is never written past the end, whatever comes back.\<close>

lemma ping_say_simps [simp]:
  "pg_Count (ping_say evs s) = pg_Count s" "pg_Faults (ping_say evs s) = pg_Faults s"
  "pg_ReadBuf (ping_say evs s) = pg_ReadBuf s" "pg_Events (ping_say evs s) = pg_Events s @ evs"
  by (simp_all add: ping_say_def)

lemma ping_received_faults:
  "length text < PING_BUF_SIZE \<Longrightarrow> pg_Faults (ping_received text n pw bs s) = pg_Faults s"
  by (simp add: ping_received_def Let_def)

lemma ping_message_faults:
  "length text < PING_BUF_SIZE \<Longrightarrow> pg_Faults (ping_message text n pr pw m s) = pg_Faults s"
  by (cases m) (simp_all add: ping_received_faults)

lemma ping_step_faults:
  assumes "length text < PING_BUF_SIZE"
  shows "pg_Faults (ping_step text n pr pw r s) = pg_Faults s"
proof -
  have "pg_Faults (fold (ping_message text n pr pw) ms s) = pg_Faults s" for ms
    by (induction ms arbitrary: s) (simp_all add: ping_message_faults [OF assms])
  then show ?thesis by (simp add: ping_step_def)
qed

lemma ping_rounds_faults:
  "length text < PING_BUF_SIZE \<Longrightarrow> pg_Faults (ping_rounds text n pr pw rs s) = pg_Faults s"
  by (induction rs arbitrary: s) (simp_all add: Let_def ping_step_faults)

lemma ping_body_quiet: "length text < PING_BUF_SIZE \<Longrightarrow> snd (ping_body pn text n conn rd wr) = []"
  by (simp add: ping_body_def ping_rounds_faults ping_start_def split: prod.split)

section \<open>Echoes\<close>

text \<open>The rounds of a server that takes the text and gives it back, and what the program does.\<close>

definition echo_round :: "u8 list \<Rightarrow> ping_round list" where
  "echo_round text =
     [\<lparr>pr_Port = True, pr_Msgs = [Writer_Back APB_RS_OK (of_nat (length text))], pr_Break = False\<rparr>,
      \<lparr>pr_Port = True, pr_Msgs = [Reader_Back APB_RS_OK text], pr_Break = False\<rparr>]"

definition echo_events ::
    "u8 list \<Rightarrow> nat \<Rightarrow> ping_event list \<Rightarrow> ping_event list \<Rightarrow> nat \<Rightarrow> ping_event list" where
  "echo_events text n post_read post_write k =
     Ping_Sent (of_nat k) (of_nat (length text)) # post_read @
     Ping_Received (of_nat k) (length text) text # (if Suc k < n then post_write else [])"

lemma echo_received:
  assumes "length text < PING_BUF_SIZE" "0 \<notin> set text"
  shows "ping_received text n pw text s =
    (let s1 = ping_say [Ping_Received (pg_Count s) (length text) text]
           (s\<lparr>pg_ReadBuf := (put_bytes text (pg_ReadBuf s))(length text := 0)\<rparr>);
         s2 = s1\<lparr>pg_Count := pg_Count s1 + 1\<rparr>
     in if pg_Count s2 < n then ping_say pw s2 else s2)"
proof -
  let ?buf = "(put_bytes text (pg_ReadBuf s))(length text := 0)"
  have b: "bytes_of ?buf 0 (length text) = text"
    by (rule nth_equalityI) (simp_all add: put_bytes_def)
  have z: "takeWhile (\<lambda>b. b \<noteq> 0) (bytes_of ?buf 0 (Suc (length text))) = text"
  proof -
    have "bytes_of ?buf 0 (Suc (length text)) = text @ [0]"
      using bytes_of_append [of ?buf 0 "length text" 1] b by (simp add: bytes_of_def)
    moreover have "takeWhile (\<lambda>b. b \<noteq> 0) (text @ [0]) = text"
      using assms(2) by (subst takeWhile_append2) (auto intro: ccontr)
    ultimately show ?thesis by simp
  qed
  have "length text < 65536" using assms(1) by (simp add: PING_BUF_SIZE_def)
  then have l: "unat (of_nat (length text) :: u16) = length text" by (simp add: unat_of_nat)
  show ?thesis using assms(1) by (simp add: ping_received_def Let_def b z l ping_say_def)
qed

lemma count_less:
  assumes "k < n" "n < 2 ^ 32"
  shows "(of_nat k :: u32) < of_nat n"
  using assms by (simp add: word_less_nat_alt unat_of_nat)

lemma echo_one_round:
  assumes t: "length text < PING_BUF_SIZE" "0 \<notin> set text"
    and k: "pg_Count s = of_nat k" "k < n" "n < 2 ^ 32"
  shows "\<exists>s1. ping_rounds text (of_nat n) pr pw (echo_round text @ rs) s = ping_rounds text (of_nat n) pr pw rs s1 \<and>
    pg_Count s1 = of_nat (Suc k) \<and> pg_Faults s1 = pg_Faults s \<and>
    pg_Events s1 = pg_Events s @ echo_events text n pr pw k"
proof -
  have l: "(of_nat k :: u32) < of_nat n" by (rule count_less [OF k(2,3)])
  have l2: "(1 + of_nat k :: u32) < of_nat n \<longleftrightarrow> Suc k < n"
  proof (cases "Suc k < n")
    case True
    then show ?thesis using count_less [of "Suc k" n] k(3) by simp
  next
    case False
    with k(2) have "n = Suc k" by simp
    then show ?thesis by simp
  qed
  define m1 where "m1 = ping_message text (of_nat n) pr pw (Writer_Back APB_RS_OK (of_nat (length text))) s"
  define m2 where "m2 = ping_message text (of_nat n) pr pw (Reader_Back APB_RS_OK text) m1"
  have 1: "pg_Count m1 = of_nat k" "pg_Faults m1 = pg_Faults s"
    "pg_Events m1 = pg_Events s @ Ping_Sent (of_nat k) (of_nat (length text)) # pr"
    by (simp_all add: m1_def k(1))
  have 2: "pg_Count m2 = of_nat (Suc k)" "pg_Faults m2 = pg_Faults m1"
    "pg_Events m2 = pg_Events m1 @ Ping_Received (of_nat k) (length text) text # (if Suc k < n then pw else [])"
    using l2 by (simp_all add: m2_def echo_received [OF t] Let_def 1 add.commute)
  have "ping_rounds text (of_nat n) pr pw (echo_round text @ rs) s = ping_rounds text (of_nat n) pr pw rs m2"
    using l by (simp add: echo_round_def ping_step_def m1_def m2_def k(1) Let_def)
  then show ?thesis using 1 2 by (auto simp: echo_events_def)
qed

lemma echo_rounds:
  assumes t: "length text < PING_BUF_SIZE" "0 \<notin> set text" and n: "n < 2 ^ 32"
  shows "pg_Count s = of_nat k \<Longrightarrow> k + j = n \<Longrightarrow>
    (let r = ping_rounds text (of_nat n) pr pw (concat (replicate j (echo_round text))) s
     in pg_Count r = of_nat n \<and> pg_Faults r = pg_Faults s \<and>
        pg_Events r = pg_Events s @ concat (map (echo_events text n pr pw) [k..<n]))"
proof (induction j arbitrary: k s)
  case (Suc j)
  obtain s1 where
    s1: "ping_rounds text (of_nat n) pr pw (echo_round text @ concat (replicate j (echo_round text))) s =
      ping_rounds text (of_nat n) pr pw (concat (replicate j (echo_round text))) s1"
    "pg_Count s1 = of_nat (Suc k)" "pg_Faults s1 = pg_Faults s"
    "pg_Events s1 = pg_Events s @ echo_events text n pr pw k"
    using echo_one_round [OF t Suc.prems(1) _ n] Suc.prems(2) by fastforce
  have "[k..<n] = k # [Suc k..<n]" using Suc.prems(2) by (simp add: upt_conv_Cons)
  then show ?case using Suc.IH [OF s1(2)] Suc.prems(2) s1 by (simp add: Let_def)
qed (simp add: Let_def)

section \<open>What goes wrong\<close>

text \<open>A longer text that fills the buffer when it comes back is ended behind it.\<close>

lemma ping_long_text_overruns:
  "length text \<ge> PING_BUF_SIZE \<Longrightarrow> length bs = PING_BUF_SIZE \<Longrightarrow>
     OutOfBounds \<in> set (pg_Faults (ping_received text n pw bs s))"
  by (simp add: ping_received_def Let_def)

text \<open>A UWORD is never negative: an unknown level is the level 65535.\<close>

lemma unknown_level_accepted:
  "0 < n \<Longrightarrow> ParseArgs (Some \<lparr>pa_LogLevel = [0x58], pa_Repeat = n, pa_Msg = text\<rparr>) = Some (65535, n, text)"
  by (simp add: ParseArgs_def APB_GetLogLevel_def)

end
