(* ===== verification/ApbControl.thy ===== *)
theory ApbControl
  imports ClientTools
begin

text \<open>
  clients/ApbControl/apbcontrol.c: asks the running server to quit, to log more or less, or for its
  log, its statistics or its connections, and prints the lines that come back. What the server
  writes to the buffer is an input. A None is a program that waits for ever.
\<close>

section \<open>Levels and lines\<close>

definition CONTROL_LEVELS :: "(u8 \<times> int) list" where
  "CONTROL_LEVELS = [(0x45, 0), (0x49, 5), (0x44, 10), (0x54, 20)]"

definition Control_GetLogLevel :: "u8 list \<Rightarrow> int" where
  "Control_GetLogLevel ll =
     (case map_of CONTROL_LEVELS (case ll of [] \<Rightarrow> 0 | c # _ \<Rightarrow> c) of None \<Rightarrow> -1 | Some l \<Rightarrow> l)"

text \<open>
  \<open>data\<close> is the buffer from the first character on, \<open>len\<close> its length. Text that runs past the end is
  printed as far as the buffer goes. Each line goes to \<open>printf\<close> as the format.
\<close>

function WriteLines :: "u8 list \<Rightarrow> u16 \<Rightarrow> u8 list list \<times> fault list" where
  "WriteLines data len =
     (if len = 0 then ([], [])
      else case data of
        [] \<Rightarrow> ([], [OutOfBounds])
      | c # cs \<Rightarrow>
          (if c = 0 then ([], [])
           else let line = takeWhile (\<lambda>b. b \<noteq> 0) data; rest = dropWhile (\<lambda>b. b \<noteq> 0) data
                in if rest = [] then ([line], [OutOfBounds])
                   else case WriteLines (tl rest) (len - of_nat (length line + 1)) of
                          (ls, fs) \<Rightarrow> (line # ls, fs)))"
  by pat_completeness auto
termination
proof (relation "measure (length \<circ> fst)")
  fix data :: "u8 list" and len c cs line rest
  assume "data = c # cs" "rest = dropWhile (\<lambda>b. b \<noteq> 0) data" "\<not> rest = []"
  then have "length rest \<le> length data" "rest \<noteq> []"
    using length_dropWhile_le [of "\<lambda>b. b \<noteq> 0" data] by blast+
  then have "length (tl rest) < length data" by (cases rest) auto
  then show "((tl rest, len - of_nat (length line + 1)), (data, len)) \<in> measure (length \<circ> fst)" by simp
qed simp

declare WriteLines.simps [simp del]

section \<open>The requests\<close>

definition DATA_BUF_LEN :: u32 where "DATA_BUF_LEN = 1024"

record control_args =
  ka_Quit :: bool
  ka_LogLevel :: "(u32 \<times> u8 list) option"
  ka_Log :: bool
  ka_Stats :: bool
  ka_Conns :: bool

text \<open>
  Whether there is a reply port, the memory pool found at address 0, what becomes of the message,
  whether Ctrl-C is pressed, where the stack is, and the buffer afterwards.
\<close>

record control_answer =
  kn_Port :: bool
  kn_MemPool :: "addr option"
  kn_Server :: server_answer
  kn_Broken :: bool
  kn_Stack :: addr
  kn_Data :: "u8 list"

datatype control_event =
    Ctl_Quit
  | Ctl_Bad_Level
  | Ctl_Setting "u8 list"
  | Ctl_Level u16
  | Ctl_No_Buffer
  | Ctl_Line "u8 list"
  | Ctl_Usage
  | Ctl_Failed u16

type_synonym control_state = "fault list \<times> exec_mem"

definition control_send ::
    "(exec_mem \<Rightarrow> control_wait \<times> fault list \<times> client_request list \<times> exec_mem) \<Rightarrow> control_state \<Rightarrow>
     u16 option \<times> control_state" where
  "control_send send x =
     (case x of (fs, m) \<Rightarrow>
        (case send m of
           (Waits_Forever, gs, posted, m1) \<Rightarrow> (None, gs @ fs, m1)
         | (Result st, gs, posted, m1) \<Rightarrow> (Some st, gs @ fs, m1)))"

text \<open>
  \<open>assigns\<close> tells whether the result is compared with APB_RS_OK or, by mistake, set to it.
\<close>

definition control_fetch ::
    "bool \<Rightarrow> (addr option \<Rightarrow> u16 \<Rightarrow> bool \<Rightarrow> addr option \<Rightarrow> server_answer \<Rightarrow> bool \<Rightarrow> exec_mem \<Rightarrow>
       control_wait \<times> fault list \<times> client_request list \<times> exec_mem) \<Rightarrow> control_answer \<Rightarrow>
     control_state \<Rightarrow> (control_event list \<times> u16) option \<times> control_state" where
  "control_fetch assigns send kn x =
     (case x of (fs, m) \<Rightarrow>
        (case APB_AllocMemInternal None DATA_BUF_LEN m of
           (None, m1) \<Rightarrow> (Some ([Ctl_No_Buffer], APB_RS_FAILED), fs, m1)
         | (Some d, m1) \<Rightarrow>
             (case control_send (send (Some d) (ucast DATA_BUF_LEN) (kn_Port kn) (kn_MemPool kn) (kn_Server kn) (kn_Broken kn))
                     (fs, m1) of
                (None, y) \<Rightarrow> (None, y)
              | (Some st, gs, m2) \<Rightarrow>
                  (let st1 = (if assigns then APB_RS_OK else st);
                       shown = (if assigns then st1 \<noteq> 0 else st1 = APB_RS_OK);
                       (ls, hs) = (if shown then WriteLines (kn_Data kn) (ucast DATA_BUF_LEN) else ([], []))
                   in (Some (map Ctl_Line ls, st1), hs @ gs, APB_FreeMemInternal None (Some d) DATA_BUF_LEN m2)))))"

text \<open>
  The first argument given decides. The level is looked up, but what is sent are the low 16 bits of
  the address of its name. With no argument the result stays APB_RS_FAILED.
\<close>

definition control_run ::
    "control_answer \<Rightarrow> control_args \<Rightarrow> control_state \<Rightarrow> (control_event list \<times> u16) option \<times> control_state" where
  "control_run kn a x =
     (let call = (\<lambda>evs send. case control_send (send (kn_Port kn) (kn_MemPool kn) (kn_Server kn) (kn_Broken kn)) x of
                     (None, y) \<Rightarrow> (None, y) | (Some st, y) \<Rightarrow> (Some (evs, st), y))
      in if ka_Quit a then call [Ctl_Quit] APB_SrvQuit
         else case ka_LogLevel a of
           Some (p, name) \<Rightarrow>
             (if Control_GetLogLevel name < 0 then (Some ([Ctl_Bad_Level], APB_RS_FAILED), x)
              else call [Ctl_Setting name, Ctl_Level (ucast p)] (APB_SrvSetLogLevel (kn_Stack kn)))
         | None \<Rightarrow>
             (if ka_Log a then control_fetch False APB_SrvGetLog kn x
              else if ka_Stats a then control_fetch True APB_SrvGetStats kn x
              else if ka_Conns a then control_fetch True APB_SrvGetConnections kn x
              else (Some ([], APB_RS_FAILED), x)))"

definition control_failed :: "u16 \<Rightarrow> control_event tool_event list" where
  "control_failed st = (if st \<noteq> APB_RS_OK then [Did (Ctl_Failed st)] else [])"

definition control_main ::
    "(tool_part \<Rightarrow> bool) \<Rightarrow> control_answer \<Rightarrow> control_args option \<Rightarrow> control_state \<Rightarrow>
     control_event tool_event list option \<times> control_state" where
  "control_main have_part kn args x =
     (if \<not> have_part T_Dos then (Some [], x)
      else if \<not> have_part T_Library then (Some [Get T_Dos, Give T_Dos], x)
      else let around = (\<lambda>tr. [Get T_Dos, Get T_Library] @ tr @ [Give T_Library, Give T_Dos]) in
        case args of
          None \<Rightarrow> (Some (around (Did Ctl_Usage # control_failed APB_RS_FAILED)), x)
        | Some a \<Rightarrow>
            (case control_run kn a x of
               (None, y) \<Rightarrow> (None, y)
             | (Some (evs, st), y) \<Rightarrow>
                 (Some (around (Get T_Args # map Did evs @ Give T_Args # control_failed st)), y)))"

section \<open>Lines come out as they went in\<close>

definition zero_ended :: "u8 list list \<Rightarrow> u8 list" where
  "zero_ended ls = concat (map (\<lambda>l. l @ [0]) ls)"

lemma zero_ended_simps [simp]:
  "zero_ended [] = []" "zero_ended (l # ls) = l @ 0 # zero_ended ls"
  by (simp_all add: zero_ended_def)

lemma write_lines_end: "WriteLines (0 # cs) len = ([], [])"
  by (simp add: WriteLines.simps [of "0 # cs"])

lemma write_lines_line:
  assumes "l \<noteq> []" "0 \<notin> set l" "len \<noteq> 0"
  shows "WriteLines (l @ 0 # cs) len =
    (case WriteLines cs (len - of_nat (length l + 1)) of (ls, fs) \<Rightarrow> (l # ls, fs))"
proof -
  have "takeWhile (\<lambda>b. b \<noteq> 0) (l @ 0 # cs) = l" "dropWhile (\<lambda>b. b \<noteq> 0) (l @ 0 # cs) = 0 # cs"
    using assms(2) by (auto simp: takeWhile_append dropWhile_append)
  moreover obtain c l' where "l = c # l'" "c \<noteq> 0" using assms(1,2) by (cases l) auto
  ultimately show ?thesis using assms(3) by (subst WriteLines.simps) (simp add: Let_def)
qed

lemma write_lines_zero_ended:
  assumes "\<And>l. l \<in> set ls \<Longrightarrow> l \<noteq> [] \<and> 0 \<notin> set l"
    and "length (zero_ended ls) < unat len"
  shows "WriteLines (zero_ended ls @ 0 # cs) len = (ls, [])"
  using assms
proof (induction ls arbitrary: len)
  case (Cons l ls)
  let ?k = "length l + 1"
  have k: "unat (of_nat ?k :: u16) = ?k"
  proof (rule unat_of_nat_u16)
    have "?k < unat len" using Cons.prems(2) by simp
    then show "?k < 65536" using unat_u16_less by (rule less_trans)
  qed
  then have "unat (len - of_nat ?k) = unat len - ?k"
    using Cons.prems(2) by (subst unat_sub_u16) simp_all
  then have "length (zero_ended ls) < unat (len - of_nat ?k)" using Cons.prems(2) by simp
  then have "WriteLines (zero_ended ls @ 0 # cs) (len - of_nat ?k) = (ls, [])"
    using Cons.IH Cons.prems(1) by simp
  moreover have "len \<noteq> 0" using Cons.prems(2) by auto
  ultimately show ?case
    using write_lines_line [of l len "zero_ended ls @ 0 # cs"] Cons.prems(1) [of l] by simp
qed (simp add: write_lines_end)

text \<open>Asking for statistics or connections never reports a failure of the request.\<close>

lemma failure_hidden:
  assumes "\<not> ka_Quit a" "ka_LogLevel a = None" "\<not> ka_Log a" "ka_Stats a"
    and "fst (APB_AllocMemInternal None DATA_BUF_LEN m) \<noteq> None"
    and "control_main have_part kn (Some a) (fs, m) = (Some tr, y)"
  shows "Did (Ctl_Failed st) \<notin> set tr"
  using assms
  by (auto simp: control_main_def control_run_def control_fetch_def control_failed_def Let_def
      split: if_splits option.splits prod.splits)

end
