(* ===== verification/ApbDate.thy ===== *)
theory ApbDate
  imports ClientTools
begin

text \<open>
  clients/ApbDate/apbdate.c: reads the time, as seconds, from the other side and sets the clock.
  What the server has stored in \<open>time\<close> when the wait ends, and the messages the port then holds,
  are inputs.
\<close>

definition DATE_HANDLER_ID :: u16 where "DATE_HANDLER_ID = 2"

text \<open>None are arguments that cannot be read; the level is "E" when there is none.\<close>

definition Date_GetLogLevel :: "u8 list option \<Rightarrow> int" where
  "Date_GetLogLevel args = (case args of None \<Rightarrow> -1 | Some level \<Rightarrow> APB_GetLogLevel level)"

datatype date_msg = Date_Reader | Date_Other addr

datatype date_event =
    Date_Posted client_request
  | Date_Time u32
  | Date_Replied addr
  | Date_Not_Connected u16
  | Date_Unable
  | Date_Set u32
  | Date_Show u32

record date_answer =
  dn_Addr :: addr
  dn_Server :: server_answer
  dn_Stored :: "u8 list"
  dn_Msgs :: "date_msg list"

text \<open>The variable is zero at first and big-endian; the state of the request is not looked at.\<close>

definition date_value :: "u8 list \<Rightarrow> u32" where
  "date_value bs =
     get32 (put_bytes bs (\<lambda>i. 0)) 0"

fun date_replies :: "date_msg list \<Rightarrow> date_event list" where
  "date_replies [] = []"
| "date_replies (Date_Reader # ms) = date_replies ms"
| "date_replies (Date_Other a # ms) = Date_Replied a # date_replies ms"

definition date_body ::
    "date_answer \<Rightarrow> client_conn \<Rightarrow> client_request \<Rightarrow> client_request \<Rightarrow> date_event list \<times> fault list" where
  "date_body dn conn rd wr =
     (let reader = rd\<lparr>rq_Data := Some (dn_Addr dn), rq_Length := 4, rq_Timeout := 5\<rparr>
      in (map Date_Posted (snd (APB_Read (dn_Server dn) conn reader)) @
          Date_Time (date_value (dn_Stored dn)) # date_replies (dn_Msgs dn), []))"

text \<open>The value of \<open>time\<close> after the session: zero if there was none.\<close>

fun date_time :: "date_event tool_event list \<Rightarrow> u32" where
  "date_time [] = 0"
| "date_time (Did (Date_Time t) # tr) = t"
| "date_time (_ # tr) = date_time tr"

definition date_set :: "(tool_part \<Rightarrow> bool) \<Rightarrow> u32 \<Rightarrow> date_event tool_event list" where
  "date_set have_part t =
     (if t = 0 then [Did Date_Unable]
      else if \<not> have_part T_IORequest then []
      else [Get T_IORequest] @
           (if have_part T_Device then [Get T_Device, Did (Date_Set t), Give T_Device] else []) @
           [Give T_IORequest] @
           (if have_part T_Utility then [Get T_Utility, Did (Date_Show t), Give T_Utility] else []))"

definition date_main ::
    "(tool_part \<Rightarrow> bool) \<Rightarrow> tool_answer \<Rightarrow> date_answer \<Rightarrow> u8 list option \<Rightarrow> fault list \<times> exec_mem \<Rightarrow>
     date_event tool_event list \<times> fault list \<times> exec_mem" where
  "date_main have_part ta dn args x =
     (let level = Date_GetLogLevel args
      in if level < 0 then ([], x)
         else holding (have_part T_Port) T_Port
           (\<lambda>x. let (tr, y) = holding (have_part T_Library) T_Library
                      (tool_context ta (of_int level)
                        (tool_session ta DATE_HANDLER_ID False (\<lambda>st. [Date_Not_Connected st]) (date_body dn))) x
                 in (tr @ date_set have_part (date_time tr), y)) x)"

text \<open>
  The clock is set at most once, to what the server stored, and never to zero; without a session
  it is left alone.
\<close>

definition times_set :: "date_event tool_event list \<Rightarrow> u32 list" where
  "times_set tr = concat (map (\<lambda>e. case e of Did (Date_Set t) \<Rightarrow> [t] | _ \<Rightarrow> []) tr)"

lemma times_set_append [simp]: "times_set (tr @ tr1) = times_set tr @ times_set tr1"
  by (simp add: times_set_def)

lemma times_set_Cons [simp]:
  "times_set (e # tr) = (case e of Did (Date_Set t) \<Rightarrow> [t] | _ \<Rightarrow> []) @ times_set tr" "times_set [] = []"
  by (simp_all add: times_set_def)

lemma date_set_times:
  "times_set (date_set have_part t) = (if t \<noteq> 0 \<and> have_part T_IORequest \<and> have_part T_Device then [t] else [])"
  by (simp add: date_set_def)

lemma posted_times [simp]: "times_set (map Did (map Date_Posted rs @ es)) = times_set (map Did es)"
  by (induction rs) simp_all

lemma replies_times [simp]: "times_set (map Did (date_replies ms)) = []"
  by (induction ms rule: date_replies.induct) simp_all

lemma date_body_times: "times_set (map Did (fst (date_body dn conn rd wr))) = []"
  by (simp add: date_body_def Let_def del: map_append)

end
