(* ===== verification/ApbInput.thy ===== *)
theory ApbInput
  imports ClientTools
begin

text \<open>
  clients/ApbInput/apbinput.c: reads mouse and keyboard events from the other side and hands them to
  the input device. Inputs are the messages of each round, with what the server stored and whether
  the screen could be locked.
\<close>

section \<open>Events\<close>

definition INPUT_HANDLER_ID :: u16 where "INPUT_HANDLER_ID = 3"
definition EV_MOUSEMOVE :: u16 where "EV_MOUSEMOVE = 1"
definition EV_MOUSEBTN :: u16 where "EV_MOUSEBTN = 2"
definition EV_KEYBOARD :: u16 where "EV_KEYBOARD = 4"
definition sizeof_InputMsg :: u16 where "sizeof_InputMsg = 6"

text \<open>The message: its type, then the fields of each kind, all from the third byte on.\<close>

definition im_EventType :: "bytes \<Rightarrow> u16" where "im_EventType ev = get16 ev 0"
definition me_DeltaX :: "bytes \<Rightarrow> u8" where "me_DeltaX ev = ev 2"
definition me_DeltaY :: "bytes \<Rightarrow> u8" where "me_DeltaY ev = ev 3"
definition me_Button :: "bytes \<Rightarrow> u16" where "me_Button ev = get16 ev 2"
definition ke_Key :: "bytes \<Rightarrow> u16" where "ke_Key ev = get16 ev 2"
definition ke_Qualifier :: "bytes \<Rightarrow> u16" where "ke_Qualifier ev = get16 ev 4"

datatype ie_class = IECLASS_NEWPOINTERPOS | IECLASS_RAWMOUSE | IECLASS_RAWKEY

datatype ie_subclass = IESUBCLASS_PIXEL | IESUBCLASS_NONE

text \<open>
  An event of the input device; \<open>ie_Pixel\<close> is the position it points to, or None for a NULL address.
  0x8000 is the qualifier of a relative movement.
\<close>

record input_event =
  ie_Pixel :: "(u16 \<times> u16) option"
  ie_Class :: ie_class
  ie_SubClass :: ie_subclass
  ie_Code :: u16
  ie_Qualifier :: u16

definition IEQUALIFIER_RELATIVEMOUSE :: u16 where "IEQUALIFIER_RELATIVEMOUSE = 0x8000"

definition input_event_of :: "bytes \<Rightarrow> input_event option" where
  "input_event_of ev =
     (if im_EventType ev = EV_MOUSEMOVE
      then Some \<lparr>ie_Pixel = Some (scast (me_DeltaX ev), scast (me_DeltaY ev)), ie_Class = IECLASS_NEWPOINTERPOS,
             ie_SubClass = IESUBCLASS_PIXEL, ie_Code = 0, ie_Qualifier = IEQUALIFIER_RELATIVEMOUSE\<rparr>
      else if im_EventType ev = EV_MOUSEBTN
      then Some \<lparr>ie_Pixel = None, ie_Class = IECLASS_RAWMOUSE, ie_SubClass = IESUBCLASS_NONE,
             ie_Code = me_Button ev, ie_Qualifier = 0\<rparr>
      else if im_EventType ev = EV_KEYBOARD
      then Some \<lparr>ie_Pixel = None, ie_Class = IECLASS_RAWKEY, ie_SubClass = IESUBCLASS_NONE,
             ie_Code = ke_Key ev, ie_Qualifier = ke_Qualifier ev\<rparr>
      else None)"

section \<open>The loop\<close>

datatype input_msg = In_Reader u16 "u8 list" bool | In_Writer u16 | In_Other addr

datatype input_act =
    In_Posted client_request
  | In_DoIO input_event
  | In_Read_Error u16
  | In_Write_Error u16
  | In_Replied addr

record input_state =
  in_Running :: bool
  in_Ev :: bytes
  in_Acts :: "input_act list"

definition input_do :: "input_act list \<Rightarrow> input_state \<Rightarrow> input_state" where
  "input_do acts s = s\<lparr>in_Acts := in_Acts s @ acts\<rparr>"

text \<open>The event goes to the input device while the screen is locked.\<close>

definition input_received :: "bool \<Rightarrow> u8 list \<Rightarrow> input_state \<Rightarrow> input_state" where
  "input_received screen bs s =
     (let ev = put_bytes bs (in_Ev s); s1 = s\<lparr>in_Ev := ev\<rparr>
      in case input_event_of ev of
           None \<Rightarrow> s1
         | Some e \<Rightarrow> if screen then input_do [In_DoIO e] s1 else s1)"

text \<open>
  A failed read or write ends the program; what is still in the port is then left there. After a
  timeout the next read is asked for.
\<close>

fun input_messages :: "input_act list \<Rightarrow> input_msg list \<Rightarrow> input_state \<Rightarrow> input_state" where
  "input_messages post_read [] s = s"
| "input_messages post_read (In_Reader st bs screen # ms) s =
     (if st = APB_RS_OK then input_messages post_read ms (input_do post_read (input_received screen bs s))
      else if st \<noteq> APB_RS_TIMEOUT then (input_do [In_Read_Error st] s)\<lparr>in_Running := False\<rparr>
      else input_messages post_read ms (input_do post_read s))"
| "input_messages post_read (In_Writer st # ms) s =
     (if st \<noteq> APB_RS_OK then (input_do [In_Write_Error st] s)\<lparr>in_Running := False\<rparr>
      else input_messages post_read ms (input_do post_read s))"
| "input_messages post_read (In_Other a # ms) s = input_messages post_read ms (input_do [In_Replied a] s)"

text \<open>A round: the messages in the port, and whether Ctrl-C was pressed.\<close>

fun input_rounds :: "input_act list \<Rightarrow> (input_msg list \<times> bool) list \<Rightarrow> input_state \<Rightarrow> input_state" where
  "input_rounds post_read [] s = s"
| "input_rounds post_read ((ms, break) # rs) s =
     (if \<not> in_Running s then s
      else let s1 = input_messages post_read ms s
           in if break then s1 else input_rounds post_read rs s1)"

record input_answer =
  ip_Ev :: bytes
  ip_EvAddr :: addr
  ip_TypeAddr :: addr
  ip_Server :: server_answer
  ip_Rounds :: "(input_msg list \<times> bool) list"

text \<open>The writer tells the other side which events are wanted: its two bytes are \<open>eventType\<close>.\<close>

definition input_event_types :: u16 where
  "input_event_types = EV_MOUSEMOVE OR EV_MOUSEBTN OR EV_KEYBOARD"

definition input_posts :: "input_answer \<Rightarrow> client_conn \<Rightarrow> client_request \<Rightarrow> client_request \<Rightarrow>
    input_act list \<times> input_act list" where
  "input_posts ip conn rd wr =
     (let reader = rd\<lparr>rq_Data := Some (ip_EvAddr ip), rq_Length := sizeof_InputMsg, rq_Timeout := 5\<rparr>;
          writer = wr\<lparr>rq_Data := Some (ip_TypeAddr ip), rq_Length := 2, rq_Timeout := 5\<rparr>
      in (map In_Posted (snd (APB_Read (ip_Server ip) conn reader)),
          map In_Posted (snd (APB_Write (ip_Server ip) conn writer))))"

definition input_body ::
    "input_answer \<Rightarrow> client_conn \<Rightarrow> client_request \<Rightarrow> client_request \<Rightarrow> input_act list \<times> fault list" where
  "input_body ip conn rd wr =
     (let (post_read, post_write) = input_posts ip conn rd wr;
          s = input_rounds post_read (ip_Rounds ip)
                \<lparr>in_Running = True, in_Ev = ip_Ev ip, in_Acts = post_write\<rparr>
      in (in_Acts s, []))"

definition Input_GetLogLevel :: "u8 list option \<Rightarrow> int" where
  "Input_GetLogLevel args = (case args of None \<Rightarrow> -1 | Some level \<Rightarrow> APB_GetLogLevel level)"

definition input_main ::
    "(tool_part \<Rightarrow> bool) \<Rightarrow> tool_answer \<Rightarrow> input_answer \<Rightarrow> u8 list option \<Rightarrow> fault list \<times> exec_mem \<Rightarrow>
     input_act tool_event list \<times> fault list \<times> exec_mem" where
  "input_main have_part ta ip args x =
     (let level = Input_GetLogLevel args
      in if level < 0 then ([], x)
         else holding (have_part T_Port) T_Port
           (holding (have_part T_IORequest) T_IORequest
             (holding (have_part T_Device) T_Device
               (holding (have_part T_Intuition) T_Intuition
                 (holding (have_part T_Library) T_Library
                   (tool_context ta (of_int level)
                     (tool_session ta INPUT_HANDLER_ID True (\<lambda>st. []) (input_body ip))))))) x)"

section \<open>Events are replayed in order\<close>

lemma input_do_simps [simp]:
  "in_Running (input_do acts s) = in_Running s" "in_Ev (input_do acts s) = in_Ev s"
  "in_Acts (input_do acts s) = in_Acts s @ acts"
  by (simp_all add: input_do_def)

text \<open>Whole messages, and what each of them stands for.\<close>

definition whole_msgs :: "u8 list list \<Rightarrow> input_msg list" where
  "whole_msgs bss = map (\<lambda>bs. In_Reader APB_RS_OK bs True) bss"

definition event_of_msg :: "u8 list \<Rightarrow> input_event list" where
  "event_of_msg bs = (case input_event_of (\<lambda>i. bs ! i) of None \<Rightarrow> [] | Some e \<Rightarrow> [e])"

lemma input_event_of_put:
  assumes "length bs = 6"
  shows "input_event_of (put_bytes bs m) = input_event_of (\<lambda>i. bs ! i)"
  using assms
  by (simp add: input_event_of_def im_EventType_def me_DeltaX_def me_DeltaY_def me_Button_def ke_Key_def
      ke_Qualifier_def get16_def put_bytes_def)

text \<open>What the program does for a message: the event, then the next read.\<close>

definition replay :: "input_act list \<Rightarrow> u8 list list \<Rightarrow> input_act list" where
  "replay post_read bss = concat (map (\<lambda>bs. map In_DoIO (event_of_msg bs) @ post_read) bss)"

lemma replay_simps [simp]:
  "replay pr [] = []" "replay pr (bs # bss) = map In_DoIO (event_of_msg bs) @ pr @ replay pr bss"
  "replay pr (bss @ bss1) = replay pr bss @ replay pr bss1"
  by (simp_all add: replay_def)

lemma input_received_whole:
  assumes "length bs = 6"
  shows "in_Running (input_received True bs s) = in_Running s"
    and "in_Acts (input_received True bs s) = in_Acts s @ map In_DoIO (event_of_msg bs)"
  by (simp_all add: input_received_def input_event_of_put [OF assms] event_of_msg_def Let_def split: option.split)

lemma input_messages_whole:
  assumes "\<forall>bs \<in> set bss. length bs = 6"
  shows "in_Running (input_messages pr (whole_msgs bss) s) = in_Running s \<and>
    in_Acts (input_messages pr (whole_msgs bss) s) = in_Acts s @ replay pr bss"
  using assms
proof (induction bss arbitrary: s)
  case (Cons bs bss)
  then show ?case by (simp add: whole_msgs_def input_received_whole)
qed (simp add: whole_msgs_def)

lemma input_rounds_whole:
  assumes "\<forall>bss \<in> set rounds. \<forall>bs \<in> set bss. length bs = 6" "in_Running s"
  shows "in_Running (input_rounds pr (map (\<lambda>bss. (whole_msgs bss, False)) rounds) s) \<and>
    in_Acts (input_rounds pr (map (\<lambda>bss. (whole_msgs bss, False)) rounds) s) =
      in_Acts s @ replay pr (concat rounds)"
  using assms
proof (induction rounds arbitrary: s)
  case (Cons bss rounds)
  then show ?case using input_messages_whole [of bss pr s] by (simp add: Let_def)
qed simp

end
