(* ===== verification/ClientClaims.thy ===== *)
theory ClientClaims
  imports ApbPing ApbControl ApbDate ApbInput
begin

text \<open>
  What the small clients guarantee: the properties of ApbPing, ApbControl, ApbDate and ApbInput.
\<close>








text \<open>
  The lines a server writes to the buffer, each ended by a zero and a zero behind the last, are
  the lines apbcontrol prints, as long as they fit; nothing behind the buffer is read.
\<close>

theorem control_prints_lines:
  assumes "\<forall>l \<in> set ls. l \<noteq> [] \<and> 0 \<notin> set l" and "length (zero_ended ls) < 1024"
  shows "WriteLines (zero_ended ls @ 0 # cs) (ucast DATA_BUF_LEN) = (ls, [])"
proof -
  have "unat (ucast DATA_BUF_LEN :: u16) = 1024" by (simp add: DATA_BUF_LEN_def)
  then show ?thesis using assms by (intro write_lines_zero_ended) auto
qed

theorem control_prints_lines_witness:
  "WriteLines [72, 105, 0, 79, 75, 0, 0, 0] (ucast DATA_BUF_LEN) = ([[72, 105], [79, 75]], [])"
  using control_prints_lines [of "[[72, 105], [79, 75]]" "[0]"] by simp

end
