(* ===== verification/LibBase.thy ===== *)
theory LibBase
  imports Prelude
begin

text \<open>
  The two shared libraries as AmigaOS sees them (library/lib.c and remote/lib.c): coming up, the
  four vectors Exec calls, and the tables of functions against the offsets the callers are compiled
  with (include/amipiborg_pragmas.h and remote_pragmas.h). Exec's answers are inputs; what is given
  back to it is a list of events.
\<close>

section \<open>amipiborg.library\<close>

datatype lib_event = Lib_Closed addr | Lib_Removed | Lib_Freed addr u32

record lib_base =
  lb_Addr :: addr
  lb_OpenCnt :: u16
  lb_Flags :: u8
  lb_NegSize :: u16
  lb_PosSize :: u16
  lb_SegList :: "addr option"
  lb_Events :: "lib_event list"

record apb_lib = lib_base +
  l_UtilityBase :: "addr option"
  l_DOSBase :: "addr option"

definition LIBF_DELEXP :: u8 where "LIBF_DELEXP = 8"

definition lib_event :: "lib_event list \<Rightarrow> 'a lib_base_scheme \<Rightarrow> 'a lib_base_scheme" where
  "lib_event es b = b\<lparr>lb_Events := lb_Events b @ es\<rparr>"

text \<open>The jump table lies below the base; the block starts with it.\<close>

definition FreeLib :: "'a lib_base_scheme \<Rightarrow> 'a lib_base_scheme" where
  "FreeLib b = lib_event [Lib_Freed (lb_Addr b - unat (lb_NegSize b)) (ucast (lb_NegSize b) + ucast (lb_PosSize b))] b"

text \<open>A utility.library that was opened stays open when there is no dos.library.\<close>

definition InitLib :: "addr option \<Rightarrow> addr option \<Rightarrow> addr option \<Rightarrow> apb_lib \<Rightarrow> bool \<times> apb_lib" where
  "InitLib utility dos segList b =
     (let b1 = b\<lparr>lb_SegList := segList, l_UtilityBase := utility\<rparr>
      in if utility = None then (False, FreeLib b1)
         else let b2 = b1\<lparr>l_DOSBase := dos\<rparr>
              in if dos = None then (False, FreeLib b2) else (True, b2))"

definition LibOpen :: "'a lib_base_scheme \<Rightarrow> 'a lib_base_scheme" where
  "LibOpen b = b\<lparr>lb_OpenCnt := lb_OpenCnt b + 1, lb_Flags := lb_Flags b AND NOT LIBF_DELEXP\<rparr>"

definition close_base :: "addr option \<Rightarrow> lib_event list" where
  "close_base p = (case p of None \<Rightarrow> [] | Some a \<Rightarrow> [Lib_Closed a])"

text \<open>The segment list is the answer that lets Exec unload the code.\<close>

definition LibExpunge :: "apb_lib \<Rightarrow> addr option \<times> apb_lib" where
  "LibExpunge b =
     (if lb_OpenCnt b = 0
      then (lb_SegList b,
            FreeLib (lib_event (close_base (l_UtilityBase b) @ close_base (l_DOSBase b) @ [Lib_Removed]) b))
      else (None, b\<lparr>lb_Flags := lb_Flags b OR LIBF_DELEXP\<rparr>))"

definition LibClose :: "apb_lib \<Rightarrow> addr option \<times> apb_lib" where
  "LibClose b =
     (let b1 = b\<lparr>lb_OpenCnt := lb_OpenCnt b - 1\<rparr>
      in if lb_OpenCnt b1 = 0 \<and> lb_Flags b1 AND LIBF_DELEXP \<noteq> 0 then LibExpunge b1 else (None, b1))"

section \<open>The library of a remote\<close>

text \<open>There are no hooks for the serial remote. The block is not given back.\<close>

definition Remote_InitLib :: "addr option \<Rightarrow> lib_base \<Rightarrow> bool \<times> lib_base" where
  "Remote_InitLib segList b = (True, b\<lparr>lb_SegList := segList\<rparr>)"

definition Remote_LibOpen :: "lib_base \<Rightarrow> lib_base" where
  "Remote_LibOpen b = b\<lparr>lb_OpenCnt := lb_OpenCnt b + 1, lb_Flags := lb_Flags b AND NOT LIBF_DELEXP\<rparr>"

definition Remote_LibExpunge :: "lib_base \<Rightarrow> addr option \<times> lib_base" where
  "Remote_LibExpunge b =
     (if lb_OpenCnt b = 0 then (lb_SegList b, lib_event [Lib_Removed] b)
      else (None, b\<lparr>lb_Flags := lb_Flags b OR LIBF_DELEXP\<rparr>))"

definition Remote_LibClose :: "lib_base \<Rightarrow> addr option \<times> lib_base" where
  "Remote_LibClose b =
     (let b1 = b\<lparr>lb_OpenCnt := lb_OpenCnt b - 1\<rparr>
      in if lb_OpenCnt b1 = 0 \<and> lb_Flags b1 AND LIBF_DELEXP \<noteq> 0 then Remote_LibExpunge b1 else (None, b1))"

section \<open>Open counts\<close>

text \<open>
  What Exec may rely on. A library is gone once it was removed; Exec does not call it any more.
  The abstract machine counts the openers and remembers whether the library is to go after the last
  of them.
\<close>

datatype lib_call = Call_Open | Call_Close | Call_Expunge

definition lib_gone :: "'a lib_base_scheme \<Rightarrow> bool" where
  "lib_gone b \<longleftrightarrow> Lib_Removed \<in> set (lb_Events b)"

definition lib_wanted_gone :: "'a lib_base_scheme \<Rightarrow> bool" where
  "lib_wanted_gone b \<longleftrightarrow> lb_Flags b AND LIBF_DELEXP \<noteq> 0"

datatype lib_life = Lib_Alive nat bool | Lib_Gone

fun life_call :: "lib_call \<Rightarrow> lib_life \<Rightarrow> lib_life" where
  "life_call c Lib_Gone = Lib_Gone"
| "life_call Call_Open (Lib_Alive n p) = Lib_Alive (n + 1) False"
| "life_call Call_Close (Lib_Alive n p) = (if n = 1 \<and> p then Lib_Gone else Lib_Alive (n - 1) p)"
| "life_call Call_Expunge (Lib_Alive n p) = (if n = 0 then Lib_Gone else Lib_Alive n True)"

text \<open>Every close belongs to an open, and the openers fit the counter.\<close>

fun life_legal :: "lib_call list \<Rightarrow> lib_life \<Rightarrow> bool" where
  "life_legal [] l = True"
| "life_legal (c # cs) l =
     ((case l of Lib_Gone \<Rightarrow> True
       | Lib_Alive n p \<Rightarrow> (case c of Call_Open \<Rightarrow> n < 65535 | Call_Close \<Rightarrow> 0 < n | Call_Expunge \<Rightarrow> True)) \<and>
      life_legal cs (life_call c l))"

locale shared_library =
  fixes opens closes expunges :: "'b \<Rightarrow> 'b"
    and count :: "'b \<Rightarrow> u16"
    and wanted gone :: "'b \<Rightarrow> bool"
  assumes opens: "count (opens b) = count b + 1" "\<not> wanted (opens b)" "gone (opens b) = gone b"
    and closes: "count (closes b) = count b - 1" "gone (closes b) \<longleftrightarrow> gone b \<or> count b = 1 \<and> wanted b"
      "\<not> gone (closes b) \<Longrightarrow> wanted (closes b) = wanted b"
    and expunges: "gone (expunges b) \<longleftrightarrow> gone b \<or> count b = 0" "count (expunges b) = count b"
      "count b \<noteq> 0 \<Longrightarrow> wanted (expunges b)"
begin

definition call :: "lib_call \<Rightarrow> 'b \<Rightarrow> 'b" where
  "call c b = (if gone b then b else case c of Call_Open \<Rightarrow> opens b | Call_Close \<Rightarrow> closes b | Call_Expunge \<Rightarrow> expunges b)"

definition life :: "'b \<Rightarrow> lib_life" where
  "life b = (if gone b then Lib_Gone else Lib_Alive (unat (count b)) (wanted b))"

lemma call_refines:
  assumes "life_legal [c] (life b)"
  shows "life (call c b) = life_call c (life b)"
proof (cases "gone b")
  case True
  then show ?thesis by (simp add: call_def life_def)
next
  case alive: False
  have eq: "count b = 0 \<longleftrightarrow> unat (count b) = 0" "count b = 1 \<longleftrightarrow> unat (count b) = 1"
    by (auto simp: word_unat_eq_iff)
  show ?thesis
  proof (cases c)
    case Call_Open
    then have "unat (count b + 1) = Suc (unat (count b))"
      using assms alive by (simp add: life_def unat_Suc_u16)
    then show ?thesis using alive Call_Open by (simp add: call_def life_def opens)
  next
    case Call_Close
    then have "unat (count b - 1) = unat (count b) - 1"
      using assms alive by (intro unat_pred_u16) (simp add: life_def)
    then show ?thesis using alive Call_Close eq by (auto simp: call_def life_def closes)
  next
    case Call_Expunge
    then show ?thesis using alive eq by (auto simp: call_def life_def expunges)
  qed
qed

lemma calls_refine:
  "life_legal cs (life b) \<Longrightarrow> life (fold call cs b) = fold life_call cs (life b)"
proof (induction cs arbitrary: b)
  case (Cons c cs)
  have "life_legal [c] (life b)" using Cons.prems by simp
  from call_refines [OF this] Cons show ?case by simp
qed simp

end

text \<open>How the two libraries answer Exec's calls.\<close>

lemma delexp_bits [simp]:
  "(w AND NOT LIBF_DELEXP) AND LIBF_DELEXP = 0" "(w OR LIBF_DELEXP) AND LIBF_DELEXP \<noteq> 0"
  "LIBF_DELEXP \<noteq> 0"
  by (simp_all add: LIBF_DELEXP_def bit.conj_disj_distrib2 word_bw_assocs)

lemma lib_event_fields [simp]:
  "lb_OpenCnt (lib_event es b) = lb_OpenCnt b" "lb_Flags (lib_event es b) = lb_Flags b"
  "lb_Events (lib_event es b) = lb_Events b @ es"
  by (simp_all add: lib_event_def)

lemma close_base_stays [simp]: "Lib_Removed \<notin> set (close_base p)"
  by (simp add: close_base_def split: option.split)

interpretation apb: shared_library LibOpen "snd \<circ> LibClose" "snd \<circ> LibExpunge" lb_OpenCnt lib_wanted_gone lib_gone
  by unfold_locales
    (auto simp: LibOpen_def LibClose_def LibExpunge_def FreeLib_def lib_wanted_gone_def lib_gone_def Let_def)

interpretation rem: shared_library Remote_LibOpen "snd \<circ> Remote_LibClose" "snd \<circ> Remote_LibExpunge"
    lb_OpenCnt lib_wanted_gone lib_gone
  by unfold_locales
    (auto simp: Remote_LibOpen_def Remote_LibClose_def Remote_LibExpunge_def lib_wanted_gone_def lib_gone_def Let_def)

section \<open>Runs of calls\<close>

definition apb_lib_call :: "lib_call \<Rightarrow> apb_lib \<Rightarrow> apb_lib" where
  "apb_lib_call c b =
     (if lib_gone b then b
      else case c of Call_Open \<Rightarrow> LibOpen b | Call_Close \<Rightarrow> snd (LibClose b) | Call_Expunge \<Rightarrow> snd (LibExpunge b))"

definition rem_lib_call :: "lib_call \<Rightarrow> lib_base \<Rightarrow> lib_base" where
  "rem_lib_call c b =
     (if lib_gone b then b
      else case c of Call_Open \<Rightarrow> Remote_LibOpen b | Call_Close \<Rightarrow> snd (Remote_LibClose b)
        | Call_Expunge \<Rightarrow> snd (Remote_LibExpunge b))"

lemma apb_lib_call_eq: "apb_lib_call = apb.call"
  by (simp add: fun_eq_iff apb_lib_call_def apb.call_def split: lib_call.split)

lemma rem_lib_call_eq: "rem_lib_call = rem.call"
  by (simp add: fun_eq_iff rem_lib_call_def rem.call_def split: lib_call.split)

definition lib_life :: "'a lib_base_scheme \<Rightarrow> lib_life" where
  "lib_life b = (if lib_gone b then Lib_Gone else Lib_Alive (unat (lb_OpenCnt b)) (lib_wanted_gone b))"

lemma lib_life_eq: "lib_life = apb.life" "lib_life = rem.life"
  by (simp_all add: fun_eq_iff lib_life_def apb.life_def rem.life_def)

text \<open>What the library gave back so far: nothing while it is there, everything once it is gone.\<close>

definition lib_books :: "apb_lib \<Rightarrow> bool" where
  "lib_books b \<longleftrightarrow>
     lb_Events b = [] \<or>
     lb_Events b = close_base (l_UtilityBase b) @ close_base (l_DOSBase b) @
       [Lib_Removed, Lib_Freed (lb_Addr b - unat (lb_NegSize b)) (ucast (lb_NegSize b) + ucast (lb_PosSize b))]"

definition same_lib :: "apb_lib \<Rightarrow> apb_lib \<Rightarrow> bool" where
  "same_lib b c \<longleftrightarrow> lb_Addr b = lb_Addr c \<and> lb_NegSize b = lb_NegSize c \<and> lb_PosSize b = lb_PosSize c \<and>
     l_UtilityBase b = l_UtilityBase c \<and> l_DOSBase b = l_DOSBase c"

lemma books_alive: "lib_books b \<Longrightarrow> \<not> lib_gone b \<Longrightarrow> lb_Events b = []"
  by (auto simp: lib_books_def lib_gone_def)

lemma apb_call_books:
  assumes "lib_books b"
  shows "lib_books (apb_lib_call c b)" "same_lib (apb_lib_call c b) b"
proof -
  have "lib_books (apb_lib_call c b) \<and> same_lib (apb_lib_call c b) b"
  proof (cases "lib_gone b")
    case False
    from books_alive [OF assms this] False show ?thesis
      by (cases c)
        (auto simp: apb_lib_call_def lib_books_def same_lib_def LibOpen_def LibClose_def LibExpunge_def FreeLib_def
          lib_event_def Let_def)
  qed (simp add: apb_lib_call_def assms same_lib_def)
  then show "lib_books (apb_lib_call c b)" "same_lib (apb_lib_call c b) b" by simp_all
qed

lemma apb_calls_books:
  "lib_books b \<Longrightarrow> lib_books (fold apb_lib_call cs b) \<and> same_lib (fold apb_lib_call cs b) b"
proof (induction cs arbitrary: b)
  case (Cons c cs)
  from Cons.IH [OF apb_call_books(1) [OF Cons.prems]] apb_call_books(2) [OF Cons.prems, of c]
  show ?case by (simp add: same_lib_def)
qed (simp add: same_lib_def)

section \<open>The tables of functions\<close>

text \<open>
  Entry \<open>i\<close> of the table becomes the vector at \<open>6 * (i + 1)\<close> below the base. The callers jump to the
  offset of their \<open>libcall\<close> pragma.
\<close>

definition APB_FuncTable :: "string list" where
  "APB_FuncTable =
     [''_LibOpen'', ''_LibClose'', ''_LibExpunge'', ''_ExtFuncLib'',
      ''APB_CreateContext'', ''APB_FreeContext'',
      ''APB_AllocConnection'', ''APB_FreeConnection'',
      ''APB_OpenConnection'', ''APB_CloseConnection'', ''APB_ConnectionState'',
      ''APB_AllocRequest'', ''APB_FreeRequest'',
      ''APB_Read'', ''APB_Write'', ''APB_Abort'',
      ''APB_SrvQuit'', ''APB_SrvSetLogLevel'',
      ''APB_AllocMem'', ''APB_FreeMem'',
      ''APB_RegisterStat'', ''APB_IncrementStat'', ''APB_GetStat'',
      ''APB_SetLogLevel'', ''APB_LogArgArray'', ''APB_ShouldLog'',
      ''APB_TypeRegistered'', ''APB_RegisterObjectType'', ''APB_AllocObject'', ''APB_FreeObject'']"

definition APB_pragmas :: "(string \<times> nat) list" where
  "APB_pragmas =
     [(''APB_CreateContext'', 0x1e), (''APB_FreeContext'', 0x24), (''APB_AllocConnection'', 0x2a),
      (''APB_FreeConnection'', 0x30), (''APB_OpenConnection'', 0x36), (''APB_CloseConnection'', 0x3c),
      (''APB_ConnectionState'', 0x42), (''APB_AllocRequest'', 0x48), (''APB_FreeRequest'', 0x4e),
      (''APB_Read'', 0x54), (''APB_Write'', 0x5a), (''APB_Abort'', 0x60), (''APB_SrvQuit'', 0x66),
      (''APB_SrvSetLogLevel'', 0x6c), (''APB_AllocMem'', 0x72), (''APB_FreeMem'', 0x78),
      (''APB_RegisterStat'', 0x7e), (''APB_IncrementStat'', 0x84), (''APB_GetStat'', 0x8a),
      (''APB_SetLogLevel'', 0x90), (''APB_LogArgArray'', 0x96), (''APB_ShouldLog'', 0x9c),
      (''APB_TypeRegistered'', 0xa2), (''APB_RegisterObjectType'', 0xa8), (''APB_AllocObject'', 0xae),
      (''APB_FreeObject'', 0xb4)]"

definition REM_FuncTable :: "string list" where
  "REM_FuncTable =
     [''_LibOpen'', ''_LibClose'', ''_LibExpunge'', ''ExtFuncLib'',
      ''REM_CreateRemote'', ''REM_DestroyRemote'', ''REM_GetArgTemplate'', ''REM_ConfigureRemote'',
      ''REM_OpenRemote'', ''REM_CloseRemote'', ''REM_GetSignalBits'', ''REM_HandleSignal'', ''REM_CanRead'',
      ''REM_Read'', ''REM_BytesRead'', ''REM_CanWrite'', ''REM_Write'']"

definition REM_pragmas :: "(string \<times> nat) list" where
  "REM_pragmas =
     [(''REM_CreateRemote'', 0x1e), (''REM_DestroyRemote'', 0x24), (''REM_GetArgTemplate'', 0x2a),
      (''REM_ConfigureRemote'', 0x30), (''REM_OpenRemote'', 0x36), (''REM_CloseRemote'', 0x3c),
      (''REM_GetSignalBits'', 0x42), (''REM_HandleSignal'', 0x48), (''REM_CanRead'', 0x4e), (''REM_Read'', 0x54),
      (''REM_BytesRead'', 0x5a), (''REM_CanWrite'', 0x60), (''REM_Write'', 0x66)]"

definition vector_at :: "string list \<Rightarrow> nat \<Rightarrow> string option" where
  "vector_at table off = (if off mod 6 = 0 \<and> 0 < off \<and> off div 6 - 1 < length table then Some (table ! (off div 6 - 1)) else None)"

text \<open>The first entry a caller may use lies behind Exec's four vectors.\<close>

definition caller_table :: "string list \<Rightarrow> (string \<times> nat) list" where
  "caller_table table = zip (drop 4 table) (map (\<lambda>i. 6 * (i + 5)) [0..<length table - 4])"

lemma pragmas_are_table: "APB_pragmas = caller_table APB_FuncTable" "REM_pragmas = caller_table REM_FuncTable"
  by code_simp+

lemma caller_table_vector:
  assumes "(f, off) \<in> set (caller_table table)"
  shows "vector_at table off = Some f"
proof -
  obtain i where "i < length table - 4" "f = drop 4 table ! i" "off = 6 * (i + 5)"
    using assms by (auto simp: caller_table_def set_zip)
  then have "off mod 6 = 0" "0 < off" "off div 6 - 1 = 4 + i" "4 + i < length table" "f = table ! (4 + i)"
    by simp_all
  then show ?thesis unfolding vector_at_def by simp
qed

text \<open>Three functions clients are offered in the prototypes are in neither table.\<close>

lemma control_calls_missing:
  "''APB_SrvGetLog'' \<notin> set APB_FuncTable \<and> ''APB_SrvGetConnections'' \<notin> set APB_FuncTable \<and>
   ''APB_SrvGetStats'' \<notin> set APB_FuncTable"
  by (simp add: APB_FuncTable_def)

text \<open>The counter has 16 bits: with 65536 openers the library looks unused and an expunge frees it.\<close>

lemma fold_opens: "\<not> lib_gone b \<Longrightarrow> lb_OpenCnt (fold apb_lib_call (replicate n Call_Open) b) = lb_OpenCnt b + of_nat n \<and>
    \<not> lib_gone (fold apb_lib_call (replicate n Call_Open) b)"
proof (induction n arbitrary: b)
  case (Suc n)
  have "\<not> lib_gone (LibOpen b)" using Suc.prems by (simp add: LibOpen_def lib_gone_def)
  from Suc.IH [OF this] Suc.prems show ?case by (simp add: apb_lib_call_def LibOpen_def)
qed simp

lemma open_count_wraps:
  assumes "\<not> lib_gone b" "lb_OpenCnt b = 0"
  shows "lib_gone (fold apb_lib_call (replicate 65536 Call_Open @ [Call_Expunge]) b)"
proof -
  have z: "(of_nat 65536 :: u16) = 0" by simp
  define b1 where "b1 = fold apb_lib_call (replicate 65536 Call_Open) b"
  have "lb_OpenCnt b1 = 0" "\<not> lib_gone b1"
    using fold_opens [OF assms(1), of 65536] assms(2) z unfolding b1_def [symmetric] by auto
  then have "lib_gone (apb_lib_call Call_Expunge b1)"
    by (simp add: apb_lib_call_def LibExpunge_def FreeLib_def lib_gone_def)
  then show ?thesis unfolding fold_append comp_apply b1_def [symmetric] by simp
qed

section \<open>The life of the library\<close>

text \<open>
  C26: whatever Exec asks of amipiborg.library, as long as each close belongs to an open and the
  openers fit the counter, it goes exactly when nobody has it open and an expunge was asked for
  after the last open; then it gives back its two libraries, itself and its memory, once, and
  before that nothing.
\<close>

theorem library_goes_when_unused:
  assumes "InitLib (Some u) (Some d) seg b0 = (True, b)"
    and "lb_OpenCnt b0 = 0" and "lb_Flags b0 AND LIBF_DELEXP = 0" and "lb_Events b0 = []"
    and "life_legal cs (Lib_Alive 0 False)"
  defines "r \<equiv> fold apb_lib_call cs b"
  shows "lib_life r = fold life_call cs (Lib_Alive 0 False) \<and>
    lb_Events r =
      (if fold life_call cs (Lib_Alive 0 False) = Lib_Gone
       then [Lib_Closed u, Lib_Closed d, Lib_Removed,
             Lib_Freed (lb_Addr b0 - unat (lb_NegSize b0)) (ucast (lb_NegSize b0) + ucast (lb_PosSize b0))]
       else [])"
proof -
  have b: "b = b0\<lparr>lb_SegList := seg, l_UtilityBase := Some u, l_DOSBase := Some d\<rparr>"
    using assms(1) by (simp add: InitLib_def Let_def)
  have l: "lib_life b = Lib_Alive 0 False"
    using assms(2-4) by (simp add: b lib_life_def lib_gone_def lib_wanted_gone_def)
  then have life: "lib_life r = fold life_call cs (Lib_Alive 0 False)"
    using apb.calls_refine [of cs b] assms(5) unfolding r_def lib_life_eq(1) apb_lib_call_eq by metis
  have bk: "lib_books r" "same_lib r b"
    using apb_calls_books [of b cs] assms(4) by (simp_all add: r_def lib_books_def b)
  have "lb_Events r = [] \<longleftrightarrow> \<not> lib_gone r" using bk(1) by (auto simp: lib_books_def lib_gone_def)
  moreover have "lib_gone r \<longleftrightarrow> lib_life r = Lib_Gone" by (simp add: lib_life_def)
  ultimately show ?thesis
    using bk life by (auto simp: lib_books_def same_lib_def b close_base_def)
qed

definition demo_lib :: apb_lib where
  "demo_lib = \<lparr>lb_Addr = 5000, lb_OpenCnt = 0, lb_Flags = 6, lb_NegSize = 180, lb_PosSize = 52, lb_SegList = None,
     lb_Events = [], l_UtilityBase = None, l_DOSBase = None\<rparr>"

text \<open>Opened twice, asked to go, closed twice: it goes with the second close.\<close>

theorem library_goes_when_unused_witness:
  "lb_Events (fold apb_lib_call [Call_Open, Call_Open, Call_Expunge, Call_Close]
      (snd (InitLib (Some 70) (Some 80) (Some 90) demo_lib))) = [] \<and>
   lb_Events (fold apb_lib_call [Call_Open, Call_Open, Call_Expunge, Call_Close, Call_Close]
      (snd (InitLib (Some 70) (Some 80) (Some 90) demo_lib))) =
     [Lib_Closed 70, Lib_Closed 80, Lib_Removed, Lib_Freed 4820 232]"
proof -
  let ?b = "snd (InitLib (Some 70) (Some 80) (Some 90) demo_lib)"
  have i: "InitLib (Some 70) (Some 80) (Some 90) demo_lib = (True, ?b)" by (simp add: InitLib_def Let_def)
  have d: "lb_OpenCnt demo_lib = 0" "lb_Flags demo_lib AND LIBF_DELEXP = 0" "lb_Events demo_lib = []"
    by (simp_all add: demo_lib_def LIBF_DELEXP_def)
  show ?thesis
    using library_goes_when_unused [OF i d, of "[Call_Open, Call_Open, Call_Expunge, Call_Close]"]
      library_goes_when_unused [OF i d, of "[Call_Open, Call_Open, Call_Expunge, Call_Close, Call_Close]"]
    by (simp add: demo_lib_def)
qed

end
