(* ===== verification/ApbLib.thy ===== *)
theory ApbLib
  imports Client
begin

text \<open>
  The link library of the clients (lib/apblib.c) and the log functions of amipiborg.library that
  take a context (library/log.c): a line is formatted only for a level the logger shows.
\<close>

definition APB_ShouldLog :: "apb_context \<Rightarrow> u16 \<Rightarrow> bool" where
  "APB_ShouldLog ctx level = (case ctx_Logger ctx of None \<Rightarrow> False | Some (a, l) \<Rightarrow> APB_ShouldLogInternal l level)"

text \<open>A context that was made has a logger.\<close>

definition APB_LogArgArray ::
    "(u32 \<Rightarrow> u8 list) \<Rightarrow> u8 list \<Rightarrow> u16 \<Rightarrow> u8 list \<Rightarrow> u16 \<Rightarrow> u8 list \<Rightarrow> (nat \<Rightarrow> u32) \<Rightarrow> apb_context \<Rightarrow> apb_context" where
  "APB_LogArgArray strs file line func level fmt args ctx =
     ctx\<lparr>ctx_Logger :=
       map_option (\<lambda>(a, l). (a, APB_LogArgArrayInternal strs file line func level fmt args l)) (ctx_Logger ctx)\<rparr>"

definition APB_Log ::
    "(u32 \<Rightarrow> u8 list) \<Rightarrow> u8 list \<Rightarrow> u16 \<Rightarrow> u8 list \<Rightarrow> u16 \<Rightarrow> u8 list \<Rightarrow> (nat \<Rightarrow> u32) \<Rightarrow> apb_context \<Rightarrow> apb_context" where
  "APB_Log strs file line func level fmt args ctx =
     (if APB_ShouldLog ctx level then APB_LogArgArray strs file line func level fmt args ctx else ctx)"

text \<open>The clients have their own copy of the level table.\<close>

definition Lib_GetLogLevel :: "u8 list \<Rightarrow> int" where
  "Lib_GetLogLevel levelName =
     (let c = (case levelName of [] \<Rightarrow> 0 | x # _ \<Rightarrow> x)
      in if c \<in> {0x45, 0x65} then uint LOG_ERROR
         else if c \<in> {0x49, 0x69} then uint LOG_INFO
         else if c \<in> {0x44, 0x64} then uint LOG_DEBUG
         else if c \<in> {0x54, 0x74} then uint LOG_TRACE
         else -1)"

lemma level_tables_agree: "Lib_GetLogLevel = APB_GetLogLevel"
  by (simp add: fun_eq_iff Lib_GetLogLevel_def APB_GetLogLevel_def Let_def)

text \<open>Nothing is written for a level above the logger's, or without an output.\<close>

lemma log_filtered:
  assumes "ctx_Logger ctx = Some (a, l)" and "l_Level l < level \<or> \<not> l_Output l"
  shows "APB_Log strs file line func level fmt args ctx = ctx"
  using assms by (auto simp: APB_Log_def APB_ShouldLog_def APB_ShouldLogInternal_def)

end
