(* ===== verification/Spec2Isabelle.thy ===== *)
theory Spec2Isabelle
  imports ConnectionClaims LogProps FsClaims ServerLife ClientClaims LibBase ApbLib
begin

text \<open>
  A verification library of AmiPiBorg, Amiga side: the server that pairs an Amiga with a Raspberry Pi
  over a serial line, the shared libraries it and its clients are built on, and the clients in the
  repository.

  \<^bold>\<open>The program.\<close> The server (src/server) opens a remote, the driver of the line
  (src/remote/serialremote.c, a shared library with an interface any transport can have), says hello
  and then waits for three kinds of events: the timer, requests that clients put to its message port,
  and bytes from the line. Requests go to a connection (connection.c), which turns them into packets
  it allocates from the packet writer (packetwriter.c); the writer lays packets out in buffers of
  4096 bytes, seals them with a checksum (protocol.c) and hands whole buffers to the remote. Bytes
  from the line come in buffers to the packet reader (packetreader.c), which finds the packets in
  them; the server hands each to its connection, which gives the data to the requests that wait
  for it. All of them live on amipiborg.library (src/library): memory and an object pool, a log,
  counters, and the calls a client makes to the server. The clients (src/clients) are ApbPing,
  ApbControl, ApbDate, ApbInput and ApbFs, a file system whose files are on the other side.

  \<^bold>\<open>The model.\<close> A struct of the source is a record, an enum a datatype or the numbers the
  source gives it, a machine integer a word of its width; pointers are addresses, and each kind of
  object is a heap, a total function from addresses to records. Exec lists are lists of addresses.
  The state of the server is one record that grows with the layers: pool (the object pool and
  the memory below it), buf_state (data buffers), rem_state (the remote), writer_state, reader_state,
  cnn_state (connections and requests) and server_state. An operation of a layer works on every
  extension of its record, and theory Frames shows that it leaves the extension alone. ApbFs is a
  process of its own, with a state fs_state over a pool of its own; the small clients are functions
  from what the outside does to what the program does.

  Undefined behaviour of C is written down, not excluded: an access through NULL or behind a buffer, a
  block given back twice or with the wrong size is added to the list \<open>faults\<close> of the state, and a
  loop that does not end is the value None of an option. So "no fault" and "returns" are things
  that are proved. What is not in the repository (Exec, the serial, timer and input devices, DOS,
  the other side of the line, the clients) is an argument: the answer it gives, or the messages that
  have come. What the program hands to it is a trace in the state: bytes written, messages replied,
  timer requests, files and log lines.

  \<^bold>\<open>The theories\<close>, with the files of src they model.
  \<^item> Prelude: words, memory as bytes, addresses, faults, and the lemmas and collections all share.
    AmiPiBorg: include/amipiborg.h.
  \<^item> Memory: library/memory.c over an allocator that answers as it likes. ObjectPool:
    library/objectpool.c. The contract of a pool of objects is the locale \<open>object_store\<close>; it is
    interpreted on the pool's own allocation and release, and everything above uses the facts
    of that interpretation: an object handed out is new, and giving back an object that is out is no fault.
  \<^item> Buffer: server/buffer.c, buffer.h, objtype.h. Protocol: server/protocol.c and protocol.h.
    SerialRemote: remote/serialremote.c. WireFormat: what a packet is, in memory, on the line and as a value.
  \<^item> PacketWriter: server/packetwriter.c. WriterCorrect: its invariant (packets tile the buffers,
    counters count, what is sent is behind what is written) and the locale \<open>packet_channel\<close>: a
    user of the writer never stops it and only whole valid packets reach the device.
  \<^item> PacketReader: server/packetreader.c. ReaderCorrect and ReaderStream: the unread bytes of the
    chain of buffers are one stream, and the locale \<open>packet_decoder\<close>: the law for one read gives the
    law for all. ReaderProps: what the reader finds, refuses and survives, and where it hangs.
  \<^item> Delivery: the writer as a queue of letters, the writer and the reader back to back, and the
    locale \<open>letter_channel\<close> (a packet channel in which nothing that waits is lost or overtaken).
  \<^item> Connections: server/connection.c. Server: server/server.c without its beginning and end, which
    are ServerLife, with config.c and main.c. Frames, Ledger (every request is accounted for), ServerWalk
    (the locale \<open>packet_relation\<close>: what holds of the handling of one packet holds of the loop
    over them), ServerRuns, ServerMachine (the main loop against an inductive state machine), Sending
    and Silence (a line without a word) are the lemmas; ConnectionProps, ServerChannel (the server is a
    letter channel), ServerProps and ConnectionClaims end in the properties.
  \<^item> Log and LogProps: library/log.c. Stats: library/stats.c. LibBase: library/lib.c, remote/lib.c and
    the pragmas of include; both libraries are interpretations of the locale \<open>shared_library\<close>.
    Client: library/context.c, connection.c, request.c, io.c, control.c. ApbLib: lib/apblib.c.
  \<^item> ClientTools, ApbPing, ApbControl, ApbDate, ApbInput: the small clients; ClientClaims: their properties.
  \<^item> FsState (clients/ApbFs/apbfs.h, request.c and the queues of device.c), FsVolume and FsHandler
    (volume.c), FsDevice and FsLife (device.c, apbfs.c): the file system client. FsQueue, FsPackets,
    FsResponses, FsWrite and FsOrder follow a packet of DOS through it; FsDemo has a concrete device;
    FsClaims the properties.

  \<^bold>\<open>What is shown.\<close> For the pool: no sequence of calls hands an object out twice, limits
  are kept, an idle pool gives all its memory back. For the line: a sealed packet verifies, a changed
  word is found, the writer is a queue and the device gets whole valid packets in its order, the
  reader queues every packet of a stream however it is cut, accepts nothing else, and finds its way
  after garbage; letters put in at one end come out at the other. For the server: every step returns
  while no packets wait, whatever clients ask for; each request is answered at most as often as it
  was sent; the main loop refines a small state machine; it gives up connecting after five attempts;
  requests time out when they should; packets go to requests in order. For the file system client:
  every packet DOS sends is answered once or waits, a response answers the packet it belongs to,
  data is cut into the chunks and joined as the reference functions say. For the libraries: a log line is
  the rendered format, a library leaves memory exactly when the last user has closed it. Beside
  these stand the theorems that show where the code does not do what it means to: a wrong padding
  flag hangs the reader, a silent line is never noticed, a resend never happens, a disconnect forgets
  requests, ACTION_END is answered twice.

  \<^bold>\<open>Bounds and loops.\<close> A loop of the source is a function with a termination proof wherever it
  ends for every state; the loops that need not end (the checksum over an odd length, the chain of
  InBuffers, the packets of a buffer, the received packets) are \<^theory_text>\<open>partial_function (option)\<close>,
  and that they return is a theorem of its own. There is no fuel. \<open>run_rounds\<close> and \<open>FS_Run\<close>, the
  main loops, take the list of inputs, one for each round, and stop where the program does or where the
  inputs end. Lengths and counters are words and wrap as the source's do; offsets into buffers are
  numbers, and a store at or behind 4096 is a fault. Witnesses use an allocator that always has memory.

  \<^bold>\<open>Not modelled.\<close> Log lines and the texts programs print about their use have no effect on the
  state (the log itself is modelled where it is the subject). \<open>APB_LogMemInternal\<close> begins with a
  return statement; what follows it is dead. The resident structures are data for Exec and the
  prototype headers repeat what the C files say. server/log.c, event.c, remote.c and everything
  in server/old are not in server/Makefile: they are older versions of what the library and the remote now
  do, or, like the event broker, include headers that only server/old has. \<open>CopyMem\<close> of a hello packet
  is modelled by what it allocates and frees: the copy is only logged. With no read buffer at all the
  length handed to the remote is what stands at address 0; the model takes that of an empty buffer and
  a fault.
\<close>

end
